(* ===== verification/Prelude.thy ===== *)
theory Prelude
  imports Main "HOL-Library.Word" "HOL-Library.Signed_Division"
begin

text \<open>
  Shared vocabulary of the development: the C integer types, the outcome of a kernel
  function (value and state, panic, or spinning on a lock), byte-addressed physical memory
  with little-endian loads and stores, and the word and memory lemmas that the component
  proofs rest on.
\<close>

unbundle bit_operations_syntax

named_theorems mem_simps \<open>loads after stores in physical memory\<close>
named_theorems frame_simps \<open>fields and lookups an operation leaves alone\<close>
named_theorems lock_simps \<open>acquiring and releasing spinlocks\<close>

subsection \<open>C integer types (kernel/types.h)\<close>

type_synonym uint64 = "64 word"
type_synonym uint = "32 word"
type_synonym ushort = "16 word"
type_synonym uchar = "8 word"
type_synonym addr = "64 word"
type_synonym pmem = "64 word \<Rightarrow> 8 word"

subsection \<open>Outcomes\<close>

text \<open>
  A kernel function returns a value in a new state (\<open>Ok\<close>), calls \<open>panic\<close> with a
  message, spins on a lock that another hart holds (\<open>Spin\<close>), or recurses or loops past
  the bound a definition carries (\<open>Diverge\<close>). \<open>bnd\<close> runs a continuation after a
  normal return and propagates the other outcomes; \<open>for_each\<close> is a counted loop.
\<close>

datatype ('a, 's) res = Ok 'a 's | Panic string | Spin | Diverge

fun bnd :: "('a, 's) res \<Rightarrow> ('a \<Rightarrow> 's \<Rightarrow> ('b, 't) res) \<Rightarrow> ('b, 't) res" where
  "bnd (Ok x s) f = f x s"
| "bnd (Panic e) f = Panic e"
| "bnd Spin f = Spin"
| "bnd Diverge f = Diverge"

primrec for_each :: "('a \<Rightarrow> 's \<Rightarrow> (unit, 's) res) \<Rightarrow> 'a list \<Rightarrow> 's \<Rightarrow> (unit, 's) res" where
  "for_each f [] s = Ok () s"
| "for_each f (x # xs) s = bnd (f x s) (\<lambda>_ s. for_each f xs s)"

lemma bnd_cong [fundef_cong]:
  "m = m' \<Longrightarrow> (\<And>x s. m' = Ok x s \<Longrightarrow> f x s = g x s) \<Longrightarrow> bnd m f = bnd m' g"
  by (cases m') auto

lemma bnd_eq_Ok:
  "bnd m f = Ok y t \<longleftrightarrow> (\<exists>x s. m = Ok x s \<and> f x s = Ok y t)"
  by (cases m) auto

lemma bnd_Ok_right [simp]: "bnd m Ok = m"
  by (cases m) auto

lemma bnd_assoc: "bnd (bnd m f) g = bnd m (\<lambda>x s. bnd (f x s) g)"
  by (cases m) auto

lemma for_each_append: "for_each f (xs @ ys) s = bnd (for_each f xs s) (\<lambda>_ s. for_each f ys s)"
  by (induction xs arbitrary: s) (simp_all add: bnd_assoc)

text \<open>
  An invariant indexed by the elements already processed gives the outcome of the loop.
\<close>

lemma for_each_inv:
  assumes "I [] s"
    and "\<And>ys x zs t. xs = ys @ x # zs \<Longrightarrow> I ys t \<Longrightarrow> \<exists>u. f x t = Ok () u \<and> I (ys @ [x]) u"
  shows "\<exists>t. for_each f xs s = Ok () t \<and> I xs t"
  using assms
proof (induction xs rule: rev_induct)
  case (snoc x xs)
  have "\<exists>t. for_each f xs s = Ok () t \<and> I xs t"
  proof (rule snoc.IH [OF snoc.prems(1)])
    fix ys y zs t assume "xs = ys @ y # zs" "I ys t"
    then show "\<exists>u. f y t = Ok () u \<and> I (ys @ [y]) u" using snoc.prems(2) [of ys y "zs @ [x]" t] by simp
  qed
  then obtain t where t: "for_each f xs s = Ok () t" "I xs t" by blast
  from snoc.prems(2) [of xs x "[]" t] t(2) obtain u where "f x t = Ok () u" "I (xs @ [x]) u" by auto
  with t show ?case by (auto simp: for_each_append)
qed simp

subsection \<open>Little-endian bytes\<close>

primrec bytes_le :: "nat \<Rightarrow> uint64 \<Rightarrow> uchar list" where
  "bytes_le 0 v = []"
| "bytes_le (Suc n) v = ucast v # bytes_le n (drop_bit 8 v)"

primrec of_bytes :: "uchar list \<Rightarrow> uint64" where
  "of_bytes [] = 0"
| "of_bytes (b # bs) = ucast b OR push_bit 8 (of_bytes bs)"

lemma length_bytes_le [simp]: "length (bytes_le n v) = n"
  by (induction n arbitrary: v) auto

lemma of_bytes_le: "of_bytes (bytes_le n v) = take_bit (8 * n) v"
proof (induction n arbitrary: v)
  case 0
  then show ?case by simp
next
  case (Suc n)
  have "(ucast (ucast v :: uchar) :: uint64) OR push_bit 8 (take_bit (8 * n) (drop_bit 8 v))
    = take_bit (8 * Suc n) v"
    by (rule bit_word_eqI)
      (auto simp: bit_simps)
  with Suc show ?case by simp
qed

lemma of_bytes_le_8 [simp]: "of_bytes (bytes_le 8 v) = v"
  by (simp add: of_bytes_le take_bit_word_eq_self)

subsection \<open>Physical memory\<close>

text \<open>
  \<open>unat (x - a) < n\<close> says that \<open>x\<close> is one of the \<open>n\<close> bytes at \<open>a\<close>
  (address arithmetic wraps, as it does on the machine).
\<close>

definition in_range :: "addr \<Rightarrow> nat \<Rightarrow> addr \<Rightarrow> bool" where
  "in_range a n x \<longleftrightarrow> unat (x - a) < n"

definition load_bytes :: "pmem \<Rightarrow> addr \<Rightarrow> nat \<Rightarrow> uchar list" where
  "load_bytes m a n = map (\<lambda>i. m (a + of_nat i)) [0..<n]"

definition store_bytes :: "pmem \<Rightarrow> addr \<Rightarrow> uchar list \<Rightarrow> pmem" where
  "store_bytes m a bs = (\<lambda>x. if unat (x - a) < length bs then bs ! unat (x - a) else m x)"

definition load64 :: "pmem \<Rightarrow> addr \<Rightarrow> uint64" where
  "load64 m a = of_bytes (load_bytes m a 8)"

definition store64 :: "pmem \<Rightarrow> addr \<Rightarrow> uint64 \<Rightarrow> pmem" where
  "store64 m a v = store_bytes m a (bytes_le 8 v)"

definition fill_bytes :: "pmem \<Rightarrow> addr \<Rightarrow> uchar \<Rightarrow> nat \<Rightarrow> pmem" where
  "fill_bytes m a c n = (\<lambda>x. if in_range a n x then c else m x)"

definition copy_bytes :: "pmem \<Rightarrow> addr \<Rightarrow> addr \<Rightarrow> nat \<Rightarrow> pmem" where
  "copy_bytes m d src n = (\<lambda>x. if in_range d n x then m (src + (x - d)) else m x)"

lemma fill_fill [simp]: "fill_bytes (fill_bytes m a c n) a d n = fill_bytes m a d n"
  by (simp add: fill_bytes_def fun_eq_iff)

lemma length_load_bytes [simp]: "length (load_bytes m a n) = n"
  by (simp add: load_bytes_def)

lemma load_bytes_cong:
  "(\<And>i. i < n \<Longrightarrow> m (a + of_nat i) = m' (b + of_nat i)) \<Longrightarrow> load_bytes m a n = load_bytes m' b n"
  by (simp add: load_bytes_def)

lemma load64_cong:
  "(\<And>i. i < 8 \<Longrightarrow> m (a + of_nat i) = m' (b + of_nat i)) \<Longrightarrow> load64 m a = load64 m' b"
  unfolding load64_def by (rule arg_cong [where f = of_bytes], rule load_bytes_cong)

lemma load_store_bytes_same:
  assumes "length bs = n" "n \<le> 2 ^ 64"
  shows "load_bytes (store_bytes m a bs) a n = bs"
proof (rule nth_equalityI)
  fix i assume "i < length (load_bytes (store_bytes m a bs) a n)"
  then have "i < n" by simp
  moreover from this assms have "unat (of_nat i :: uint64) = i"
    by (simp add: unat_of_nat take_bit_nat_eq_self)
  ultimately show "load_bytes (store_bytes m a bs) a n ! i = bs ! i"
    using assms by (simp add: load_bytes_def store_bytes_def)
qed (simp add: assms)

lemma load64_store64_same [simp, mem_simps]: "load64 (store64 m a v) a = v"
  by (simp add: load64_def store64_def load_store_bytes_same)


subsection \<open>Address ranges\<close>

lemma unat_lt_2p: "unat (w :: 'a::len word) < 2 ^ LENGTH('a)"
  by (rule unsigned_less)

lemma unat_of_nat_64: "i < 2 ^ 64 \<Longrightarrow> unat (of_nat i :: uint64) = i"
  by (simp add: unat_of_nat take_bit_nat_eq_self)

lemma in_range_0 [simp]: "\<not> in_range a 0 x"
  by (simp add: in_range_def)

lemma in_range_self [simp]: "in_range a n a \<longleftrightarrow> 0 < n"
  by (simp add: in_range_def)

lemma in_range_Suc:
  assumes "n < 2 ^ 64"
  shows "in_range a (Suc n) x \<longleftrightarrow> x = a \<or> in_range (a + 1) n x"
proof (cases "x = a")
  case False
  then have "x - a \<noteq> 0" by simp
  then have "unat (x - a - 1) = unat (x - a) - 1" "0 < unat (x - a)"
    by (simp_all add: unat_minus_one unat_gt_0)
  then show ?thesis using False by (auto simp: in_range_def diff_diff_eq)
qed simp

lemma in_range_iff:
  assumes "n \<le> 2 ^ 64"
  shows "in_range a n x \<longleftrightarrow> (\<exists>i<n. x = a + of_nat i)"
proof
  assume "in_range a n x"
  moreover have "x = a + of_nat (unat (x - a))" by simp
  ultimately show "\<exists>i<n. x = a + of_nat i" unfolding in_range_def by blast
next
  assume "\<exists>i<n. x = a + of_nat i"
  then show "in_range a n x" using assms by (auto simp: in_range_def unat_of_nat_64)
qed

lemma in_range_offset: "i < n \<Longrightarrow> n \<le> 2 ^ 64 \<Longrightarrow> in_range a n (a + of_nat i)"
  by (auto simp: in_range_iff)

lemma store_bytes_outside: "\<not> in_range a (length bs) x \<Longrightarrow> store_bytes m a bs x = m x"
  by (simp add: store_bytes_def in_range_def)

subsection \<open>Aligned blocks\<close>

text \<open>
  \<open>aligned n a\<close>: \<open>a\<close> is a multiple of \<open>n\<close>. Two aligned blocks of size \<open>n\<close>
  (pages, page-table entries) are equal or disjoint.
\<close>

definition aligned :: "nat \<Rightarrow> addr \<Rightarrow> bool" where
  "aligned n a \<longleftrightarrow> unat a mod n = 0"

lemma in_range_aligned:
  assumes "aligned n a" "n dvd 2 ^ 64" "in_range a n x"
  shows "unat x div n = unat a div n \<and> unat x = unat a + unat (x - a)"
proof -
  from assms(1) obtain k where k: "unat a = n * k"
    unfolding aligned_def by auto
  from assms(2) obtain l where l: "2 ^ 64 = n * l" by (elim dvdE)
  have n0: "0 < n" using assms(3) by (auto simp: in_range_def)
  have "n * k < n * l" using unat_lt_2p [of a] k l by simp
  then have "k < l" using n0 by simp
  then have "n * Suc k \<le> 2 ^ 64" using l by (metis Suc_leI mult_le_mono2)
  then have "unat a + unat (x - a) < 2 ^ 64"
    using k assms(3) by (simp add: in_range_def)
  then have "unat (a + (x - a)) = unat a + unat (x - a)"
    by (subst unat_add_lem [THEN iffD1]) simp_all
  then have x: "unat x = unat a + unat (x - a)" by simp
  then have "unat x div n = k" using k assms(3) n0 by (simp add: in_range_def)
  moreover have "unat a div n = k" using k n0 by simp
  ultimately show ?thesis using x by simp
qed

lemma aligned_disjoint:
  assumes "aligned n a" "aligned n b" "n dvd 2 ^ 64" "in_range a n x" "in_range b n x"
  shows "a = b"
proof -
  have "unat a div n = unat b div n"
    using in_range_aligned [OF assms(1,3,4)] in_range_aligned [OF assms(2,3,5)] by metis
  moreover have "unat a = n * (unat a div n)" "unat b = n * (unat b div n)"
    using assms(1,2) unfolding aligned_def by (metis dvd_mult_div_cancel mod_0_imp_dvd)+
  ultimately show ?thesis by (metis word_unat_eq_iff)
qed

lemma in_range_sub:
  assumes "unat (a - p) + k \<le> n" "n \<le> 2 ^ 64" "in_range a k x"
  shows "in_range p n x"
proof -
  have "x - p = (x - a) + (a - p)" by simp
  then have "unat (x - p) \<le> unat (x - a) + unat (a - p)"
    by (metis mod_less_eq_dividend unat_word_ariths(1))
  then show ?thesis using assms by (simp add: in_range_def)
qed

lemma load_bytes_agree:
  assumes "\<And>x. in_range a n x \<Longrightarrow> m x = m' x" "n \<le> 2 ^ 64"
  shows "load_bytes m a n = load_bytes m' a n"
  using assms by (intro load_bytes_cong) (simp add: in_range_offset)

lemma load64_agree:
  assumes "\<And>x. in_range a 8 x \<Longrightarrow> m x = m' x"
  shows "load64 m a = load64 m' a"
  unfolding load64_def using load_bytes_agree [of a 8 m m'] assms by simp

lemma store64_outside: "\<not> in_range a 8 x \<Longrightarrow> store64 m a v x = m x"
  by (simp add: store64_def store_bytes_outside)

lemma load64_store64_disjoint:
  assumes "aligned 8 a" "aligned 8 b" "a \<noteq> b"
  shows "load64 (store64 m a v) b = load64 m b"
  using aligned_disjoint [OF assms(1,2)] assms(3)
  by (intro load64_agree store64_outside) auto

lemma load64_fill_outside:
  assumes "\<And>x. in_range b 8 x \<Longrightarrow> \<not> in_range a n x"
  shows "load64 (fill_bytes m a c n) b = load64 m b"
  using assms by (intro load64_agree) (simp add: fill_bytes_def)

lemma of_bytes_replicate_0 [simp]: "of_bytes (replicate n 0) = 0"
  by (induction n) simp_all

lemma load64_fill_inside:
  assumes "\<And>x. in_range b 8 x \<Longrightarrow> in_range a n x"
  shows "load64 (fill_bytes m a 0 n) b = 0"
proof -
  have "load_bytes (fill_bytes m a 0 n) b 8 = load_bytes (\<lambda>_. 0) b 8"
    using assms by (intro load_bytes_agree) (simp_all add: fill_bytes_def)
  also have "\<dots> = replicate 8 0" by (simp add: load_bytes_def map_replicate_const)
  finally show ?thesis by (simp only: load64_def of_bytes_replicate_0)
qed

end
