(* ===== verification/Spinlock.thy ===== *)
theory Spinlock
  imports Prelude
begin

text \<open>
  Spinlocks and interrupt nesting (\<open>kernel/spinlock.c\<close>, \<open>struct cpu\<close> of
  \<open>kernel/proc.h\<close>). The machine state \<open>mach\<close> has the executing hart (the \<open>tp\<close>
  register), the interrupt-enable bit of every hart, the \<open>cpus\<close> array and every
  spinlock of the kernel, addressed by \<open>lockid\<close>. Later components extend this record, so
  the lock operations apply to their states unchanged.

  \<open>acquire\<close> on a lock that another hart holds never leaves its loop by itself: that is
  the outcome \<open>Spin\<close>. The last section runs the instructions of \<open>acquire\<close> and
  \<open>release\<close> of any number of harts interleaved and proves mutual exclusion.
\<close>

datatype lockid =
    L_kmem | L_cowref nat | L_pid | L_wait | L_proc nat | L_ticks | L_ftable | L_itable
  | L_bcache | L_log | L_cons | L_uart_tx | L_pr | L_vdisk | L_pipe addr
  | L_bufsleep nat | L_inosleep nat

record spinlock =
  lk_locked :: uint
  lk_name :: string
  lk_cpu :: "nat option"

record cpu =
  cpu_proc :: "nat option"
  noff :: int
  intena :: bool

record mach =
  hart :: nat
  sie :: "nat \<Rightarrow> bool"
  cpus :: "nat \<Rightarrow> cpu"
  locks :: "lockid \<Rightarrow> spinlock"

subsection \<open>Operations\<close>

definition cpuid :: "'z mach_scheme \<Rightarrow> nat" where
  "cpuid s = hart s"

definition mycpu :: "'z mach_scheme \<Rightarrow> cpu" where
  "mycpu s = cpus s (cpuid s)"

definition upd_mycpu :: "(cpu \<Rightarrow> cpu) \<Rightarrow> 'z mach_scheme \<Rightarrow> 'z mach_scheme" where
  "upd_mycpu f s = s\<lparr>cpus := (cpus s)(cpuid s := f (cpus s (cpuid s)))\<rparr>"

definition intr_get :: "'z mach_scheme \<Rightarrow> bool" where
  "intr_get s = sie s (hart s)"

definition intr_on :: "'z mach_scheme \<Rightarrow> 'z mach_scheme" where
  "intr_on s = s\<lparr>sie := (sie s)(hart s := True)\<rparr>"

definition intr_off :: "'z mach_scheme \<Rightarrow> 'z mach_scheme" where
  "intr_off s = s\<lparr>sie := (sie s)(hart s := False)\<rparr>"

definition initlock :: "lockid \<Rightarrow> string \<Rightarrow> 'z mach_scheme \<Rightarrow> 'z mach_scheme" where
  "initlock lk nm s = s\<lparr>locks := (locks s)(lk := \<lparr>lk_locked = 0, lk_name = nm, lk_cpu = None\<rparr>)\<rparr>"

definition push_off :: "'z mach_scheme \<Rightarrow> 'z mach_scheme" where
  "push_off s =
     (let old = intr_get s;
          s = intr_off s;
          s = (if noff (mycpu s) = 0 then upd_mycpu (\<lambda>c. c\<lparr>intena := old\<rparr>) s else s)
      in upd_mycpu (\<lambda>c. c\<lparr>noff := noff c + 1\<rparr>) s)"

definition pop_off :: "'z mach_scheme \<Rightarrow> (unit, 'z mach_scheme) res" where
  "pop_off s =
     (if intr_get s then Panic ''pop_off - interruptible''
      else if noff (mycpu s) < 1 then Panic ''pop_off''
      else let s = upd_mycpu (\<lambda>c. c\<lparr>noff := noff c - 1\<rparr>) s
           in if noff (mycpu s) = 0 \<and> intena (mycpu s) then Ok () (intr_on s) else Ok () s)"

definition holding :: "lockid \<Rightarrow> 'z mach_scheme \<Rightarrow> bool" where
  "holding lk s = (lk_locked (locks s lk) \<noteq> 0 \<and> lk_cpu (locks s lk) = Some (cpuid s))"

definition acquire :: "lockid \<Rightarrow> 'z mach_scheme \<Rightarrow> (unit, 'z mach_scheme) res" where
  "acquire lk s =
     (let s = push_off s
      in if holding lk s then Panic ''acquire''
         else if lk_locked (locks s lk) \<noteq> 0 then Spin
         else Ok () (s\<lparr>locks := (locks s)(lk := (locks s lk)
                        \<lparr>lk_locked := 1, lk_cpu := Some (cpuid s)\<rparr>)\<rparr>))"

definition release :: "lockid \<Rightarrow> 'z mach_scheme \<Rightarrow> (unit, 'z mach_scheme) res" where
  "release lk s =
     (if \<not> holding lk s then Panic ''release''
      else pop_off (s\<lparr>locks := (locks s)(lk := (locks s lk)
                      \<lparr>lk_cpu := None, lk_locked := 0\<rparr>)\<rparr>))"

lemmas mach_defs = cpuid_def mycpu_def upd_mycpu_def intr_get_def intr_on_def intr_off_def

subsection \<open>Critical sections\<close>

text \<open>
  \<open>lk_free\<close>: nobody holds the lock. \<open>irq_ok\<close>: the executing hart's nesting depth is
  not negative, and interrupts are off inside a critical section. \<open>hold lk s\<close> is the
  state \<open>acquire\<close> leaves, \<open>touch s\<close> what remains of a balanced
  acquire/release pair: only the saved \<open>intena\<close> of the hart may differ.
\<close>

definition lk_free :: "spinlock \<Rightarrow> bool" where
  "lk_free l \<longleftrightarrow> lk_locked l = 0 \<and> lk_cpu l = None"

definition irq_ok :: "nat \<Rightarrow> (nat \<Rightarrow> cpu) \<Rightarrow> (nat \<Rightarrow> bool) \<Rightarrow> bool" where
  "irq_ok h cs ie \<longleftrightarrow> 0 \<le> noff (cs h) \<and> (ie h \<longrightarrow> noff (cs h) = 0)"

abbreviation irqs_ok :: "'z mach_scheme \<Rightarrow> bool" where
  "irqs_ok s \<equiv> irq_ok (hart s) (cpus s) (sie s)"

definition touch :: "'z mach_scheme \<Rightarrow> 'z mach_scheme" where
  "touch s = (if noff (cpus s (hart s)) = 0
     then s\<lparr>cpus := (cpus s)(hart s := (cpus s (hart s))\<lparr>intena := sie s (hart s)\<rparr>)\<rparr> else s)"

definition hold :: "lockid \<Rightarrow> 'z mach_scheme \<Rightarrow> 'z mach_scheme" where
  "hold lk s = (let s = push_off s in s\<lparr>locks := (locks s)(lk := (locks s lk)
      \<lparr>lk_locked := 1, lk_cpu := Some (hart s)\<rparr>)\<rparr>)"

lemma push_off_frame [frame_simps, simp]:
  "hart (push_off s) = hart s" "locks (push_off s) = locks s"
  by (auto simp: push_off_def mach_defs Let_def)

lemma hold_simps [frame_simps, simp]:
  "hart (hold lk s) = hart s"
  "sie (hold lk s) = (sie s)(hart s := False)"
  "locks (hold lk s) = (locks s)(lk := (locks s lk)\<lparr>lk_locked := 1, lk_cpu := Some (hart s)\<rparr>)"
  "noff (cpus (hold lk s) (hart s)) = noff (cpus s (hart s)) + 1"
  "cpu_proc (cpus (hold lk s) i) = cpu_proc (cpus s i)"
  by (auto simp: hold_def push_off_def mach_defs Let_def)

lemma touch_simps [frame_simps, simp]:
  "hart (touch s) = hart s" "sie (touch s) = sie s" "locks (touch s) = locks s"
  "noff (cpus (touch s) i) = noff (cpus s i)"
  "cpu_proc (cpus (touch s) i) = cpu_proc (cpus s i)"
  "touch (touch s) = touch s"
  by (auto simp: touch_def)

lemma irqs_ok_touch [simp]: "irq_ok (hart s) (cpus (touch s)) (sie s) = irqs_ok s"
  by (simp add: irq_ok_def)

lemma irqs_ok_hold [simp]:
  "irqs_ok s \<Longrightarrow> irq_ok (hart s) (cpus (hold lk s)) ((sie s)(hart s := False))"
  by (simp add: irq_ok_def)

lemma acquire_free [lock_simps]:
  "lk_free (locks s lk) \<Longrightarrow> acquire lk s = Ok () (hold lk s)"
  by (simp add: acquire_def hold_def holding_def lk_free_def Let_def cpuid_def)

lemma release_hold [lock_simps]:
  assumes "lk_free (locks s lk)" "irqs_ok s"
  shows "release lk (hold lk s) = Ok () (touch s)"
  using assms
  by (cases s)
    (auto simp: release_def hold_def holding_def lk_free_def irq_ok_def touch_def pop_off_def
      push_off_def mach_defs Let_def fun_eq_iff)

lemma acquire_held: "holding lk s \<Longrightarrow> acquire lk s = Panic ''acquire''"
  by (simp add: acquire_def holding_def Let_def cpuid_def)

lemma acquire_spins:
  "lk_locked (locks s lk) \<noteq> 0 \<Longrightarrow> lk_cpu (locks s lk) \<noteq> Some (hart s) \<Longrightarrow> acquire lk s = Spin"
  by (simp add: acquire_def holding_def Let_def cpuid_def)

lemma release_not_held: "\<not> holding lk s \<Longrightarrow> release lk s = Panic ''release''"
  by (simp add: release_def)

subsection \<open>Interleaved harts: mutual exclusion\<close>

text \<open>
  Any number of harts use one lock, each alternating \<open>acquire\<close> and \<open>release\<close>.
  The shared accesses of the two functions are separate steps, and any hart may take the
  next one: the atomic swap of \<open>locked\<close> and the store to \<open>lk->cpu\<close> in
  \<open>acquire\<close>, the store to \<open>lk->cpu\<close> and the atomic clear of \<open>locked\<close> in
  \<open>release\<close>. \<open>Failed\<close> is a hart that panicked.
\<close>

datatype lpc = Out | Try | Got | In | Rel | Pop | Failed

fun lock_instr :: "lockid \<Rightarrow> nat \<Rightarrow> (nat \<Rightarrow> lpc) \<times> mach \<Rightarrow> (nat \<Rightarrow> lpc) \<times> mach" where
  "lock_instr lk h (pcs, s) =
     (let s = s\<lparr>hart := h\<rparr>; l = locks s lk
      in case pcs h of
           Out \<Rightarrow> let s = push_off s in (pcs(h := if holding lk s then Failed else Try), s)
         | Try \<Rightarrow> (pcs(h := if lk_locked l \<noteq> 0 then Try else Got),
                   s\<lparr>locks := (locks s)(lk := l\<lparr>lk_locked := 1\<rparr>)\<rparr>)
         | Got \<Rightarrow> (pcs(h := In), s\<lparr>locks := (locks s)(lk := l\<lparr>lk_cpu := Some (cpuid s)\<rparr>)\<rparr>)
         | In \<Rightarrow> if holding lk s
                 then (pcs(h := Rel), s\<lparr>locks := (locks s)(lk := l\<lparr>lk_cpu := None\<rparr>)\<rparr>)
                 else (pcs(h := Failed), s)
         | Rel \<Rightarrow> (pcs(h := Pop), s\<lparr>locks := (locks s)(lk := l\<lparr>lk_locked := 0\<rparr>)\<rparr>)
         | Pop \<Rightarrow> (case pop_off s of Ok _ s \<Rightarrow> (pcs(h := Out), s) | _ \<Rightarrow> (pcs(h := Failed), s))
         | Failed \<Rightarrow> (pcs, s))"

inductive lock_reach :: "lockid \<Rightarrow> (nat \<Rightarrow> lpc) \<times> mach \<Rightarrow> bool" for lk where
  start: "lk_free (locks s lk) \<Longrightarrow> (\<And>h. irq_ok h (cpus s) (sie s)) \<Longrightarrow>
     lock_reach lk ((\<lambda>_. Out), s)"
| step: "lock_reach lk c \<Longrightarrow> lock_reach lk (lock_instr lk h c)"

definition owns :: "lpc \<Rightarrow> bool" where
  "owns p \<longleftrightarrow> p = Got \<or> p = In \<or> p = Rel"

definition lock_inv :: "lockid \<Rightarrow> nat option \<Rightarrow> (nat \<Rightarrow> lpc) \<times> mach \<Rightarrow> bool" where
  "lock_inv lk own c \<longleftrightarrow> (case c of (pcs, s) \<Rightarrow>
     (\<forall>h. pcs h \<noteq> Failed) \<and>
     (\<forall>h. owns (pcs h) \<longrightarrow> own = Some h) \<and>
     (own \<noteq> None \<longrightarrow> lk_locked (locks s lk) \<noteq> 0) \<and>
     (\<forall>h. (lk_cpu (locks s lk) = Some h) = (pcs h = In)) \<and>
     (\<forall>h. irq_ok h (cpus s) (sie s)) \<and>
     (\<forall>h. pcs h \<noteq> Out \<longrightarrow> 1 \<le> noff (cpus s h)))"

lemma irq_ok_push_off:
  "(\<And>i. irq_ok i (cpus s) (sie s)) \<Longrightarrow> irq_ok i (cpus (push_off s)) (sie (push_off s))"
  by (auto simp: irq_ok_def push_off_def mach_defs Let_def) 

lemma noff_push_off: "noff (cpus (push_off s) i) = noff (cpus s i) + (if i = hart s then 1 else 0)"
  by (auto simp: push_off_def mach_defs Let_def)

lemma pop_off_ok:
  assumes "irqs_ok s" "1 \<le> noff (cpus s (hart s))"
  obtains t where "pop_off s = Ok () t" "locks t = locks s"
    "\<And>i. noff (cpus t i) = noff (cpus s i) - (if i = hart s then 1 else 0)"
    "\<And>i. irq_ok i (cpus s) (sie s) \<Longrightarrow> irq_ok i (cpus t) (sie t)"
proof (cases "noff (cpus s (hart s)) = 1 \<and> intena (cpus s (hart s))")
  case True
  let ?c = "(cpus s)(hart s := cpus s (hart s)\<lparr>noff := noff (cpus s (hart s)) - 1\<rparr>)"
  from True assms have "pop_off s = Ok () (intr_on (s\<lparr>cpus := ?c\<rparr>))"
    by (auto simp: pop_off_def mach_defs irq_ok_def Let_def)
  with True that show ?thesis by (auto simp: irq_ok_def intr_on_def)
next
  case False
  let ?c = "(cpus s)(hart s := cpus s (hart s)\<lparr>noff := noff (cpus s (hart s)) - 1\<rparr>)"
  from False assms have "pop_off s = Ok () (s\<lparr>cpus := ?c\<rparr>)"
    by (auto simp: pop_off_def mach_defs irq_ok_def Let_def)
  with assms that show ?thesis by (auto simp: irq_ok_def)
qed

lemma lock_invI:
  assumes "\<And>i. pcs i \<noteq> Failed" "\<And>i. owns (pcs i) \<Longrightarrow> own = Some i"
    "own \<noteq> None \<Longrightarrow> lk_locked (locks s lk) \<noteq> 0"
    "\<And>i. (lk_cpu (locks s lk) = Some i) = (pcs i = In)"
    "\<And>i. irq_ok i (cpus s) (sie s)" "\<And>i. pcs i \<noteq> Out \<Longrightarrow> 1 \<le> noff (cpus s i)"
  shows "lock_inv lk own (pcs, s)"
  unfolding lock_inv_def prod.case by (intro conjI allI impI) (erule assms | rule assms)+

lemma lock_inv_step:
  assumes inv: "lock_inv lk own (pcs, s)"
  shows "\<exists>own'. lock_inv lk own' (lock_instr lk h (pcs, s))"
proof -
  let ?s = "s\<lparr>hart := h\<rparr>"
  from inv have irq: "\<And>i. irq_ok i (cpus ?s) (sie ?s)"
    and nof: "\<And>i. pcs i \<noteq> Out \<Longrightarrow> 1 \<le> noff (cpus s i)"
    and nofail: "\<And>i. pcs i \<noteq> Failed"
    and cpu: "\<And>i. (lk_cpu (locks s lk) = Some i) = (pcs i = In)"
    and own: "\<And>i. owns (pcs i) \<Longrightarrow> own = Some i"
    and free: "own \<noteq> None \<Longrightarrow> lk_locked (locks s lk) \<noteq> 0"
    unfolding lock_inv_def prod.case by simp_all
  have free': "lk_locked (locks s lk) = 0 \<Longrightarrow> pcs i \<noteq> Got \<and> pcs i \<noteq> In \<and> pcs i \<noteq> Rel" for i
    using own [of i] free by (auto simp: owns_def)
  have oth: "owns (pcs h) \<Longrightarrow> i \<noteq> h \<Longrightarrow> pcs i \<noteq> Got \<and> pcs i \<noteq> In \<and> pcs i \<noteq> Rel" for i
    using own [of i] own [of h] by (auto simp: owns_def)
  show ?thesis
  proof (cases "pcs h")
    case Out
    then have nh: "\<not> holding lk (push_off ?s)"
      by (simp add: holding_def cpuid_def cpu)
    have "lock_inv lk own (pcs(h := Try), push_off ?s)"
      using Out irq nofail irq_ok_push_off [OF irq]
      by (intro lock_invI) (auto simp: noff_push_off owns_def irq_ok_def free cpu split: if_splits
          intro: own intro: nof)
    then show ?thesis using Out nh by (auto simp: Let_def)
  next
    case Try
    let ?t = "?s\<lparr>locks := (locks s)(lk := (locks s lk)\<lparr>lk_locked := 1\<rparr>)\<rparr>"
    have "lock_inv lk (if lk_locked (locks s lk) \<noteq> 0 then own else Some h)
        (pcs(h := if lk_locked (locks s lk) \<noteq> 0 then Try else Got), ?t)"
      using Try irq nofail free'
      by (intro lock_invI) (auto simp: owns_def free cpu split: if_splits
          intro: own nof)
    then show ?thesis using Try by (auto simp: Let_def)
  next
    case Got
    then have oth': "i \<noteq> h \<Longrightarrow> pcs i \<noteq> Got \<and> pcs i \<noteq> In \<and> pcs i \<noteq> Rel" for i
      using oth [of i] by (simp add: owns_def)
    let ?t = "?s\<lparr>locks := (locks s)(lk := (locks s lk)\<lparr>lk_cpu := Some h\<rparr>)\<rparr>"
    from own [of h] Got have "own = Some h" by (simp add: owns_def)
    then have "lock_inv lk own (pcs(h := In), ?t)"
      using Got irq nofail oth'
      by (intro lock_invI) (auto simp: owns_def free cpu split: if_splits
          intro: own nof)
    then show ?thesis using Got by (auto simp: Let_def cpuid_def)
  next
    case In
    then have oth': "i \<noteq> h \<Longrightarrow> pcs i \<noteq> Got \<and> pcs i \<noteq> In \<and> pcs i \<noteq> Rel" for i
      using oth [of i] by (simp add: owns_def)
    let ?t = "?s\<lparr>locks := (locks s)(lk := (locks s lk)\<lparr>lk_cpu := None\<rparr>)\<rparr>"
    from own [of h] In have o: "own = Some h" by (simp add: owns_def)
    with In free have hl: "holding lk ?s" by (simp add: holding_def cpuid_def cpu)
    have "lock_inv lk own (pcs(h := Rel), ?t)"
      using o In irq nofail oth'
      by (intro lock_invI) (auto simp: owns_def free cpu split: if_splits
          intro: own nof)
    then show ?thesis using In hl by (auto simp: Let_def)
  next
    case Rel
    then have oth': "i \<noteq> h \<Longrightarrow> pcs i \<noteq> Got \<and> pcs i \<noteq> In \<and> pcs i \<noteq> Rel" for i
      using oth [of i] by (simp add: owns_def)
    let ?t = "?s\<lparr>locks := (locks s)(lk := (locks s lk)\<lparr>lk_locked := 0\<rparr>)\<rparr>"
    from own [of h] Rel have o: "own = Some h" by (simp add: owns_def)
    then have "lock_inv lk None (pcs(h := Pop), ?t)"
      using Rel irq nofail oth'
      by (intro lock_invI) (auto simp: owns_def free cpu split: if_splits
          intro: own nof)
    then show ?thesis using Rel by (auto simp: Let_def)
  next
    case Pop
    from nof [of h] Pop have n: "1 \<le> noff (cpus ?s (hart ?s))" by simp
    from irq have i: "irqs_ok ?s" .
    obtain t where t: "pop_off ?s = Ok () t" "locks t = locks ?s"
      "\<And>i. noff (cpus t i) = noff (cpus ?s i) - (if i = hart ?s then 1 else 0)"
      "\<And>i. irq_ok i (cpus ?s) (sie ?s) \<Longrightarrow> irq_ok i (cpus t) (sie t)"
      using pop_off_ok [OF i n] by metis
    then have "lock_inv lk own (pcs(h := Out), t)"
      using Pop irq nofail
      by (intro lock_invI) (auto simp: owns_def free cpu split: if_splits
          intro: own nof)
    then show ?thesis using Pop t by (auto simp: Let_def)
  next
    case Failed
    with nofail show ?thesis by blast
  qed
qed

lemma lock_reach_inv: "lock_reach lk c \<Longrightarrow> \<exists>own. lock_inv lk own c"
proof (induction rule: lock_reach.induct)
  case (start s)
  then have "lock_inv lk None ((\<lambda>_. Out), s)" by (simp add: lock_inv_def owns_def lk_free_def)
  then show ?case ..
next
  case (step c h)
  then show ?case using lock_inv_step by (cases c) blast
qed

text \<open>
  C13: However the acquire and release calls of any number of harts on one spinlock are
  interleaved, from a free lock, no hart ever panics, at most one hart at a time is between
  winning the atomic swap and giving the lock back, and the hart inside its critical section is
  the one recorded in the lock and has its interrupts off.
\<close>

theorem lock_mutual_exclusion:
  assumes "lock_reach lk (pcs, s)"
  shows "pcs h \<noteq> Failed \<and> (owns (pcs h) \<and> owns (pcs g) \<longrightarrow> g = h) \<and>
    (pcs h = In \<longrightarrow> lk_locked (locks s lk) \<noteq> 0 \<and> lk_cpu (locks s lk) = Some h \<and> \<not> sie s h)"
proof -
  from lock_reach_inv [OF assms] obtain own where inv: "lock_inv lk own (pcs, s)" ..
  then have "\<not> sie s h" "own = Some h" if "pcs h = In"
  proof -
    from inv that have "1 \<le> noff (cpus s h)" "irq_ok h (cpus s) (sie s)"
      by (simp_all add: lock_inv_def)
    then show "\<not> sie s h" by (auto simp: irq_ok_def)
    from inv that show "own = Some h" by (simp add: lock_inv_def owns_def)
  qed
  with inv show ?thesis by (auto simp: lock_inv_def)
qed

definition boot_mach :: mach where
  "boot_mach = \<lparr>hart = 0, sie = (\<lambda>_. True),
     cpus = (\<lambda>_. \<lparr>cpu_proc = None, noff = 0, intena = False\<rparr>),
     locks = (\<lambda>_. \<lparr>lk_locked = 0, lk_name = [], lk_cpu = None\<rparr>)\<rparr>"

text \<open>
  Two harts from reset: hart 1 takes the lock, hart 0 is left spinning.
\<close>

theorem lock_mutual_exclusion_witness:
  "\<exists>pcs s. lock_reach L_kmem (pcs, s) \<and> pcs 1 = In \<and> pcs 0 = Try \<and> \<not> sie s 1 \<and>
     lk_cpu (locks s L_kmem) = Some 1 \<and> pcs 0 \<noteq> Failed"
proof -
  let ?i = "lock_instr L_kmem"
  let ?c = "?i 0 (?i 1 (?i 1 (?i 0 (?i 1 ((\<lambda>_. Out), boot_mach)))))"
  have r: "lock_reach L_kmem ?c"
    by (intro lock_reach.intros) (simp_all add: boot_mach_def lk_free_def irq_ok_def)
  obtain pcs s where c: "?c = (pcs, s)" by (cases ?c)
  then have "pcs 1 = In" "pcs 0 = Try"
    by (auto simp: boot_mach_def Let_def holding_def push_off_def mach_defs)
  moreover from r c have "lock_reach L_kmem (pcs, s)" by (simp only:)
  moreover note lock_mutual_exclusion [OF this, of 1 0]
  ultimately show ?thesis by (intro exI [of _ pcs] exI [of _ s]) simp
qed

end
