(* ===== verification/KString.thy ===== *)
theory KString
  imports Prelude
begin

text \<open>
  The byte and string routines of \<open>kernel/string.c\<close> over physical memory. Each loop is
  a recursion over the number of iterations left; the lemmas give the memory each routine
  leaves in closed form (\<open>fill_bytes\<close>, \<open>copy_bytes\<close>) or relate it to the C string
  at an address. A NUL is the byte 0.
\<close>

subsection \<open>memset and memmove\<close>

function memset_loop :: "addr \<Rightarrow> uchar \<Rightarrow> nat \<Rightarrow> nat \<Rightarrow> pmem \<Rightarrow> pmem" where
  "memset_loop dst c i n m =
     (if i < n then memset_loop dst c (Suc i) n (m(dst + of_nat i := c)) else m)"
  by pat_completeness auto
termination
  by (relation "measure (\<lambda>(dst, c, i, n, m). n - i)") auto

declare memset_loop.simps [simp del]

definition memset :: "addr \<Rightarrow> 32 word \<Rightarrow> uint \<Rightarrow> pmem \<Rightarrow> pmem" where
  "memset dst c n m = memset_loop dst (ucast c) 0 (unat n) m"

primrec copy_up :: "nat \<Rightarrow> addr \<Rightarrow> addr \<Rightarrow> pmem \<Rightarrow> pmem" where
  "copy_up 0 d s m = m"
| "copy_up (Suc n) d s m = copy_up n (d + 1) (s + 1) (m(d := m s))"

primrec copy_down :: "nat \<Rightarrow> addr \<Rightarrow> addr \<Rightarrow> pmem \<Rightarrow> pmem" where
  "copy_down 0 d s m = m"
| "copy_down (Suc n) d s m = copy_down n (d - 1) (s - 1) (m(d - 1 := m (s - 1)))"

definition memmove :: "addr \<Rightarrow> addr \<Rightarrow> uint \<Rightarrow> pmem \<Rightarrow> pmem" where
  "memmove dst src n m =
     (if n = 0 then m
      else if src < dst \<and> src + ucast n > dst
      then copy_down (unat n) (dst + ucast n) (src + ucast n) m
      else copy_up (unat n) dst src m)"

definition memcpy :: "addr \<Rightarrow> addr \<Rightarrow> uint \<Rightarrow> pmem \<Rightarrow> pmem" where
  "memcpy dst src n m = memmove dst src n m"

lemma memset_loop_eq:
  "i \<le> n \<Longrightarrow> n \<le> 2 ^ 32 \<Longrightarrow>
     memset_loop dst c i n m = fill_bytes m (dst + of_nat i) c (n - i)"
proof (induction dst c i n m rule: memset_loop.induct)
  case (1 dst c i n m)
  show ?case
  proof (cases "i < n")
    case True
    then have ni: "n - i = Suc (n - Suc i)" by simp
    from True "1.prems" have "n - Suc i < 2 ^ 64" by simp
    note r = in_range_Suc [OF this, of "dst + of_nat i", folded ni]
    have
      "memset_loop dst c (Suc i) n (m(dst + of_nat i := c))
         = fill_bytes (m(dst + of_nat i := c)) (dst + of_nat (Suc i)) c (n - Suc i)"
      using True "1.prems" by (intro "1.IH") simp_all
    with True r show ?thesis
      by (simp add: memset_loop.simps [of dst c i n m] fill_bytes_def fun_eq_iff add.assoc add.commute [of 1])
  next
    case False
    with "1.prems" have "i = n" by simp
    then show ?thesis
      by (simp add: memset_loop.simps [of dst c n n m] fill_bytes_def)
  qed
qed

lemma memset_eq: "memset dst c n m = fill_bytes m dst (ucast c) (unat n)"
proof -
  have "unat n \<le> 2 ^ 32" using unat_lt_2p [of n] by simp
  then show ?thesis by (simp add: memset_def memset_loop_eq)
qed

lemma copy_up_eq:
  assumes "n \<le> 2 ^ 63"
    and "\<And>i j. j < i \<Longrightarrow> i < n \<Longrightarrow> d + of_nat j \<noteq> s + of_nat i"
  shows "copy_up n d s m = copy_bytes m d s n"
  using assms
proof (induction n arbitrary: d s m)
  case 0
  then show ?case by (simp add: copy_bytes_def)
next
  case (Suc n)
  let ?m = "m(d := m s)"
  have "d + 1 + of_nat j \<noteq> s + 1 + of_nat i" if "j < i" "i < n" for i j
    using Suc.prems(2) [of "Suc j" "Suc i"] that by (simp add: add.assoc)
  then have IH: "copy_up n (d + 1) (s + 1) ?m = copy_bytes ?m (d + 1) (s + 1) n"
    using Suc.prems(1) by (intro Suc.IH) simp_all
  show ?case
  proof
    fix x
    show "copy_up (Suc n) d s m x = copy_bytes m d s (Suc n) x"
    proof (cases "in_range (d + 1) n x")
      case True
      then obtain i where i: "i < n" "x = d + 1 + of_nat i"
        using Suc.prems(1) by (auto simp: in_range_iff)
      with Suc.prems(2) [of 0 "Suc i"] have "s + (x - d) \<noteq> d" by (simp add: add.assoc)
      with True Suc.prems(1) show ?thesis
        by (simp add: IH copy_bytes_def in_range_Suc)
    next
      case False
      with Suc.prems(1) show ?thesis by (simp add: IH copy_bytes_def in_range_Suc)
    qed
  qed
qed

lemma copy_down_eq:
  assumes "n \<le> 2 ^ 63"
    and "\<And>i j. i < j \<Longrightarrow> j < n \<Longrightarrow> d + of_nat j \<noteq> s + of_nat i"
  shows "copy_down n (d + of_nat n) (s + of_nat n) m = copy_bytes m d s n"
  using assms
proof (induction n arbitrary: m)
  case 0
  then show ?case by (simp add: copy_bytes_def)
next
  case (Suc n)
  let ?m = "m(d + of_nat n := m (s + of_nat n))"
  have IH: "copy_down n (d + of_nat n) (s + of_nat n) ?m = copy_bytes ?m d s n"
    using Suc.prems by (intro Suc.IH) simp_all
  show ?case
  proof
    fix x
    show "copy_down (Suc n) (d + of_nat (Suc n)) (s + of_nat (Suc n)) m x = copy_bytes m d s (Suc n) x"
    proof (cases "in_range d n x")
      case True
      then obtain i where i: "i < n" "x = d + of_nat i"
        using Suc.prems(1) by (auto simp: in_range_iff)
      with Suc.prems(2) [of i n] have "s + (x - d) \<noteq> d + of_nat n" by auto
      moreover from i Suc.prems(1) have "in_range d (Suc n) x"
        by (auto simp: in_range_iff intro: exI [of _ i])
      ultimately show ?thesis using True
        by (simp add: IH copy_bytes_def)
    next
      case False
      have "in_range d (Suc n) x \<longleftrightarrow> x = d + of_nat n"
        using False Suc.prems(1) by (auto simp: in_range_iff less_Suc_eq)
      with False show ?thesis by (simp add: IH copy_bytes_def)
    qed
  qed
qed

lemma offset_inj:
  assumes "d + of_nat j = s + (of_nat i :: uint64)" "unat s + n < 2 ^ 64" "unat d + n \<le> 2 ^ 64"
    "i < n" "j < n"
  shows "unat d + j = unat s + i"
proof -
  have "unat (d + of_nat j) = unat d + j"
    using assms by (subst unat_add_lem [THEN iffD1]) (simp_all add: unat_of_nat_64)
  moreover have "unat (s + of_nat i) = unat s + i"
    using assms by (subst unat_add_lem [THEN iffD1]) (simp_all add: unat_of_nat_64)
  ultimately show ?thesis using assms(1) by simp
qed

lemma memmove_eq:
  assumes "unat src + unat n < 2 ^ 64" "unat dst + unat n \<le> 2 ^ 64"
  shows "memmove dst src n m = copy_bytes m dst src (unat n)"
proof (cases "n = 0")
  case True
  then show ?thesis by (simp add: memmove_def copy_bytes_def)
next
  case False
  have n: "unat n \<le> 2 ^ 63" "ucast n = (of_nat (unat n) :: uint64)" "unat (ucast n :: uint64) = unat n"
    using unat_lt_2p [of n] by (simp_all add: unsigned_ucast_eq take_bit_nat_eq_self)
  have sn: "unat (src + ucast n) = unat src + unat n"
    using assms(1) n(3) by (subst unat_add_lem [THEN iffD1]) simp_all
  note off = offset_inj [OF _ assms]
  show ?thesis
  proof (cases "src < dst \<and> src + ucast n > dst")
    case True
    have "dst + of_nat j \<noteq> src + of_nat i" if "i < j" "j < unat n" for i j
    proof
      assume "dst + of_nat j = src + of_nat i"
      from off [OF this] that have "unat dst + j = unat src + i" by simp
      moreover from True have "unat src < unat dst" by (simp add: word_less_nat_alt)
      ultimately show False using that by simp
    qed
    with n(1) have "copy_down (unat n) (dst + of_nat (unat n)) (src + of_nat (unat n)) m
        = copy_bytes m dst src (unat n)"
      by (intro copy_down_eq) simp_all
    then have "copy_down (unat n) (dst + ucast n) (src + ucast n) m = copy_bytes m dst src (unat n)"
      by (simp only: n(2))
    with True False show ?thesis by (simp add: memmove_def)
  next
    case nov: False
    have "dst + of_nat j \<noteq> src + of_nat i" if "j < i" "i < unat n" for i j
    proof
      assume "dst + of_nat j = src + of_nat i"
      from off [OF this] that have "unat dst + j = unat src + i" by simp
      with that nov sn show False by (auto simp: word_less_nat_alt)
    qed
    with n(1) have "copy_up (unat n) dst src m = copy_bytes m dst src (unat n)"
      by (intro copy_up_eq) simp_all
    with nov False show ?thesis by (auto simp: memmove_def)
  qed
qed

subsection \<open>Comparison\<close>

text \<open>The result of \<open>*s1 - *s2\<close> on \<open>unsigned char\<close>s, an \<open>int\<close>.\<close>

primrec memcmp :: "nat \<Rightarrow> addr \<Rightarrow> addr \<Rightarrow> pmem \<Rightarrow> int" where
  "memcmp 0 s1 s2 m = 0"
| "memcmp (Suc n) s1 s2 m =
     (if m s1 \<noteq> m s2 then uint (m s1) - uint (m s2) else memcmp n (s1 + 1) (s2 + 1) m)"

primrec strncmp :: "nat \<Rightarrow> addr \<Rightarrow> addr \<Rightarrow> pmem \<Rightarrow> int" where
  "strncmp 0 p q m = 0"
| "strncmp (Suc n) p q m =
     (if m p \<noteq> 0 \<and> m p = m q then strncmp n (p + 1) (q + 1) m
      else uint (m p) - uint (m q))"

lemma load_bytes_Suc: "load_bytes m a (Suc n) = m a # load_bytes m (a + 1) n"
proof -
  have "[0..<Suc n] = 0 # map Suc [0..<n]" by (simp add: map_Suc_upt upt_conv_Cons del: upt_Suc)
  then show ?thesis by (simp add: load_bytes_def comp_def add.assoc del: upt_Suc)
qed

lemma load_bytes_0 [simp]: "load_bytes m a 0 = []"
  by (simp add: load_bytes_def)

lemma memcmp_0_iff: "memcmp n s1 s2 m = 0 \<longleftrightarrow> load_bytes m s1 n = load_bytes m s2 n"
  by (induction n arbitrary: s1 s2) (auto simp: load_bytes_Suc simp flip: word_uint_eq_iff)

definition cstr :: "pmem \<Rightarrow> addr \<Rightarrow> nat \<Rightarrow> uchar list" where
  "cstr m a n = takeWhile (\<lambda>c. c \<noteq> 0) (load_bytes m a n)"

lemma strncmp_0_iff: "strncmp n p q m = 0 \<longleftrightarrow> cstr m p n = cstr m q n"
  by (induction n arbitrary: p q) (auto simp: load_bytes_Suc cstr_def uint_0_iff simp flip: word_uint_eq_iff)

subsection \<open>Copying strings\<close>

text \<open>\<open>strncpy\<close> and \<open>safestrcpy\<close> with \<open>n\<close> an \<open>int\<close>: no iteration when it is
  not positive.\<close>

primrec zero_loop :: "nat \<Rightarrow> addr \<Rightarrow> pmem \<Rightarrow> pmem" where
  "zero_loop 0 s m = m"
| "zero_loop (Suc n) s m = zero_loop n (s + 1) (m(s := 0))"

primrec strncpy_loop :: "nat \<Rightarrow> addr \<Rightarrow> addr \<Rightarrow> pmem \<Rightarrow> pmem" where
  "strncpy_loop 0 s t m = m"
| "strncpy_loop (Suc n) s t m =
     (let m' = m(s := m t) in if m' s \<noteq> 0 then strncpy_loop n (s + 1) (t + 1) m'
      else zero_loop n (s + 1) m')"

definition strncpy :: "addr \<Rightarrow> addr \<Rightarrow> int \<Rightarrow> pmem \<Rightarrow> pmem" where
  "strncpy s t n m = strncpy_loop (nat n) s t m"

primrec safestrcpy_loop :: "nat \<Rightarrow> addr \<Rightarrow> addr \<Rightarrow> pmem \<Rightarrow> pmem" where
  "safestrcpy_loop 0 s t m = m(s := 0)"
| "safestrcpy_loop (Suc n) s t m =
     (let m' = m(s := m t) in if m' s \<noteq> 0 then safestrcpy_loop n (s + 1) (t + 1) m'
      else m'(s + 1 := 0))"

definition safestrcpy :: "addr \<Rightarrow> addr \<Rightarrow> int \<Rightarrow> pmem \<Rightarrow> pmem" where
  "safestrcpy s t n m = (if n \<le> 0 then m else safestrcpy_loop (nat (n - 1)) s t m)"

partial_function (option) strlen_from :: "pmem \<Rightarrow> addr \<Rightarrow> nat \<Rightarrow> nat option" where
  "strlen_from m s n = (if m (s + of_nat n) = 0 then Some n else strlen_from m s (Suc n))"

definition strlen :: "pmem \<Rightarrow> addr \<Rightarrow> nat option" where
  "strlen m s = strlen_from m s 0"

lemma zero_loop_eq: "n \<le> 2 ^ 63 \<Longrightarrow> zero_loop n s m = fill_bytes m s 0 n"
  by (induction n arbitrary: s m) (auto simp: fill_bytes_def in_range_Suc fun_eq_iff)

lemma load_bytes_upd: "\<not> in_range a n x \<Longrightarrow> n \<le> 2 ^ 64 \<Longrightarrow> load_bytes (m(x := c)) a n = load_bytes m a n"
  by (rule load_bytes_cong) (auto simp: in_range_iff)

lemma load_bytes_fill_same: "n \<le> 2 ^ 64 \<Longrightarrow> load_bytes (fill_bytes m a c n) a n = replicate n c"
  by (rule nth_equalityI) (simp_all add: load_bytes_def fill_bytes_def in_range_offset)

lemma outside_next:
  assumes "n \<le> 2 ^ 63" shows "\<not> in_range (s + 1) n s"
proof -
  have "s - (s + 1) = (- 1 :: uint64)" by simp
  moreover have "unat (- 1 :: uint64) = 2 ^ 64 - 1" by (simp add: unsigned_minus_1_eq_mask mask_eq_exp_minus_1)
  ultimately show ?thesis using assms by (simp only: in_range_def) simp
qed

text \<open>\<open>strncpy\<close> leaves the string up to its NUL, padded with NULs to \<open>n\<close> bytes.\<close>

lemma strncpy_loop_spec:
  assumes "n \<le> 2 ^ 63" "\<And>i j. i < n \<Longrightarrow> j < n \<Longrightarrow> s + of_nat i \<noteq> t + of_nat j"
  shows "load_bytes (strncpy_loop n s t m) s n
      = cstr m t n @ replicate (n - length (cstr m t n)) 0
    \<and> (\<forall>x. \<not> in_range s n x \<longrightarrow> strncpy_loop n s t m x = m x)"
  using assms
proof (induction n arbitrary: s t m)
  case 0
  then show ?case by (simp add: cstr_def)
next
  case (Suc n)
  let ?m = "m(s := m t)"
  have disj: "s + 1 + of_nat i \<noteq> t + 1 + of_nat j" if "i < n" "j < n" for i j
    using Suc.prems(2) [of "Suc i" "Suc j"] that by (simp add: add.assoc)
  have IH: "load_bytes (strncpy_loop n (s + 1) (t + 1) ?m) (s + 1) n
      = cstr ?m (t + 1) n @ replicate (n - length (cstr ?m (t + 1) n)) 0
    \<and> (\<forall>x. \<not> in_range (s + 1) n x \<longrightarrow> strncpy_loop n (s + 1) (t + 1) ?m x = ?m x)"
    using disj Suc.prems(1) by (intro Suc.IH) simp_all
  have "\<not> in_range (t + 1) n s"
    using Suc.prems(1) Suc.prems(2) [of 0 "Suc _"] by (auto simp: in_range_iff add.assoc)
  then have src: "cstr ?m (t + 1) n = cstr m (t + 1) n"
    using Suc.prems(1) by (simp add: cstr_def load_bytes_upd)
  from outside_next [of n s] Suc.prems(1) have out: "\<not> in_range (s + 1) n s" by simp
  show ?case
  proof (cases "m t = 0")
    case True
    have "\<not> in_range s (Suc n) x \<Longrightarrow> fill_bytes ?m (s + 1) 0 n x = m x" for x
      using Suc.prems(1) by (simp add: fill_bytes_def in_range_Suc)
    moreover have "fill_bytes ?m (s + 1) 0 n s = 0"
      using True out by (simp add: fill_bytes_def)
    ultimately show ?thesis using True Suc.prems(1)
      by (simp add: load_bytes_Suc cstr_def zero_loop_eq load_bytes_fill_same)
  next
    case False
    with IH out Suc.prems(1) src show ?thesis
      by (auto simp: load_bytes_Suc cstr_def in_range_Suc)
  qed
qed

text \<open>\<open>safestrcpy\<close> leaves a NUL-terminated prefix and writes only inside the buffer.\<close>

lemma safestrcpy_loop_spec:
  assumes "n < 2 ^ 63" "\<And>i j. i \<le> n \<Longrightarrow> j \<le> n \<Longrightarrow> s + of_nat i \<noteq> t + of_nat j"
  shows "cstr (safestrcpy_loop n s t m) s (Suc n) = cstr m t n
    \<and> (\<forall>x. \<not> in_range s (Suc n) x \<longrightarrow> safestrcpy_loop n s t m x = m x)"
  using assms
proof (induction n arbitrary: s t m)
  case 0
  then show ?case by (simp add: cstr_def load_bytes_Suc in_range_Suc)
next
  case (Suc n)
  let ?m = "m(s := m t)"
  have disj: "s + 1 + of_nat i \<noteq> t + 1 + of_nat j" if "i \<le> n" "j \<le> n" for i j
    using Suc.prems(2) [of "Suc i" "Suc j"] that by (simp add: add.assoc)
  have IH: "cstr (safestrcpy_loop n (s + 1) (t + 1) ?m) (s + 1) (Suc n) = cstr ?m (t + 1) n
    \<and> (\<forall>x. \<not> in_range (s + 1) (Suc n) x \<longrightarrow> safestrcpy_loop n (s + 1) (t + 1) ?m x = ?m x)"
    using disj Suc.prems(1) by (intro Suc.IH) simp_all
  have "\<not> in_range (t + 1) n s"
    using Suc.prems(1) Suc.prems(2) [of 0 "Suc _"] by (auto simp: in_range_iff add.assoc)
  then have src: "cstr ?m (t + 1) n = cstr m (t + 1) n"
    using Suc.prems(1) by (simp add: cstr_def load_bytes_upd)
  from outside_next [of "Suc n" s] Suc.prems(1) have out: "\<not> in_range (s + 1) (Suc n) s" by simp
  have rng: "in_range s (Suc (Suc n)) x \<longleftrightarrow> x = s \<or> in_range (s + 1) (Suc n) x" for x
    using Suc.prems(1) by (intro in_range_Suc) simp
  show ?case
  proof (cases "m t = 0")
    case True
    with rng show ?thesis by (auto simp: load_bytes_Suc cstr_def)
  next
    case False
    have "cstr m' s (Suc (Suc n)) = (if m' s = 0 then [] else m' s # cstr m' (s + 1) (Suc n))" for m'
      by (simp add: cstr_def load_bytes_Suc)
    moreover have "cstr m t (Suc n) = m t # cstr m (t + 1) n"
      using False by (simp add: cstr_def load_bytes_Suc)
    ultimately show ?thesis using False IH out src rng by simp
  qed
qed

lemma strlen_from_eq:
  "(\<And>i. n \<le> i \<Longrightarrow> i < k \<Longrightarrow> m (s + of_nat i) \<noteq> 0) \<Longrightarrow> m (s + of_nat k) = 0 \<Longrightarrow> n \<le> k \<Longrightarrow>
     strlen_from m s n = Some k"
proof (induction "k - n" arbitrary: n)
  case 0
  then show ?case by (subst strlen_from.simps) simp
next
  case (Suc d)
  from Suc.hyps(2) have "n < k" by simp
  with Suc.prems(1) [of n] have "m (s + of_nat n) \<noteq> 0" by simp
  moreover have "strlen_from m s (Suc n) = Some k"
    using Suc.hyps Suc.prems by (intro Suc.hyps(1)) simp_all
  ultimately show ?case by (subst strlen_from.simps) simp
qed

subsection \<open>Properties\<close>

text \<open>
  \<open>memmove\<close> is correct for overlapping buffers in either direction: every destination
  byte gets the byte its source held before the call and no other byte changes, provided neither
  buffer runs past the end of the address space.
\<close>

theorem memmove_correct:
  assumes "unat src + unat n < 2 ^ 64" "unat dst + unat n \<le> 2 ^ 64"
  shows "memmove dst src n m x = (if in_range dst (unat n) x then m (src + (x - dst)) else m x)"
  by (simp add: memmove_eq [OF assms] copy_bytes_def)

theorem memmove_correct_witness:
  "memmove 0x1002 0x1000 4 (\<lambda>x. ucast x) 0x1005 = (3 :: uchar)"
  by (simp add: memmove_correct in_range_def)

text \<open>
  \<open>safestrcpy\<close> always leaves a NUL-terminated string in its \<open>n\<close>-byte destination:
  the source string, cut to \<open>n - 1\<close> characters; it writes nothing outside the destination. The
  buffers must not overlap.
\<close>

theorem safestrcpy_correct:
  assumes "0 < n" "n < 2 ^ 31" "\<And>i j. i < nat n \<Longrightarrow> j < nat n \<Longrightarrow> s + of_nat i \<noteq> t + of_nat j"
  shows "cstr (safestrcpy s t n m) s (nat n) = cstr m t (nat n - 1) \<and>
    length (cstr (safestrcpy s t n m) s (nat n)) < nat n \<and>
    (\<not> in_range s (nat n) x \<longrightarrow> safestrcpy s t n m x = m x)"
proof -
  obtain k where k: "nat n = Suc k" "nat (n - 1) = k" using assms(1) by (cases "nat n") auto
  have "nat n < nat (2 ^ 31)" using assms(2) by simp
  then have "k < 2 ^ 31" using k by simp
  then have sp: "cstr (safestrcpy_loop k s t m) s (Suc k) = cstr m t k
    \<and> (\<forall>x. \<not> in_range s (Suc k) x \<longrightarrow> safestrcpy_loop k s t m x = m x)"
    using assms(3) k by (intro safestrcpy_loop_spec) auto
  have "length (cstr m t k) \<le> k"
    using length_takeWhile_le [of _ "load_bytes m t k"] by (simp add: cstr_def)
  with sp k assms(1) show ?thesis by (simp add: safestrcpy_def)
qed

theorem safestrcpy_correct_witness:
  "cstr (safestrcpy 0x100 0x200 3 (\<lambda>x. ucast x + 65)) 0x100 3 = [65, 66]"
proof -
  have "(0x100 :: addr) + of_nat i \<noteq> 0x200 + of_nat j" if "i < nat 3" "j < nat 3" for i j
  proof -
    from that have "i \<in> {0, 1, 2}" "j \<in> {0, 1, 2}" by auto
    then show ?thesis by auto
  qed
  then show ?thesis
    using safestrcpy_correct [of 3 "0x100" "0x200" "\<lambda>x. ucast x + 65"]
    by (simp add: cstr_def load_bytes_def upt_rec)
qed

end
