(* ===== verification/Kalloc.thy ===== *)
theory Kalloc
  imports Spinlock KString
begin

text \<open>
  The physical page allocator of \<open>kernel/kalloc.c\<close>, with the reference counts of the
  copy-on-write extension. The free list is threaded through the free pages themselves: the
  first eight bytes of a free page are its \<open>next\<close> pointer. \<open>kend\<close> is the linker's
  symbol \<open>end\<close>, the first address after the kernel image.

  \<open>pool s xs\<close> abstracts the allocator: \<open>xs\<close> are the free pages in list order.
\<close>

definition PGSIZE :: uint64 where "PGSIZE = 4096"
definition KERNBASE :: uint64 where "KERNBASE = 0x80000000"
definition PHYSTOP :: uint64 where "PHYSTOP = KERNBASE + 128 * 1024 * 1024"

definition PGROUNDUP :: "uint64 \<Rightarrow> uint64" where
  "PGROUNDUP sz = (sz + PGSIZE - 1) AND NOT (PGSIZE - 1)"

definition PGROUNDDOWN :: "uint64 \<Rightarrow> uint64" where
  "PGROUNDDOWN a = a AND NOT (PGSIZE - 1)"

record kst = mach +
  mem :: pmem
  freelist :: addr
  cowrefs :: "nat \<Rightarrow> uint64"
  kend :: addr

lemma page_consts [simp]:
  "PGSIZE = 4096" "PHYSTOP = 0x88000000" "KERNBASE = 0x80000000"
  by (simp_all add: PGSIZE_def PHYSTOP_def KERNBASE_def)

abbreviation pg_index :: "addr \<Rightarrow> nat" where
  "pg_index pa \<equiv> unat (pa div PGSIZE)"

subsection \<open>Operations\<close>

definition kfree :: "addr \<Rightarrow> 'z kst_scheme \<Rightarrow> (unit, 'z kst_scheme) res" where
  "kfree pa s =
     (if pa mod PGSIZE \<noteq> 0 \<or> pa < kend s \<or> pa \<ge> PHYSTOP then Panic ''kfree''
      else let pageIndex = pg_index pa in
        bnd (acquire (L_cowref pageIndex) s) (\<lambda>_ s.
        if cowrefs s pageIndex < 0 then Panic ''kfree: cow page with negative reference count''
        else if cowrefs s pageIndex > 0
        then release (L_cowref pageIndex)
               (s\<lparr>cowrefs := (cowrefs s)(pageIndex := cowrefs s pageIndex - 1)\<rparr>)
        else bnd (release (L_cowref pageIndex) s) (\<lambda>_ s.
             let s = s\<lparr>mem := memset pa 1 (ucast PGSIZE) (mem s)\<rparr> in
             bnd (acquire L_kmem s) (\<lambda>_ s.
             let s = s\<lparr>mem := store64 (mem s) pa (freelist s)\<rparr>;
                 s = s\<lparr>freelist := pa\<rparr>
             in release L_kmem s))))"

definition kalloc :: "'z kst_scheme \<Rightarrow> (addr, 'z kst_scheme) res" where
  "kalloc s =
     bnd (acquire L_kmem s) (\<lambda>_ s.
     let r = freelist s;
         s = (if r \<noteq> 0
              then s\<lparr>freelist := load64 (mem s) r,
                     cowrefs := (cowrefs s)(pg_index r := 0)\<rparr>
              else s)
     in bnd (release L_kmem s) (\<lambda>_ s.
        Ok r (if r \<noteq> 0 then s\<lparr>mem := memset r 5 (ucast PGSIZE) (mem s)\<rparr> else s)))"

lemma kfree_Ok_bound: "kfree pa s = Ok x t \<Longrightarrow> pa < PHYSTOP"
  by (auto simp: kfree_def not_le bnd_eq_Ok split: if_splits)

function freerange_loop :: "addr \<Rightarrow> addr \<Rightarrow> 'z kst_scheme \<Rightarrow> (unit, 'z kst_scheme) res" where
  "freerange_loop p pa_end s =
     (if p + PGSIZE \<le> pa_end
      then bnd (kfree p s) (\<lambda>_ s. freerange_loop (p + PGSIZE) pa_end s)
      else Ok () s)"
  by pat_completeness auto
termination
proof (relation "measure (\<lambda>(p, e, s). unat PHYSTOP - unat p)", goal_cases)
  case (2 p e s x t)
  then have "p < PHYSTOP" by (auto dest: kfree_Ok_bound)
  then have "unat p < unat PHYSTOP" by (simp add: word_less_nat_alt)
  moreover from this have "unat (p + PGSIZE) = unat p + 4096"
    by (subst unat_add_lem [THEN iffD1]) simp_all
  ultimately show ?case by simp
qed simp

declare freerange_loop.simps [simp del]

definition freerange :: "addr \<Rightarrow> addr \<Rightarrow> 'z kst_scheme \<Rightarrow> (unit, 'z kst_scheme) res" where
  "freerange pa_start pa_end s = freerange_loop (PGROUNDUP pa_start) pa_end s"

definition kinit :: "'z kst_scheme \<Rightarrow> (unit, 'z kst_scheme) res" where
  "kinit s =
     (let s = initlock L_kmem ''kmem'' s;
          s = fold (\<lambda>i. initlock (L_cowref i) ''pgcref'') [0..<unat (PHYSTOP div PGSIZE)] s
      in freerange (kend s) PHYSTOP s)"

subsection \<open>The free pool\<close>

lemma hold_kst [frame_simps, simp]:
  "mem (hold lk s) = mem s" "freelist (hold lk s) = freelist s"
  "cowrefs (hold lk s) = cowrefs s" "kend (hold lk s) = kend s"
  by (simp_all add: hold_def push_off_def mach_defs Let_def)

lemma touch_kst [frame_simps, simp]:
  "mem (touch s) = mem s" "freelist (touch s) = freelist s"
  "cowrefs (touch s) = cowrefs s" "kend (touch s) = kend s"
  by (simp_all add: touch_def)

lemma hold_kst_upd [lock_simps]:
  "(hold lk s)\<lparr>mem := a\<rparr> = hold lk (s\<lparr>mem := a\<rparr>)"
  "(hold lk s)\<lparr>freelist := b\<rparr> = hold lk (s\<lparr>freelist := b\<rparr>)"
  "(hold lk s)\<lparr>cowrefs := c\<rparr> = hold lk (s\<lparr>cowrefs := c\<rparr>)"
  by (simp_all add: hold_def push_off_def mach_defs Let_def)

lemma touch_kst_upd [lock_simps]:
  "touch (s\<lparr>mem := a\<rparr>) = (touch s)\<lparr>mem := a\<rparr>"
  "touch (s\<lparr>freelist := b\<rparr>) = (touch s)\<lparr>freelist := b\<rparr>"
  "touch (s\<lparr>cowrefs := c\<rparr>) = (touch s)\<lparr>cowrefs := c\<rparr>"
  by (simp_all add: touch_def)

definition frame_ok :: "addr \<Rightarrow> addr \<Rightarrow> bool" where
  "frame_ok e x \<longleftrightarrow> aligned 4096 x \<and> e \<le> x \<and> x < PHYSTOP"

primrec free_chain :: "pmem \<Rightarrow> addr \<Rightarrow> addr list \<Rightarrow> bool" where
  "free_chain m h [] \<longleftrightarrow> h = 0"
| "free_chain m h (x # xs) \<longleftrightarrow> h = x \<and> free_chain m (load64 m x) xs"

definition pool :: "'z kst_scheme \<Rightarrow> addr list \<Rightarrow> bool" where
  "pool s xs \<longleftrightarrow> free_chain (mem s) (freelist s) xs \<and> distinct xs \<and> 0 < kend s \<and>
     (\<forall>x\<in>set xs. frame_ok (kend s) x \<and> cowrefs s (pg_index x) = 0)"

definition kmem_unlocked :: "'z kst_scheme \<Rightarrow> bool" where
  "kmem_unlocked s \<longleftrightarrow> lk_free (locks s L_kmem) \<and> irqs_ok s"

definition cow_unlocked :: "'z kst_scheme \<Rightarrow> bool" where
  "cow_unlocked s \<longleftrightarrow> kmem_unlocked s \<and> (\<forall>i<unat (PHYSTOP div PGSIZE). lk_free (locks s (L_cowref i)))"

lemma pg_index_lt: "x < PHYSTOP \<Longrightarrow> pg_index x < unat (PHYSTOP div PGSIZE)"
  by (simp add: unat_div word_less_nat_alt) 

lemma aligned_mod: "aligned 4096 x \<longleftrightarrow> x mod 4096 = 0"
  by (simp add: aligned_def word_unat_eq_iff unat_mod)

lemma frame_ok_nonzero: "frame_ok e x \<Longrightarrow> 0 < e \<Longrightarrow> x \<noteq> 0"
  by (auto simp: frame_ok_def)

lemma free_chain_cong:
  "(\<And>x. x \<in> set xs \<Longrightarrow> load64 m x = load64 m' x) \<Longrightarrow> free_chain m h xs = free_chain m' h xs"
  by (induction xs arbitrary: h) auto

lemma pages_disjoint:
  "aligned 4096 p \<Longrightarrow> aligned 4096 q \<Longrightarrow> p \<noteq> q \<Longrightarrow> in_range p 4096 x \<Longrightarrow> \<not> in_range q 4096 x"
  using aligned_disjoint [of 4096 p q x] by auto

lemma pg_index_inj:
  assumes "aligned 4096 x" "aligned 4096 y" "pg_index x = pg_index y"
  shows "x = y"
proof -
  from assms(3) have "unat x div 4096 = unat y div 4096" by (simp add: unat_div)
  with assms(1,2) show ?thesis
    unfolding aligned_def by (metis dvd_mult_div_cancel mod_0_imp_dvd word_unat_eq_iff)
qed

lemma load64_page_agree:
  assumes "aligned 4096 p" "aligned 4096 q" "p \<noteq> q" "unat off + 8 \<le> 4096"
    and "\<And>x. \<not> in_range p 4096 x \<Longrightarrow> m x = m' x"
  shows "load64 m (q + off) = load64 m' (q + off)"
proof (rule load64_agree)
  fix x assume "in_range (q + off) 8 x"
  then have "in_range q 4096 x" using assms(4) by (intro in_range_sub [of "q + off" q 8]) simp_all
  then have "\<not> in_range p 4096 x" using pages_disjoint [OF assms(1,2,3)] by blast
  then show "m x = m' x" by (rule assms(5))
qed

lemma free_chain_outside:
  assumes "aligned 4096 p" "\<And>x. x \<in> set xs \<Longrightarrow> aligned 4096 x" "p \<notin> set xs"
    and "\<And>x. \<not> in_range p 4096 x \<Longrightarrow> m x = m' x"
  shows "free_chain m h xs = free_chain m' h xs"
proof (rule free_chain_cong)
  fix q assume "q \<in> set xs"
  then show "load64 m q = load64 m' q"
    using load64_page_agree [of p q 0 m m'] assms by auto
qed

lemma pool_aligned: "pool s xs \<Longrightarrow> x \<in> set xs \<Longrightarrow> aligned 4096 x"
  by (simp add: pool_def frame_ok_def)

text \<open>
  A write to a page that is not free keeps the pool.
\<close>

lemma pool_write:
  assumes "pool s xs" "aligned 4096 p" "p \<notin> set xs"
    and "\<And>x. \<not> in_range p 4096 x \<Longrightarrow> m' x = mem s x"
  shows "pool (s\<lparr>mem := m'\<rparr>) xs"
proof -
  have "free_chain m' (freelist s) xs = free_chain (mem s) (freelist s) xs"
    using assms pool_aligned [OF assms(1)] by (intro free_chain_outside [of p]) auto
  with assms(1) show ?thesis by (simp add: pool_def)
qed

subsection \<open>Behaviour of kalloc and kfree\<close>

lemma kalloc_empty:
  assumes "pool s []" "kmem_unlocked s"
  shows "kalloc s = Ok 0 (touch s)"
  using assms by (simp add: kalloc_def kmem_unlocked_def pool_def lock_simps)

lemma kalloc_page:
  assumes "pool s (x # xs)" "kmem_unlocked s"
  shows "kalloc s = Ok x ((touch s)\<lparr>freelist := load64 (mem s) x,
       cowrefs := (cowrefs s)(pg_index x := 0), mem := fill_bytes (mem s) x 5 4096\<rparr>)"
proof -
  have "freelist s = x" "x \<noteq> 0"
    using assms(1) frame_ok_nonzero by (auto simp: pool_def)
  then show ?thesis using assms(2)
    by (simp add: kalloc_def kmem_unlocked_def lock_simps memset_eq Let_def)
qed

lemma kalloc_pool:
  assumes "pool s (x # xs)" "kmem_unlocked s" "kalloc s = Ok r t"
  shows "r = x" "pool t xs" "frame_ok (kend s) x" "x \<notin> set xs" "cowrefs t (pg_index x) = 0"
proof -
  note t = assms(3) [unfolded kalloc_page [OF assms(1,2)]]
  from t show "r = x" by simp
  from assms(1) show x: "x \<notin> set xs" and fx: "frame_ok (kend s) x" by (auto simp: pool_def)
  have "pool (s\<lparr>freelist := load64 (mem s) x, cowrefs := (cowrefs s)(pg_index x := 0)\<rparr>) xs"
    using assms(1) by (auto simp: pool_def)
  then have "pool (s\<lparr>freelist := load64 (mem s) x, cowrefs := (cowrefs s)(pg_index x := 0)\<rparr>
      \<lparr>mem := fill_bytes (mem s) x 5 4096\<rparr>) xs"
    using fx x by (rule_tac pool_write [of _ _ x]) (auto simp: frame_ok_def fill_bytes_def)
  with t show "pool t xs" by (auto simp: pool_def)
  from t show "cowrefs t (pg_index x) = 0" by auto
qed

lemma kfree_invalid:
  "pa mod PGSIZE \<noteq> 0 \<or> pa < kend s \<or> pa \<ge> PHYSTOP \<Longrightarrow> kfree pa s = Panic ''kfree''"
  by (simp add: kfree_def)

lemma kfree_guard:
  "frame_ok (kend s) pa \<Longrightarrow> \<not> (pa mod PGSIZE \<noteq> 0 \<or> pa < kend s \<or> pa \<ge> PHYSTOP)"
  by (auto simp: frame_ok_def aligned_mod)

lemma frame_cow_free:
  assumes "frame_ok (kend s) pa" "cow_unlocked s"
  shows "lk_free (locks s (L_cowref (pg_index pa)))"
  using assms pg_index_lt [of pa] by (auto simp: frame_ok_def cow_unlocked_def)

lemma kfree_shared:
  assumes "frame_ok (kend s) pa" "cow_unlocked s" "0 < cowrefs s (pg_index pa)"
  shows "kfree pa s = Ok () ((touch s)\<lparr>cowrefs := (cowrefs s)(pg_index pa := cowrefs s (pg_index pa) - 1)\<rparr>)"
  using assms kfree_guard [OF assms(1)] frame_cow_free [OF assms(1,2)]
  by (simp add: kfree_def cow_unlocked_def kmem_unlocked_def Let_def lock_simps)

lemma kfree_last:
  assumes "frame_ok (kend s) pa" "cow_unlocked s" "cowrefs s (pg_index pa) = 0"
  shows "kfree pa s = Ok () ((touch s)\<lparr>
       mem := store64 (fill_bytes (mem s) pa 1 4096) pa (freelist s), freelist := pa\<rparr>)"
  using assms kfree_guard [OF assms(1)] frame_cow_free [OF assms(1,2)]
  by (simp add: kfree_def cow_unlocked_def kmem_unlocked_def Let_def lock_simps memset_eq)

lemma kfree_pool:
  assumes "pool s xs" "frame_ok (kend s) pa" "cow_unlocked s" "cowrefs s (pg_index pa) = 0"
    and "pa \<notin> set xs" "kfree pa s = Ok u t"
  shows "pool t (pa # xs)"
proof -
  let ?m = "store64 (fill_bytes (mem s) pa 1 4096) pa (freelist s)"
  from assms(2) have al: "aligned 4096 pa" by (simp add: frame_ok_def)
  have "?m x = mem s x" if "\<not> in_range pa 4096 x" for x
  proof -
    have "\<not> in_range pa 8 x" using that by (simp add: in_range_def)
    with that show ?thesis by (simp add: store64_outside fill_bytes_def)
  qed
  with assms al have "pool (s\<lparr>mem := ?m\<rparr>) xs" by (intro pool_write) auto
  moreover have "t = (touch s)\<lparr>mem := ?m, freelist := pa\<rparr>"
    using assms(6) kfree_last [OF assms(2-4)] by simp
  ultimately show ?thesis using assms(2,4,5) by (simp add: pool_def)
qed

subsection \<open>Boot: every page above the kernel becomes free\<close>

lemma unat_PGROUNDDOWN: "unat (PGROUNDDOWN a) = unat a div 4096 * 4096"
proof -
  have "PGROUNDDOWN a = push_bit 12 (drop_bit 12 a)"
    by (rule bit_word_eqI)
      (auto simp: PGROUNDDOWN_def bit_simps mask_eq_exp_minus_1 [of 12, where 'a = uint64, simplified, symmetric])
  also have "\<dots> = a div 4096 * 4096"
    by (simp add: drop_bit_eq_div push_bit_eq_mult)
  also have "unat \<dots> = unat a div 4096 * 4096"
    using unat_lt_2p [of a] by (subst unat_mult_lem [THEN iffD1]) (simp_all add: unat_div)
  finally show ?thesis .
qed

lemma PGROUNDUP_down: "PGROUNDUP a = PGROUNDDOWN (a + 4095)"
  by (simp add: PGROUNDUP_def PGROUNDDOWN_def add.commute)

lemma aligned_PGROUNDDOWN [simp]: "aligned 4096 (PGROUNDDOWN a)"
  by (simp add: aligned_def unat_PGROUNDDOWN)

lemma aligned_PGROUNDUP [simp]: "aligned 4096 (PGROUNDUP a)"
  by (simp add: PGROUNDUP_down)

lemma unat_PGROUNDUP:
  assumes "unat a + 4095 < 2 ^ 64"
  shows "unat (PGROUNDUP a) = (unat a + 4095) div 4096 * 4096"
proof -
  have "unat (a + 4095) = unat a + 4095"
    using assms by (subst unat_add_lem [THEN iffD1]) simp_all
  then show ?thesis by (simp add: PGROUNDUP_down unat_PGROUNDDOWN)
qed

definition page_run :: "addr \<Rightarrow> nat \<Rightarrow> addr list" where
  "page_run p n = map (\<lambda>i. p + of_nat (4096 * i)) [0..<n]"

lemma page_run_Suc: "page_run p (Suc n) = p # page_run (p + 4096) n"
proof -
  have "[0..<Suc n] = 0 # map Suc [0..<n]" by (simp add: map_Suc_upt upt_conv_Cons del: upt_Suc)
  then show ?thesis by (simp add: page_run_def comp_def add.assoc del: upt_Suc)
qed

lemma cow_unlocked_frame [simp]:
  "cow_unlocked (touch s) = cow_unlocked s"
  "cow_unlocked (s\<lparr>mem := a\<rparr>) = cow_unlocked s"
  "cow_unlocked (s\<lparr>freelist := b\<rparr>) = cow_unlocked s"
  "cow_unlocked (s\<lparr>cowrefs := c\<rparr>) = cow_unlocked s"
  by (simp_all add: cow_unlocked_def kmem_unlocked_def)

lemma freerange_loop_spec:
  assumes "pool s xs" "cow_unlocked s" "aligned 4096 p" "kend s \<le> p"
    and "unat p + 4096 * n \<le> unat PHYSTOP" "unat PHYSTOP < unat p + 4096 * Suc n"
    and "\<forall>x\<in>set xs. x < p" "\<forall>i. cowrefs s i = 0"
  shows "\<exists>t. freerange_loop p PHYSTOP s = Ok () t \<and> pool t (rev (page_run p n) @ xs)"
  using assms
proof (induction n arbitrary: p s xs)
  case 0
  then have "\<not> p + PGSIZE \<le> PHYSTOP"
    by (auto simp: word_le_nat_alt unat_word_ariths)
  then show ?case using 0 by (simp add: freerange_loop.simps [of p] page_run_def)
next
  case (Suc n)
  have up: "unat (p + 4096) = unat p + 4096"
    using Suc.prems(5) by (subst unat_add_lem [THEN iffD1]) simp_all
  then have le: "p + PGSIZE \<le> PHYSTOP" and lt: "p < PHYSTOP" "p < p + 4096"
    using Suc.prems(5) by (simp_all add: word_le_nat_alt word_less_nat_alt)
  let ?t = "(touch s)\<lparr>mem := store64 (fill_bytes (mem s) p 1 4096) p (freelist s), freelist := p\<rparr>"
  have fr: "frame_ok (kend s) p" using Suc.prems lt by (simp add: frame_ok_def)
  have k: "kfree p s = Ok () ?t"
    using Suc.prems by (intro kfree_last fr) simp_all
  have "pool ?t (p # xs)"
    using Suc.prems fr k by (intro kfree_pool [of s xs p]) auto
  moreover have "aligned 4096 (p + 4096)"
    using Suc.prems(3) up by (simp add: aligned_def)
  moreover have "\<forall>x\<in>set (p # xs). x < p + 4096" using Suc.prems(7) lt by auto
  moreover have "kend s \<le> p + 4096" using Suc.prems(4) lt(2) by simp
  ultimately obtain t where "freerange_loop (p + 4096) PHYSTOP ?t = Ok () t"
      "pool t (rev (page_run (p + 4096) n) @ p # xs)"
    using Suc.IH [of ?t "p # xs" "p + 4096"] Suc.prems up lt by auto
  then show ?case using le k
    by (simp add: freerange_loop.simps [of p] page_run_Suc)
qed

lemma fold_initlock:
  "fold (\<lambda>i. initlock (L_cowref i) nm) is s = s\<lparr>locks := \<lambda>lk. if lk \<in> L_cowref ` set is
     then \<lparr>lk_locked = 0, lk_name = nm, lk_cpu = None\<rparr> else locks s lk\<rparr>"
  by (induction "is" arbitrary: s) (auto simp: initlock_def fun_eq_iff)

lemma kinit_spec:
  assumes "0 < kend s" "kend s \<le> PHYSTOP" "freelist s = 0" "\<forall>i. cowrefs s i = 0" "irqs_ok s"
  defines "p \<equiv> PGROUNDUP (kend s)"
  shows "\<exists>t. kinit s = Ok () t \<and> pool t (rev (page_run p ((unat PHYSTOP - unat p) div 4096)))"
proof -
  let ?N = "unat (PHYSTOP div PGSIZE)"
  let ?s = "fold (\<lambda>i. initlock (L_cowref i) ''pgcref'') [0..<?N] (initlock L_kmem ''kmem'' s)"
  let ?n = "(unat PHYSTOP - unat p) div 4096"
  have e: "unat (kend s) \<le> unat PHYSTOP" using assms(2) by (simp add: word_le_nat_alt)
  then have p: "unat p = (unat (kend s) + 4095) div 4096 * 4096"
    unfolding p_def by (intro unat_PGROUNDUP) simp
  have hi: "unat p \<le> unat PHYSTOP" "unat (kend s) \<le> unat p" using e p by simp_all
  have "lk_free (locks ?s (L_cowref i))" if "i < ?N" for i
    using that unfolding fold_initlock by (auto simp: lk_free_def)
  moreover have "lk_free (locks ?s L_kmem)"
    unfolding fold_initlock by (auto simp: lk_free_def initlock_def)
  moreover have fr: "freelist ?s = 0" "kend ?s = kend s" "cowrefs ?s = cowrefs s"
    "hart ?s = hart s" "cpus ?s = cpus s" "sie ?s = sie s"
    unfolding fold_initlock using assms(3) by (simp_all add: initlock_def)
  ultimately have "cow_unlocked ?s" and "pool ?s []"
    using assms unfolding cow_unlocked_def kmem_unlocked_def pool_def by simp_all
  then have "\<exists>t. freerange_loop p PHYSTOP ?s = Ok () t \<and> pool t (rev (page_run p ?n) @ [])"
    using assms(4) fr hi by (intro freerange_loop_spec) (auto simp: p_def word_le_nat_alt)
  then show ?thesis
    using fr(2) by (simp add: kinit_def freerange_def p_def Let_def del: page_consts)
qed

subsection \<open>The allocator's contract\<close>

text \<open>
  What the clients of the allocator (page tables, pipes, exec) rely on: \<open>avail s xs\<close> lists
  the free pages, \<open>owned s p\<close> says that \<open>p\<close> is a page in use by a single owner.
\<close>

locale page_allocator =
  fixes alloc :: "'s \<Rightarrow> (addr, 's) res"
    and free :: "addr \<Rightarrow> 's \<Rightarrow> (unit, 's) res"
    and avail :: "'s \<Rightarrow> addr list \<Rightarrow> bool"
    and owned :: "'s \<Rightarrow> addr \<Rightarrow> bool"
  assumes alloc_none: "avail s [] \<Longrightarrow> \<exists>t. alloc s = Ok 0 t \<and> avail t []"
    and alloc_some: "avail s (x # xs) \<Longrightarrow>
      \<exists>t. alloc s = Ok x t \<and> avail t xs \<and> x \<noteq> 0 \<and> x \<notin> set xs \<and> owned t x"
    and alloc_owned: "avail s xs \<Longrightarrow> alloc s = Ok r t \<Longrightarrow> owned s p \<Longrightarrow> owned t p"
    and free_one: "avail s xs \<Longrightarrow> owned s p \<Longrightarrow> p \<notin> set xs \<Longrightarrow> \<exists>t. free p s = Ok () t \<and> avail t (p # xs)"
    and free_owned: "avail s xs \<Longrightarrow> owned s p \<Longrightarrow> p \<notin> set xs \<Longrightarrow> free p s = Ok () t \<Longrightarrow>
      owned s q \<Longrightarrow> owned t q"
begin

lemma alloc_then_free:
  assumes "avail s (x # xs)"
  shows "\<exists>t u. alloc s = Ok x t \<and> free x t = Ok () u \<and> avail u (x # xs)"
  using alloc_some [OF assms] free_one by metis

lemma alloc_two:
  assumes "avail s (x # y # xs)"
  shows "\<exists>t u. alloc s = Ok x t \<and> alloc t = Ok y u \<and> x \<noteq> y \<and> owned u x \<and> owned u y \<and> avail u xs"
proof -
  from alloc_some [OF assms] obtain t where t: "alloc s = Ok x t" "avail t (y # xs)"
    "x \<notin> set (y # xs)" "owned t x" by metis
  from alloc_some [OF t(2)] obtain u where "alloc t = Ok y u" "avail u xs" "owned u y" by metis
  with t alloc_owned [OF t(2)] show ?thesis by auto
qed

lemma free_all:
  assumes "avail s xs" "distinct ps" "set ps \<inter> set xs = {}" "\<forall>p\<in>set ps. owned s p"
  shows "\<exists>t. for_each free ps s = Ok () t \<and> avail t (rev ps @ xs) \<and> (\<forall>q. owned s q \<longrightarrow> owned t q)"
proof -
  let ?I = "\<lambda>ys t. avail t (rev ys @ xs) \<and> (\<forall>q. owned s q \<longrightarrow> owned t q)"
  have "\<exists>t. for_each free ps s = Ok () t \<and> ?I ps t"
  proof (rule for_each_inv [where I = ?I])
    fix ys p zs t assume ps: "ps = ys @ p # zs" and I: "?I ys t"
    from ps assms(2,3) have p: "p \<notin> set (rev ys @ xs)" by auto
    from I ps assms(4) have "owned t p" by auto
    with I p free_one [of t "rev ys @ xs" p] obtain u where
      u: "free p t = Ok () u" "avail u (p # rev ys @ xs)" by blast
    with I p \<open>owned t p\<close> free_owned [of t "rev ys @ xs" p u] have "\<forall>q. owned s q \<longrightarrow> owned u q" by blast
    with u show "\<exists>u. free p t = Ok () u \<and> ?I (ys @ [p]) u" by auto
  qed (use assms in auto)
  then show ?thesis by blast
qed

end

definition avail :: "'z kst_scheme \<Rightarrow> addr list \<Rightarrow> bool" where
  "avail s xs \<longleftrightarrow> pool s xs \<and> cow_unlocked s"

definition owned :: "'z kst_scheme \<Rightarrow> addr \<Rightarrow> bool" where
  "owned s p \<longleftrightarrow> frame_ok (kend s) p \<and> cowrefs s (pg_index p) = 0"

interpretation kalloc: page_allocator kalloc kfree avail owned
proof unfold_locales
  show "\<exists>t. kalloc s = Ok 0 t \<and> avail t []" if "avail s []" for s :: "'a kst_scheme"
    using that kalloc_empty [of s] by (auto simp: avail_def cow_unlocked_def kmem_unlocked_def pool_def)
  show "\<exists>t. kalloc s = Ok x t \<and> avail t xs \<and> x \<noteq> 0 \<and> x \<notin> set xs \<and> owned t x"
    if "avail s (x # xs)" for s :: "'a kst_scheme" and x xs
  proof -
    from that have s: "pool s (x # xs)" "kmem_unlocked s" by (simp_all add: avail_def cow_unlocked_def)
    show ?thesis using kalloc_page [OF s] kalloc_pool [OF s] that frame_ok_nonzero
      by (auto simp: avail_def owned_def pool_def)
  qed
  show "owned t p" if "avail s xs" "kalloc s = Ok r t" "owned s p" for s t :: "'a kst_scheme" and xs r p
    using that kalloc_empty [of s] kalloc_page [of s] 
    by (cases xs) (auto simp: avail_def owned_def cow_unlocked_def)
  show "\<exists>t. kfree p s = Ok () t \<and> avail t (p # xs)"
    if "avail s xs" "owned s p" "p \<notin> set xs" for s :: "'a kst_scheme" and xs p
    using that kfree_last [of s p] kfree_pool [of s xs p "()"] by (auto simp: avail_def owned_def)
  show "owned t q" if "avail s xs" "owned s p" "p \<notin> set xs" "kfree p s = Ok () t" "owned s q"
    for s t :: "'a kst_scheme" and xs p q
    using that kfree_last [of s p] by (auto simp: avail_def owned_def)
qed

subsection \<open>Properties\<close>

text \<open>
  C16: At boot \<open>kinit\<close> succeeds and leaves in the free list exactly the whole pages
  between the rounded-up end of the kernel image and \<open>PHYSTOP\<close>, the highest page first, each
  with no extra reference.
\<close>

theorem kinit_frees_all:
  assumes "0 < kend s" "kend s \<le> PHYSTOP" "freelist s = 0" "\<forall>i. cowrefs s i = 0" "irqs_ok s"
  shows "\<exists>t. kinit s = Ok () t \<and> pool t (rev (page_run (PGROUNDUP (kend s))
    ((unat PHYSTOP - unat (PGROUNDUP (kend s))) div 4096)))"
  using assms by (rule kinit_spec)

definition boot_kst :: "addr \<Rightarrow> kst" where
  "boot_kst e = mach.extend boot_mach \<lparr>mem = (\<lambda>_. 0), freelist = 0, cowrefs = (\<lambda>_. 0), kend = e\<rparr>"

lemma boot_kst_simps [simp]:
  "hart (boot_kst e) = 0" "locks (boot_kst e) lk = \<lparr>lk_locked = 0, lk_name = [], lk_cpu = None\<rparr>"
  "mem (boot_kst e) = (\<lambda>_. 0)" "freelist (boot_kst e) = 0" "cowrefs (boot_kst e) = (\<lambda>_. 0)"
  "kend (boot_kst e) = e" "irq_ok 0 (cpus (boot_kst e)) (sie (boot_kst e))"
  by (simp_all add: boot_kst_def boot_mach_def mach.defs irq_ok_def)

lemma boot_kst_avail: "0 < e \<Longrightarrow> avail (boot_kst e) []"
  by (simp add: avail_def pool_def cow_unlocked_def kmem_unlocked_def lk_free_def)

theorem kinit_frees_all_witness:
  "\<exists>t. kinit (boot_kst 0x87FFD010) = Ok () t \<and> pool t [0x87FFF000, 0x87FFE000]"
proof -
  have "PGROUNDUP 0x87FFD010 = (0x87FFE000 :: uint64)" by (simp add: PGROUNDUP_def)
  moreover have "page_run 0x87FFE000 2 = [0x87FFE000, 0x87FFF000]" by (simp add: page_run_def upt_rec)
  ultimately show ?thesis using kinit_frees_all [of "boot_kst 0x87FFD010"] by simp
qed

text \<open>
  C18: With free pages \<open>x, y, ...\<close> two calls of \<open>kalloc\<close> return the two
  distinct pages \<open>x\<close> and \<open>y\<close>, both usable and without further references; freeing the
  first one again after the first call gives back the same free list. With no free page
  \<open>kalloc\<close> returns 0.
\<close>

theorem kalloc_kfree_pool:
  assumes "pool s zs" "cow_unlocked s"
  shows "case zs of
      [] \<Rightarrow> \<exists>t. kalloc s = Ok 0 t \<and> pool t []
    | x # xs \<Rightarrow> (\<exists>t u. kalloc s = Ok x t \<and> frame_ok (kend s) x \<and> kfree x t = Ok () u \<and> pool u zs) \<and>
        (case xs of [] \<Rightarrow> True | y # ys \<Rightarrow> \<exists>t u. kalloc s = Ok x t \<and> kalloc t = Ok y u \<and> x \<noteq> y \<and> pool u ys)"
proof (cases zs)
  case Nil
  with assms kalloc.alloc_none [of s] show ?thesis by (auto simp: avail_def)
next
  case (Cons x xs)
  with assms have s: "avail s (x # xs)" by (simp add: avail_def)
  from assms(1) Cons have "frame_ok (kend s) x" by (simp add: pool_def)
  moreover have "\<exists>t u. kalloc s = Ok x t \<and> kalloc t = Ok y u \<and> x \<noteq> y \<and> pool u ys" if "xs = y # ys" for y ys
    using kalloc.alloc_two [of s x y ys] s that by (auto simp: avail_def)
  ultimately show ?thesis using Cons kalloc.alloc_then_free [OF s]
    by (auto simp: avail_def split: list.split)
qed

definition two_pages :: kst where
  "two_pages = (boot_kst 0x80001000)\<lparr>mem := store64 (\<lambda>_. 0) 0x80002000 0x80003000, freelist := 0x80002000\<rparr>"

lemma two_pages_pool: "pool two_pages [0x80002000, 0x80003000]" "cow_unlocked two_pages"
proof -
  have "load64 (store64 (\<lambda>_. 0) 0x80002000 0x80003000) 0x80003000 = 0"
    by (subst load64_store64_disjoint) (simp_all add: aligned_def load64_def load_bytes_def upt_rec)
  then show "pool two_pages [0x80002000, 0x80003000]"
    by (simp add: two_pages_def pool_def frame_ok_def aligned_def)
  show "cow_unlocked two_pages"
    by (simp add: two_pages_def cow_unlocked_def kmem_unlocked_def lk_free_def)
qed

theorem kalloc_kfree_pool_witness:
  "\<exists>t u. kalloc two_pages = Ok 0x80002000 t \<and> kalloc t = Ok 0x80003000 u \<and> pool u []"
  using kalloc_kfree_pool [OF two_pages_pool] by auto

text \<open>
  Freeing a page that other address spaces still share only takes one reference off:
  memory and free list are unchanged, so the remaining owners keep their data.
\<close>

theorem kfree_shared_keeps_page:
  assumes "frame_ok (kend s) pa" "cow_unlocked s" "0 < cowrefs s (pg_index pa)"
  shows "\<exists>t. kfree pa s = Ok () t \<and> mem t = mem s \<and> freelist t = freelist s \<and>
    cowrefs t = (cowrefs s)(pg_index pa := cowrefs s (pg_index pa) - 1)"
  using kfree_shared [OF assms] by simp

theorem kfree_shared_keeps_page_witness:
  "\<exists>t. kfree 0x80005000 (two_pages\<lparr>cowrefs := (\<lambda>_. 0)(0x80005 := 2)\<rparr>) = Ok () t \<and>
     cowrefs t 0x80005 = 1 \<and> mem t = mem two_pages"
proof -
  let ?s = "two_pages\<lparr>cowrefs := (\<lambda>_. 0)(0x80005 := 2)\<rparr>"
  have "pg_index (0x80005000 :: uint64) = 0x80005" by simp
  moreover have "frame_ok (kend ?s) 0x80005000" by (simp add: two_pages_def frame_ok_def aligned_def)
  ultimately show ?thesis using kfree_shared_keeps_page [of ?s "0x80005000"] two_pages_pool(2) by auto
qed

end
