(* ===== verification/Vm.thy ===== *)
theory Vm
  imports Kalloc
begin

text \<open>
  Sv39 page tables (\<open>kernel/vm.c\<close>, the macros of \<open>kernel/riscv.h\<close> and
  \<open>kernel/memlayout.h\<close>, and the copy-on-write helpers \<open>cowmappage\<close> and \<open>dup_pg\<close> of
  \<open>kernel/kalloc.c\<close>). Page tables live in physical memory: a table is a page of 512
  eight-byte entries, and \<open>walk\<close> returns the physical address of a leaf entry (0 is the null
  pointer). The TLB is not modelled, so \<open>sfence_vma\<close> has no effect.

  Kernel buffers that \<open>copyout\<close>, \<open>copyin\<close> and \<open>copyinstr\<close> read or fill are byte
  lists.
\<close>

subsection \<open>Page-table entries and the address layout\<close>

definition PTE_V :: uint64 where "PTE_V = 1"
definition PTE_R :: uint64 where "PTE_R = 2"
definition PTE_W :: uint64 where "PTE_W = 4"
definition PTE_X :: uint64 where "PTE_X = 8"
definition PTE_U :: uint64 where "PTE_U = 16"
definition PTE_COW :: uint64 where "PTE_COW = 256"

lemmas pte_bits = PTE_V_def PTE_R_def PTE_W_def PTE_X_def PTE_U_def PTE_COW_def

definition PA2PTE :: "uint64 \<Rightarrow> uint64" where
  "PA2PTE pa = push_bit 10 (drop_bit 12 pa)"

definition PTE2PA :: "uint64 \<Rightarrow> uint64" where
  "PTE2PA pte = push_bit 12 (drop_bit 10 pte)"

definition PTE_FLAGS :: "uint64 \<Rightarrow> uint64" where
  "PTE_FLAGS pte = pte AND 0x3FF"

definition PX :: "nat \<Rightarrow> uint64 \<Rightarrow> uint64" where
  "PX level va = drop_bit (12 + 9 * level) va AND 0x1FF"

definition MAXVA :: uint64 where "MAXVA = push_bit (9 + 9 + 9 + 12 - 1) 1"
definition TRAMPOLINE :: uint64 where "TRAMPOLINE = MAXVA - PGSIZE"
definition TRAPFRAME :: uint64 where "TRAPFRAME = TRAMPOLINE - PGSIZE"

definition KSTACK :: "nat \<Rightarrow> uint64" where
  "KSTACK p = TRAMPOLINE - of_nat (p + 1) * 2 * PGSIZE"

definition UART0 :: uint64 where "UART0 = 0x10000000"
definition VIRTIO0 :: uint64 where "VIRTIO0 = 0x10001000"
definition PLIC :: uint64 where "PLIC = 0x0c000000"
definition NPROC :: nat where "NPROC = 64"

definition MAKE_SATP :: "uint64 \<Rightarrow> uint64" where
  "MAKE_SATP pagetable = push_bit 60 8 OR drop_bit 12 pagetable"

lemma va_consts [simp]:
  "MAXVA = 0x4000000000" "TRAMPOLINE = 0x3FFFFFF000" "TRAPFRAME = 0x3FFFFFE000"
  by (simp_all add: MAXVA_def TRAMPOLINE_def TRAPFRAME_def)

lemma below_MAXVA [simp]: "va < 0x4000000000 \<Longrightarrow> (0x4000000000 \<le> va) = False" for va :: uint64
  by simp

record vst = kst +
  kernel_pagetable :: addr
  satp :: "nat \<Rightarrow> uint64"
  etext :: addr
  trampoline :: addr

subsection \<open>walk and mappages\<close>

primrec walk_levels :: "nat \<Rightarrow> addr \<Rightarrow> uint64 \<Rightarrow> bool \<Rightarrow> 'z kst_scheme \<Rightarrow> (addr, 'z kst_scheme) res" where
  "walk_levels 0 pagetable va alloc s = Ok (pagetable + 8 * PX 0 va) s"
| "walk_levels (Suc level) pagetable va alloc s =
     (let pte = pagetable + 8 * PX (Suc level) va
      in if load64 (mem s) pte AND PTE_V \<noteq> 0
         then walk_levels level (PTE2PA (load64 (mem s) pte)) va alloc s
         else if \<not> alloc then Ok 0 s
         else bnd (kalloc s) (\<lambda>pg s.
              if pg = 0 then Ok 0 s
              else let s = s\<lparr>mem := memset pg 0 (ucast PGSIZE) (mem s)\<rparr>;
                       s = s\<lparr>mem := store64 (mem s) pte (PA2PTE pg OR PTE_V)\<rparr>
                   in walk_levels level pg va alloc s))"

definition walk :: "addr \<Rightarrow> uint64 \<Rightarrow> bool \<Rightarrow> 'z kst_scheme \<Rightarrow> (addr, 'z kst_scheme) res" where
  "walk pagetable va alloc s =
     (if va \<ge> MAXVA then Panic ''walk'' else walk_levels 2 pagetable va alloc s)"

definition walkaddr :: "addr \<Rightarrow> uint64 \<Rightarrow> 'z kst_scheme \<Rightarrow> (uint64, 'z kst_scheme) res" where
  "walkaddr pagetable va s =
     (if va \<ge> MAXVA then Ok 0 s
      else bnd (walk pagetable va False s) (\<lambda>pte s.
           if pte = 0 then Ok 0 s
           else if load64 (mem s) pte AND PTE_V = 0 then Ok 0 s
           else if load64 (mem s) pte AND PTE_U = 0 then Ok 0 s
           else Ok (PTE2PA (load64 (mem s) pte)) s))"

lemma walk_Ok_bound: "walk pt va al s = Ok x t \<Longrightarrow> va < MAXVA"
  by (auto simp: walk_def not_le split: if_splits)

lemma next_page: "a < MAXVA \<Longrightarrow> unat (a + 4096) = unat a + 4096"
  by (subst unat_add_lem [THEN iffD1]) (simp_all add: word_less_nat_alt)

function mappages_loop ::
  "uint64 \<Rightarrow> uint64 \<Rightarrow> uint64 \<Rightarrow> uint64 \<Rightarrow> addr \<Rightarrow> 'z kst_scheme \<Rightarrow> (int, 'z kst_scheme) res" where
  "mappages_loop a lst pa perm pagetable s =
     bnd (walk pagetable a True s) (\<lambda>pte s.
     if pte = 0 then Ok (-1) s
     else if load64 (mem s) pte AND PTE_V \<noteq> 0 then Panic ''mappages: remap''
     else let s = s\<lparr>mem := store64 (mem s) pte (PA2PTE pa OR perm OR PTE_V)\<rparr>
          in if a = lst then Ok 0 s
             else mappages_loop (a + PGSIZE) lst (pa + PGSIZE) perm pagetable s)"
  by pat_completeness auto
termination
proof (relation "measure (\<lambda>(a, _). unat MAXVA - unat a)", goal_cases)
  case (2 a last pa perm pt s x t z)
  then have "a < MAXVA" by (auto dest: walk_Ok_bound)
  then show ?case using next_page [of a] by (simp add: word_less_nat_alt)
qed simp

declare mappages_loop.simps [simp del]

definition mappages ::
  "addr \<Rightarrow> uint64 \<Rightarrow> uint64 \<Rightarrow> uint64 \<Rightarrow> uint64 \<Rightarrow> 'z kst_scheme \<Rightarrow> (int, 'z kst_scheme) res" where
  "mappages pagetable va sz pa perm s =
     (if sz = 0 then Panic ''mappages: size''
      else mappages_loop (PGROUNDDOWN va) (PGROUNDDOWN (va + sz - 1)) pa perm pagetable s)"

subsection \<open>The kernel's page table\<close>

definition kvmmap ::
  "addr \<Rightarrow> uint64 \<Rightarrow> uint64 \<Rightarrow> uint64 \<Rightarrow> uint64 \<Rightarrow> 'z kst_scheme \<Rightarrow> (unit, 'z kst_scheme) res" where
  "kvmmap kpgtbl va pa sz perm s =
     bnd (mappages kpgtbl va sz pa perm s) (\<lambda>r s. if r \<noteq> 0 then Panic ''kvmmap'' else Ok () s)"

definition proc_mapstacks :: "addr \<Rightarrow> 'z kst_scheme \<Rightarrow> (unit, 'z kst_scheme) res" where
  "proc_mapstacks kpgtbl =
     for_each (\<lambda>p s. bnd (kalloc s) (\<lambda>pa s.
       if pa = 0 then Panic ''kalloc''
       else kvmmap kpgtbl (KSTACK p) pa PGSIZE (PTE_R OR PTE_W) s)) [0..<NPROC]"

definition kvmmake :: "'z vst_scheme \<Rightarrow> (addr, 'z vst_scheme) res" where
  "kvmmake s =
     bnd (kalloc s) (\<lambda>kpgtbl s.
     let s = s\<lparr>mem := memset kpgtbl 0 (ucast PGSIZE) (mem s)\<rparr>
     in bnd (kvmmap kpgtbl UART0 UART0 PGSIZE (PTE_R OR PTE_W) s) (\<lambda>_ s.
        bnd (kvmmap kpgtbl VIRTIO0 VIRTIO0 PGSIZE (PTE_R OR PTE_W) s) (\<lambda>_ s.
        bnd (kvmmap kpgtbl PLIC PLIC 0x400000 (PTE_R OR PTE_W) s) (\<lambda>_ s.
        bnd (kvmmap kpgtbl KERNBASE KERNBASE (etext s - KERNBASE) (PTE_R OR PTE_X) s) (\<lambda>_ s.
        bnd (kvmmap kpgtbl (etext s) (etext s) (PHYSTOP - etext s) (PTE_R OR PTE_W) s) (\<lambda>_ s.
        bnd (kvmmap kpgtbl TRAMPOLINE (trampoline s) PGSIZE (PTE_R OR PTE_X) s) (\<lambda>_ s.
        bnd (proc_mapstacks kpgtbl s) (\<lambda>_ s. Ok kpgtbl s))))))))"

definition kvminit :: "'z vst_scheme \<Rightarrow> (unit, 'z vst_scheme) res" where
  "kvminit s = bnd (kvmmake s) (\<lambda>pt s. Ok () (s\<lparr>kernel_pagetable := pt\<rparr>))"

definition kvminithart :: "'z vst_scheme \<Rightarrow> 'z vst_scheme" where
  "kvminithart s = s\<lparr>satp := (satp s)(cpuid s := MAKE_SATP (kernel_pagetable s))\<rparr>"

subsection \<open>User address spaces\<close>

function uvmunmap_loop :: "uint64 \<Rightarrow> uint64 \<Rightarrow> bool \<Rightarrow> addr \<Rightarrow> 'z kst_scheme \<Rightarrow> (unit, 'z kst_scheme) res" where
  "uvmunmap_loop a bound do_free pagetable s =
     (if a < bound
      then bnd (walk pagetable a False s) (\<lambda>pte s.
           if pte = 0 then Panic ''uvmunmap: walk''
           else if load64 (mem s) pte AND PTE_V = 0 then Panic ''uvmunmap: not mapped''
           else if PTE_FLAGS (load64 (mem s) pte) = PTE_V then Panic ''uvmunmap: not a leaf''
           else bnd (if do_free then kfree (PTE2PA (load64 (mem s) pte)) s else Ok () s) (\<lambda>_ s.
                uvmunmap_loop (a + PGSIZE) bound do_free pagetable (s\<lparr>mem := store64 (mem s) pte 0\<rparr>)))
      else Ok () s)"
  by pat_completeness auto
termination
proof (relation "measure (\<lambda>(a, b, _). unat b - unat a)", goal_cases)
  case (2 a b df pt s x t u w)
  then have "a < MAXVA" by (auto dest: walk_Ok_bound)
  then show ?case using 2 next_page [of a] by (simp add: word_less_nat_alt)
qed simp

declare uvmunmap_loop.simps [simp del]

definition uvmunmap :: "addr \<Rightarrow> uint64 \<Rightarrow> uint64 \<Rightarrow> bool \<Rightarrow> 'z kst_scheme \<Rightarrow> (unit, 'z kst_scheme) res" where
  "uvmunmap pagetable va npages do_free s =
     (if va mod PGSIZE \<noteq> 0 then Panic ''uvmunmap: not aligned''
      else uvmunmap_loop va (va + npages * PGSIZE) do_free pagetable s)"

definition uvmcreate :: "'z kst_scheme \<Rightarrow> (addr, 'z kst_scheme) res" where
  "uvmcreate s =
     bnd (kalloc s) (\<lambda>pagetable s.
     if pagetable = 0 then Ok 0 s
     else Ok pagetable (s\<lparr>mem := memset pagetable 0 (ucast PGSIZE) (mem s)\<rparr>))"

definition uvmfirst :: "addr \<Rightarrow> uchar list \<Rightarrow> 'z kst_scheme \<Rightarrow> (unit, 'z kst_scheme) res" where
  "uvmfirst pagetable src s =
     (if length src \<ge> 4096 then Panic ''uvmfirst: more than a page''
      else bnd (kalloc s) (\<lambda>pg s.
           let s = s\<lparr>mem := memset pg 0 (ucast PGSIZE) (mem s)\<rparr>
           in bnd (mappages pagetable 0 PGSIZE pg (PTE_W OR PTE_R OR PTE_X OR PTE_U) s) (\<lambda>_ s.
              Ok () (s\<lparr>mem := store_bytes (mem s) pg src\<rparr>))))"

definition uvmdealloc :: "addr \<Rightarrow> uint64 \<Rightarrow> uint64 \<Rightarrow> 'z kst_scheme \<Rightarrow> (uint64, 'z kst_scheme) res" where
  "uvmdealloc pagetable oldsz newsz s =
     (if newsz \<ge> oldsz then Ok oldsz s
      else bnd (if PGROUNDUP newsz < PGROUNDUP oldsz
                then let npages = ucast ((PGROUNDUP oldsz - PGROUNDUP newsz) div PGSIZE) :: 32 word
                     in uvmunmap pagetable (PGROUNDUP newsz) (scast npages) True s
                else Ok () s) (\<lambda>_ s.
           Ok newsz s))"

lemma mappages_Ok_bound:
  assumes "mappages pt va sz pa perm s = Ok x t"
  shows "unat va < unat MAXVA + 4096"
proof -
  from assms have "PGROUNDDOWN va < MAXVA"
    by (auto simp: mappages_def mappages_loop.simps [of "PGROUNDDOWN va"] bnd_eq_Ok dest: walk_Ok_bound
        split: if_splits)
  then have "unat va div 4096 * 4096 < unat MAXVA" by (simp add: word_less_nat_alt unat_PGROUNDDOWN)
  moreover have "unat va = unat va div 4096 * 4096 + unat va mod 4096" "unat va mod 4096 < 4096" by simp_all
  ultimately show ?thesis by linarith
qed

function uvmalloc_loop ::
  "uint64 \<Rightarrow> uint64 \<Rightarrow> uint64 \<Rightarrow> uint64 \<Rightarrow> addr \<Rightarrow> 'z kst_scheme \<Rightarrow> (uint64, 'z kst_scheme) res" where
  "uvmalloc_loop a oldsz newsz xperm pagetable s =
     (if a < newsz
      then bnd (kalloc s) (\<lambda>pg s.
           if pg = 0 then bnd (uvmdealloc pagetable a oldsz s) (\<lambda>_ s. Ok 0 s)
           else let s = s\<lparr>mem := memset pg 0 (ucast PGSIZE) (mem s)\<rparr>
                in bnd (mappages pagetable a PGSIZE pg (PTE_R OR PTE_U OR xperm) s) (\<lambda>r s.
                   if r \<noteq> 0 then bnd (kfree pg s) (\<lambda>_ s. bnd (uvmdealloc pagetable a oldsz s) (\<lambda>_ s. Ok 0 s))
                   else uvmalloc_loop (a + PGSIZE) oldsz newsz xperm pagetable s))
      else Ok newsz s)"
  by pat_completeness auto
termination
proof (relation "measure (\<lambda>(a, _, n, _). unat n - unat a)", goal_cases)
  case (2 a oldsz n xp pt s x t u y v)
  then have "unat a < unat MAXVA + 4096" by (auto dest: mappages_Ok_bound)
  then have "unat (a + 4096) = unat a + 4096"
    by (subst unat_add_lem [THEN iffD1]) simp_all
  then show ?case using 2 by (simp add: word_less_nat_alt)
qed simp

declare uvmalloc_loop.simps [simp del]

definition uvmalloc :: "addr \<Rightarrow> uint64 \<Rightarrow> uint64 \<Rightarrow> uint64 \<Rightarrow> 'z kst_scheme \<Rightarrow> (uint64, 'z kst_scheme) res" where
  "uvmalloc pagetable oldsz newsz xperm s =
     (if newsz < oldsz then Ok oldsz s
      else let oldsz = PGROUNDUP oldsz in uvmalloc_loop oldsz oldsz newsz xperm pagetable s)"

text \<open>
  \<open>freewalk\<close> recurses once per level; the first argument bounds the depth, and the callers
  pass 3, the number of levels of an Sv39 table.
\<close>

primrec freewalk :: "nat \<Rightarrow> addr \<Rightarrow> 'z kst_scheme \<Rightarrow> (unit, 'z kst_scheme) res" where
  "freewalk 0 pagetable s = Diverge"
| "freewalk (Suc depth) pagetable s =
     bnd (for_each (\<lambda>i s.
            let pte = load64 (mem s) (pagetable + 8 * of_nat i)
            in if pte AND PTE_V \<noteq> 0 \<and> pte AND (PTE_R OR PTE_W OR PTE_X) = 0
               then bnd (freewalk depth (PTE2PA pte) s) (\<lambda>_ s.
                    Ok () (s\<lparr>mem := store64 (mem s) (pagetable + 8 * of_nat i) 0\<rparr>))
               else if pte AND PTE_V \<noteq> 0 then Panic ''freewalk: leaf''
               else Ok () s) [0..<512] s) (\<lambda>_ s.
     kfree pagetable s)"

definition uvmfree :: "addr \<Rightarrow> uint64 \<Rightarrow> 'z kst_scheme \<Rightarrow> (unit, 'z kst_scheme) res" where
  "uvmfree pagetable sz s =
     bnd (if sz > 0 then uvmunmap pagetable 0 (PGROUNDUP sz div PGSIZE) True s else Ok () s) (\<lambda>_ s.
     freewalk 3 pagetable s)"

definition uvmclear :: "addr \<Rightarrow> uint64 \<Rightarrow> 'z kst_scheme \<Rightarrow> (unit, 'z kst_scheme) res" where
  "uvmclear pagetable va s =
     bnd (walk pagetable va False s) (\<lambda>pte s.
     if pte = 0 then Panic ''uvmclear''
     else Ok () (s\<lparr>mem := store64 (mem s) pte (load64 (mem s) pte AND NOT PTE_U)\<rparr>))"

subsection \<open>Copy-on-write\<close>

definition cowmappage ::
  "addr \<Rightarrow> uint64 \<Rightarrow> uint64 \<Rightarrow> uint64 \<Rightarrow> uint64 \<Rightarrow> 'z kst_scheme \<Rightarrow> (int, 'z kst_scheme) res" where
  "cowmappage pagetable va sz pa perm s =
     (if pa mod PGSIZE \<noteq> 0 \<or> pa < kend s \<or> pa \<ge> PHYSTOP
      then Panic ''cowmappage: invalid physical address''
      else let pageIndex = pg_index pa in
        bnd (acquire (L_cowref pageIndex) s) (\<lambda>_ s.
        bnd (mappages pagetable va sz pa (perm OR PTE_COW) s) (\<lambda>mappingResult s.
        let s = (if mappingResult = 0
                 then s\<lparr>cowrefs := (cowrefs s)(pageIndex := cowrefs s pageIndex + 1)\<rparr> else s)
        in bnd (release (L_cowref pageIndex) s) (\<lambda>_ s. Ok mappingResult s))))"

definition dup_pg :: "addr \<Rightarrow> uint64 \<Rightarrow> 'z kst_scheme \<Rightarrow> (int, 'z kst_scheme) res" where
  "dup_pg pt va s =
     (if va \<ge> MAXVA \<or> va = 0 then Ok (-1) s
      else bnd (walk pt va False s) (\<lambda>pte s.
        if pte = 0 then Ok (-1) s
        else if load64 (mem s) pte AND PTE_COW = 0 then Ok 0 s
        else if load64 (mem s) pte AND PTE_U = 0 then Ok (-1) s
        else if load64 (mem s) pte AND PTE_V = 0 then Ok (-1) s
        else let oldpa = PTE2PA (load64 (mem s) pte) in
          bnd (kalloc s) (\<lambda>newpa s.
          if newpa = 0 then Ok (-2) s
          else let s = s\<lparr>mem := memmove newpa oldpa (ucast PGSIZE) (mem s)\<rparr>;
                   s = s\<lparr>mem := store64 (mem s) pte
                     (PA2PTE newpa OR PTE_U OR PTE_V OR PTE_W OR PTE_X OR PTE_R)\<rparr>;
                   s = s\<lparr>mem := store64 (mem s) pte (load64 (mem s) pte AND NOT PTE_COW)\<rparr>
               in bnd (kfree oldpa s) (\<lambda>_ s. Ok 0 s))))"

text \<open>
  \<open>uvmcowpy\<close> returns a \<open>uint64\<close>: the \<open>-1\<close> of its error path is the largest
  64-bit number.
\<close>

function uvmcowpy_loop :: "uint64 \<Rightarrow> addr \<Rightarrow> addr \<Rightarrow> uint64 \<Rightarrow> 'z kst_scheme \<Rightarrow> (uint64, 'z kst_scheme) res" where
  "uvmcowpy_loop i old new sz s =
     (if i < sz
      then bnd (walk old i False s) (\<lambda>pte s.
        if pte = 0 then Panic ''uvmreadonly: pte should exist''
        else if load64 (mem s) pte AND PTE_V = 0 then Panic ''uvmreadonly: page not present''
        else let s = s\<lparr>mem := store64 (mem s) pte (load64 (mem s) pte AND NOT PTE_W)\<rparr>;
                 s = s\<lparr>mem := store64 (mem s) pte (load64 (mem s) pte OR PTE_COW)\<rparr>
             in bnd (cowmappage new i PGSIZE (PTE2PA (load64 (mem s) pte)) (PTE_FLAGS (load64 (mem s) pte)) s)
                (\<lambda>r s. if r < 0 then bnd (uvmunmap new 0 (i div PGSIZE) True s) (\<lambda>_ s. Ok (-1) s)
                       else uvmcowpy_loop (i + PGSIZE) old new sz s))
      else Ok 0 s)"
  by pat_completeness auto
termination
proof (relation "measure (\<lambda>(a, _, _, n, _). unat n - unat a)", goal_cases)
  case (2 i old new sz s x t u w r v)
  then have "i < MAXVA" by (auto dest: walk_Ok_bound)
  then show ?case using 2 next_page [of i] by (simp add: word_less_nat_alt)
qed simp

declare uvmcowpy_loop.simps [simp del]

definition uvmcowpy :: "addr \<Rightarrow> addr \<Rightarrow> uint64 \<Rightarrow> 'z kst_scheme \<Rightarrow> (uint64, 'z kst_scheme) res" where
  "uvmcowpy old new sz s = uvmcowpy_loop 0 old new sz s"

subsection \<open>Copying between kernel and user space\<close>

lemma page_rest:
  "0 < unat (4096 - (a - PGROUNDDOWN a))"  "unat (4096 - (a - PGROUNDDOWN a)) = 4096 - unat a mod 4096"
proof -
  have "unat (a - PGROUNDDOWN a) = unat a mod 4096"
    by (simp add: unat_sub_if_size unat_PGROUNDDOWN modulo_nat_def mult.commute)
  moreover have "unat a mod 4096 < 4096" by simp
  ultimately show u: "unat (4096 - (a - PGROUNDDOWN a)) = 4096 - unat a mod 4096"
    by (subst unat_sub) (simp_all add: word_le_nat_alt)
  then show "0 < unat (4096 - (a - PGROUNDDOWN a))" by simp
qed

function copyout :: "addr \<Rightarrow> uint64 \<Rightarrow> uchar list \<Rightarrow> 'z kst_scheme \<Rightarrow> (int, 'z kst_scheme) res" where
  "copyout pagetable dstva src s =
     (if src = [] then Ok 0 s
      else let va0 = PGROUNDDOWN dstva in
        bnd (dup_pg pagetable va0 s) (\<lambda>r s.
        if r < 0 then Ok (-1) s
        else bnd (walkaddr pagetable va0 s) (\<lambda>pa0 s.
        if pa0 = 0 then Ok (-1) s
        else let n = min (unat (PGSIZE - (dstva - va0))) (length src);
                 s = s\<lparr>mem := store_bytes (mem s) (pa0 + (dstva - va0)) (take n src)\<rparr>
             in copyout pagetable (va0 + PGSIZE) (drop n src) s)))"
  by pat_completeness auto
termination
  by (relation "measure (\<lambda>(_, _, src, _). length src)") (use page_rest(1) in \<open>auto simp: min_def\<close>)

declare copyout.simps [simp del]

function copyin :: "addr \<Rightarrow> uint64 \<Rightarrow> nat \<Rightarrow> 'z kst_scheme \<Rightarrow> (int \<times> uchar list, 'z kst_scheme) res" where
  "copyin pagetable srcva len s =
     (if len = 0 then Ok (0, []) s
      else let va0 = PGROUNDDOWN srcva in
        bnd (walkaddr pagetable va0 s) (\<lambda>pa0 s.
        if pa0 = 0 then Ok (-1, []) s
        else let n = min (unat (PGSIZE - (srcva - va0))) len;
                 dst = load_bytes (mem s) (pa0 + (srcva - va0)) n
             in bnd (copyin pagetable (va0 + PGSIZE) (len - n) s) (\<lambda>(r, rest) s. Ok (r, dst @ rest) s)))"
  by pat_completeness auto
termination
  by (relation "measure (\<lambda>(_, _, len, _). len)") (use page_rest(1) in \<open>auto simp: min_def\<close>)

declare copyin.simps [simp del]

primrec copyinstr_page :: "nat \<Rightarrow> addr \<Rightarrow> pmem \<Rightarrow> bool \<times> uchar list" where
  "copyinstr_page 0 p m = (False, [])"
| "copyinstr_page (Suc n) p m =
     (if m p = 0 then (True, [0])
      else case copyinstr_page n (p + 1) m of (got_null, bs) \<Rightarrow> (got_null, m p # bs))"

function copyinstr :: "addr \<Rightarrow> uint64 \<Rightarrow> nat \<Rightarrow> 'z kst_scheme \<Rightarrow> (int \<times> uchar list, 'z kst_scheme) res" where
  "copyinstr pagetable srcva mx s =
     (if mx = 0 then Ok (-1, []) s
      else let va0 = PGROUNDDOWN srcva in
        bnd (walkaddr pagetable va0 s) (\<lambda>pa0 s.
        if pa0 = 0 then Ok (-1, []) s
        else let n = min (unat (PGSIZE - (srcva - va0))) mx
             in case copyinstr_page n (pa0 + (srcva - va0)) (mem s) of (got_null, dst) \<Rightarrow>
                if got_null then Ok (0, dst) s
                else bnd (copyinstr pagetable (va0 + PGSIZE) (mx - n) s) (\<lambda>(r, rest) s.
                     Ok (r, dst @ rest) s)))"
  by pat_completeness auto
termination
  by (relation "measure (\<lambda>(_, _, mx, _). mx)") (use page_rest(1) in \<open>auto simp: min_def\<close>)

declare copyinstr.simps [simp del]

end
