(* ===== verification/PageTable.thy ===== *)
theory PageTable
  imports Vm
begin

text \<open>
  The abstraction of a three-level page table in physical memory. \<open>frame_at m pt p\<close> is the
  table page reached from the root \<open>pt\<close> along the indices \<open>p\<close>, \<open>pte_at m pt va\<close> the leaf
  entry of a virtual address (0 when a level is missing). \<open>pt_wf\<close> says that the table pages
  are allocatable frames and form a tree. The lemmas describe how storing a leaf entry and
  linking a new table page change \<open>frame_at\<close> and \<open>pte_at\<close>; \<open>walk_spec\<close> puts them
  together for \<open>walk\<close> with allocation.
\<close>

subsection \<open>Entries\<close>

lemma bit_mask10: "bit (0x3FF :: uint64) n \<longleftrightarrow> n < 10"
proof -
  have "(0x3FF :: uint64) = mask 10" by (simp add: mask_eq_exp_minus_1)
  then show ?thesis by (simp only: bit_mask_iff) auto
qed

lemma PX_take_bit: "PX l va = take_bit 9 (drop_bit (12 + 9 * l) va)"
proof -
  have "(0x1FF :: uint64) = mask 9" by (simp add: mask_eq_exp_minus_1)
  then show ?thesis by (simp only: PX_def take_bit_eq_mask)
qed

lemma PX_less: "PX l va < 512"
proof -
  have "unat (PX l va) < 2 ^ 9"
    unfolding PX_take_bit unsigned_take_bit_eq by (rule take_bit_nat_less_exp)
  then show ?thesis by (simp add: word_less_nat_alt)
qed

lemma aligned_bits: "aligned 4096 pa \<Longrightarrow> n < 12 \<Longrightarrow> \<not> bit pa n"
proof -
  assume "aligned 4096 pa" "n < 12"
  then have "take_bit 12 pa = 0"
    by (simp only: aligned_def word_unat_eq_iff unsigned_take_bit_eq) (simp add: take_bit_eq_mod)
  then have "\<not> bit (take_bit 12 pa) n" by simp
  with \<open>n < 12\<close> show ?thesis by (simp add: bit_take_bit_iff)
qed

lemma flags_bits: "PTE_FLAGS f = f \<Longrightarrow> 10 \<le> n \<Longrightarrow> \<not> bit f n"
  by (metis PTE_FLAGS_def bit_and_iff bit_mask10 not_le)

lemma PTE2PA_PA2PTE:
  assumes "aligned 4096 pa" "PTE_FLAGS f = f"
  shows "PTE2PA (PA2PTE pa OR f) = pa"
proof (rule bit_word_eqI)
  fix n assume "n < LENGTH(64)"
  then show "bit (PTE2PA (PA2PTE pa OR f)) n = bit pa n"
    using aligned_bits [OF assms(1), of n] flags_bits [OF assms(2), of "n - 2"] bit_imp_le_length [of f "n - 2"]
    by (cases "n < 12") (auto simp: PTE2PA_def PA2PTE_def bit_simps)
qed

lemma PTE_AND_flag:
  assumes "PTE_FLAGS c = c"
  shows "(PA2PTE pa OR f) AND c = f AND c"
proof (rule bit_word_eqI)
  fix n assume "n < LENGTH(64)"
  then show "bit ((PA2PTE pa OR f) AND c) n = bit (f AND c) n"
    using flags_bits [OF assms, of n] by (cases "n < 10") (auto simp: PA2PTE_def bit_simps)
qed

lemma PTE_FLAGS_PA2PTE: "PTE_FLAGS f = f \<Longrightarrow> PTE_FLAGS (PA2PTE pa OR f) = f"
  unfolding PTE_FLAGS_def by (subst PTE_AND_flag) (simp_all add: PTE_FLAGS_def)

lemma PTE_FLAGS_OR [simp]: "PTE_FLAGS f = f \<Longrightarrow> PTE_FLAGS g = g \<Longrightarrow> PTE_FLAGS (f OR g) = f OR g"
  unfolding PTE_FLAGS_def by (simp add: and.commute [of _ "0x3FF"] bit.conj_disj_distrib)

lemma PTE_FLAGS_consts [simp]:
  "PTE_FLAGS PTE_V = PTE_V" "PTE_FLAGS PTE_R = PTE_R" "PTE_FLAGS PTE_W = PTE_W"
  "PTE_FLAGS PTE_X = PTE_X" "PTE_FLAGS PTE_U = PTE_U" "PTE_FLAGS PTE_COW = PTE_COW"
  by (simp_all add: PTE_FLAGS_def pte_bits)

lemma flag_nonzero [simp]: "PTE_V \<noteq> 0" "PTE_U \<noteq> 0" "PTE_COW \<noteq> 0" "PTE_W \<noteq> 0"
  by (simp_all add: pte_bits)

lemma aligned_PTE2PA: "aligned 4096 (PTE2PA e)"
proof -
  have "take_bit 12 (PTE2PA e) = 0"
    by (rule bit_word_eqI) (auto simp: PTE2PA_def bit_simps)
  then have "take_bit 12 (unat (PTE2PA e)) = 0" by (metis unat_0 unsigned_take_bit_eq)
  then show ?thesis by (simp add: aligned_def take_bit_eq_mod)
qed

subsection \<open>Paths\<close>

definition pt_entry :: "pmem \<Rightarrow> addr \<Rightarrow> uint64 \<Rightarrow> uint64" where
  "pt_entry m f i = load64 m (f + 8 * i)"

primrec frame_at :: "pmem \<Rightarrow> addr \<Rightarrow> uint64 list \<Rightarrow> addr option" where
  "frame_at m f [] = Some f"
| "frame_at m f (i # is) =
     (if pt_entry m f i AND PTE_V \<noteq> 0 then frame_at m (PTE2PA (pt_entry m f i)) is else None)"

lemma frame_at_append: "frame_at m f (p @ q) = (case frame_at m f p of None \<Rightarrow> None | Some g \<Rightarrow> frame_at m g q)"
  by (induction p arbitrary: f) simp_all

definition idxs :: "uint64 list \<Rightarrow> bool" where
  "idxs p \<longleftrightarrow> length p \<le> 2 \<and> (\<forall>i\<in>set p. i < 512)"

definition vpath :: "uint64 \<Rightarrow> uint64 list" where
  "vpath va = [PX 2 va, PX 1 va]"

lemma idxs_vpath [simp]: "idxs (vpath va)"
  by (simp add: idxs_def vpath_def PX_less)

definition tables :: "pmem \<Rightarrow> addr \<Rightarrow> addr set" where
  "tables m pt = {f. \<exists>p. idxs p \<and> frame_at m pt p = Some f}"

definition pt_wf :: "addr \<Rightarrow> pmem \<Rightarrow> addr \<Rightarrow> bool" where
  "pt_wf e m pt \<longleftrightarrow> (\<forall>f\<in>tables m pt. frame_ok e f) \<and>
     (\<forall>p q. idxs p \<and> idxs q \<and> frame_at m pt p \<noteq> None \<and> frame_at m pt p = frame_at m pt q \<longrightarrow> p = q)"

definition leaf_slot :: "pmem \<Rightarrow> addr \<Rightarrow> uint64 \<Rightarrow> addr" where
  "leaf_slot m pt va = (case frame_at m pt (vpath va) of None \<Rightarrow> 0 | Some f \<Rightarrow> f + 8 * PX 0 va)"

definition pte_at :: "pmem \<Rightarrow> addr \<Rightarrow> uint64 \<Rightarrow> uint64" where
  "pte_at m pt va = (case frame_at m pt (vpath va) of None \<Rightarrow> 0 | Some f \<Rightarrow> pt_entry m f (PX 0 va))"

lemma tablesI: "idxs p \<Longrightarrow> frame_at m pt p = Some f \<Longrightarrow> f \<in> tables m pt"
  by (auto simp: tables_def)

lemma pt_wf_inj: "pt_wf e m pt \<Longrightarrow> idxs p \<Longrightarrow> idxs q \<Longrightarrow> frame_at m pt p = Some f \<Longrightarrow>
    frame_at m pt q = Some f \<Longrightarrow> p = q"
  unfolding pt_wf_def by (metis option.distinct(1))

lemma pt_wfI:
  assumes "\<And>f. f \<in> tables m pt \<Longrightarrow> frame_ok e f"
    and "\<And>p q f. idxs p \<Longrightarrow> idxs q \<Longrightarrow> frame_at m pt p = Some f \<Longrightarrow> frame_at m pt q = Some f \<Longrightarrow> p = q"
  shows "pt_wf e m pt"
  using assms unfolding pt_wf_def by force

lemma pt_wf_frame: "pt_wf e m pt \<Longrightarrow> f \<in> tables m pt \<Longrightarrow> frame_ok e f"
  by (simp add: pt_wf_def)

lemma pt_wf_aligned: "pt_wf e m pt \<Longrightarrow> f \<in> tables m pt \<Longrightarrow> aligned 4096 f"
  by (auto simp: frame_ok_def dest: pt_wf_frame)

lemma idxs_prefix: "idxs (p @ q) \<Longrightarrow> idxs p"
  by (auto simp: idxs_def)

text \<open>
  Without allocation \<open>walk\<close> reads the tables and returns the address of the leaf entry.
\<close>

lemma walk_levels_read:
  "walk_levels n f va False s = Ok (case frame_at (mem s) f (map (\<lambda>l. PX l va) (rev [1..<Suc n])) of
     None \<Rightarrow> 0 | Some g \<Rightarrow> g + 8 * PX 0 va) s"
  by (induction n arbitrary: f) (simp_all add: Let_def pt_entry_def)

lemma walk_read: "va < MAXVA \<Longrightarrow> walk pt va False s = Ok (leaf_slot (mem s) pt va) s"
  by (simp add: walk_def walk_levels_read leaf_slot_def vpath_def eval_nat_numeral)

lemma walk_out_of_range: "\<not> va < MAXVA \<Longrightarrow> walk pt va al s = Panic ''walk''"
  by (simp add: walk_def not_less)

subsection \<open>Memory of the tables\<close>

lemma entry_in_page: "i < 512 \<Longrightarrow> in_range (f + 8 * i) 8 x \<Longrightarrow> in_range f 4096 x"
proof (rule in_range_sub [of "f + 8 * i" f 8])
  assume "i < 512"
  then have "unat i < 512" by (simp add: word_less_nat_alt)
  then have "unat (8 * i) = 8 * unat i" by (subst unat_mult_lem [THEN iffD1]) simp_all
  with \<open>unat i < 512\<close> show "unat (f + 8 * i - f) + 8 \<le> 4096" by simp
qed simp_all

lemma entry_store_outside: "i < 512 \<Longrightarrow> \<not> in_range f 4096 x \<Longrightarrow> store64 m (f + 8 * i) v x = m x"
  using entry_in_page [of i f x] by (intro store64_outside) auto

lemma unat_entry_offset: "i < 512 \<Longrightarrow> unat (8 * i :: uint64) = 8 * unat i"
  by (subst unat_mult_lem [THEN iffD1]) (simp_all add: word_less_nat_alt)

lemma entry_addr:
  assumes "aligned 4096 f" "i < 512"
  shows "unat (f + 8 * i) = unat f + 8 * unat i"
proof -
  have i: "unat i < 512" using assms(2) by (simp add: word_less_nat_alt)
  then have "in_range f 4096 (f + 8 * i)" using assms(2) by (simp add: in_range_def unat_entry_offset)
  moreover have "(4096 :: nat) dvd 2 ^ 64" by simp
  ultimately have "unat (f + 8 * i) = unat f + unat (f + 8 * i - f)"
    using in_range_aligned [OF assms(1)] by (metis (no_types))
  then show ?thesis by (simp add: unat_entry_offset assms(2))
qed

lemma entry_addr_inj:
  assumes "aligned 4096 f" "aligned 4096 g" "i < 512" "j < 512" "f + 8 * i = g + 8 * j"
  shows "f = g \<and> i = j"
proof -
  have i: "unat i < 512" "unat j < 512" using assms by (simp_all add: word_less_nat_alt)
  have "in_range f 4096 (f + 8 * i)" "in_range g 4096 (g + 8 * j)"
    using assms(3,4) i by (simp_all add: in_range_def unat_entry_offset)
  then have "f = g" using assms aligned_disjoint [of 4096 f g "g + 8 * j"] by simp
  moreover from this have "unat i = unat j"
    using entry_addr [OF assms(1,3)] entry_addr [OF assms(2,4)] assms(5) by simp
  ultimately show ?thesis by (simp add: word_unat_eq_iff)
qed

lemma entry_aligned: "aligned 4096 f \<Longrightarrow> i < 512 \<Longrightarrow> aligned 8 (f + 8 * i)"
proof -
  assume f: "aligned 4096 f" and i: "i < 512"
  have "(8 :: nat) dvd 4096" by simp
  then have "8 dvd unat f" using f dvd_trans unfolding aligned_def mod_eq_0_iff_dvd by blast
  then have "8 dvd unat (f + 8 * i)" by (simp add: entry_addr [OF f i])
  then show ?thesis by (simp only: aligned_def mod_eq_0_iff_dvd)
qed

lemma pt_entry_store:
  assumes "aligned 4096 f" "aligned 4096 g" "i < 512" "j < 512"
  shows "pt_entry (store64 m (f + 8 * i) v) g j = (if g = f \<and> j = i then v else pt_entry m g j)"
proof (cases "g = f \<and> j = i")
  case False
  then have "f + 8 * i \<noteq> g + 8 * j" using entry_addr_inj [OF assms] by auto
  with assms False show ?thesis
    by (auto simp: pt_entry_def intro!: load64_store64_disjoint entry_aligned)
qed (simp add: pt_entry_def)

lemma pt_entry_agree:
  assumes "i < 512" "\<And>x. in_range f 4096 x \<Longrightarrow> m x = m' x"
  shows "pt_entry m f i = pt_entry m' f i"
  unfolding pt_entry_def using assms entry_in_page [OF assms(1), of f] by (intro load64_agree) auto

lemma pt_entry_zero: "i < 512 \<Longrightarrow> pt_entry (fill_bytes m f 0 4096) f i = 0"
  unfolding pt_entry_def using entry_in_page by (intro load64_fill_inside) auto

text \<open>
  Memory that agrees on the table pages has the same tables and entries.
\<close>

lemma frame_at_agree:
  assumes "\<And>f x. f \<in> tables m pt \<Longrightarrow> in_range f 4096 x \<Longrightarrow> m' x = m x" "idxs p"
  shows "frame_at m' pt p = frame_at m pt p"
  using assms(2)
proof (induction p rule: rev_induct)
  case (snoc i p)
  then have i: "idxs p" "i < 512" by (auto simp: idxs_def)
  with snoc.IH have IH: "frame_at m' pt p = frame_at m pt p" by simp
  have "pt_entry m' f i = pt_entry m f i" if "frame_at m pt p = Some f" for f
    using assms(1) [OF tablesI [OF i(1) that]] by (intro pt_entry_agree i(2))
  then show ?case by (auto simp: frame_at_append IH split: option.split)
qed simp

lemma pt_agree:
  assumes "\<And>f x. f \<in> tables m pt \<Longrightarrow> in_range f 4096 x \<Longrightarrow> m' x = m x"
  shows "tables m' pt = tables m pt" "pt_wf e m' pt = pt_wf e m pt"
    "pte_at m' pt va = pte_at m pt va" "leaf_slot m' pt va = leaf_slot m pt va"
proof -
  have fr: "frame_at m' pt p = frame_at m pt p" if "idxs p" for p
    using frame_at_agree [OF assms that] .
  show tb: "tables m' pt = tables m pt" using fr by (auto simp: tables_def)
  show "pt_wf e m' pt = pt_wf e m pt"
    unfolding pt_wf_def tb by (simp add: fr cong: conj_cong)
  show "leaf_slot m' pt va = leaf_slot m pt va" by (simp add: leaf_slot_def fr)
  have "pt_entry m' f (PX 0 va) = pt_entry m f (PX 0 va)" if "frame_at m pt (vpath va) = Some f" for f
  proof -
    from that have "f \<in> tables m pt" by (rule tablesI [OF idxs_vpath])
    with assms show ?thesis by (intro pt_entry_agree PX_less) blast
  qed
  then show "pte_at m' pt va = pte_at m pt va" by (auto simp: pte_at_def fr split: option.split)
qed

subsection \<open>Virtual pages\<close>

lemma same_vpage:
  assumes "va < MAXVA" "vb < MAXVA"
  shows "vpath va = vpath vb \<and> PX 0 va = PX 0 vb \<longleftrightarrow> PGROUNDDOWN va = PGROUNDDOWN vb"
proof
  have hi: "\<not> bit v n" if "v < MAXVA" "38 \<le> n" for v :: uint64 and n
  proof -
    have "unat v < 2 ^ 38" using that by (simp add: word_less_nat_alt)
    then have "take_bit 38 (unat v) = unat v" by (simp add: take_bit_nat_eq_self)
    then have "take_bit 38 v = v" by (metis unsigned_take_bit_eq word_unat_eq_iff)
    then have "bit v n = bit (take_bit 38 v) n" by (simp only:)
    with that show ?thesis by (simp add: bit_take_bit_iff)
  qed
  have px: "bit (PX l v) k \<longleftrightarrow> k < 9 \<and> bit v (12 + 9 * l + k)" for l k v
    by (simp add: PX_take_bit bit_take_bit_iff bit_drop_bit_eq)
  assume eq: "vpath va = vpath vb \<and> PX 0 va = PX 0 vb"
  have "drop_bit 12 va = drop_bit 12 vb"
  proof (rule bit_word_eqI)
    fix n assume "n < LENGTH(64)"
    have 0: "bit (PX 0 va) n = bit (PX 0 vb) n" "bit (PX 1 va) (n - 9) = bit (PX 1 vb) (n - 9)"
      "bit (PX 2 va) (n - 18) = bit (PX 2 vb) (n - 18)" using eq by (simp_all add: vpath_def)
    consider "n < 9" | "9 \<le> n" "n < 18" | "18 \<le> n" "n < 27" | "27 \<le> n" by linarith
    then show "bit (drop_bit 12 va) n = bit (drop_bit 12 vb) n"
      using 0 hi [OF assms(1), of "12 + n"] hi [OF assms(2), of "12 + n"]
      by cases (auto simp: px bit_drop_bit_eq)
  qed
  moreover have "unat (drop_bit 12 v) = unat v div 4096" for v :: uint64
    by (simp add: drop_bit_eq_div unat_div)
  ultimately have "unat va div 4096 = unat vb div 4096" by metis
  then show "PGROUNDDOWN va = PGROUNDDOWN vb" by (simp add: word_unat_eq_iff unat_PGROUNDDOWN)
next
  assume "PGROUNDDOWN va = PGROUNDDOWN vb"
  then have "unat va div 4096 = unat vb div 4096"
    using unat_PGROUNDDOWN [of va] unat_PGROUNDDOWN [of vb] by simp
  then have "unat (drop_bit 12 va) = unat (drop_bit 12 vb)" by (simp add: drop_bit_eq_div unat_div)
  then have d: "drop_bit 12 va = drop_bit 12 vb" by (simp only: word_unat_eq_iff)
  have "PX l v = take_bit 9 (drop_bit (9 * l) (drop_bit 12 v))" for l v
    unfolding PX_take_bit drop_bit_drop_bit by (simp only: add.commute)
  then have "PX l va = PX l vb" for l using d by (simp only:)
  then show "vpath va = vpath vb \<and> PX 0 va = PX 0 vb" by (simp only: vpath_def)
qed

subsection \<open>Storing a leaf entry\<close>

lemma frame_at_leaf_store:
  assumes "pt_wf e m pt" "frame_at m pt r = Some f" "idxs r" "length r = 2" "i < 512" "idxs p"
  shows "frame_at (store64 m (f + 8 * i) v) pt p = frame_at m pt p"
  using assms(6)
proof (induction p rule: rev_induct)
  case (snoc j p)
  then have p: "idxs p" "j < 512" "length p < 2" by (auto simp: idxs_def)
  with snoc.IH have IH: "frame_at (store64 m (f + 8 * i) v) pt p = frame_at m pt p" by simp
  have "pt_entry (store64 m (f + 8 * i) v) g j = pt_entry m g j" if g: "frame_at m pt p = Some g" for g
  proof -
    have "g \<noteq> f" using pt_wf_inj [OF assms(1) p(1) assms(3) g] assms(2,4) p(3) by auto
    moreover have "aligned 4096 f" "aligned 4096 g"
      using pt_wf_aligned [OF assms(1)] tablesI [OF assms(3,2)] tablesI [OF p(1) g] by auto
    ultimately show ?thesis using assms(5) p(2) by (simp add: pt_entry_store)
  qed
  then show ?case by (auto simp: frame_at_append IH split: option.split)
qed simp

lemma leaf_store:
  fixes v :: uint64
  assumes "pt_wf e m pt" "frame_at m pt (vpath va) = Some f" "va < MAXVA"
  defines "m' \<equiv> store64 m (f + 8 * PX 0 va) v"
  shows "tables m' pt = tables m pt" "pt_wf e m' pt"
    "vb < MAXVA \<Longrightarrow> pte_at m' pt vb = (if PGROUNDDOWN vb = PGROUNDDOWN va then v else pte_at m pt vb)"
    "leaf_slot m' pt vb = leaf_slot m pt vb"
proof -
  have fr: "frame_at m' pt p = frame_at m pt p" if "idxs p" for p
    unfolding m'_def
    by (rule frame_at_leaf_store [OF assms(1,2) idxs_vpath _ PX_less that]) (simp add: vpath_def)
  show tb: "tables m' pt = tables m pt" using fr by (auto simp: tables_def)
  show "pt_wf e m' pt"
    using pt_wf_frame [OF assms(1)] pt_wf_inj [OF assms(1)] by (intro pt_wfI) (auto simp: fr tb)
  show "leaf_slot m' pt vb = leaf_slot m pt vb" by (simp add: leaf_slot_def fr)
  assume vb: "vb < MAXVA"
  show "pte_at m' pt vb = (if PGROUNDDOWN vb = PGROUNDDOWN va then v else pte_at m pt vb)"
  proof (cases "frame_at m pt (vpath vb)")
    case None
    then have "vpath vb \<noteq> vpath va" using assms(2) by auto
    then show ?thesis using None same_vpage [OF vb assms(3)] by (simp add: pte_at_def fr)
  next
    case (Some g)
    have al: "aligned 4096 f" "aligned 4096 g"
      using pt_wf_aligned [OF assms(1)] tablesI [OF idxs_vpath assms(2)] tablesI [OF idxs_vpath Some] by auto
    have "g = f \<longleftrightarrow> vpath vb = vpath va"
      using pt_wf_inj [OF assms(1) idxs_vpath idxs_vpath, of vb g va] Some assms(2) by auto
    moreover have "pt_entry m' g (PX 0 vb) = (if g = f \<and> PX 0 vb = PX 0 va then v else pt_entry m g (PX 0 vb))"
      unfolding m'_def using al by (intro pt_entry_store PX_less)
    ultimately show ?thesis using Some same_vpage [OF vb assms(3)] by (simp add: pte_at_def fr)
  qed
qed

subsection \<open>Linking a new table\<close>

lemma frame_at_link:
  assumes "pt_wf e m pt" "idxs (p @ [i])" "frame_at m pt p = Some f" "pt_entry m f i AND PTE_V = 0"
    and "aligned 4096 g" "g \<notin> tables m pt" "idxs q"
  defines "m' \<equiv> store64 (fill_bytes m g 0 4096) (f + 8 * i) (PA2PTE g OR PTE_V)"
  shows "frame_at m' pt q = (if q = p @ [i] then Some g else frame_at m pt q)"
  using assms(7)
proof (induction q rule: rev_induct)
  case Nil
  then show ?case by simp
next
  case (snoc j q)
  then have q: "idxs q" "j < 512" by (auto simp: idxs_def)
  note IH = snoc.IH [OF q(1)]
  from assms(2) have pi: "idxs p" "i < 512" by (auto simp: idxs_def)
  have f: "f \<in> tables m pt" "aligned 4096 f"
    using tablesI [OF pi(1) assms(3)] pt_wf_aligned [OF assms(1)] by auto
  have un: "frame_at m pt (p @ [i]) = None" using assms(3,4) by (simp add: frame_at_append)
  have new: "pt_entry m' g j = 0"
    using assms(5,6) f q(2) pi(2) by (auto simp: m'_def pt_entry_store pt_entry_zero)
  have old: "pt_entry m' h j = (if h = f \<and> j = i then PA2PTE g OR PTE_V else pt_entry m h j)"
    if "h \<in> tables m pt" for h
  proof -
    have h: "aligned 4096 h" "h \<noteq> g" using that assms(6) pt_wf_aligned [OF assms(1)] by auto
    then have "pt_entry (fill_bytes m g 0 4096) h j = pt_entry m h j"
      using pages_disjoint [OF h(1) assms(5)] q(2) by (intro pt_entry_agree) (auto simp: fill_bytes_def)
    then show ?thesis using h f(2) q(2) pi(2) by (simp add: m'_def pt_entry_store)
  qed
  show ?case
  proof (cases "q = p @ [i]")
    case True
    have "frame_at m' pt (q @ [j]) = None" unfolding frame_at_append IH using True new by simp
    moreover have "frame_at m pt (q @ [j]) = None" unfolding frame_at_append using True un by simp
    ultimately show ?thesis using True by simp
  next
    case False
    show ?thesis
    proof (cases "frame_at m pt q")
      case None
      with assms(3) have "q \<noteq> p" by auto
      with None False show ?thesis by (simp add: IH frame_at_append)
    next
      case (Some h)
      have "h = f \<longleftrightarrow> q = p" using pt_wf_inj [OF assms(1) q(1) pi(1) Some] Some assms(3) by auto
      with old [OF tablesI [OF q(1) Some]] False Some show ?thesis
        by (auto simp: IH frame_at_append PTE_AND_flag PTE2PA_PA2PTE [OF assms(5)])
    qed
  qed
qed

lemma link_table:
  assumes "pt_wf e m pt" "idxs (p @ [i])" "frame_at m pt p = Some f" "pt_entry m f i AND PTE_V = 0"
    and "frame_ok e g" "g \<notin> tables m pt"
  defines "m' \<equiv> store64 (fill_bytes m g 0 4096) (f + 8 * i) (PA2PTE g OR PTE_V)"
  shows "tables m' pt = insert g (tables m pt)" "pt_wf e m' pt" "frame_at m' pt (p @ [i]) = Some g"
    "pte_at m' pt va = pte_at m pt va"
    "\<And>x. \<not> in_range f 4096 x \<Longrightarrow> \<not> in_range g 4096 x \<Longrightarrow> m' x = m x"
proof -
  from assms(5) have al: "aligned 4096 g" by (simp add: frame_ok_def)
  have fr: "frame_at m' pt q = (if q = p @ [i] then Some g else frame_at m pt q)" if "idxs q" for q
    unfolding m'_def by (rule frame_at_link [OF assms(1-4) al assms(6) that])
  have un: "frame_at m pt (p @ [i]) = None" using assms(3,4) by (simp add: frame_at_append)
  show tb: "tables m' pt = insert g (tables m pt)"
  proof (intro set_eqI iffI)
    fix h assume "h \<in> tables m' pt"
    then show "h \<in> insert g (tables m pt)" by (auto simp: tables_def fr split: if_splits)
  next
    fix h assume "h \<in> insert g (tables m pt)"
    moreover have "g \<in> tables m' pt" using assms(2) by (auto intro: tablesI simp: fr)
    moreover have "h \<in> tables m' pt" if "idxs q" "frame_at m pt q = Some h" for q
      using that un by (intro tablesI [OF that(1)]) (auto simp: fr)
    ultimately show "h \<in> tables m' pt" by (auto simp: tables_def [of m])
  qed
  show pi: "frame_at m' pt (p @ [i]) = Some g" by (simp add: fr assms(2))
  have nog: "frame_at m pt q \<noteq> Some g" if "idxs q" for q using assms(6) tablesI [OF that] by auto
  show "pt_wf e m' pt"
  proof (rule pt_wfI)
    show "frame_ok e h" if "h \<in> tables m' pt" for h
      using that assms(5) pt_wf_frame [OF assms(1)] by (auto simp: tb)
    show "q = r" if "idxs q" "idxs r" "frame_at m' pt q = Some h" "frame_at m' pt r = Some h" for q r h
      using that nog [OF that(1)] nog [OF that(2)] pt_wf_inj [OF assms(1) that(1,2)]
      by (auto simp: fr split: if_splits)
  qed
  from assms(2) have i: "i < 512" by (auto simp: idxs_def)
  have f: "f \<in> tables m pt" "aligned 4096 f"
    using tablesI [OF idxs_prefix [OF assms(2)] assms(3)] pt_wf_aligned [OF assms(1)] by auto
  show mm: "m' x = m x" if "\<not> in_range f 4096 x" "\<not> in_range g 4096 x" for x
    using that i by (simp add: m'_def entry_store_outside) (simp add: fill_bytes_def)
  show "pte_at m' pt va = pte_at m pt va"
  proof (cases "vpath va = p @ [i]")
    case True
    have "pt_entry m' g (PX 0 va) = 0"
      using assms(6) f al i by (auto simp: m'_def pt_entry_store pt_entry_zero PX_less)
    with True un pi show ?thesis by (simp add: pte_at_def)
  next
    case False
    have "pt_entry m' h (PX 0 va) = pt_entry m h (PX 0 va)" if h: "frame_at m pt (vpath va) = Some h" for h
    proof -
      have "length p < length (vpath va)" using assms(2) by (simp add: idxs_def vpath_def)
      then have hf: "h \<noteq> f" using pt_wf_inj [OF assms(1) idxs_vpath idxs_prefix [OF assms(2)] h] assms(3) by auto
      have ht: "h \<in> tables m pt" by (rule tablesI [OF idxs_vpath h])
      then have ha: "aligned 4096 h" "h \<noteq> g" using assms(6) pt_wf_aligned [OF assms(1)] by auto
      show ?thesis
        using mm pages_disjoint [OF ha(1) f(2) hf] pages_disjoint [OF ha(1) al ha(2)]
        by (intro pt_entry_agree PX_less) auto
    qed
    with False show ?thesis by (auto simp: pte_at_def fr split: option.split)
  qed
qed

subsection \<open>walk with allocation\<close>

text \<open>
  \<open>mem_step s t\<close>: the states differ at most in memory, the free list, the reference
  counts and the saved \<open>intena\<close>. \<open>pt_env s pt xs\<close>: a well-formed page table beside the free
  pages \<open>xs\<close>. \<open>pt_step\<close>: some free pages became table pages and nothing outside the tables
  changed.
\<close>

definition mem_step :: "'z kst_scheme \<Rightarrow> 'z kst_scheme \<Rightarrow> bool" where
  "mem_step s t \<longleftrightarrow> touch t = touch (s\<lparr>mem := mem t, freelist := freelist t, cowrefs := cowrefs t\<rparr>)"

lemma mem_step_refl [simp]: "mem_step s s"
  by (simp add: mem_step_def)

lemma mem_step_trans: "mem_step s t \<Longrightarrow> mem_step t u \<Longrightarrow> mem_step s u"
  unfolding mem_step_def touch_kst_upd by simp

lemma mem_step_fields:
  assumes "mem_step s t"
  shows "kend t = kend s" "hart t = hart s" "locks t = locks s" "sie t = sie s"
    "noff (cpus t i) = noff (cpus s i)" "cpu_proc (cpus t i) = cpu_proc (cpus s i)"
proof -
  have *: "f (touch t) = f (touch (s\<lparr>mem := mem t, freelist := freelist t, cowrefs := cowrefs t\<rparr>))" for f
    using assms by (simp add: mem_step_def)
  show "kend t = kend s" using * [of kend] by simp
  show "hart t = hart s" using * [of hart] by simp
  show "locks t = locks s" using * [of locks] by simp
  show "sie t = sie s" using * [of sie] by simp
  show "noff (cpus t i) = noff (cpus s i)" using * [of "\<lambda>s. noff (cpus s i)"] by simp
  show "cpu_proc (cpus t i) = cpu_proc (cpus s i)" using * [of "\<lambda>s. cpu_proc (cpus s i)"] by simp
qed

lemma mem_step_locks:
  assumes "mem_step s t"
  shows "kmem_unlocked t = kmem_unlocked s" "cow_unlocked t = cow_unlocked s"
  using mem_step_fields [OF assms] by (simp_all add: kmem_unlocked_def cow_unlocked_def irq_ok_def)

lemma mem_step_upd [simp]:
  "mem_step s (s\<lparr>mem := m\<rparr>)" "mem_step s (touch s)" "mem_step s (s\<lparr>cowrefs := c\<rparr>)"
  by (simp_all add: mem_step_def)

definition pt_env :: "'z kst_scheme \<Rightarrow> addr \<Rightarrow> addr list \<Rightarrow> bool" where
  "pt_env s pt xs \<longleftrightarrow> pool s xs \<and> kmem_unlocked s \<and> pt_wf (kend s) (mem s) pt \<and>
     tables (mem s) pt \<inter> set xs = {}"

definition pt_step :: "'z kst_scheme \<Rightarrow> 'z kst_scheme \<Rightarrow> addr \<Rightarrow> addr list \<Rightarrow> addr list \<Rightarrow> bool" where
  "pt_step s t pt xs ys \<longleftrightarrow> mem_step s t \<and> cowrefs t = cowrefs s \<and>
     (\<exists>zs. xs = zs @ ys \<and> tables (mem t) pt = tables (mem s) pt \<union> set zs) \<and>
     (\<forall>x. (\<forall>f\<in>tables (mem t) pt. \<not> in_range f 4096 x) \<longrightarrow> mem t x = mem s x)"

lemma pt_step_refl [simp]: "pt_step s s pt xs xs"
  by (simp add: pt_step_def)

lemma pt_step_trans:
  assumes "pt_step s t pt xs ys" "pt_step t u pt ys zs"
  shows "pt_step s u pt xs zs"
proof -
  from assms obtain as bs where "xs = as @ ys" "tables (mem t) pt = tables (mem s) pt \<union> set as"
    "ys = bs @ zs" "tables (mem u) pt = tables (mem t) pt \<union> set bs" by (auto simp: pt_step_def)
  with assms show ?thesis unfolding pt_step_def
    by (intro conjI exI [of _ "as @ bs"]) (auto intro: mem_step_trans)
qed

lemma pte_at_unmapped [simp]: "frame_at m pt (vpath va) = None \<Longrightarrow> pte_at m pt va = 0"
  by (simp add: pte_at_def)

text \<open>
  One missing level: \<open>kalloc\<close>, clear the page and link it.
\<close>

lemma walk_link:
  assumes env: "pt_env s pt (g # xs)"
    and p: "idxs (p @ [i])" "frame_at (mem s) pt p = Some f" "pt_entry (mem s) f i AND PTE_V = 0"
    and k: "kalloc s = Ok r u"
  defines "t \<equiv> u\<lparr>mem := store64 (memset g 0 4096 (mem u)) (f + 8 * i) (PA2PTE g OR PTE_V)\<rparr>"
  shows "pt_env t pt xs" "pt_step s t pt (g # xs) xs" "frame_at (mem t) pt (p @ [i]) = Some g"
    "pte_at (mem t) pt va = pte_at (mem s) pt va" "r = g" "g \<noteq> 0"
proof -
  from env have s: "pool s (g # xs)" "kmem_unlocked s" "pt_wf (kend s) (mem s) pt"
    "tables (mem s) pt \<inter> set (g # xs) = {}" by (simp_all add: pt_env_def)
  note ka = kalloc_page [OF s(1,2)] and kp = kalloc_pool [OF s(1,2) k]
  from kp frame_ok_nonzero s(1) show "r = g" "g \<noteq> 0" by (auto simp: pool_def)
  have c0: "cowrefs s (pg_index g) = 0" using s(1) by (simp add: pool_def)
  have u: "u = (touch s)\<lparr>freelist := load64 (mem s) g,
       cowrefs := (cowrefs s)(pg_index g := 0), mem := fill_bytes (mem s) g 5 4096\<rparr>"
    using ka k by simp
  then have cu: "cowrefs u = cowrefs s" using c0 by auto
  have mt: "mem t = store64 (fill_bytes (mem s) g 0 4096) (f + 8 * i) (PA2PTE g OR PTE_V)"
    unfolding t_def u by (simp add: memset_eq)
  have gs: "g \<notin> tables (mem s) pt" using s(4) by auto
  note L = link_table [OF s(3) p kp(3) gs, folded mt]
  have st: "mem_step s t"
    by (simp add: t_def u mem_step_def touch_kst_upd)
  show "frame_at (mem t) pt (p @ [i]) = Some g" "pte_at (mem t) pt va = pte_at (mem s) pt va"
    by (rule L)+
  have f: "f \<in> tables (mem s) pt" using tablesI [OF idxs_prefix [OF p(1)] p(2)] .
  show "pt_step s t pt (g # xs) xs"
    unfolding pt_step_def using st L(1,5) f cu by (auto simp: t_def intro!: exI [of _ "[g]"])
  have pu: "pool u xs" by (rule kp(2))
  have fx: "f \<notin> set xs" "aligned 4096 f" using s f pt_wf_aligned [OF s(3) f] by auto
  have "pool (u\<lparr>mem := memset g 0 4096 (mem u)\<rparr>) xs"
    using kp by (intro pool_write [OF pu, of g]) (auto simp: frame_ok_def memset_eq fill_bytes_def)
  then have "pool t xs"
  proof -
    assume *: "pool (u\<lparr>mem := memset g 0 4096 (mem u)\<rparr>) xs"
    have "pool (u\<lparr>mem := memset g 0 4096 (mem u)\<rparr>\<lparr>mem := mem t\<rparr>) xs"
      using p(1) fx
      by (intro pool_write [OF *, of f]) (auto simp: t_def entry_store_outside idxs_def)
    then show ?thesis by (simp add: t_def)
  qed
  moreover have "kmem_unlocked t" using s(2) mem_step_locks [OF st] by simp
  moreover have "kend t = kend s" using mem_step_fields [OF st] by simp
  ultimately show "pt_env t pt xs" using L(1,2) s(4) kp(4) by (auto simp: pt_env_def)
qed

lemma walk_levels_alloc:
  assumes "pt_env s pt xs" "frame_at (mem s) pt p = Some f" "length p + n = 2" "\<forall>i\<in>set p. i < 512"
    and "vpath va = p @ map (\<lambda>l. PX l va) (rev [1..<Suc n])"
  shows "\<exists>r t ys. walk_levels n f va True s = Ok r t \<and> pt_env t pt ys \<and> pt_step s t pt xs ys \<and>
    r = leaf_slot (mem t) pt va \<and> (r = 0 \<longrightarrow> ys = [] \<and> length xs < n) \<and> length xs \<le> length ys + n \<and>
    (\<forall>vb. pte_at (mem t) pt vb = pte_at (mem s) pt vb) \<and> (r \<noteq> 0 \<longrightarrow> frame_at (mem t) pt (vpath va) \<noteq> None)"
  using assms
proof (induction n arbitrary: s p f xs)
  case 0
  then have "frame_at (mem s) pt (vpath va) = Some f" "leaf_slot (mem s) pt va = f + 8 * PX 0 va"
    by (simp_all add: leaf_slot_def)
  moreover from this have "f + 8 * PX 0 va \<noteq> 0"
  proof -
    have "frame_ok (kend s) f"
      using pt_wf_frame [of _ "mem s" pt f] tablesI [OF idxs_vpath, of "mem s" pt va f] calculation(1) 0(1)
      by (auto simp: pt_env_def)
    then have "0 < unat f" "aligned 4096 f"
      using 0(1) frame_ok_nonzero [of "kend s" f] by (auto simp: pt_env_def pool_def frame_ok_def unat_gt_0)
    then have "0 < unat (f + 8 * PX 0 va)" by (simp add: entry_addr PX_less)
    then show ?thesis by (simp add: unat_gt_0)
  qed
  ultimately show ?case using 0(1) by auto
next
  case (Suc n)
  let ?i = "PX (Suc n) va" and ?p = "p @ [PX (Suc n) va]"
  have vp: "vpath va = ?p @ map (\<lambda>l. PX l va) (rev [1..<Suc n])" using Suc.prems(5) by simp
  have pi: "idxs ?p" using Suc.prems(3,4) by (auto simp: idxs_def PX_less)
  have len: "length ?p + n = 2" and less: "\<forall>i\<in>set ?p. i < 512"
    using Suc.prems(3,4) by (auto simp: PX_less)
  show ?case
  proof (cases "pt_entry (mem s) f ?i AND PTE_V = 0")
    case False
    then have "frame_at (mem s) pt ?p = Some (PTE2PA (pt_entry (mem s) f ?i))"
      using Suc.prems(2) by (simp add: frame_at_append)
    from Suc.IH [OF Suc.prems(1) this len less vp] obtain r' t' zs where
      "walk_levels n (PTE2PA (pt_entry (mem s) f ?i)) va True s = Ok r' t'"
      and w: "pt_env t' pt zs" "pt_step s t' pt xs zs"
        "r' = leaf_slot (mem t') pt va" "r' = 0 \<longrightarrow> zs = [] \<and> length xs < n" "length xs \<le> length zs + n"
        "\<forall>vb. pte_at (mem t') pt vb = pte_at (mem s) pt vb"
        "r' \<noteq> 0 \<longrightarrow> frame_at (mem t') pt (vpath va) \<noteq> None" by blast
    with False have "walk_levels (Suc n) f va True s = Ok r' t'" by (simp add: pt_entry_def Let_def)
    with w show ?thesis by (intro exI [of _ r'] exI [of _ t'] exI [of _ zs]) auto
  next
    case True
    show ?thesis
    proof (cases xs)
      case Nil
      then have k: "kalloc s = Ok 0 (touch s)" using Suc.prems(1) by (intro kalloc_empty) (auto simp: pt_env_def)
      have "frame_at (mem s) pt ?p = None" using True Suc.prems(2) by (simp add: frame_at_append)
      then have "frame_at (mem s) pt (vpath va) = None" 
        unfolding vp by (subst frame_at_append) simp
      then have "leaf_slot (mem s) pt va = 0" by (simp add: leaf_slot_def)
      moreover have "pt_env (touch s) pt []" "pt_step s (touch s) pt xs []"
        using Suc.prems(1) Nil by (auto simp: pt_env_def pt_step_def pool_def kmem_unlocked_def)
      ultimately show ?thesis using True k Nil by (auto simp: pt_entry_def Let_def)
    next
      case (Cons g ys)
      from Suc.prems(1) Cons have "pool s (g # ys)" "kmem_unlocked s" by (simp_all add: pt_env_def)
      then obtain r u where k: "kalloc s = Ok r u" using kalloc_page by blast
      define t where "t = u\<lparr>mem := store64 (memset g 0 4096 (mem u)) (f + 8 * ?i) (PA2PTE g OR PTE_V)\<rparr>"
      note L = walk_link [OF Suc.prems(1) [unfolded Cons] pi Suc.prems(2) True k, folded t_def]
      from Suc.IH [OF L(1,3) len less vp] obtain r' t' zs where
        w: "walk_levels n g va True t = Ok r' t'" "pt_env t' pt zs" "pt_step t t' pt ys zs"
          "r' = leaf_slot (mem t') pt va" "r' = 0 \<longrightarrow> zs = [] \<and> length ys < n"
          "length ys \<le> length zs + n" "\<forall>vb. pte_at (mem t') pt vb = pte_at (mem t) pt vb"
          "r' \<noteq> 0 \<longrightarrow> frame_at (mem t') pt (vpath va) \<noteq> None" by blast
      have "walk_levels (Suc n) f va True s = Ok r' t'"
        using True k L(5,6) w(1) by (simp add: pt_entry_def Let_def t_def)
      moreover have "pt_step s t' pt xs zs" using L(2) w(3) unfolding Cons by (rule pt_step_trans)
      ultimately show ?thesis using w L(4) Cons by (intro exI [of _ r'] exI [of _ t'] exI [of _ zs]) auto
    qed
  qed
qed

lemma walk_spec:
  assumes "pt_env s pt xs" "va < MAXVA"
  shows "\<exists>r t ys. walk pt va True s = Ok r t \<and> pt_env t pt ys \<and> pt_step s t pt xs ys \<and>
    r = leaf_slot (mem t) pt va \<and> (r = 0 \<longrightarrow> ys = [] \<and> length xs < 2) \<and> length xs \<le> length ys + 2 \<and>
    (\<forall>vb. pte_at (mem t) pt vb = pte_at (mem s) pt vb) \<and> (r \<noteq> 0 \<longrightarrow> frame_at (mem t) pt (vpath va) \<noteq> None)"
proof -
  have "vpath va = [] @ map (\<lambda>l. PX l va) (rev [1..<Suc 2])" by (simp add: vpath_def eval_nat_numeral)
  from walk_levels_alloc [OF assms(1) _ _ _ this, of pt] assms(2) show ?thesis
    by (simp add: walk_def not_le)
qed

end
