(* ===== verification/VmMap.thy ===== *)
theory VmMap
  imports PageTable
begin

text \<open>
  What \<open>mappages\<close>, \<open>walkaddr\<close>, \<open>uvmunmap\<close>, \<open>copyin\<close> and \<open>copyout\<close> do, in
  terms of the leaf entries \<open>pte_at\<close> of a well-formed page table.
\<close>

subsection \<open>Pages of a virtual range\<close>

definition in_pages :: "uint64 \<Rightarrow> nat \<Rightarrow> uint64 \<Rightarrow> bool" where
  "in_pages a k va \<longleftrightarrow> unat a \<le> unat va \<and> unat va < unat a + 4096 * k"

lemma PGROUNDDOWN_eq:
  assumes "aligned 4096 a"
  shows "PGROUNDDOWN va = a \<longleftrightarrow> in_pages a 1 va"
proof -
  obtain q where q: "unat a = 4096 * q" using assms by (auto simp: aligned_def)
  have "PGROUNDDOWN va = a \<longleftrightarrow> unat va div 4096 * 4096 = 4096 * q"
    by (simp add: word_unat_eq_iff unat_PGROUNDDOWN q)
  also have "\<dots> \<longleftrightarrow> unat va div 4096 = q" by auto
  also have "\<dots> \<longleftrightarrow> in_pages a 1 va"
    unfolding in_pages_def q by (auto simp: div_nat_eqI)
  finally show ?thesis .
qed

lemma aligned_next: "aligned 4096 a \<Longrightarrow> a < MAXVA \<Longrightarrow> aligned 4096 (a + 4096)"
  by (simp add: aligned_def next_page)

lemma aligned_below: "aligned 4096 l \<Longrightarrow> l < MAXVA \<Longrightarrow> unat l + 4096 \<le> unat MAXVA"
proof -
  assume "aligned 4096 l" "l < MAXVA"
  then obtain q where "unat l = 4096 * q" "unat l < 274877906944"
    by (auto simp: aligned_def word_less_nat_alt)
  then show ?thesis by simp
qed

lemma aligned_steps:
  assumes "aligned 4096 a" "unat l = unat a + 4096 * n"
  shows "aligned 4096 l"
proof -
  obtain q where "unat a = 4096 * q" using assms(1) by (auto simp: aligned_def)
  then have "unat l = 4096 * (q + n)" using assms(2) by simp
  then show ?thesis by (simp only: aligned_def mod_mult_self1_is_0)
qed

lemma in_pages_Suc:
  "a < MAXVA \<Longrightarrow> in_pages a (Suc k) va \<longleftrightarrow> in_pages a 1 va \<or> in_pages (a + 4096) k va"
  by (auto simp: in_pages_def next_page)

lemma in_pages_next: "a < MAXVA \<Longrightarrow> in_pages (a + 4096) k va \<Longrightarrow> \<not> in_pages a 1 va"
  by (auto simp: in_pages_def next_page)

lemma aligned_PGROUNDDOWN_id [simp]: "aligned 4096 a \<Longrightarrow> PGROUNDDOWN a = a"
  by (simp add: PGROUNDDOWN_eq in_pages_def)

lemma in_pages_PGROUNDDOWN: "aligned 4096 a \<Longrightarrow> in_pages a (Suc 0) v \<Longrightarrow> PGROUNDDOWN v = a"
  by (simp add: PGROUNDDOWN_eq)

subsection \<open>Leaf entries through walk\<close>

lemma pte_at_page:
  "v < MAXVA \<Longrightarrow> w < MAXVA \<Longrightarrow> PGROUNDDOWN v = PGROUNDDOWN w \<Longrightarrow> pte_at m pt v = pte_at m pt w"
proof -
  assume "v < MAXVA" "w < MAXVA" "PGROUNDDOWN v = PGROUNDDOWN w"
  then have "vpath v = vpath w" "PX 0 v = PX 0 w" using same_vpage [of v w] by auto
  then show ?thesis by (simp only: pte_at_def)
qed

lemma leaf_slot_cases:
  assumes "pt_wf e m pt" "0 < e"
  shows "leaf_slot m pt va \<noteq> 0 \<longleftrightarrow> frame_at m pt (vpath va) \<noteq> None"
proof (cases "frame_at m pt (vpath va)")
  case (Some f)
  have "frame_ok e f" using pt_wf_frame [OF assms(1)] tablesI [OF idxs_vpath Some] by simp
  then have "0 < unat f" "aligned 4096 f"
    using assms(2) frame_ok_nonzero [of e f] by (auto simp: frame_ok_def unat_gt_0)
  then have "0 < unat (f + 8 * PX 0 va)" by (simp add: entry_addr PX_less)
  then show ?thesis using Some by (simp add: leaf_slot_def unat_gt_0)
qed (simp add: leaf_slot_def)

lemma load_leaf_slot:
  "frame_at m pt (vpath va) \<noteq> None \<Longrightarrow> load64 m (leaf_slot m pt va) = pte_at m pt va"
  by (auto simp: leaf_slot_def pte_at_def pt_entry_def)

lemma pte_at_0: "pt_wf e m pt \<Longrightarrow> 0 < e \<Longrightarrow> leaf_slot m pt va = 0 \<Longrightarrow> pte_at m pt va = 0"
  using leaf_slot_cases [of e m pt va] by simp

lemma pt_env_kend: "pt_env s pt xs \<Longrightarrow> 0 < kend s"
  by (simp add: pt_env_def pool_def)

lemma pt_env_wf: "pt_env s pt xs \<Longrightarrow> pt_wf (kend s) (mem s) pt"
  by (simp add: pt_env_def)

lemma walkaddr_eq:
  assumes "pt_wf (kend s) (mem s) pt" "0 < kend s"
  shows "walkaddr pt va s = Ok (if va < MAXVA \<and> pte_at (mem s) pt va AND PTE_V \<noteq> 0
      \<and> pte_at (mem s) pt va AND PTE_U \<noteq> 0 then PTE2PA (pte_at (mem s) pt va) else 0) s"
proof (cases "va < MAXVA")
  case True
  then show ?thesis
    using leaf_slot_cases [OF assms, of va] pte_at_0 [OF assms, of va]
    by (cases "leaf_slot (mem s) pt va = 0")
      (auto simp: walkaddr_def walk_read load_leaf_slot)
qed (auto simp: walkaddr_def)

lemma leaf_store_env:
  fixes v :: uint64
  assumes "pt_env s pt xs" "frame_at (mem s) pt (vpath va) \<noteq> None" "va < MAXVA"
  defines "t \<equiv> s\<lparr>mem := store64 (mem s) (leaf_slot (mem s) pt va) v\<rparr>"
  shows "pt_env t pt xs" "pt_step s t pt xs xs"
    "vb < MAXVA \<Longrightarrow> pte_at (mem t) pt vb = (if PGROUNDDOWN vb = PGROUNDDOWN va then v else pte_at (mem s) pt vb)"
    "leaf_slot (mem t) pt vb = leaf_slot (mem s) pt vb"
proof -
  from assms(2) obtain f where f: "frame_at (mem s) pt (vpath va) = Some f" by blast
  have t: "mem t = store64 (mem s) (f + 8 * PX 0 va) v" by (simp add: t_def leaf_slot_def f)
  have wf: "pt_wf (kend s) (mem s) pt" by (rule pt_env_wf [OF assms(1)])
  note L = leaf_store [OF wf f assms(3), where v = v, folded t]
  show "leaf_slot (mem t) pt vb = leaf_slot (mem s) pt vb" by (rule L(4))
  show "pte_at (mem t) pt vb = (if PGROUNDDOWN vb = PGROUNDDOWN va then v else pte_at (mem s) pt vb)"
    if "vb < MAXVA" using that by (rule L(3))
  have ft: "f \<in> tables (mem s) pt" by (rule tablesI [OF idxs_vpath f])
  show "pt_step s t pt xs xs"
    unfolding pt_step_def using ft L(1) by (auto simp: t entry_store_outside PX_less) (auto simp: t_def)
  have "pool (s\<lparr>mem := mem t\<rparr>) xs"
    using assms(1) ft pt_wf_aligned [OF wf ft]
    by (intro pool_write [of _ _ f]) (auto simp: t entry_store_outside PX_less pt_env_def)
  then show "pt_env t pt xs"
    using assms(1) L(1,2) by (auto simp: pt_env_def t_def kmem_unlocked_def)
qed

subsection \<open>mappages\<close>

lemma PTE_V_AND [simp]: "PTE_V AND PTE_V = PTE_V"
  by simp

text \<open>
  One iteration of \<open>mappages\<close>: out of memory, or the page at \<open>a\<close> is mapped.
\<close>

lemma mappages_iter:
  assumes "pt_env s pt xs" "aligned 4096 a" "a < MAXVA" "pte_at (mem s) pt a AND PTE_V = 0"
  shows "(\<exists>t. mappages_loop a lst pa perm pt s = Ok (-1) t \<and> pt_env t pt [] \<and> pt_step s t pt xs [] \<and> length xs < 2 \<and>
      frame_at (mem t) pt (vpath a) = None \<and> (\<forall>vb. pte_at (mem t) pt vb = pte_at (mem s) pt vb)) \<or>
    (\<exists>u ys. mappages_loop a lst pa perm pt s =
        (if a = lst then Ok 0 u else mappages_loop (a + 4096) lst (pa + 4096) perm pt u) \<and>
      pt_env u pt ys \<and> pt_step s u pt xs ys \<and> length xs \<le> length ys + 2 \<and> (\<forall>va<MAXVA. pte_at (mem u) pt va =
        (if in_pages a 1 va then PA2PTE pa OR perm OR PTE_V else pte_at (mem s) pt va)))"
proof -
  from walk_spec [OF assms(1,3)] obtain r t ys where
    w: "walk pt a True s = Ok r t" "pt_env t pt ys" "pt_step s t pt xs ys" "r = leaf_slot (mem t) pt a"
      "r = 0 \<longrightarrow> ys = [] \<and> length xs < 2" "length xs \<le> length ys + 2" "\<And>vb. pte_at (mem t) pt vb = pte_at (mem s) pt vb"
      "r \<noteq> 0 \<longrightarrow> frame_at (mem t) pt (vpath a) \<noteq> None" by blast
  show ?thesis
  proof (cases "r = 0")
    case True
    then have "mappages_loop a lst pa perm pt s = Ok (-1) t"
      using w(1) by (subst mappages_loop.simps) simp
    moreover have "frame_at (mem t) pt (vpath a) = None"
      using True w(4) leaf_slot_cases [OF pt_env_wf [OF w(2)] pt_env_kend [OF w(2)], of a] by simp
    ultimately show ?thesis using True w(2,3,5,7) by auto
  next
    case False
    then have fr: "frame_at (mem t) pt (vpath a) \<noteq> None" using w(8) by simp
    have inv: "load64 (mem t) r AND PTE_V = 0"
      unfolding w(4) load_leaf_slot [OF fr] w(7) by (rule assms(4))
    let ?u = "t\<lparr>mem := store64 (mem t) r (PA2PTE pa OR perm OR PTE_V)\<rparr>"
    note L = leaf_store_env [OF w(2) fr assms(3), where v = "PA2PTE pa OR perm OR PTE_V", folded w(4)]
    have "mappages_loop a lst pa perm pt s =
        (if a = lst then Ok 0 ?u else mappages_loop (a + 4096) lst (pa + 4096) perm pt ?u)"
      using False w(1) inv by (subst mappages_loop.simps) (simp add: Let_def)
    moreover have "pt_step s ?u pt xs ys" using w(3) L(2) by (rule pt_step_trans)
    moreover have "pte_at (mem ?u) pt va = (if in_pages a 1 va then PA2PTE pa OR perm OR PTE_V else pte_at (mem s) pt va)"
      if "va < MAXVA" for va
      using L(3) [OF that] by (simp only: w(7) aligned_PGROUNDDOWN_id [OF assms(2)] PGROUNDDOWN_eq [OF assms(2)])
    ultimately show ?thesis using L(1) w(6) by blast
  qed
qed

lemma mappages_loop_spec:
  assumes "pt_env s pt xs" "aligned 4096 a" "unat lst = unat a + 4096 * n" "lst < MAXVA"
    and "\<And>va. in_pages a (Suc n) va \<Longrightarrow> pte_at (mem s) pt va AND PTE_V = 0"
  shows "\<exists>r t ys k. mappages_loop a lst pa perm pt s = Ok r t \<and> pt_env t pt ys \<and> pt_step s t pt xs ys \<and>
    (r = 0 \<and> k = Suc n \<or> r = -1 \<and> k \<le> n \<and> ys = [] \<and> length xs < 2 * Suc n \<and>
       frame_at (mem t) pt (vpath (a + 4096 * of_nat k)) = None) \<and> length xs \<le> length ys + 2 * Suc n \<and>
    (\<forall>va<MAXVA. pte_at (mem t) pt va = (if in_pages a k va
       then PA2PTE (pa + (PGROUNDDOWN va - a)) OR perm OR PTE_V else pte_at (mem s) pt va))"
  using assms
proof (induction n arbitrary: a pa s xs)
  case (0 a pa s xs)
  then have al: "a = lst" by (simp add: word_unat_eq_iff)
  then have a: "a < MAXVA" using "0.prems" by simp
  have "pte_at (mem s) pt a AND PTE_V = 0" using "0.prems"(5) [of a] by (simp add: in_pages_def)
  from mappages_iter [OF "0.prems"(1,2) a this, of lst pa perm] show ?case
  proof (elim disjE exE conjE, goal_cases)
    case (1 t)
    then show ?case by (intro exI [of _ "-1"] exI [of _ t] exI [of _ "[]"] exI [of _ 0]) (auto simp: in_pages_def)
  next
    case (2 u ys)
    have "pte_at (mem u) pt va = (if in_pages a 1 va
       then PA2PTE (pa + (PGROUNDDOWN va - a)) OR perm OR PTE_V else pte_at (mem s) pt va)"
      if "va < MAXVA" for va
      using 2(5) [rule_format, OF that] PGROUNDDOWN_eq [OF "0.prems"(2), of va]
      by (cases "in_pages a 1 va") simp_all
    with 2 al show ?case
      by (intro exI [of _ 0] exI [of _ u] exI [of _ ys] exI [of _ 1]) simp
  qed
next
  case (Suc n a pa s xs)
  then have al: "a \<noteq> lst" by auto
  have a: "a < MAXVA" using Suc.prems(3,4) by (simp add: word_less_nat_alt)
  have "pte_at (mem s) pt a AND PTE_V = 0" using Suc.prems(5) [of a] by (simp add: in_pages_def)
  from mappages_iter [OF Suc.prems(1,2) a this, of lst pa perm] show ?case
  proof (elim disjE exE conjE, goal_cases)
    case (1 t)
    then show ?case by (intro exI [of _ "-1"] exI [of _ t] exI [of _ "[]"] exI [of _ 0]) (auto simp: in_pages_def)
  next
    case (2 u ys)
    note pu = 2(5) [rule_format]
    have pre: "pte_at (mem u) pt va AND PTE_V = 0" if "in_pages (a + 4096) (Suc n) va" for va
    proof -
      have "unat va < unat a + 4096 + 4096 * Suc n" using that by (simp add: in_pages_def next_page [OF a])
      moreover have "unat lst + 4096 \<le> unat MAXVA"
        using aligned_steps [OF Suc.prems(2,3)] Suc.prems(4) by (rule aligned_below)
      ultimately have "unat va < unat MAXVA" using Suc.prems(3) by linarith
      then have "va < MAXVA" by (simp only: word_less_nat_alt)
      from pu [OF this] show ?thesis
        using that in_pages_next [OF a that] Suc.prems(5) [of va] in_pages_Suc [OF a, of "Suc n" va] by simp
    qed
    have "unat lst = unat (a + 4096) + 4096 * n" using Suc.prems(3) by (simp add: next_page [OF a])
    from Suc.IH [OF 2(2) aligned_next [OF Suc.prems(2) a] this Suc.prems(4) pre, of "pa + 4096"]
    obtain r' t' zs k where IH: "mappages_loop (a + 4096) lst (pa + 4096) perm pt u = Ok r' t'"
      "pt_env t' pt zs" "pt_step u t' pt ys zs" "r' = 0 \<and> k = Suc n \<or> r' = -1 \<and> k \<le> n \<and> zs = [] \<and> length ys < 2 * Suc n \<and>
        frame_at (mem t') pt (vpath (a + 4096 + 4096 * of_nat k)) = None"
      "length ys \<le> length zs + 2 * Suc n"
      "\<forall>va<MAXVA. pte_at (mem t') pt va = (if in_pages (a + 4096) k va
        then PA2PTE (pa + 4096 + (PGROUNDDOWN va - (a + 4096))) OR perm OR PTE_V else pte_at (mem u) pt va)"
      by blast
    have "mappages_loop a lst pa perm pt s = Ok r' t'" using 2(1) al IH(1) by simp
    moreover have "pt_step s t' pt xs zs" using 2(3) IH(3) by (rule pt_step_trans)
    moreover have "pte_at (mem t') pt va = (if in_pages a (Suc k) va
        then PA2PTE (pa + (PGROUNDDOWN va - a)) OR perm OR PTE_V else pte_at (mem s) pt va)"
      if va: "va < MAXVA" for va
      using IH(6) [rule_format, OF va] pu [OF va] PGROUNDDOWN_eq [OF Suc.prems(2), of va]
        in_pages_next [OF a, of k va] in_pages_Suc [OF a, of k va]
      by (cases "in_pages (a + 4096) k va"; cases "in_pages a 1 va") simp_all
    ultimately show ?case using IH(2,4,5) 2(4)
      by (intro exI [of _ r'] exI [of _ t'] exI [of _ zs] exI [of _ "Suc k"]) (auto simp: add.assoc)
  qed
qed

lemma mappages_spec:
  assumes "pt_env s pt xs" "0 < sz" "unat va + unat sz \<le> unat MAXVA"
  defines "a \<equiv> PGROUNDDOWN va"
  defines "n \<equiv> (unat va + unat sz - 1) div 4096 - unat va div 4096"
  assumes un: "\<And>v. in_pages a (Suc n) v \<Longrightarrow> pte_at (mem s) pt v AND PTE_V = 0"
  shows "\<exists>r t ys k. mappages pt va sz pa perm s = Ok r t \<and> pt_env t pt ys \<and> pt_step s t pt xs ys \<and>
    (r = 0 \<and> k = Suc n \<or> r = -1 \<and> k \<le> n \<and> ys = [] \<and> length xs < 2 * Suc n \<and>
       frame_at (mem t) pt (vpath (a + 4096 * of_nat k)) = None) \<and> length xs \<le> length ys + 2 * Suc n \<and>
    (\<forall>v<MAXVA. pte_at (mem t) pt v = (if in_pages a k v
       then PA2PTE (pa + (PGROUNDDOWN v - a)) OR perm OR PTE_V else pte_at (mem s) pt v))"
proof -
  have u: "unat (va + sz) = unat va + unat sz"
    using assms(3) by (subst unat_add_lem [THEN iffD1]) simp_all
  then have "unat (va + sz - 1) = unat va + unat sz - 1"
    using assms(2) by (subst unat_minus_one) (auto simp: word_unat_eq_iff word_less_nat_alt)
  then have l: "unat (PGROUNDDOWN (va + sz - 1)) = (unat va + unat sz - 1) div 4096 * 4096"
    by (simp add: unat_PGROUNDDOWN)
  have "unat va div 4096 \<le> (unat va + unat sz - 1) div 4096"
    using assms(2) by (intro div_le_mono) (simp add: word_less_nat_alt)
  then obtain d where "(unat va + unat sz - 1) div 4096 = unat va div 4096 + d" by (auto dest: le_Suc_ex)
  then have ll: "unat (PGROUNDDOWN (va + sz - 1)) = unat a + 4096 * n"
    unfolding l by (simp add: a_def n_def unat_PGROUNDDOWN)
  have "0 < unat sz" using assms(2) by (simp add: word_less_nat_alt)
  then have "(unat va + unat sz - 1) div 4096 * 4096 < unat MAXVA"
    using assms(3) div_times_less_eq_dividend [of "unat va + unat sz - 1" 4096] by linarith
  then have "PGROUNDDOWN (va + sz - 1) < MAXVA" by (simp add: word_less_nat_alt l)
  from mappages_loop_spec [OF assms(1) _ ll this un, of pa perm] assms(2) show ?thesis
    by (auto simp: mappages_def a_def)
qed

text \<open>
  C20: On a well-formed page table whose entries for the range are all invalid,
  \<open>mappages\<close> returns 0 and maps every page of the range to the corresponding physical page
  with the given permissions. It returns -1 only when memory has run out: the free list is empty
  and the first page of the range that is not mapped has no table to hold its entry; the pages before it are mapped. Either way the
  page table stays well-formed, no other translation changes, and the only memory written is
  that of the table pages, which include the pages taken from the free list.
\<close>

theorem mappages_correct:
  assumes "pt_env s pt xs" "0 < sz" "unat va + unat sz \<le> unat MAXVA"
    and "\<forall>v. in_pages (PGROUNDDOWN va) (Suc ((unat va + unat sz - 1) div 4096 - unat va div 4096)) v \<longrightarrow>
      pte_at (mem s) pt v AND PTE_V = 0"
  shows "\<exists>r t ys k. mappages pt va sz pa perm s = Ok r t \<and> pt_env t pt ys \<and>
    (r = 0 \<and> k = Suc ((unat va + unat sz - 1) div 4096 - unat va div 4096) \<or>
     r = -1 \<and> k \<le> (unat va + unat sz - 1) div 4096 - unat va div 4096 \<and> ys = [] \<and>
       length xs < 2 * Suc ((unat va + unat sz - 1) div 4096 - unat va div 4096) \<and>
       frame_at (mem t) pt (vpath (PGROUNDDOWN va + 4096 * of_nat k)) = None) \<and>
    (\<forall>v<MAXVA. pte_at (mem t) pt v = (if in_pages (PGROUNDDOWN va) k v
       then PA2PTE (pa + (PGROUNDDOWN v - PGROUNDDOWN va)) OR perm OR PTE_V else pte_at (mem s) pt v)) \<and>
    (\<forall>x. (\<forall>f\<in>tables (mem t) pt. \<not> in_range f 4096 x) \<longrightarrow> mem t x = mem s x) \<and>
    tables (mem t) pt \<subseteq> tables (mem s) pt \<union> set xs"
proof -
  let ?n = "(unat va + unat sz - 1) div 4096 - unat va div 4096"
  from mappages_spec [OF assms(1-3), of pa perm] assms(4) obtain r t ys k where
    *: "mappages pt va sz pa perm s = Ok r t" "pt_env t pt ys" "pt_step s t pt xs ys"
    "r = 0 \<and> k = Suc ?n \<or> r = -1 \<and> k \<le> ?n \<and> ys = [] \<and> length xs < 2 * Suc ?n \<and>
       frame_at (mem t) pt (vpath (PGROUNDDOWN va + 4096 * of_nat k)) = None"
    "\<forall>v<MAXVA. pte_at (mem t) pt v = (if in_pages (PGROUNDDOWN va) k v
       then PA2PTE (pa + (PGROUNDDOWN v - PGROUNDDOWN va)) OR perm OR PTE_V else pte_at (mem s) pt v)"
    by blast
  from *(3) show ?thesis by (intro exI [of _ r] exI [of _ t] exI [of _ ys] exI [of _ k] conjI *)
      (auto simp: pt_step_def)
qed

text \<open>
  C22: A single user page mapped with \<open>mappages\<close> is found by \<open>walkaddr\<close>: every address of the
  virtual page translates to the physical page that was mapped there.
\<close>

theorem mappages_walkaddr:
  assumes "pt_env s pt xs" "aligned 4096 va" "va < MAXVA" "aligned 4096 pa" "PTE_FLAGS perm = perm"
    and "perm AND PTE_U \<noteq> 0" "pte_at (mem s) pt va AND PTE_V = 0" "mappages pt va PGSIZE pa perm s = Ok 0 t"
    and "in_pages va 1 v"
  shows "walkaddr pt v t = Ok pa t"
proof -
  have sz: "unat va + unat PGSIZE \<le> unat MAXVA"
    using aligned_below [OF assms(2,3)] by simp
  then have vM: "v < MAXVA" using assms(9) by (simp add: in_pages_def word_less_nat_alt)
  have n: "(unat va + unat PGSIZE - 1) div 4096 - unat va div 4096 = 0"
    using assms(2) by (auto simp: aligned_def)
  have un: "pte_at (mem s) pt v AND PTE_V = 0" if "in_pages (PGROUNDDOWN va) (Suc 0) v" for v
  proof -
    have pg: "in_pages va 1 v" using that assms(2) by simp
    then have "v < MAXVA" using sz by (simp add: in_pages_def word_less_nat_alt)
    moreover have "PGROUNDDOWN v = PGROUNDDOWN va" using pg assms(2) PGROUNDDOWN_eq [OF assms(2)] by simp
    ultimately show ?thesis using pte_at_page [of v va "mem s" pt] assms(3,7) by simp
  qed
  from mappages_spec [OF assms(1) _ sz, of pa perm, unfolded n] un assms(8)
  obtain ys where t: "pt_env t pt ys" "pte_at (mem t) pt v = (if in_pages (PGROUNDDOWN va) (Suc 0) v
       then PA2PTE (pa + (PGROUNDDOWN v - PGROUNDDOWN va)) OR perm OR PTE_V else pte_at (mem s) pt v)"
    using vM by auto
  have "PGROUNDDOWN v = va" using assms(9) PGROUNDDOWN_eq [OF assms(2)] by simp
  then have p: "pte_at (mem t) pt v = PA2PTE pa OR (perm OR PTE_V)"
    using t(2) assms(2,9) by (simp add: or.assoc)
  have fl: "PTE_FLAGS (perm OR PTE_V) = perm OR PTE_V" using assms(5) by simp
  have "PTE2PA (pte_at (mem t) pt v) = pa" unfolding p by (rule PTE2PA_PA2PTE [OF assms(4) fl])
  moreover have "pte_at (mem t) pt v AND PTE_V \<noteq> 0" "pte_at (mem t) pt v AND PTE_U \<noteq> 0"
    unfolding p PTE_AND_flag [OF PTE_FLAGS_consts(1)] PTE_AND_flag [OF PTE_FLAGS_consts(5)] using assms(6)
    by (simp_all add: bit.conj_disj_distrib2 or_eq_0_iff)
  ultimately show ?thesis using walkaddr_eq [OF pt_env_wf [OF t(1)] pt_env_kend [OF t(1)], of v] vM by simp
qed

subsection \<open>An empty table, and concrete instances\<close>

lemma empty_table:
  assumes "\<And>i. i < 512 \<Longrightarrow> pt_entry m pt i = 0" "frame_ok e pt"
  shows "tables m pt = {pt}" "pt_wf e m pt" "pte_at m pt va = 0"
proof -
  have fr: "frame_at m pt p = (if p = [] then Some pt else None)" if "idxs p" for p
    using that assms(1) by (cases p) (auto simp: idxs_def)
  show tb: "tables m pt = {pt}" by (auto simp: tables_def fr split: if_splits) (auto simp: idxs_def intro: exI [of _ "[]"])
  show "pt_wf e m pt" using assms(2) by (intro pt_wfI) (auto simp: tb fr split: if_splits)
  have "vpath va \<noteq> []" by (simp add: vpath_def)
  then show "pte_at m pt va = 0" by (simp add: pte_at_def fr)
qed

lemma load64_zero [simp]: "load64 (\<lambda>_. 0) a = 0"
  by (simp add: load64_def load_bytes_def map_replicate_const)

lemma uvmcreate_spec:
  assumes "pool s (g # xs)" "kmem_unlocked s"
  shows "\<exists>t. uvmcreate s = Ok g t \<and> pt_env t g xs \<and> (\<forall>va. pte_at (mem t) g va = 0) \<and> tables (mem t) g = {g} \<and>
    mem_step s t \<and> cowrefs t = cowrefs s \<and> (\<forall>x. \<not> in_range g 4096 x \<longrightarrow> mem t x = mem s x)"
proof -
  let ?u = "(touch s)\<lparr>freelist := load64 (mem s) g,
       cowrefs := (cowrefs s)(pg_index g := 0), mem := fill_bytes (mem s) g 5 4096\<rparr>"
  let ?t = "?u\<lparr>mem := fill_bytes (mem s) g 0 4096\<rparr>"
  note k = kalloc_page [OF assms] and kp = kalloc_pool [OF assms kalloc_page [OF assms]]
  have g: "g \<noteq> 0" using frame_ok_nonzero [OF kp(3)] assms(1) by (auto simp: pool_def)
  have c: "cowrefs ?t = cowrefs s" using assms(1) by (auto simp: pool_def)
  have st: "mem_step s ?t" by (simp add: mem_step_def touch_kst_upd)
  have p: "pool ?t xs"
    using kp by (intro pool_write [OF kp(2), of g]) (auto simp: frame_ok_def fill_bytes_def)
  have z: "pt_entry (mem ?t) g i = 0" if "i < 512" for i using that by (simp add: pt_entry_zero)
  note E = empty_table [OF z kp(3)]
  have "uvmcreate s = Ok g ?t" using k g by (simp add: uvmcreate_def memset_eq)
  moreover have "pt_env ?t g xs"
    using p E(1,2) kp(4) assms(2) mem_step_locks(1) [OF st] by (auto simp: pt_env_def)
  ultimately show ?thesis using E st c by (intro exI [of _ ?t]) (auto simp: fill_bytes_def)
qed

text \<open>
  Two free pages and an empty page table in the page at \<open>0x80004000\<close>.
\<close>

lemma two_pages_env:
  "pt_env two_pages 0x80004000 [0x80002000, 0x80003000]" "pte_at (mem two_pages) 0x80004000 va = 0"
  "tables (mem two_pages) 0x80004000 = {0x80004000}"
proof -
  have z: "pt_entry (mem two_pages) 0x80004000 i = 0" if "i < 512" for i
  proof -
    have "pt_entry (mem two_pages) 0x80004000 i = pt_entry (\<lambda>_. 0) 0x80004000 i"
      using that pt_entry_store [of "0x80002000" "0x80004000" 0 i "\<lambda>_. 0" "0x80003000"]
      by (simp add: two_pages_def aligned_def)
    then show ?thesis by (simp add: pt_entry_def)
  qed
  have f: "frame_ok (kend two_pages) 0x80004000" by (simp add: two_pages_def frame_ok_def aligned_def)
  show "pt_env two_pages 0x80004000 [0x80002000, 0x80003000]"
    using two_pages_pool empty_table(1,2) [OF z f] by (simp add: pt_env_def cow_unlocked_def)
  show "pte_at (mem two_pages) 0x80004000 va = 0" by (rule empty_table(3) [OF z f])
  show "tables (mem two_pages) 0x80004000 = {0x80004000}" by (rule empty_table(1) [OF z f])
qed

theorem mappages_correct_witness:
  "\<exists>t. mappages 0x80004000 0x5010 8 0x80006000 PTE_R two_pages = Ok 0 t \<and>
     pte_at (mem t) 0x80004000 0x5FFF = PA2PTE 0x80006000 OR PTE_R OR PTE_V"
proof -
  obtain t k where "mappages 0x80004000 0x5010 8 0x80006000 PTE_R two_pages = Ok 0 t" "k = Suc 0"
    "\<forall>v<MAXVA. pte_at (mem t) 0x80004000 v = (if in_pages (PGROUNDDOWN 0x5010) k v
       then PA2PTE (0x80006000 + (PGROUNDDOWN v - PGROUNDDOWN 0x5010)) OR PTE_R OR PTE_V
       else pte_at (mem two_pages) 0x80004000 v)"
    using mappages_correct [OF two_pages_env(1), of 8 "0x5010" "0x80006000" PTE_R] two_pages_env(2)
    by auto
  moreover have "PGROUNDDOWN 0x5010 = 0x5000" "PGROUNDDOWN 0x5FFF = 0x5000" by (simp_all add: PGROUNDDOWN_def)
  ultimately show ?thesis by (simp add: in_pages_def)
qed

theorem mappages_walkaddr_witness:
  "\<exists>t. mappages 0x80004000 0x5000 PGSIZE 0x80006000 (PTE_R OR PTE_U) two_pages = Ok 0 t \<and>
     walkaddr 0x80004000 0x5123 t = Ok 0x80006000 t"
proof -
  have n: "PGROUNDDOWN 0x5000 = 0x5000" by (simp add: PGROUNDDOWN_def)
  obtain t where t: "mappages 0x80004000 0x5000 PGSIZE 0x80006000 (PTE_R OR PTE_U) two_pages = Ok 0 t"
    using mappages_spec [OF two_pages_env(1), of PGSIZE "0x5000" "0x80006000" "PTE_R OR PTE_U"] two_pages_env(2)
    by auto
  from mappages_walkaddr [OF two_pages_env(1) _ _ _ _ _ _ t, of "0x5123"] t two_pages_env(2)
  show ?thesis by (auto simp: aligned_def in_pages_def pte_bits PTE_FLAGS_def)
qed

end
