(* ===== verification/VmCow.thy ===== *)
theory VmCow
  imports VmMap
begin

text \<open>
  Copy-on-write: \<open>dup_pg\<close> gives a process its own copy of a shared page, \<open>cowmappage\<close> and
  \<open>uvmcowpy\<close> share the pages of a parent with its child. The lemmas work on the leaf entries
  of the two page tables, the reference counts and the contents of the physical pages.
\<close>

subsection \<open>Writes to data pages\<close>

lemma data_write_env:
  assumes "pt_env s pt xs" "aligned 4096 p" "p \<notin> tables (mem s) pt" "p \<notin> set xs"
    and "\<forall>x. \<not> in_range p 4096 x \<longrightarrow> m' x = mem s x"
  shows "pt_env (s\<lparr>mem := m'\<rparr>) pt xs" "tables m' pt = tables (mem s) pt"
    "pte_at m' pt va = pte_at (mem s) pt va" "leaf_slot m' pt va = leaf_slot (mem s) pt va"
    "frame_at m' pt (vpath va) = frame_at (mem s) pt (vpath va)"
proof -
  have wf: "pt_wf (kend s) (mem s) pt" by (rule pt_env_wf [OF assms(1)])
  have ag: "m' x = mem s x" if "f \<in> tables (mem s) pt" "in_range f 4096 x" for f x
    using that assms(2,3,5) pages_disjoint [of f p x] pt_wf_aligned [OF wf, of f] by auto
  note pa = pt_agree [of "mem s" pt m', OF ag]
  show "tables m' pt = tables (mem s) pt" "pte_at m' pt va = pte_at (mem s) pt va"
    "leaf_slot m' pt va = leaf_slot (mem s) pt va" by (simp_all add: pa)
  show "frame_at m' pt (vpath va) = frame_at (mem s) pt (vpath va)"
    by (rule frame_at_agree [OF ag idxs_vpath])
  have "pool (s\<lparr>mem := m'\<rparr>) xs"
    using assms by (intro pool_write [of _ _ p]) (auto simp: pt_env_def)
  then show "pt_env (s\<lparr>mem := m'\<rparr>) pt xs"
    using assms(1) pa by (auto simp: pt_env_def kmem_unlocked_def)
qed

lemma kalloc_env:
  assumes "pt_env s pt (g # xs)"
  obtains u where "kalloc s = Ok g u" "pt_env u pt xs" "mem u = fill_bytes (mem s) g 5 4096"
    "cowrefs u = cowrefs s" "mem_step s u" "frame_ok (kend s) g" "g \<notin> tables (mem s) pt" "g \<notin> set xs" "g \<noteq> 0"
    "\<And>va. pte_at (mem u) pt va = pte_at (mem s) pt va" "tables (mem u) pt = tables (mem s) pt"
    "\<And>va. leaf_slot (mem u) pt va = leaf_slot (mem s) pt va"
    "\<And>va. frame_at (mem u) pt (vpath va) = frame_at (mem s) pt (vpath va)"
proof -
  from assms have s: "pool s (g # xs)" "kmem_unlocked s" "tables (mem s) pt \<inter> set (g # xs) = {}"
    by (simp_all add: pt_env_def)
  let ?u = "(touch s)\<lparr>freelist := load64 (mem s) g,
       cowrefs := (cowrefs s)(pg_index g := 0), mem := fill_bytes (mem s) g 5 4096\<rparr>"
  note k = kalloc_page [OF s(1,2)] and kp = kalloc_pool [OF s(1,2) kalloc_page [OF s(1,2)]]
  have c: "cowrefs ?u = cowrefs s" using s(1) by (auto simp: pool_def)
  have st: "mem_step s ?u" by (simp add: mem_step_def touch_kst_upd)
  have g: "aligned 4096 g" "g \<notin> tables (mem s) pt" using kp(3) s(3) by (auto simp: frame_ok_def)
  have wf: "pt_wf (kend s) (mem s) pt" by (rule pt_env_wf [OF assms])
  have ag: "mem ?u x = mem s x" if "f \<in> tables (mem s) pt" "in_range f 4096 x" for f x
    using that g pages_disjoint [of f g x] pt_wf_aligned [OF wf, of f] by (auto simp: fill_bytes_def)
  note pa = pt_agree [of "mem s" pt "mem ?u", OF ag]
  have "pt_env ?u pt xs"
    using kp(2) mem_step_locks(1) [OF st] mem_step_fields(1) [OF st] s pa(1,2) wf by (auto simp: pt_env_def)
  then show ?thesis
    using that [OF k] c st kp g frame_ok_nonzero [OF kp(3)] s(1) pa frame_at_agree [OF ag idxs_vpath]
    by (auto simp: pool_def)
qed

lemma store64_store64_same [simp, mem_simps]: "store64 (store64 m a v) a w = store64 m a w"
  by (simp add: store64_def store_bytes_def fun_eq_iff)

lemma copy_after_fill:
  assumes "aligned 4096 d" "aligned 4096 a" "a \<noteq> d"
  shows "copy_bytes (fill_bytes m d c 4096) d a 4096 = copy_bytes m d a 4096"
proof
  fix x
  have "\<not> in_range d 4096 (a + (x - d))" if "in_range d 4096 x"
    using that assms pages_disjoint [of a d "a + (x - d)"] by (auto simp: in_range_def)
  then show "copy_bytes (fill_bytes m d c 4096) d a 4096 x = copy_bytes m d a 4096 x"
    by (simp add: copy_bytes_def fill_bytes_def)
qed

lemma load_copied: "n \<le> 2 ^ 64 \<Longrightarrow> load_bytes (copy_bytes m d a n) d n = load_bytes m a n"
  by (rule load_bytes_cong) (simp add: copy_bytes_def in_range_offset)

subsection \<open>dup\_pg\<close>

definition DUP_FLAGS :: uint64 where
  "DUP_FLAGS = PTE_U OR PTE_V OR PTE_W OR PTE_X OR PTE_R"

lemma DUP_FLAGS: "PTE_FLAGS DUP_FLAGS = DUP_FLAGS" "DUP_FLAGS = 31"
  by (simp_all add: DUP_FLAGS_def PTE_FLAGS_def pte_bits)

lemma dup_entry: "(PA2PTE g OR DUP_FLAGS) AND NOT PTE_COW = PA2PTE g OR DUP_FLAGS"
proof (rule bit_word_eqI)
  fix n assume n: "n < LENGTH(64)"
  have c: "bit PTE_COW n \<longleftrightarrow> n = 8"
  proof -
    have "PTE_COW = push_bit 8 1" by (simp add: PTE_COW_def)
    then show ?thesis unfolding \<open>PTE_COW = push_bit 8 1\<close> bit_push_bit_iff bit_1_iff using n by auto
  qed
  have "\<not> bit (PA2PTE g OR DUP_FLAGS) 8"
    by (simp add: PA2PTE_def DUP_FLAGS bit_simps)
  with c n show "bit ((PA2PTE g OR DUP_FLAGS) AND NOT PTE_COW) n = bit (PA2PTE g OR DUP_FLAGS) n"
    by (auto simp: bit_and_iff bit_not_iff)
qed

lemma dup_pg_no_slot:
  "va \<noteq> 0 \<Longrightarrow> va < MAXVA \<Longrightarrow> leaf_slot (mem s) pt va = 0 \<Longrightarrow> dup_pg pt va s = Ok (-1) s"
  by (simp add: dup_pg_def walk_read)

lemma dup_pg_not_cow:
  assumes "pt_wf (kend s) (mem s) pt" "0 < kend s" "va \<noteq> 0" "va < MAXVA" "leaf_slot (mem s) pt va \<noteq> 0"
    and "pte_at (mem s) pt va AND PTE_COW = 0"
  shows "dup_pg pt va s = Ok 0 s"
  using assms leaf_slot_cases [OF assms(1,2), of va] by (simp add: dup_pg_def walk_read load_leaf_slot)

text \<open>
  The state just before \<open>kfree\<close>: the new page holds a copy and the entry points to it.
\<close>

lemma dup_pg_copy:
  assumes env: "pt_env s pt (g # xs)" and va: "va \<noteq> 0" "va < MAXVA"
    and e: "pte_at (mem s) pt va AND PTE_COW \<noteq> 0" "pte_at (mem s) pt va AND PTE_U \<noteq> 0"
      "pte_at (mem s) pt va AND PTE_V \<noteq> 0"
    and old: "old = PTE2PA (pte_at (mem s) pt va)" "frame_ok (kend s) old" "old \<notin> tables (mem s) pt"
      "old \<notin> set (g # xs)"
  shows "\<exists>u. dup_pg pt va s = bnd (kfree old u) (\<lambda>_ s. Ok 0 s) \<and> pt_env u pt xs \<and> mem_step s u \<and>
    cowrefs u = cowrefs s \<and> tables (mem u) pt = tables (mem s) pt \<and>
    (\<forall>v<MAXVA. pte_at (mem u) pt v = (if PGROUNDDOWN v = PGROUNDDOWN va then PA2PTE g OR DUP_FLAGS
       else pte_at (mem s) pt v)) \<and>
    load_bytes (mem u) g 4096 = load_bytes (mem s) old 4096 \<and>
    (\<forall>x. \<not> in_range g 4096 x \<and> (\<forall>f\<in>tables (mem s) pt. \<not> in_range f 4096 x) \<longrightarrow> mem u x = mem s x)"
proof -
  have wf: "pt_wf (kend s) (mem s) pt" and k0: "0 < kend s"
    using pt_env_wf [OF env] pt_env_kend [OF env] by auto
  have slot: "leaf_slot (mem s) pt va \<noteq> 0" "frame_at (mem s) pt (vpath va) \<noteq> None"
    using pte_at_0 [OF wf k0, of va] leaf_slot_cases [OF wf k0, of va] e by auto
  obtain u1 where u1: "kalloc s = Ok g u1" "pt_env u1 pt xs" "mem u1 = fill_bytes (mem s) g 5 4096"
    "cowrefs u1 = cowrefs s" "mem_step s u1" "frame_ok (kend s) g" "g \<notin> tables (mem s) pt" "g \<notin> set xs" "g \<noteq> 0"
    "\<And>va. pte_at (mem u1) pt va = pte_at (mem s) pt va" "tables (mem u1) pt = tables (mem s) pt"
    "\<And>va. leaf_slot (mem u1) pt va = leaf_slot (mem s) pt va"
    "\<And>va. frame_at (mem u1) pt (vpath va) = frame_at (mem s) pt (vpath va)"
    using kalloc_env [OF env] by metis
  have al: "aligned 4096 g" "aligned 4096 old" "old \<noteq> g" using u1(6) old by (auto simp: frame_ok_def)
  have bd: "unat old < 0x88000000" "unat g < 0x88000000"
    using old(2) u1(6) by (simp_all add: frame_ok_def word_less_nat_alt)
  have mv: "memmove g old (ucast PGSIZE) (mem u1) = copy_bytes (mem s) g old 4096"
  proof -
    have "memmove g old (ucast PGSIZE) (mem u1) = copy_bytes (mem u1) g old 4096"
      using bd by (subst memmove_eq) simp_all
    then show ?thesis using copy_after_fill [OF al(1,2,3)] by (simp add: u1(3))
  qed
  let ?u2 = "u1\<lparr>mem := copy_bytes (mem s) g old 4096\<rparr>"
  have g1: "g \<notin> tables (mem u1) pt" using u1(7,11) by simp
  have out: "\<forall>x. \<not> in_range g 4096 x \<longrightarrow> copy_bytes (mem s) g old 4096 x = mem u1 x"
    by (simp add: copy_bytes_def u1(3) fill_bytes_def)
  note W = data_write_env [OF u1(2) al(1) g1 u1(8) out]
  let ?u = "?u2\<lparr>mem := store64 (mem ?u2) (leaf_slot (mem ?u2) pt va) (PA2PTE g OR DUP_FLAGS)\<rparr>"
  have fr2: "frame_at (mem ?u2) pt (vpath va) \<noteq> None"
    using slot(2) frame_at_agree [of "mem u1" pt "mem ?u2" "vpath va"] W(5) u1(13) by simp
  note L = leaf_store_env [OF W(1) fr2 va(2), where v = "PA2PTE g OR DUP_FLAGS"]
  have eq: "dup_pg pt va s = bnd (kfree old ?u) (\<lambda>_ s. Ok 0 s)"
    using va slot e u1(1,9) mv
    by (simp add: dup_pg_def walk_read load_leaf_slot old(1) [symmetric] Let_def W(4) u1(12)
        DUP_FLAGS_def [symmetric] dup_entry)
  have tb: "tables (mem ?u) pt = tables (mem s) pt"
    using L(2) W(2) u1(11) by (auto simp: pt_step_def)
  obtain f where f: "frame_at (mem s) pt (vpath va) = Some f" "f \<in> tables (mem s) pt" "leaf_slot (mem s) pt va = f + 8 * PX 0 va"
    using slot(2) by (auto simp: leaf_slot_def intro: tablesI [OF idxs_vpath])
  have mu: "mem ?u x = copy_bytes (mem s) g old 4096 x" if "\<not> in_range f 4096 x" for x
    using that by (simp add: W(4) u1(12) f(3) entry_store_outside PX_less)
  have "load_bytes (mem ?u) g 4096 = load_bytes (copy_bytes (mem s) g old 4096) g 4096"
    using mu pages_disjoint [OF al(1) pt_wf_aligned [OF wf f(2)]] u1(7) f(2)
    by (intro load_bytes_agree) auto
  then have ld: "load_bytes (mem ?u) g 4096 = load_bytes (mem s) old 4096" by (simp add: load_copied)
  have mo: "mem ?u x = mem s x" if "\<not> in_range g 4096 x" "\<forall>f\<in>tables (mem s) pt. \<not> in_range f 4096 x" for x
    using that mu [of x] f(2) by (simp add: copy_bytes_def)
  have pte: "pte_at (mem ?u) pt v = (if PGROUNDDOWN v = PGROUNDDOWN va then PA2PTE g OR DUP_FLAGS
       else pte_at (mem s) pt v)" if "v < MAXVA" for v
    using L(3) [OF that] W(3) [of v] u1(10) [of v] by simp
  have ms: "mem_step s ?u" using u1(5) by (auto intro: mem_step_trans)
  show ?thesis
    using eq L(1) ms u1(4) tb ld mo pte by (intro exI [of _ ?u] conjI allI impI) auto
qed

text \<open>
  \<open>kfree\<close> of a data page beside a page table.
\<close>

lemma kfree_env:
  assumes env: "pt_env s pt xs" "cow_unlocked s" and p: "frame_ok (kend s) p" "p \<notin> tables (mem s) pt" "p \<notin> set xs"
  defines "ys \<equiv> if cowrefs s (pg_index p) = 0 then p # xs else xs"
  shows "\<exists>t. kfree p s = Ok () t \<and> pt_env t pt ys \<and> mem_step s t \<and>
    cowrefs t = (if cowrefs s (pg_index p) = 0 then cowrefs s
      else (cowrefs s)(pg_index p := cowrefs s (pg_index p) - 1)) \<and>
    tables (mem t) pt = tables (mem s) pt \<and> (\<forall>va. pte_at (mem t) pt va = pte_at (mem s) pt va) \<and>
    (\<forall>x. (cowrefs s (pg_index p) = 0 \<longrightarrow> \<not> in_range p 4096 x) \<longrightarrow> mem t x = mem s x)"
proof (cases "cowrefs s (pg_index p) = 0")
  case True
  let ?m = "store64 (fill_bytes (mem s) p 1 4096) p (freelist s)"
  let ?t = "(touch s)\<lparr>mem := ?m, freelist := p\<rparr>"
  have k: "kfree p s = Ok () ?t" by (rule kfree_last [OF p(1) env(2) True])
  have al: "aligned 4096 p" using p(1) by (simp add: frame_ok_def)
  have out: "?m x = mem s x" if "\<not> in_range p 4096 x" for x
    using that entry_store_outside [of 0 p x] by (simp add: fill_bytes_def)
  have pl: "pool ?t (p # xs)"
    using env(1) p by (intro kfree_pool [OF _ p(1) env(2) True _ k]) (auto simp: pt_env_def)
  have wf: "pt_wf (kend s) (mem s) pt" by (rule pt_env_wf [OF env(1)])
  have ag: "?m x = mem s x" if "f \<in> tables (mem s) pt" "in_range f 4096 x" for f x
    using that p(2) al out pages_disjoint [of f p x] pt_wf_aligned [OF wf, of f] by auto
  note pa = pt_agree [of "mem s" pt ?m, OF ag]
  have "pt_env ?t pt (p # xs)" using pl env p(2) pa(1,2) by (auto simp: pt_env_def kmem_unlocked_def)
  moreover have "mem_step s ?t" by (simp add: mem_step_def touch_kst_upd)
  ultimately show ?thesis using k True pa out by (auto simp: ys_def)
next
  case False
  let ?c = "(cowrefs s)(pg_index p := cowrefs s (pg_index p) - 1)"
  have k: "kfree p s = Ok () ((touch s)\<lparr>cowrefs := ?c\<rparr>)"
    using False by (intro kfree_shared p env) (simp add: word_gt_0)
  have "pg_index x \<noteq> pg_index p" if "x \<in> set xs" for x
    using that pg_index_inj [of x p] p env(1) by (auto simp: pt_env_def pool_def frame_ok_def)
  then have "pool ((touch s)\<lparr>cowrefs := ?c\<rparr>) xs" using env(1) by (auto simp: pt_env_def pool_def)
  then have "pt_env ((touch s)\<lparr>cowrefs := ?c\<rparr>) pt xs" using env by (auto simp: pt_env_def kmem_unlocked_def)
  moreover have "mem_step s ((touch s)\<lparr>cowrefs := ?c\<rparr>)" by (simp add: mem_step_def touch_kst_upd)
  ultimately show ?thesis using k False by (auto simp: ys_def)
qed

lemma dup_pg_spec:
  assumes env: "pt_env s pt (g # xs)" "cow_unlocked s" and va: "va \<noteq> 0" "va < MAXVA"
    and e: "pte_at (mem s) pt va AND PTE_COW \<noteq> 0" "pte_at (mem s) pt va AND PTE_U \<noteq> 0"
      "pte_at (mem s) pt va AND PTE_V \<noteq> 0"
    and old: "old = PTE2PA (pte_at (mem s) pt va)" "frame_ok (kend s) old" "old \<notin> tables (mem s) pt"
      "old \<notin> set (g # xs)"
  defines "c \<equiv> cowrefs s (pg_index old)"
  shows "\<exists>t. dup_pg pt va s = Ok 0 t \<and> pt_env t pt (if c = 0 then old # xs else xs) \<and> mem_step s t \<and>
    cowrefs t = (if c = 0 then cowrefs s else (cowrefs s)(pg_index old := c - 1)) \<and>
    tables (mem t) pt = tables (mem s) pt \<and>
    (\<forall>v<MAXVA. pte_at (mem t) pt v = (if PGROUNDDOWN v = PGROUNDDOWN va then PA2PTE g OR DUP_FLAGS
       else pte_at (mem s) pt v)) \<and>
    load_bytes (mem t) g 4096 = load_bytes (mem s) old 4096 \<and>
    (\<forall>x. \<not> in_range g 4096 x \<and> (\<forall>f\<in>tables (mem s) pt. \<not> in_range f 4096 x) \<and>
       (c = 0 \<longrightarrow> \<not> in_range old 4096 x) \<longrightarrow> mem t x = mem s x)"
proof -
  obtain u where u: "dup_pg pt va s = bnd (kfree old u) (\<lambda>_ s. Ok 0 s)" "pt_env u pt xs" "mem_step s u"
    "cowrefs u = cowrefs s" "tables (mem u) pt = tables (mem s) pt"
    "\<forall>v<MAXVA. pte_at (mem u) pt v = (if PGROUNDDOWN v = PGROUNDDOWN va then PA2PTE g OR DUP_FLAGS
       else pte_at (mem s) pt v)"
    "load_bytes (mem u) g 4096 = load_bytes (mem s) old 4096"
    "\<forall>x. \<not> in_range g 4096 x \<and> (\<forall>f\<in>tables (mem s) pt. \<not> in_range f 4096 x) \<longrightarrow> mem u x = mem s x"
    using dup_pg_copy [OF env(1) va e old] by blast
  have f: "frame_ok (kend u) old" "old \<notin> tables (mem u) pt" "old \<notin> set xs" "cow_unlocked u"
    using old u(5) env(2) mem_step_fields(1) [OF u(3)] mem_step_locks(2) [OF u(3)] by auto
  obtain t where t: "kfree old u = Ok () t" "pt_env t pt (if c = 0 then old # xs else xs)" "mem_step u t"
    "cowrefs t = (if c = 0 then cowrefs s else (cowrefs s)(pg_index old := c - 1))"
    "tables (mem t) pt = tables (mem u) pt" "\<forall>va. pte_at (mem t) pt va = pte_at (mem u) pt va"
    "\<forall>x. (c = 0 \<longrightarrow> \<not> in_range old 4096 x) \<longrightarrow> mem t x = mem u x"
    using kfree_env [OF u(2) f(4,1,2,3)] by (auto simp: c_def u(4))
  have "g \<noteq> old" "aligned 4096 g" "aligned 4096 old"
    using old env(1) by (auto simp: frame_ok_def pt_env_def pool_def)
  then have "load_bytes (mem t) g 4096 = load_bytes (mem u) g 4096"
    using t(7) pages_disjoint [of g old] by (intro load_bytes_agree) auto
  then show ?thesis using u t mem_step_trans [OF u(3) t(3)] by (intro exI [of _ t]) auto
qed

text \<open>
  C7: On a user page marked copy-on-write, with a free page left, \<open>dup_pg\<close> returns 0
  and gives the address space a private writable copy: the entry points to the newly allocated
  page, which has the contents of the shared one, and no other translation changes. The shared
  page loses one reference, or goes back to the free list if this was the last one; while it is
  still shared its contents do not change.
\<close>

theorem dup_pg_private_copy:
  assumes "pt_env s pt (g # xs)" "cow_unlocked s" "va \<noteq> 0" "va < MAXVA"
    and "pte_at (mem s) pt va AND PTE_COW \<noteq> 0" "pte_at (mem s) pt va AND PTE_U \<noteq> 0"
    and "pte_at (mem s) pt va AND PTE_V \<noteq> 0" "old = PTE2PA (pte_at (mem s) pt va)"
    and "frame_ok (kend s) old" "old \<notin> tables (mem s) pt" "old \<notin> set (g # xs)"
  shows "\<exists>t. dup_pg pt va s = Ok 0 t \<and>
    (\<forall>v<MAXVA. pte_at (mem t) pt v = (if PGROUNDDOWN v = PGROUNDDOWN va
       then PA2PTE g OR PTE_U OR PTE_V OR PTE_W OR PTE_X OR PTE_R else pte_at (mem s) pt v)) \<and>
    load_bytes (mem t) g 4096 = load_bytes (mem s) old 4096 \<and>
    (if cowrefs s (pg_index old) = 0 then pool t (old # xs)
     else pool t xs \<and> cowrefs t = (cowrefs s)(pg_index old := cowrefs s (pg_index old) - 1) \<and>
       load_bytes (mem t) old 4096 = load_bytes (mem s) old 4096)"
proof -
  obtain t where t: "dup_pg pt va s = Ok 0 t"
    "pt_env t pt (if cowrefs s (pg_index old) = 0 then old # xs else xs)"
    "cowrefs t = (if cowrefs s (pg_index old) = 0 then cowrefs s
       else (cowrefs s)(pg_index old := cowrefs s (pg_index old) - 1))"
    "\<forall>v<MAXVA. pte_at (mem t) pt v = (if PGROUNDDOWN v = PGROUNDDOWN va then PA2PTE g OR DUP_FLAGS
       else pte_at (mem s) pt v)"
    "load_bytes (mem t) g 4096 = load_bytes (mem s) old 4096"
    "\<forall>x. \<not> in_range g 4096 x \<and> (\<forall>f\<in>tables (mem s) pt. \<not> in_range f 4096 x) \<and>
       (cowrefs s (pg_index old) = 0 \<longrightarrow> \<not> in_range old 4096 x) \<longrightarrow> mem t x = mem s x"
    using dup_pg_spec [OF assms] by blast
  have al: "aligned 4096 old" "aligned 4096 g" "old \<noteq> g"
    using assms(1,9,11) by (auto simp: frame_ok_def pt_env_def pool_def)
  have "load_bytes (mem t) old 4096 = load_bytes (mem s) old 4096" if "cowrefs s (pg_index old) \<noteq> 0"
  proof (rule load_bytes_agree)
    fix x assume x: "in_range old 4096 x"
    have "\<not> in_range f 4096 x" if "f \<in> tables (mem s) pt" for f
      using pages_disjoint [OF al(1) pt_wf_aligned [OF pt_env_wf [OF assms(1)] that] _ x] assms(10) that by auto
    with t(6) x that pages_disjoint [OF al x] show "mem t x = mem s x" by auto
  qed simp
  with t show ?thesis by (intro exI [of _ t]) (auto simp: pt_env_def DUP_FLAGS_def)
qed

text \<open>
  A concrete address space: six pages are freed at boot, a page table is created, and one user
  page is mapped.
\<close>

definition sample_pages :: "addr list" where
  "sample_pages = [0x80002000, 0x80003000, 0x80004000, 0x80005000, 0x80006000, 0x80007000]"

lemma sample_space:
  assumes "aligned 4096 a" "a < MAXVA"
  shows "\<exists>(s :: kst) pt xs. pt_env s pt xs \<and> 3 \<le> length xs \<and> cow_unlocked s \<and> frame_ok (kend s) 0x80008000 \<and>
    cowrefs s 0x80008 = 0 \<and> set xs \<subseteq> set sample_pages \<and> tables (mem s) pt \<subseteq> set sample_pages \<and>
    (\<forall>va<MAXVA. pte_at (mem s) pt va = (if in_pages a 1 va then PA2PTE 0x80008000 OR perm OR PTE_V else 0))"
proof -
  have ow: "owned (boot_kst 0x80001000) x" if "aligned 4096 x" "0x80001000 \<le> x" "x < 0x88000000" for x
    using that by (simp add: owned_def frame_ok_def)
  have "\<forall>p\<in>set sample_pages. owned (boot_kst 0x80001000) p"
    by (auto simp: sample_pages_def intro!: ow simp: aligned_def)
  moreover have "owned (boot_kst 0x80001000) 0x80008000" by (rule ow) (simp_all add: aligned_def)
  moreover have "avail (boot_kst 0x80001000) []" by (rule boot_kst_avail) simp
  moreover have "distinct sample_pages" by (simp add: sample_pages_def)
  ultimately obtain s1 :: kst where s1: "avail s1 (rev sample_pages)" "owned s1 0x80008000"
    using kalloc.free_all [of "boot_kst 0x80001000" "[]" sample_pages] by auto
  define g where "g = (0x80007000 :: addr)"
  have r: "rev sample_pages = g # tl (rev sample_pages)" by (simp add: sample_pages_def g_def)
  have pl: "pool s1 (g # tl (rev sample_pages))" "kmem_unlocked s1" "cow_unlocked s1"
    using s1(1) unfolding r [symmetric] by (simp_all add: avail_def cow_unlocked_def)
  from uvmcreate_spec [OF pl(1,2)] obtain s2 where s2: "pt_env s2 g (tl (rev sample_pages))"
    "\<And>va. pte_at (mem s2) g va = 0" "tables (mem s2) g = {g}" "mem_step s1 s2" "cowrefs s2 = cowrefs s1" by blast
  have ln: "length (tl (rev sample_pages)) = 5" by (simp add: sample_pages_def)
  have n: "PGROUNDDOWN a = a" "(unat a + unat PGSIZE - 1) div 4096 - unat a div 4096 = 0"
    using assms(1) by (auto simp: aligned_def)
  have sz: "unat a + unat PGSIZE \<le> unat MAXVA" using aligned_below [OF assms] by simp
  from mappages_spec [OF s2(1) _ sz, of "0x80008000" perm, unfolded n] s2(2) ln
  obtain t ys where t: "pt_env t g ys" "pt_step s2 t g (tl (rev sample_pages)) ys"
    "\<forall>v<MAXVA. pte_at (mem t) g v = (if in_pages a 1 v
       then PA2PTE (0x80008000 + (PGROUNDDOWN v - a)) OR perm OR PTE_V else 0)"
    "mappages g a PGSIZE 0x80008000 perm s2 = Ok 0 t" "5 \<le> length ys + 2"
    by auto
  have pd: "PGROUNDDOWN v = a" if "in_pages a 1 v" for v
    using that in_pages_PGROUNDDOWN [OF assms(1)] by simp
  from t(3) pd have pte: "\<forall>v<MAXVA. pte_at (mem t) g v =
      (if in_pages a 1 v then PA2PTE 0x80008000 OR perm OR PTE_V else 0)" by simp
  from t(2) obtain zs where zs: "tl (rev sample_pages) = zs @ ys" "tables (mem t) g = {g} \<union> set zs"
    "mem_step s2 t" "cowrefs t = cowrefs s2" by (auto simp: pt_step_def s2(3))
  have sub: "set zs \<union> set ys \<subseteq> set sample_pages" "g \<in> set sample_pages"
  proof -
    have "set zs \<union> set ys = set (tl (rev sample_pages))" using zs(1) by simp
    also have "\<dots> \<subseteq> set (rev sample_pages)" by (simp add: sample_pages_def)
    finally show "set zs \<union> set ys \<subseteq> set sample_pages" by simp
  qed (simp add: sample_pages_def g_def)
  have st: "mem_step s1 t" using s2(4) zs(3) by (rule mem_step_trans)
  have "cow_unlocked t" "frame_ok (kend t) 0x80008000" "cowrefs t 0x80008 = 0"
    using pl(3) mem_step_locks(2) [OF st] mem_step_fields(1) [OF st] s1(2) zs(4) s2(5)
    by (simp_all add: owned_def)
  then show ?thesis using t(1,5) pte sub zs(2)
    by (intro exI [of _ t] exI [of _ g] exI [of _ ys]) auto
qed

theorem dup_pg_private_copy_witness:
  "\<exists>(s :: kst) pt g t. dup_pg pt 0x5000 s = Ok 0 t \<and>
     pte_at (mem s) pt 0x5000 = PA2PTE 0x80008000 OR (PTE_U OR PTE_COW OR PTE_V) \<and>
     pte_at (mem t) pt 0x5000 = PA2PTE g OR PTE_U OR PTE_V OR PTE_W OR PTE_X OR PTE_R \<and>
     load_bytes (mem t) g 4096 = load_bytes (mem s) 0x80008000 4096"
proof -
  obtain s :: kst and pt xs where s: "pt_env s pt xs" "3 \<le> length xs" "cow_unlocked s"
    "frame_ok (kend s) 0x80008000" "set xs \<subseteq> set sample_pages" "tables (mem s) pt \<subseteq> set sample_pages"
    "\<forall>va<MAXVA. pte_at (mem s) pt va = (if in_pages 0x5000 1 va
      then PA2PTE 0x80008000 OR (PTE_U OR PTE_COW) OR PTE_V else 0)"
    using sample_space [of "0x5000" "PTE_U OR PTE_COW"] by (auto simp: aligned_def)
  then obtain g ys where g: "xs = g # ys" by (cases xs) auto
  have e: "pte_at (mem s) pt 0x5000 = PA2PTE 0x80008000 OR (PTE_U OR PTE_COW OR PTE_V)"
    using s(7) by (simp add: in_pages_def or.assoc)
  have n: "0x80008000 \<notin> set sample_pages" by (simp add: sample_pages_def)
  have fl: "PTE_FLAGS (PTE_U OR PTE_COW OR PTE_V) = PTE_U OR PTE_COW OR PTE_V" by simp
  have pa: "PTE2PA (pte_at (mem s) pt 0x5000) = 0x80008000"
    unfolding e by (rule PTE2PA_PA2PTE [OF _ fl]) (simp add: aligned_def)
  have f: "pte_at (mem s) pt 0x5000 AND PTE_COW \<noteq> 0" "pte_at (mem s) pt 0x5000 AND PTE_U \<noteq> 0"
    "pte_at (mem s) pt 0x5000 AND PTE_V \<noteq> 0"
    unfolding e by (simp_all add: PTE_AND_flag) (simp_all add: pte_bits)
  obtain t where "dup_pg pt 0x5000 s = Ok 0 t"
    "\<forall>v<MAXVA. pte_at (mem t) pt v = (if PGROUNDDOWN v = PGROUNDDOWN 0x5000
       then PA2PTE g OR PTE_U OR PTE_V OR PTE_W OR PTE_X OR PTE_R else pte_at (mem s) pt v)"
    "load_bytes (mem t) g 4096 = load_bytes (mem s) 0x80008000 4096"
    using dup_pg_private_copy [OF s(1) [unfolded g] s(3) _ _ f pa [symmetric] s(4)] s(5,6) n g by auto
  with e show ?thesis by (intro exI [of _ s] exI [of _ pt] exI [of _ g] exI [of _ t]) simp
qed

end
