(* ===== verification/VmFork.thy ===== *)
theory VmFork
  imports VmCow
begin

text \<open>
  \<open>cowmappage\<close> and \<open>uvmcowpy\<close>: sharing the address space of a parent with a new page table.
\<close>

subsection \<open>cowmappage\<close>

lemma touch_hold: "irqs_ok s \<Longrightarrow> touch (hold lk s) = hold lk s"
  by (simp add: touch_def irq_ok_def)

lemma mem_step_hold:
  assumes "irqs_ok s" "mem_step (hold lk s) t"
  shows "t = hold lk (s\<lparr>mem := mem t, freelist := freelist t, cowrefs := cowrefs t\<rparr>)"
proof -
  have "noff (cpus t (hart t)) \<noteq> 0"
    using assms mem_step_fields(2,5) [OF assms(2)] by (simp add: irq_ok_def)
  then have "touch t = t" by (simp add: touch_def)
  with assms(2) show ?thesis
    unfolding mem_step_def hold_kst_upd using assms(1) by (simp add: touch_hold)
qed

lemma pt_env_hold:
  assumes "pt_env s pt xs"
  shows "pt_env (hold (L_cowref i) s) pt xs"
  using assms by (simp add: pt_env_def pool_def kmem_unlocked_def)

definition share_perm :: "uint64 \<Rightarrow> uint64" where
  "share_perm perm = perm OR PTE_COW"

lemma cowmappage_spec:
  assumes env: "pt_env s pt xs" "cow_unlocked s" and va: "aligned 4096 va" "va < MAXVA"
    and pa: "frame_ok (kend s) pa" "pa \<notin> set xs" and un: "pte_at (mem s) pt va AND PTE_V = 0"
    and room: "2 \<le> length xs"
  shows "\<exists>t ys. cowmappage pt va PGSIZE pa perm s = Ok 0 t \<and> pt_env t pt ys \<and> mem_step s t \<and>
    cowrefs t = (cowrefs s)(pg_index pa := cowrefs s (pg_index pa) + 1) \<and>
    length xs \<le> length ys + 2 \<and> (\<exists>zs. xs = zs @ ys \<and> tables (mem t) pt = tables (mem s) pt \<union> set zs) \<and>
    (\<forall>x. (\<forall>f\<in>tables (mem t) pt. \<not> in_range f 4096 x) \<longrightarrow> mem t x = mem s x) \<and>
    (\<forall>v<MAXVA. pte_at (mem t) pt v = (if in_pages va 1 v
       then PA2PTE pa OR share_perm perm OR PTE_V else pte_at (mem s) pt v))"
proof -
  let ?lk = "L_cowref (pg_index pa)"
  let ?h = "hold ?lk s"
  have fr: "lk_free (locks s ?lk)" by (rule frame_cow_free [OF pa(1) env(2)])
  have irq: "irqs_ok s" using env(2) by (simp add: cow_unlocked_def kmem_unlocked_def)
  have sz: "unat va + unat PGSIZE \<le> unat MAXVA" using aligned_below [OF va] by simp
  have n: "(unat va + unat PGSIZE - 1) div 4096 - unat va div 4096 = 0"
    using va(1) by (auto simp: aligned_def)
  have un': "pte_at (mem ?h) pt v AND PTE_V = 0" if "in_pages (PGROUNDDOWN va) (Suc 0) v" for v
  proof -
    have pg: "in_pages va 1 v" using that va(1) by simp
    then have "v < MAXVA" using sz by (simp add: in_pages_def word_less_nat_alt)
    moreover have "PGROUNDDOWN v = PGROUNDDOWN va" using pg va(1) PGROUNDDOWN_eq [OF va(1)] by simp
    ultimately show ?thesis using pte_at_page [of v va "mem s" pt] va(2) un by simp
  qed
  from mappages_spec [OF pt_env_hold [OF env(1)] _ sz, of "pg_index pa" pa "share_perm perm", unfolded n] un' room
  obtain t ys where t: "mappages pt va PGSIZE pa (share_perm perm) ?h = Ok 0 t" "pt_env t pt ys"
    "pt_step ?h t pt xs ys" "length xs \<le> length ys + 2"
    "\<forall>v<MAXVA. pte_at (mem t) pt v = (if in_pages (PGROUNDDOWN va) (Suc 0) v
       then PA2PTE (pa + (PGROUNDDOWN v - PGROUNDDOWN va)) OR share_perm perm OR PTE_V else pte_at (mem s) pt v)"
    by (auto simp: word_gt_0)
  from t(3) have ms: "mem_step ?h t" "cowrefs t = cowrefs s" by (simp_all add: pt_step_def)
  define w where "w = s\<lparr>mem := mem t, freelist := freelist t,
      cowrefs := (cowrefs s)(pg_index pa := cowrefs s (pg_index pa) + 1)\<rparr>"
  have tw: "t\<lparr>cowrefs := (cowrefs t)(pg_index pa := cowrefs t (pg_index pa) + 1)\<rparr> = hold ?lk w"
    by (subst mem_step_hold [OF irq ms(1)]) (simp add: ms(2) w_def lock_simps)
  have "release ?lk (hold ?lk w) = Ok () (touch w)"
    using fr irq by (intro release_hold) (simp_all add: w_def)
  then have eq: "cowmappage pt va PGSIZE pa perm s = Ok 0 (touch w)"
    using kfree_guard [OF pa(1)] fr t(1) tw
    by (simp add: cowmappage_def acquire_free share_perm_def Let_def)
  have nidx: "pg_index x \<noteq> pg_index pa" if "x \<in> set ys" for x
  proof -
    have "x \<in> set xs" using t(3) that by (auto simp: pt_step_def)
    then show ?thesis using pg_index_inj [of x pa] pa env(1) by (auto simp: pt_env_def pool_def frame_ok_def)
  qed
  have kw: "kend t = kend s" using mem_step_fields(1) [OF ms(1)] by simp
  have "pool (touch w) ys"
    using t(2) nidx kw by (auto simp: pt_env_def pool_def w_def ms(2))
  moreover have sw: "mem_step s (touch w)" by (simp add: w_def mem_step_def touch_kst_upd)
  ultimately have "pt_env (touch w) pt ys"
    using t(2) env kw mem_step_locks(1) [OF sw] by (auto simp: pt_env_def w_def)
  moreover note sw
  moreover have "\<forall>v<MAXVA. pte_at (mem t) pt v = (if in_pages va 1 v
       then PA2PTE pa OR share_perm perm OR PTE_V else pte_at (mem s) pt v)"
    using t(5) va(1) in_pages_PGROUNDDOWN [OF va(1)] by simp
  ultimately show ?thesis
    using eq t(3,4) by (intro exI [of _ "touch w"] exI [of _ ys]) (simp add: w_def pt_step_def)
qed

subsection \<open>uvmcowpy\<close>

definition cow_bits :: "uint64 \<Rightarrow> uint64" where
  "cow_bits e = (e AND NOT PTE_W) OR PTE_COW"

definition cow_env :: "'z kst_scheme \<Rightarrow> addr \<Rightarrow> addr \<Rightarrow> addr list \<Rightarrow> bool" where
  "cow_env s old new xs \<longleftrightarrow> pt_env s old xs \<and> pt_env s new xs \<and> cow_unlocked s \<and>
     tables (mem s) old \<inter> tables (mem s) new = {}"

definition child_pte :: "uint64 \<Rightarrow> uint64" where
  "child_pte e = PA2PTE (PTE2PA e) OR share_perm (PTE_FLAGS (cow_bits e)) OR PTE_V"

lemma PTE2PA_cow [simp]: "PTE2PA (cow_bits e) = PTE2PA e"
proof -
  have *: "\<not> bit (w :: uint64) (10 + n)" if "PTE_FLAGS w = w" for w n using flags_bits [OF that] by simp
  have "drop_bit 10 (cow_bits e) = drop_bit 10 e"
  proof (rule bit_word_eqI)
    fix n assume "n < LENGTH(64)"
    show "bit (drop_bit 10 (cow_bits e)) n = bit (drop_bit 10 e) n"
      using * [of PTE_W n] * [of PTE_COW n]  bit_imp_le_length [of e "10 + n"]
      by (auto simp: cow_bits_def bit_drop_bit_eq bit_or_iff bit_and_iff bit_not_iff)
  qed
  then show ?thesis by (simp only: PTE2PA_def)
qed

text \<open>
  A change confined to the tables of one address space leaves the other one alone.
\<close>

lemma other_table:
  assumes env: "pt_env s old xs" and t: "pool t ys" "kmem_unlocked t" "kend t = kend s" "set ys \<subseteq> set xs"
    and F: "\<And>f. f \<in> F \<Longrightarrow> aligned 4096 f" "tables (mem s) old \<inter> F = {}"
    and m: "\<And>x. (\<And>f. f \<in> F \<Longrightarrow> \<not> in_range f 4096 x) \<Longrightarrow> mem t x = mem s x"
  shows "pt_env t old ys" "tables (mem t) old = tables (mem s) old" "pte_at (mem t) old v = pte_at (mem s) old v"
proof -
  have wf: "pt_wf (kend s) (mem s) old" by (rule pt_env_wf [OF env])
  have ag: "mem t x = mem s x" if "g \<in> tables (mem s) old" "in_range g 4096 x" for g x
  proof (rule m)
    fix f assume "f \<in> F"
    with that F show "\<not> in_range f 4096 x"
      using pages_disjoint [OF pt_wf_aligned [OF wf that(1)], of f x] by auto
  qed
  note pa = pt_agree [of "mem s" old "mem t", OF ag]
  show "tables (mem t) old = tables (mem s) old" "pte_at (mem t) old v = pte_at (mem s) old v"
    by (simp_all add: pa)
  show "pt_env t old ys" using env t pa(1,2) by (auto simp: pt_env_def)
qed

lemma uvmcowpy_iter:
  assumes env: "cow_env s old new xs" and i: "aligned 4096 i" "i < MAXVA" "i < sz"
    and e: "pte_at (mem s) old i AND PTE_V \<noteq> 0"
    and pa: "frame_ok (kend s) (PTE2PA (pte_at (mem s) old i))" "PTE2PA (pte_at (mem s) old i) \<notin> set xs"
    and un: "pte_at (mem s) new i AND PTE_V = 0" and room: "2 \<le> length xs"
  defines "j \<equiv> pg_index (PTE2PA (pte_at (mem s) old i))"
  shows "\<exists>t ys. uvmcowpy_loop i old new sz s = uvmcowpy_loop (i + 4096) old new sz t \<and>
    cow_env t old new ys \<and> mem_step s t \<and> set ys \<subseteq> set xs \<and> length xs \<le> length ys + 2 \<and>
    cowrefs t = (cowrefs s)(j := cowrefs s j + 1) \<and>
    (\<forall>v<MAXVA. pte_at (mem t) old v = (if in_pages i 1 v then cow_bits (pte_at (mem s) old i) else pte_at (mem s) old v)) \<and>
    (\<forall>v<MAXVA. pte_at (mem t) new v = (if in_pages i 1 v then child_pte (pte_at (mem s) old i) else pte_at (mem s) new v)) \<and>
    tables (mem s) old = tables (mem t) old \<and> tables (mem s) new \<subseteq> tables (mem t) new \<and>
    tables (mem t) new \<subseteq> tables (mem s) new \<union> set xs \<and>
    (\<forall>x. (\<forall>f\<in>tables (mem t) old \<union> tables (mem t) new. \<not> in_range f 4096 x) \<longrightarrow> mem t x = mem s x)"
proof -
  have env': "pt_env s old xs" "pt_env s new xs" "cow_unlocked s" "tables (mem s) old \<inter> tables (mem s) new = {}"
    using env by (simp_all add: cow_env_def)
  have wf: "pt_wf (kend s) (mem s) old" and k0: "0 < kend s"
    using pt_env_wf [OF env'(1)] pt_env_kend [OF env'(1)] by auto
  let ?e = "pte_at (mem s) old i"
  have slot: "leaf_slot (mem s) old i \<noteq> 0" "frame_at (mem s) old (vpath i) \<noteq> None"
    using pte_at_0 [OF wf k0, of i] leaf_slot_cases [OF wf k0, of i] e by auto
  obtain f where f: "frame_at (mem s) old (vpath i) = Some f" "f \<in> tables (mem s) old" "leaf_slot (mem s) old i = f + 8 * PX 0 i"
    using slot(2) by (auto simp: leaf_slot_def intro: tablesI [OF idxs_vpath])
  let ?u = "s\<lparr>mem := store64 (mem s) (leaf_slot (mem s) old i) (cow_bits ?e)\<rparr>"
  note L = leaf_store_env [OF env'(1) slot(2) i(2), where v = "cow_bits ?e"]
  have fal: "aligned 4096 f" "f \<notin> tables (mem s) new" "f \<notin> set xs"
    using pt_wf_aligned [OF wf f(2)] f(2) env' by (auto simp: pt_env_def)
  have out: "\<forall>x. \<not> in_range f 4096 x \<longrightarrow> mem ?u x = mem s x"
    by (simp add: f(3) entry_store_outside PX_less)
  note W = data_write_env [OF env'(2) fal out]
  have un': "pte_at (mem ?u) new i AND PTE_V = 0" using W(3) [of i] un by simp
  have uc: "pt_env ?u new xs" "cow_unlocked ?u" "frame_ok (kend ?u) (PTE2PA ?e)"
    using W(1) env'(3) pa(1) by simp_all
  obtain t ys where t: "cowmappage new i PGSIZE (PTE2PA ?e) (PTE_FLAGS (cow_bits ?e)) ?u = Ok 0 t"
    "pt_env t new ys" "mem_step ?u t" "cowrefs t = (cowrefs s)(j := cowrefs s j + 1)"
    "length xs \<le> length ys + 2" "\<exists>zs. xs = zs @ ys \<and> tables (mem t) new = tables (mem ?u) new \<union> set zs"
    "\<forall>x. (\<forall>f\<in>tables (mem t) new. \<not> in_range f 4096 x) \<longrightarrow> mem t x = mem ?u x"
    "\<forall>v<MAXVA. pte_at (mem t) new v = (if in_pages i 1 v
       then PA2PTE (PTE2PA ?e) OR share_perm (PTE_FLAGS (cow_bits ?e)) OR PTE_V else pte_at (mem ?u) new v)"
    using cowmappage_spec [OF uc(1,2) i(1,2) uc(3) pa(2) un' room, of "PTE_FLAGS (cow_bits ?e)"]
    by (auto simp: j_def)
  have eq: "uvmcowpy_loop i old new sz s = uvmcowpy_loop (i + 4096) old new sz t"
    using i(2,3) slot e t(1)
    by (subst uvmcowpy_loop.simps) (simp add: walk_read load_leaf_slot cow_bits_def [symmetric])
  have ys: "set ys \<subseteq> set xs" using t(6) by auto
  have tn: "tables (mem t) new \<subseteq> tables (mem s) new \<union> set xs" "tables (mem s) new \<subseteq> tables (mem t) new"
    using t(6) W(2) by auto
  have tu: "tables (mem ?u) old = tables (mem s) old" using L(2) by (auto simp: pt_step_def)
  have dj: "tables (mem ?u) old \<inter> tables (mem t) new = {}"
    using tn(1) env' tu by (auto simp: pt_env_def)
  have kt: "kmem_unlocked t" "pool t ys" "kend t = kend ?u"
    using t(2) mem_step_fields(1) [OF t(3)] by (simp_all add: pt_env_def)
  have al: "aligned 4096 g" if "g \<in> tables (mem t) new" for g
    using pt_wf_aligned [OF pt_env_wf [OF t(2)] that] .
  have O: "pt_env t old ys" "tables (mem t) old = tables (mem ?u) old" "pte_at (mem t) old v = pte_at (mem ?u) old v" for v
    using other_table [OF L(1) kt(2,1,3) ys, of "tables (mem t) new"] al dj t(7) by blast+
  have "cow_env t old new ys"
    using O(1,2) t(2) dj mem_step_locks(2) [OF t(3)] env'(3) by (simp add: cow_env_def)
  moreover have "mem_step s t" using mem_step_trans [OF mem_step_upd(1) t(3)] .
  moreover have "pte_at (mem t) old v = (if in_pages i 1 v then cow_bits ?e else pte_at (mem s) old v)"
    if "v < MAXVA" for v
    using L(3) [OF that] O(3) [of v] PGROUNDDOWN_eq [OF i(1)] i(1) by simp
  moreover have "pte_at (mem t) new v = (if in_pages i 1 v then child_pte ?e else pte_at (mem s) new v)"
    if "v < MAXVA" for v
    using t(8) [rule_format, OF that] W(3) [of v] by (simp add: child_pte_def)
  moreover have "mem t x = mem s x" if "\<forall>f\<in>tables (mem t) old \<union> tables (mem t) new. \<not> in_range f 4096 x" for x
    using that t(7) out f(2) O(2) tu by auto
  ultimately show ?thesis using eq ys t(4,5) tn O(2) tu by (intro exI [of _ t] exI [of _ ys]) auto
qed

definition page_idx :: "pmem \<Rightarrow> addr \<Rightarrow> uint64 \<Rightarrow> nat \<Rightarrow> nat" where
  "page_idx m pt i k = pg_index (PTE2PA (pte_at m pt (i + of_nat (4096 * k))))"

definition add_refs :: "nat list \<Rightarrow> (nat \<Rightarrow> uint64) \<Rightarrow> nat \<Rightarrow> uint64" where
  "add_refs js c = fold (\<lambda>j c. c(j := c j + 1)) js c"

lemma page_at:
  assumes "i < MAXVA" "unat i + 4096 * n \<le> unat MAXVA" "k < n" "aligned 4096 i"
  shows "unat (i + of_nat (4096 * k)) = unat i + 4096 * k" "i + of_nat (4096 * k) < MAXVA"
    "in_pages i n (i + of_nat (4096 * k))"
proof -
  have le: "4096 * k + 4096 \<le> 4096 * n" using assms(3) by simp
  then have b: "unat i + 4096 * k < 2 ^ 64" using assms(2) by simp
  then have "unat (of_nat (4096 * k) :: uint64) = 4096 * k" by (intro unat_of_nat_64) simp
  then show u: "unat (i + of_nat (4096 * k)) = unat i + 4096 * k"
    using b by (subst unat_add_lem [THEN iffD1]) simp_all
  then show "i + of_nat (4096 * k) < MAXVA" "in_pages i n (i + of_nat (4096 * k))"
    using assms(2) le by (simp_all add: word_less_nat_alt in_pages_def)
qed

lemma uvmcowpy_loop_spec:
  assumes "cow_env s old new xs" "aligned 4096 i" "unat i + 4096 * n \<le> unat MAXVA"
    and "unat sz \<le> unat i + 4096 * n" "n = 0 \<or> unat i + 4096 * n < unat sz + 4096" "2 * n \<le> length xs"
    and "\<And>v. in_pages i n v \<Longrightarrow> pte_at (mem s) old v AND PTE_V \<noteq> 0"
    and "\<And>v. in_pages i n v \<Longrightarrow> frame_ok (kend s) (PTE2PA (pte_at (mem s) old v))"
    and "\<And>v. in_pages i n v \<Longrightarrow> PTE2PA (pte_at (mem s) old v) \<notin> set xs"
    and "\<And>v. in_pages i n v \<Longrightarrow> pte_at (mem s) new v AND PTE_V = 0"
  shows "\<exists>t ys. uvmcowpy_loop i old new sz s = Ok 0 t \<and> cow_env t old new ys \<and> mem_step s t \<and> set ys \<subseteq> set xs \<and>
    cowrefs t = add_refs (map (page_idx (mem s) old i) [0..<n]) (cowrefs s) \<and>
    (\<forall>v<MAXVA. pte_at (mem t) old v = (if in_pages i n v then cow_bits (pte_at (mem s) old v) else pte_at (mem s) old v)) \<and>
    (\<forall>v<MAXVA. pte_at (mem t) new v = (if in_pages i n v then child_pte (pte_at (mem s) old v) else pte_at (mem s) new v)) \<and>
    tables (mem t) old = tables (mem s) old \<and> tables (mem s) new \<subseteq> tables (mem t) new \<and>
    tables (mem t) new \<subseteq> tables (mem s) new \<union> set xs \<and>
    (\<forall>x. (\<forall>f\<in>tables (mem t) old \<union> tables (mem t) new. \<not> in_range f 4096 x) \<longrightarrow> mem t x = mem s x)"
  using assms
proof (induction n arbitrary: i s xs)
  case (0 i s xs)
  then have "\<not> i < sz" by (simp add: word_less_nat_alt)
  then show ?case using "0.prems"(1)
    by (intro exI [of _ s] exI [of _ xs]) (auto simp: uvmcowpy_loop.simps [of i] add_refs_def in_pages_def)
next
  case (Suc n i s xs)
  have i: "i < MAXVA" "i < sz" using Suc.prems(3,5) by (simp_all add: word_less_nat_alt)
  have ii: "in_pages i (Suc n) i" by (simp add: in_pages_def)
  from uvmcowpy_iter [OF Suc.prems(1,2) i Suc.prems(7) [OF ii] Suc.prems(8) [OF ii] Suc.prems(9) [OF ii] Suc.prems(10) [OF ii]]
    Suc.prems(6)
  obtain t ys where t: "uvmcowpy_loop i old new sz s = uvmcowpy_loop (i + 4096) old new sz t"
    "cow_env t old new ys" "mem_step s t" "set ys \<subseteq> set xs" "length xs \<le> length ys + 2"
    "cowrefs t = (cowrefs s)(page_idx (mem s) old i 0 := cowrefs s (page_idx (mem s) old i 0) + 1)"
    "\<And>v. v < MAXVA \<Longrightarrow> pte_at (mem t) old v = (if in_pages i 1 v then cow_bits (pte_at (mem s) old i) else pte_at (mem s) old v)"
    "\<And>v. v < MAXVA \<Longrightarrow> pte_at (mem t) new v = (if in_pages i 1 v then child_pte (pte_at (mem s) old i) else pte_at (mem s) new v)"
    "tables (mem s) old = tables (mem t) old" "tables (mem s) new \<subseteq> tables (mem t) new"
    "tables (mem t) new \<subseteq> tables (mem s) new \<union> set xs"
    "\<forall>x. (\<forall>f\<in>tables (mem t) old \<union> tables (mem t) new. \<not> in_range f 4096 x) \<longrightarrow> mem t x = mem s x"
    by (auto simp: page_idx_def)
  let ?i = "i + 4096"
  have ui: "unat ?i = unat i + 4096" by (rule next_page [OF i(1)])
  have lt: "v < MAXVA" if "in_pages i (Suc n) v" for v
    using that Suc.prems(3) by (simp add: in_pages_def word_less_nat_alt)
  have sub: "in_pages i (Suc n) v" "\<not> in_pages i 1 v" if "in_pages ?i n v" for v
    using that in_pages_Suc [OF i(1), of n v] in_pages_next [OF i(1) that] by auto
  have ke: "kend t = kend s" by (rule mem_step_fields(1) [OF t(3)])
  have old': "pte_at (mem t) old v = pte_at (mem s) old v" "pte_at (mem t) new v = pte_at (mem s) new v"
    if "in_pages ?i n v" for v
    using t(7,8) [OF lt [OF sub(1) [OF that]]] sub(2) [OF that] by simp_all
  have h: "unat ?i + 4096 * n \<le> unat MAXVA" "unat sz \<le> unat ?i + 4096 * n"
    "n = 0 \<or> unat ?i + 4096 * n < unat sz + 4096" "2 * n \<le> length ys"
    using Suc.prems(3-6) t(5) ui by auto
  have "\<exists>u zs. uvmcowpy_loop ?i old new sz t = Ok 0 u \<and> cow_env u old new zs \<and> mem_step t u \<and> set zs \<subseteq> set ys \<and>
    cowrefs u = add_refs (map (page_idx (mem t) old ?i) [0..<n]) (cowrefs t) \<and>
    (\<forall>v<MAXVA. pte_at (mem u) old v = (if in_pages ?i n v then cow_bits (pte_at (mem t) old v) else pte_at (mem t) old v)) \<and>
    (\<forall>v<MAXVA. pte_at (mem u) new v = (if in_pages ?i n v then child_pte (pte_at (mem t) old v) else pte_at (mem t) new v)) \<and>
    tables (mem u) old = tables (mem t) old \<and> tables (mem t) new \<subseteq> tables (mem u) new \<and>
    tables (mem u) new \<subseteq> tables (mem t) new \<union> set ys \<and>
    (\<forall>x. (\<forall>f\<in>tables (mem u) old \<union> tables (mem u) new. \<not> in_range f 4096 x) \<longrightarrow> mem u x = mem t x)"
    using old' Suc.prems(7-10) sub(1) t(4) ke
    by (intro Suc.IH [OF t(2) aligned_next [OF Suc.prems(2) i(1)] h]) auto
  then obtain u zs where u: "uvmcowpy_loop ?i old new sz t = Ok 0 u" "cow_env u old new zs" "mem_step t u" "set zs \<subseteq> set ys"
    "cowrefs u = add_refs (map (page_idx (mem t) old ?i) [0..<n]) (cowrefs t)"
    "\<And>v. v < MAXVA \<Longrightarrow> pte_at (mem u) old v = (if in_pages ?i n v then cow_bits (pte_at (mem t) old v) else pte_at (mem t) old v)"
    "\<And>v. v < MAXVA \<Longrightarrow> pte_at (mem u) new v = (if in_pages ?i n v then child_pte (pte_at (mem t) old v) else pte_at (mem t) new v)"
    "tables (mem u) old = tables (mem t) old" "tables (mem t) new \<subseteq> tables (mem u) new"
    "tables (mem u) new \<subseteq> tables (mem t) new \<union> set ys"
    "\<forall>x. (\<forall>f\<in>tables (mem u) old \<union> tables (mem u) new. \<not> in_range f 4096 x) \<longrightarrow> mem u x = mem t x"
    by blast
  have idx: "page_idx (mem t) old ?i k = page_idx (mem s) old i (Suc k)" if "k < n" for k
  proof -
    have "n \<noteq> 0" using that by simp
    then have "?i < MAXVA" using h(1) by (simp add: word_less_nat_alt)
    note P = page_at [OF this h(1) that aligned_next [OF Suc.prems(2) i(1)]]
    have "i + of_nat (4096 * Suc k) = ?i + of_nat (4096 * k)" by simp
    then show ?thesis using old'(1) [OF P(3)] by (simp only: page_idx_def)
  qed
  have up: "[0..<Suc n] = 0 # map Suc [0..<n]" by (simp add: map_Suc_upt upt_conv_Cons del: upt_Suc)
  have refs: "cowrefs u = add_refs (map (page_idx (mem s) old i) [0..<Suc n]) (cowrefs s)"
  proof -
    have "map (page_idx (mem t) old ?i) [0..<n] = map (page_idx (mem s) old i) (map Suc [0..<n])"
      using idx by simp
    then show ?thesis by (simp only: u(5) t(6) up add_refs_def list.map fold_simps)
  qed
  have same: "pte_at (mem s) old v = pte_at (mem s) old i" if "in_pages i 1 v" "v < MAXVA" for v
    using that pte_at_page [of v i] i(1) Suc.prems(2) in_pages_PGROUNDDOWN [of i v] by simp
  have o: "pte_at (mem u) old v = (if in_pages i (Suc n) v then cow_bits (pte_at (mem s) old v) else pte_at (mem s) old v)"
    and w: "pte_at (mem u) new v = (if in_pages i (Suc n) v then child_pte (pte_at (mem s) old v) else pte_at (mem s) new v)"
    if v: "v < MAXVA" for v
    using u(6,7) [OF v] t(7,8) [OF v] same [OF _ v] in_pages_Suc [OF i(1), of n v] in_pages_next [OF i(1), of n v]
    by (cases "in_pages ?i n v"; cases "in_pages i 1 v"; simp)+
  have "mem u x = mem s x" if "\<forall>f\<in>tables (mem u) old \<union> tables (mem u) new. \<not> in_range f 4096 x" for x
  proof -
    have "\<forall>f\<in>tables (mem t) old \<union> tables (mem t) new. \<not> in_range f 4096 x" using that u(8,9) by auto
    with t(12) u(11) that show ?thesis by simp
  qed
  moreover have "mem_step s u" by (rule mem_step_trans [OF t(3) u(3)])
  ultimately show ?case
    using t(1,4,9,10,11) u(1,2,4,8,9,10) refs o w
    by (intro exI [of _ u] exI [of _ zs]) auto
qed

lemma flag_bit:
  "x AND PTE_W = 0 \<longleftrightarrow> \<not> bit x 2" "x AND PTE_V = 0 \<longleftrightarrow> \<not> bit x 0" "x AND PTE_COW = 0 \<longleftrightarrow> \<not> bit x 8"
  "x AND PTE_U = 0 \<longleftrightarrow> \<not> bit x 4" "x AND PTE_R = 0 \<longleftrightarrow> \<not> bit x 1" "x AND PTE_X = 0 \<longleftrightarrow> \<not> bit x 3"
  using and_exp_eq_0_iff_not_bit [of x 2] and_exp_eq_0_iff_not_bit [of x 0] and_exp_eq_0_iff_not_bit [of x 8]
    and_exp_eq_0_iff_not_bit [of x 4] and_exp_eq_0_iff_not_bit [of x 1] and_exp_eq_0_iff_not_bit [of x 3]
  by (simp_all add: pte_bits)

lemma bit_flag:
  "bit PTE_W n \<longleftrightarrow> n = 2" "bit PTE_V n \<longleftrightarrow> n = 0" "bit PTE_COW n \<longleftrightarrow> n = 8"
proof -
  have e: "PTE_W = 2 ^ 2" "PTE_V = 2 ^ 0" "PTE_COW = 2 ^ 8" by (simp_all add: pte_bits)
  show "bit PTE_W n \<longleftrightarrow> n = 2" "bit PTE_V n \<longleftrightarrow> n = 0" "bit PTE_COW n \<longleftrightarrow> n = 8"
    unfolding e bit_exp_iff by auto
qed

lemma cow_bits_flags:
  "cow_bits e AND PTE_W = 0" "cow_bits e AND PTE_COW \<noteq> 0"
  "cow_bits e AND PTE_V = 0 \<longleftrightarrow> e AND PTE_V = 0" "cow_bits e AND PTE_U = 0 \<longleftrightarrow> e AND PTE_U = 0"
  "cow_bits e AND PTE_R = 0 \<longleftrightarrow> e AND PTE_R = 0" "cow_bits e AND PTE_X = 0 \<longleftrightarrow> e AND PTE_X = 0"
  unfolding flag_bit by (simp_all add: cow_bits_def bit_or_iff bit_and_iff bit_not_iff bit_flag)

lemma bit_PTE_FLAGS: "bit (PTE_FLAGS x) n \<longleftrightarrow> n < 10 \<and> bit x n"
  unfolding PTE_FLAGS_def bit_and_iff bit_mask10 by auto

lemma PTE_FLAGS_idem: "PTE_FLAGS (PTE_FLAGS x) = PTE_FLAGS x"
  by (simp add: PTE_FLAGS_def and.assoc)

lemma child_pte_flags:
  "child_pte e AND PTE_W = 0" "child_pte e AND PTE_COW \<noteq> 0" "child_pte e AND PTE_V \<noteq> 0"
  "child_pte e AND PTE_U = 0 \<longleftrightarrow> e AND PTE_U = 0"
  "child_pte e AND PTE_R = 0 \<longleftrightarrow> e AND PTE_R = 0" "child_pte e AND PTE_X = 0 \<longleftrightarrow> e AND PTE_X = 0"
  "PTE2PA (child_pte e) = PTE2PA e"
proof -
  have fl: "PTE_FLAGS (share_perm (PTE_FLAGS (cow_bits e)) OR PTE_V) = share_perm (PTE_FLAGS (cow_bits e)) OR PTE_V"
    using PTE_FLAGS_idem [of "cow_bits e"] by (simp add: share_perm_def)
  then show "PTE2PA (child_pte e) = PTE2PA e"
    unfolding child_pte_def by (intro PTE2PA_PA2PTE aligned_PTE2PA)
  have b: "bit (child_pte e) n \<longleftrightarrow> bit (cow_bits e) n \<or> n = 8 \<or> n = 0" if "n < 10" for n
    using that by (auto simp: child_pte_def PA2PTE_def bit_or_iff bit_push_bit_iff share_perm_def
        bit_PTE_FLAGS bit_flag)
  show "child_pte e AND PTE_W = 0" "child_pte e AND PTE_COW \<noteq> 0" "child_pte e AND PTE_V \<noteq> 0"
    "child_pte e AND PTE_U = 0 \<longleftrightarrow> e AND PTE_U = 0"
    "child_pte e AND PTE_R = 0 \<longleftrightarrow> e AND PTE_R = 0" "child_pte e AND PTE_X = 0 \<longleftrightarrow> e AND PTE_X = 0"
    using cow_bits_flags [of e] b [of 2] b [of 8] b [of 0] b [of 4] b [of 1] b [of 3] unfolding flag_bit by auto
qed

text \<open>
  C5: \<open>uvmcowpy\<close> with enough free pages for the child's tables shares the whole
  address space: it returns 0; below \<open>sz\<close> the child maps every page to the parent's physical
  page with the same user, read and execute permissions; in both page tables the page is marked
  copy-on-write and not writable; every mapping adds one reference to its page; and no data
  page changes.
\<close>

theorem uvmcowpy_shares:
  assumes "cow_env s old new xs" "unat sz \<le> unat MAXVA" "2 * ((unat sz + 4095) div 4096) \<le> length xs"
    and "\<forall>v. in_pages 0 ((unat sz + 4095) div 4096) v \<longrightarrow> pte_at (mem s) old v AND PTE_V \<noteq> 0 \<and>
      frame_ok (kend s) (PTE2PA (pte_at (mem s) old v)) \<and> PTE2PA (pte_at (mem s) old v) \<notin> set xs \<and>
      pte_at (mem s) new v AND PTE_V = 0"
  shows "\<exists>t ys. uvmcowpy old new sz s = Ok 0 t \<and> cow_env t old new ys \<and>
    (\<forall>v. in_pages 0 ((unat sz + 4095) div 4096) v \<longrightarrow>
      (let e = pte_at (mem s) old v; p = pte_at (mem t) old v; c = pte_at (mem t) new v
       in PTE2PA c = PTE2PA e \<and> PTE2PA p = PTE2PA e \<and>
          p AND PTE_W = 0 \<and> p AND PTE_COW \<noteq> 0 \<and> c AND PTE_W = 0 \<and> c AND PTE_COW \<noteq> 0 \<and> c AND PTE_V \<noteq> 0 \<and>
          (c AND PTE_U = 0 \<longleftrightarrow> e AND PTE_U = 0) \<and> (c AND PTE_R = 0 \<longleftrightarrow> e AND PTE_R = 0) \<and>
          (c AND PTE_X = 0 \<longleftrightarrow> e AND PTE_X = 0))) \<and>
    cowrefs t = add_refs (map (page_idx (mem s) old 0) [0..<(unat sz + 4095) div 4096]) (cowrefs s) \<and>
    (\<forall>x. (\<forall>f\<in>tables (mem t) old \<union> tables (mem t) new. \<not> in_range f 4096 x) \<longrightarrow> mem t x = mem s x)"
proof -
  let ?n = "(unat sz + 4095) div 4096"
  have le: "4096 * ?n \<le> unat sz + 4095" by (rule times_div_less_eq_dividend)
  have n: "4096 * ?n \<le> unat MAXVA" "unat sz \<le> 4096 * ?n" using assms(2) by simp_all
  have n3: "?n = 0 \<or> 4096 * ?n < unat sz + 4096" using le by linarith
  have z: "aligned 4096 0" by (simp add: aligned_def)
  have lt: "v < MAXVA" if "in_pages 0 ?n v" for v
    using that n(1) by (simp add: in_pages_def word_less_nat_alt)
  have "\<exists>t ys. uvmcowpy_loop 0 old new sz s = Ok 0 t \<and> cow_env t old new ys \<and> mem_step s t \<and> set ys \<subseteq> set xs \<and>
    cowrefs t = add_refs (map (page_idx (mem s) old 0) [0..<?n]) (cowrefs s) \<and>
    (\<forall>v<MAXVA. pte_at (mem t) old v = (if in_pages 0 ?n v then cow_bits (pte_at (mem s) old v) else pte_at (mem s) old v)) \<and>
    (\<forall>v<MAXVA. pte_at (mem t) new v = (if in_pages 0 ?n v then child_pte (pte_at (mem s) old v) else pte_at (mem s) new v)) \<and>
    tables (mem t) old = tables (mem s) old \<and> tables (mem s) new \<subseteq> tables (mem t) new \<and>
    tables (mem t) new \<subseteq> tables (mem s) new \<union> set xs \<and>
    (\<forall>x. (\<forall>f\<in>tables (mem t) old \<union> tables (mem t) new. \<not> in_range f 4096 x) \<longrightarrow> mem t x = mem s x)"
    using n n3 assms(4) by (intro uvmcowpy_loop_spec [OF assms(1) z _ _ _ assms(3)]) simp_all
  then obtain t ys where t: "uvmcowpy_loop 0 old new sz s = Ok 0 t" "cow_env t old new ys"
    "cowrefs t = add_refs (map (page_idx (mem s) old 0) [0..<?n]) (cowrefs s)"
    "\<And>v. v < MAXVA \<Longrightarrow> pte_at (mem t) old v = (if in_pages 0 ?n v then cow_bits (pte_at (mem s) old v) else pte_at (mem s) old v)"
    "\<And>v. v < MAXVA \<Longrightarrow> pte_at (mem t) new v = (if in_pages 0 ?n v then child_pte (pte_at (mem s) old v) else pte_at (mem s) new v)"
    "\<forall>x. (\<forall>f\<in>tables (mem t) old \<union> tables (mem t) new. \<not> in_range f 4096 x) \<longrightarrow> mem t x = mem s x" by blast
  have "let e = pte_at (mem s) old v; p = pte_at (mem t) old v; c = pte_at (mem t) new v
       in PTE2PA c = PTE2PA e \<and> PTE2PA p = PTE2PA e \<and>
          p AND PTE_W = 0 \<and> p AND PTE_COW \<noteq> 0 \<and> c AND PTE_W = 0 \<and> c AND PTE_COW \<noteq> 0 \<and> c AND PTE_V \<noteq> 0 \<and>
          (c AND PTE_U = 0 \<longleftrightarrow> e AND PTE_U = 0) \<and> (c AND PTE_R = 0 \<longleftrightarrow> e AND PTE_R = 0) \<and>
          (c AND PTE_X = 0 \<longleftrightarrow> e AND PTE_X = 0)" if "in_pages 0 ?n v" for v
    using that t(4,5) [OF lt [OF that]] by (simp add: Let_def cow_bits_flags child_pte_flags)
  then show ?thesis using t(1,2,3,6) unfolding uvmcowpy_def by blast
qed

theorem uvmcowpy_shares_witness:
  "\<exists>(s :: kst) old new t. uvmcowpy old new 4096 s = Ok 0 t \<and>
     PTE2PA (pte_at (mem t) new 0x123) = 0x80008000 \<and> PTE2PA (pte_at (mem t) old 0x123) = 0x80008000 \<and>
     pte_at (mem t) new 0x123 AND PTE_W = 0 \<and> pte_at (mem t) old 0x123 AND PTE_W = 0 \<and>
     pte_at (mem s) old 0x123 AND PTE_W \<noteq> 0 \<and> cowrefs t 0x80008 = 1"
proof -
  let ?perm = "PTE_U OR PTE_W"
  have z: "aligned 4096 (0 :: addr)" by (simp add: aligned_def)
  obtain s :: kst and old xs where s: "pt_env s old xs" "3 \<le> length xs" "cow_unlocked s"
    "frame_ok (kend s) 0x80008000" "cowrefs s 0x80008 = 0" "set xs \<subseteq> set sample_pages"
    "\<forall>va<MAXVA. pte_at (mem s) old va = (if in_pages 0 1 va then PA2PTE 0x80008000 OR ?perm OR PTE_V else 0)"
    using sample_space [OF z, of ?perm] by auto
  then obtain new ys where g: "xs = new # ys" by (cases xs) auto
  have pl: "pool s (new # ys)" "kmem_unlocked s" using s(1) g by (simp_all add: pt_env_def)
  from uvmcreate_spec [OF pl] obtain t where t: "pt_env t new ys" "\<And>va. pte_at (mem t) new va = 0"
    "tables (mem t) new = {new}" "mem_step s t" "cowrefs t = cowrefs s"
    "\<And>x. \<not> in_range new 4096 x \<Longrightarrow> mem t x = mem s x" by blast
  have no: "tables (mem s) old \<inter> {new} = {}" using s(1) g by (auto simp: pt_env_def)
  have kt: "pool t ys" "kmem_unlocked t" "kend t = kend s" "set ys \<subseteq> set xs" "aligned 4096 new"
    using t(1) mem_step_fields(1) [OF t(4)] pl(1) by (auto simp: pt_env_def g pool_def frame_ok_def)
  have O: "pt_env t old ys" "tables (mem t) old = tables (mem s) old" "pte_at (mem t) old v = pte_at (mem s) old v" for v
    using other_table [OF s(1) kt(1-4), of "{new}"] kt(5) no t(6) by auto
  have ce: "cow_env t old new ys"
    using O t(1,3) no mem_step_locks(2) [OF t(4)] s(3) by (simp add: cow_env_def)
  have e: "pte_at (mem t) old v = PA2PTE 0x80008000 OR (?perm OR PTE_V)" if "in_pages 0 1 v" for v
    using s(7) O(3) [of v] that by (simp add: in_pages_def word_less_nat_alt or.assoc)
  have fl: "PTE_FLAGS (?perm OR PTE_V) = ?perm OR PTE_V" by simp
  have pa: "PTE2PA (pte_at (mem t) old v) = 0x80008000" if "in_pages 0 1 v" for v
    unfolding e [OF that] by (rule PTE2PA_PA2PTE [OF _ fl]) (simp add: aligned_def)
  have V: "pte_at (mem t) old v AND PTE_V \<noteq> 0" "pte_at (mem t) old v AND PTE_W \<noteq> 0" if "in_pages 0 1 v" for v
    unfolding e [OF that] by (simp_all add: PTE_AND_flag) (simp_all add: pte_bits)
  have nx: "0x80008000 \<notin> set ys" using s(6) g by (auto simp: sample_pages_def)
  have ip: "in_pages 0 1 0x123" "in_pages 0 1 0" by (simp_all add: in_pages_def)
  have n1: "(unat (4096 :: uint64) + 4095) div 4096 = 1" by simp
  have sz: "unat (4096 :: uint64) \<le> unat MAXVA" "2 * ((unat (4096 :: uint64) + 4095) div 4096) \<le> length ys"
    using s(2) g by simp_all
  have "\<forall>v. in_pages 0 ((unat (4096 :: uint64) + 4095) div 4096) v \<longrightarrow> pte_at (mem t) old v AND PTE_V \<noteq> 0 \<and>
      frame_ok (kend t) (PTE2PA (pte_at (mem t) old v)) \<and> PTE2PA (pte_at (mem t) old v) \<notin> set ys \<and>
      pte_at (mem t) new v AND PTE_V = 0"
    unfolding n1 using V(1) pa s(4) kt(3) nx t(2) by simp
  from uvmcowpy_shares [OF ce sz this, unfolded n1] obtain u where u: "uvmcowpy old new 4096 t = Ok 0 u"
    "\<forall>v. in_pages 0 1 v \<longrightarrow> PTE2PA (pte_at (mem u) new v) = PTE2PA (pte_at (mem t) old v) \<and>
      PTE2PA (pte_at (mem u) old v) = PTE2PA (pte_at (mem t) old v) \<and>
      pte_at (mem u) old v AND PTE_W = 0 \<and> pte_at (mem u) new v AND PTE_W = 0"
    "cowrefs u = add_refs (map (page_idx (mem t) old 0) [0..<1]) (cowrefs t)"
    unfolding Let_def by blast
  have "cowrefs u 0x80008 = 1"
    using u(3) t(5) s(5) pa [OF ip(2)] by (simp add: add_refs_def page_idx_def)
  with u(1,2) ip(1) pa [OF ip(1)] V(2) [OF ip(1)] show ?thesis
    by (intro exI [of _ t] exI [of _ old] exI [of _ new] exI [of _ u]) simp
qed

end
