(* ===== verification/Proc.thy ===== *)
theory Proc
  imports Vm
begin

text \<open>
  Processes (\<open>struct proc\<close> of \<open>kernel/proc.h\<close> and the part of \<open>kernel/proc.c\<close> that does not
  touch files): the process table, allocation and release of a slot, sleep and wakeup, wait, the
  round-robin and the priority-based scheduler.

  A process is a slot number of the table \<open>procs\<close>; a sleep channel is an address in the source
  and a value of \<open>chan\<close> here. Control transfer is a parameter: \<open>sw\<close> is what the rest of the
  system does between a call of \<open>swtch\<close> and its return to the same context. Dereferencing the
  null \<open>struct proc\<close> pointer faults in the kernel, which ends in \<open>panic("kerneltrap")\<close>.
  Loops around \<open>sleep\<close> carry a bound on the number of times they go to sleep; running out of
  it is \<open>Diverge\<close>.
\<close>

subsection \<open>Data\<close>

datatype procstate = UNUSED | USED | SLEEPING | RUNNABLE | RUNNING | ZOMBIE

datatype chan = Ch_null | Ch_proc nat | Ch_ticks | Ch_nread addr | Ch_nwrite addr
  | Ch_sleeplock lockid | Ch_log | Ch_buf nat | Ch_disk_free | Ch_uart_tx | Ch_cons_r

record swtch_context =
  c_ra :: uint64
  c_sp :: uint64
  c_s0 :: uint64
  c_s1 :: uint64
  c_s2 :: uint64
  c_s3 :: uint64
  c_s4 :: uint64
  c_s5 :: uint64
  c_s6 :: uint64
  c_s7 :: uint64
  c_s8 :: uint64
  c_s9 :: uint64
  c_s10 :: uint64
  c_s11 :: uint64

definition zero_context :: swtch_context where
  "zero_context = \<lparr>c_ra = 0, c_sp = 0, c_s0 = 0, c_s1 = 0, c_s2 = 0, c_s3 = 0, c_s4 = 0, c_s5 = 0,
     c_s6 = 0, c_s7 = 0, c_s8 = 0, c_s9 = 0, c_s10 = 0, c_s11 = 0\<rparr>"

record proc =
  p_state :: procstate
  p_chan :: chan
  p_killed :: int
  p_xstate :: int
  p_pid :: int
  p_parent :: "nat option"
  p_kstack :: uint64
  p_sz :: uint64
  p_pagetable :: addr
  p_trapframe :: addr
  p_context :: swtch_context
  p_ofile :: "nat \<Rightarrow> nat option"
  p_cwd :: "nat option"
  p_name :: "uchar list"
  p_rtime :: uint
  p_ctime :: uint
  p_etime :: uint
  p_SP :: uint
  p_DP :: uint
  p_RBI :: uint
  p_RTime :: uint
  p_STime :: uint
  p_WTime :: uint
  p_start_time :: uint
  p_numScheduled :: uint

record pst = vst +
  procs :: "nat \<Rightarrow> proc"
  nextpid :: int
  initproc :: "nat option"
  ticks :: uint
  forkret_addr :: uint64

definition NOFILE :: nat where "NOFILE = 16"

definition upd_proc :: "nat \<Rightarrow> (proc \<Rightarrow> proc) \<Rightarrow> 'z pst_scheme \<Rightarrow> 'z pst_scheme" where
  "upd_proc p f s = s\<lparr>procs := (procs s)(p := f (procs s p))\<rparr>"

subsection \<open>The current process\<close>

definition myproc :: "'z pst_scheme \<Rightarrow> (nat option, 'z pst_scheme) res" where
  "myproc s =
     (let s = push_off s; p = cpu_proc (mycpu s)
      in bnd (pop_off s) (\<lambda>_ s. Ok p s))"

definition curproc :: "'z pst_scheme \<Rightarrow> (nat, 'z pst_scheme) res" where
  "curproc s = bnd (myproc s) (\<lambda>p s. case p of None \<Rightarrow> Panic ''kerneltrap'' | Some p \<Rightarrow> Ok p s)"

subsection \<open>Process table\<close>

definition procinit :: "'z pst_scheme \<Rightarrow> 'z pst_scheme" where
  "procinit s =
     (let s = initlock L_pid ''nextpid'' s;
          s = initlock L_wait ''wait_lock'' s
      in fold (\<lambda>p s. upd_proc p (\<lambda>q. q\<lparr>p_state := UNUSED, p_kstack := KSTACK p\<rparr>)
                 (initlock (L_proc p) ''proc'' s)) [0..<NPROC] s)"

definition allocpid :: "'z pst_scheme \<Rightarrow> (int, 'z pst_scheme) res" where
  "allocpid s =
     bnd (acquire L_pid s) (\<lambda>_ s.
     let pid = nextpid s; s = s\<lparr>nextpid := nextpid s + 1\<rparr>
     in bnd (release L_pid s) (\<lambda>_ s. Ok pid s))"

definition proc_pagetable :: "nat \<Rightarrow> 'z pst_scheme \<Rightarrow> (addr, 'z pst_scheme) res" where
  "proc_pagetable p s =
     bnd (uvmcreate s) (\<lambda>pagetable s.
     if pagetable = 0 then Ok 0 s
     else bnd (mappages pagetable TRAMPOLINE PGSIZE (trampoline s) (PTE_R OR PTE_X) s) (\<lambda>r s.
       if r < 0 then bnd (uvmfree pagetable 0 s) (\<lambda>_ s. Ok 0 s)
       else bnd (mappages pagetable TRAPFRAME PGSIZE (p_trapframe (procs s p)) (PTE_R OR PTE_W) s) (\<lambda>r s.
         if r < 0
         then bnd (uvmunmap pagetable TRAMPOLINE 1 False s) (\<lambda>_ s.
              bnd (uvmfree pagetable 0 s) (\<lambda>_ s. Ok 0 s))
         else Ok pagetable s)))"

definition proc_freepagetable :: "addr \<Rightarrow> uint64 \<Rightarrow> 'z pst_scheme \<Rightarrow> (unit, 'z pst_scheme) res" where
  "proc_freepagetable pagetable sz s =
     bnd (uvmunmap pagetable TRAMPOLINE 1 False s) (\<lambda>_ s.
     bnd (uvmunmap pagetable TRAPFRAME 1 False s) (\<lambda>_ s.
     uvmfree pagetable sz s))"

definition freeproc :: "nat \<Rightarrow> 'z pst_scheme \<Rightarrow> (unit, 'z pst_scheme) res" where
  "freeproc p s =
     bnd (if p_trapframe (procs s p) \<noteq> 0 then kfree (p_trapframe (procs s p)) s else Ok () s) (\<lambda>_ s.
     let s = upd_proc p (\<lambda>q. q\<lparr>p_trapframe := 0\<rparr>) s in
     bnd (if p_pagetable (procs s p) \<noteq> 0
          then proc_freepagetable (p_pagetable (procs s p)) (p_sz (procs s p)) s else Ok () s) (\<lambda>_ s.
     Ok () (upd_proc p (\<lambda>q. q\<lparr>p_pagetable := 0, p_sz := 0, p_pid := 0, p_parent := None,
       p_name := (p_name q)[0 := 0], p_chan := Ch_null, p_killed := 0, p_xstate := 0, p_state := UNUSED,
       p_rtime := 0, p_etime := 0, p_RTime := 0, p_WTime := 0, p_STime := 0, p_numScheduled := 0,
       p_SP := 50\<rparr>) s)))"

primrec allocproc_scan :: "nat list \<Rightarrow> 'z pst_scheme \<Rightarrow> (nat option, 'z pst_scheme) res" where
  "allocproc_scan [] s = Ok None s"
| "allocproc_scan (p # ps) s =
     bnd (acquire (L_proc p) s) (\<lambda>_ s.
     if p_state (procs s p) = UNUSED then Ok (Some p) s
     else bnd (release (L_proc p) s) (\<lambda>_ s. allocproc_scan ps s))"

definition allocproc :: "'z pst_scheme \<Rightarrow> (nat option, 'z pst_scheme) res" where
  "allocproc s =
     bnd (allocproc_scan [0..<NPROC] s) (\<lambda>found s.
     case found of None \<Rightarrow> Ok None s
     | Some p \<Rightarrow>
       bnd (allocpid s) (\<lambda>pid s.
       let s = upd_proc p (\<lambda>q. q\<lparr>p_pid := pid, p_state := USED\<rparr>) s in
       bnd (kalloc s) (\<lambda>tf s.
       let s = upd_proc p (\<lambda>q. q\<lparr>p_trapframe := tf\<rparr>) s in
       if tf = 0
       then bnd (freeproc p s) (\<lambda>_ s. bnd (release (L_proc p) s) (\<lambda>_ s. Ok None s))
       else bnd (proc_pagetable p s) (\<lambda>pt s.
         let s = upd_proc p (\<lambda>q. q\<lparr>p_pagetable := pt\<rparr>) s in
         if pt = 0
         then bnd (freeproc p s) (\<lambda>_ s. bnd (release (L_proc p) s) (\<lambda>_ s. Ok None s))
         else Ok (Some p) (upd_proc p (\<lambda>q. q\<lparr>
           p_context := zero_context\<lparr>c_ra := forkret_addr s, c_sp := p_kstack q + PGSIZE\<rparr>,
           p_rtime := 0, p_etime := 0, p_ctime := ticks s, p_RTime := 0, p_WTime := 0, p_STime := 0,
           p_numScheduled := 0, p_SP := 50\<rparr>) s)))))"

definition growproc :: "int \<Rightarrow> 'z pst_scheme \<Rightarrow> (int, 'z pst_scheme) res" where
  "growproc n s =
     bnd (curproc s) (\<lambda>p s.
     let sz = p_sz (procs s p) in
     if n > 0
     then bnd (uvmalloc (p_pagetable (procs s p)) sz (sz + word_of_int n) PTE_W s) (\<lambda>sz s.
          if sz = 0 then Ok (-1) s else Ok 0 (upd_proc p (\<lambda>q. q\<lparr>p_sz := sz\<rparr>) s))
     else if n < 0
     then bnd (uvmdealloc (p_pagetable (procs s p)) sz (sz + word_of_int n) s) (\<lambda>sz s.
          Ok 0 (upd_proc p (\<lambda>q. q\<lparr>p_sz := sz\<rparr>) s))
     else Ok 0 (upd_proc p (\<lambda>q. q\<lparr>p_sz := sz\<rparr>) s))"

subsection \<open>Switching, sleeping and waking up\<close>

definition sched :: "('z pst_scheme \<Rightarrow> (unit, 'z pst_scheme) res) \<Rightarrow> 'z pst_scheme \<Rightarrow> (unit, 'z pst_scheme) res" where
  "sched sw s =
     bnd (curproc s) (\<lambda>p s.
     if \<not> holding (L_proc p) s then Panic ''sched p->lock''
     else if noff (mycpu s) \<noteq> 1 then Panic ''sched locks''
     else if p_state (procs s p) = RUNNING then Panic ''sched running''
     else if intr_get s then Panic ''sched interruptible''
     else let ena = intena (mycpu s) in
       bnd (sw s) (\<lambda>_ s. Ok () (upd_mycpu (\<lambda>c. c\<lparr>intena := ena\<rparr>) s)))"

definition yield :: "('z pst_scheme \<Rightarrow> (unit, 'z pst_scheme) res) \<Rightarrow> 'z pst_scheme \<Rightarrow> (unit, 'z pst_scheme) res" where
  "yield sw s =
     bnd (curproc s) (\<lambda>p s.
     bnd (acquire (L_proc p) s) (\<lambda>_ s.
     bnd (sched sw (upd_proc p (\<lambda>q. q\<lparr>p_state := RUNNABLE\<rparr>) s)) (\<lambda>_ s.
     release (L_proc p) s)))"

definition sleep ::
  "('z pst_scheme \<Rightarrow> (unit, 'z pst_scheme) res) \<Rightarrow> chan \<Rightarrow> lockid \<Rightarrow> 'z pst_scheme \<Rightarrow> (unit, 'z pst_scheme) res" where
  "sleep sw ch lk s =
     bnd (curproc s) (\<lambda>p s.
     bnd (acquire (L_proc p) s) (\<lambda>_ s.
     bnd (release lk s) (\<lambda>_ s.
     bnd (sched sw (upd_proc p (\<lambda>q. q\<lparr>p_chan := ch, p_state := SLEEPING\<rparr>) s)) (\<lambda>_ s.
     bnd (release (L_proc p) (upd_proc p (\<lambda>q. q\<lparr>p_chan := Ch_null\<rparr>) s)) (\<lambda>_ s.
     acquire lk s)))))"

definition wakeup :: "chan \<Rightarrow> 'z pst_scheme \<Rightarrow> (unit, 'z pst_scheme) res" where
  "wakeup ch =
     for_each (\<lambda>p s. bnd (myproc s) (\<lambda>me s.
       if Some p \<noteq> me
       then bnd (acquire (L_proc p) s) (\<lambda>_ s.
            release (L_proc p)
              (if p_state (procs s p) = SLEEPING \<and> p_chan (procs s p) = ch
               then upd_proc p (\<lambda>q. q\<lparr>p_state := RUNNABLE\<rparr>) s else s))
       else Ok () s)) [0..<NPROC]"

primrec kill_scan :: "int \<Rightarrow> nat list \<Rightarrow> 'z pst_scheme \<Rightarrow> (int, 'z pst_scheme) res" where
  "kill_scan pid [] s = Ok (-1) s"
| "kill_scan pid (p # ps) s =
     bnd (acquire (L_proc p) s) (\<lambda>_ s.
     if p_pid (procs s p) = pid
     then let s = upd_proc p (\<lambda>q. q\<lparr>p_killed := 1\<rparr>) s;
              s = (if p_state (procs s p) = SLEEPING
                   then upd_proc p (\<lambda>q. q\<lparr>p_state := RUNNABLE\<rparr>) s else s)
          in bnd (release (L_proc p) s) (\<lambda>_ s. Ok 0 s)
     else bnd (release (L_proc p) s) (\<lambda>_ s. kill_scan pid ps s))"

definition kill :: "int \<Rightarrow> 'z pst_scheme \<Rightarrow> (int, 'z pst_scheme) res" where
  "kill pid s = kill_scan pid [0..<NPROC] s"

definition setkilled :: "nat \<Rightarrow> 'z pst_scheme \<Rightarrow> (unit, 'z pst_scheme) res" where
  "setkilled p s =
     bnd (acquire (L_proc p) s) (\<lambda>_ s.
     release (L_proc p) (upd_proc p (\<lambda>q. q\<lparr>p_killed := 1\<rparr>) s))"

definition killed :: "nat \<Rightarrow> 'z pst_scheme \<Rightarrow> (int, 'z pst_scheme) res" where
  "killed p s =
     bnd (acquire (L_proc p) s) (\<lambda>_ s.
     let k = p_killed (procs s p)
     in bnd (release (L_proc p) s) (\<lambda>_ s. Ok k s))"

text \<open>
  The source and destination of \<open>either_copyout\<close> and \<open>either_copyin\<close>: a user virtual
  address, a kernel address in physical memory, or a local variable of the caller, whose bytes
  are passed as a list.
\<close>

datatype uaddr = User uint64 | Kern addr | Local

definition either_copyout :: "uaddr \<Rightarrow> uchar list \<Rightarrow> 'z pst_scheme \<Rightarrow> (int, 'z pst_scheme) res" where
  "either_copyout dst src s =
     bnd (curproc s) (\<lambda>p s.
     case dst of User a \<Rightarrow> copyout (p_pagetable (procs s p)) a src s
     | Kern a \<Rightarrow> Ok 0 (s\<lparr>mem := store_bytes (mem s) a src\<rparr>)
     | Local \<Rightarrow> Ok 0 s)"

definition either_copyin :: "uaddr \<Rightarrow> uchar list \<Rightarrow> nat \<Rightarrow> 'z pst_scheme \<Rightarrow> (int \<times> uchar list, 'z pst_scheme) res" where
  "either_copyin src local len s =
     bnd (curproc s) (\<lambda>p s.
     case src of User a \<Rightarrow> copyin (p_pagetable (procs s p)) a len s
     | Kern a \<Rightarrow> Ok (0, load_bytes (mem s) a len) s
     | Local \<Rightarrow> Ok (0, take len local) s)"

subsection \<open>Waiting for children\<close>

definition int_bytes :: "int \<Rightarrow> uchar list" where
  "int_bytes x = bytes_le 4 (word_of_int x)"

primrec wait_scan ::
  "nat list \<Rightarrow> nat \<Rightarrow> uint64 \<Rightarrow> bool \<Rightarrow> 'z pst_scheme \<Rightarrow> (int option \<times> bool, 'z pst_scheme) res" where
  "wait_scan [] p a havekids s = Ok (None, havekids) s"
| "wait_scan (pp # pps) p a havekids s =
     (if p_parent (procs s pp) = Some p
      then bnd (acquire (L_proc pp) s) (\<lambda>_ s.
        if p_state (procs s pp) = ZOMBIE
        then let pid = p_pid (procs s pp) in
          bnd (if a \<noteq> 0 then copyout (p_pagetable (procs s p)) a (int_bytes (p_xstate (procs s pp))) s else Ok 0 s)
          (\<lambda>r s. if r < 0
                 then bnd (release (L_proc pp) s) (\<lambda>_ s. bnd (release L_wait s) (\<lambda>_ s. Ok (Some (-1), True) s))
                 else bnd (freeproc pp s) (\<lambda>_ s. bnd (release (L_proc pp) s) (\<lambda>_ s.
                      bnd (release L_wait s) (\<lambda>_ s. Ok (Some pid, True) s))))
        else bnd (release (L_proc pp) s) (\<lambda>_ s. wait_scan pps p a True s))
      else wait_scan pps p a havekids s)"

primrec wait_loop ::
  "nat \<Rightarrow> ('z pst_scheme \<Rightarrow> (unit, 'z pst_scheme) res) \<Rightarrow> nat \<Rightarrow> uint64 \<Rightarrow> 'z pst_scheme \<Rightarrow> (int, 'z pst_scheme) res" where
  "wait_loop 0 sw p a s = Diverge"
| "wait_loop (Suc n) sw p a s =
     bnd (wait_scan [0..<NPROC] p a False s) (\<lambda>(found, havekids) s.
     case found of Some r \<Rightarrow> Ok r s
     | None \<Rightarrow>
       if \<not> havekids then bnd (release L_wait s) (\<lambda>_ s. Ok (-1) s)
       else bnd (killed p s) (\<lambda>k s.
         if k \<noteq> 0 then bnd (release L_wait s) (\<lambda>_ s. Ok (-1) s)
         else bnd (sleep sw (Ch_proc p) L_wait s) (\<lambda>_ s. wait_loop n sw p a s)))"

definition wait ::
  "nat \<Rightarrow> ('z pst_scheme \<Rightarrow> (unit, 'z pst_scheme) res) \<Rightarrow> uint64 \<Rightarrow> 'z pst_scheme \<Rightarrow> (int, 'z pst_scheme) res" where
  "wait n sw a s = bnd (curproc s) (\<lambda>p s. bnd (acquire L_wait s) (\<lambda>_ s. wait_loop n sw p a s))"

text \<open>
  \<open>waitx\<close> also fills the caller's \<open>wtime\<close> and \<open>rtime\<close> when it finds a zombie; \<open>None\<close>
  says that they were not assigned.
\<close>

primrec waitx_scan ::
  "nat list \<Rightarrow> nat \<Rightarrow> uint64 \<Rightarrow> bool \<Rightarrow> 'z pst_scheme \<Rightarrow>
     ((int \<times> (uint \<times> uint) option) option \<times> bool, 'z pst_scheme) res" where
  "waitx_scan [] p a havekids s = Ok (None, havekids) s"
| "waitx_scan (np # nps) p a havekids s =
     (if p_parent (procs s np) = Some p
      then bnd (acquire (L_proc np) s) (\<lambda>_ s.
        if p_state (procs s np) = ZOMBIE
        then let q = procs s np; pid = p_pid q; rt = p_rtime q; wt = p_etime q - p_ctime q - p_rtime q in
          bnd (if a \<noteq> 0 then copyout (p_pagetable (procs s p)) a (int_bytes (p_xstate q)) s else Ok 0 s)
          (\<lambda>r s. if r < 0
                 then bnd (release (L_proc np) s) (\<lambda>_ s. bnd (release L_wait s) (\<lambda>_ s.
                      Ok (Some (-1, Some (wt, rt)), True) s))
                 else bnd (freeproc np s) (\<lambda>_ s. bnd (release (L_proc np) s) (\<lambda>_ s.
                      bnd (release L_wait s) (\<lambda>_ s. Ok (Some (pid, Some (wt, rt)), True) s))))
        else bnd (release (L_proc np) s) (\<lambda>_ s. waitx_scan nps p a True s))
      else waitx_scan nps p a havekids s)"

primrec waitx_loop ::
  "nat \<Rightarrow> ('z pst_scheme \<Rightarrow> (unit, 'z pst_scheme) res) \<Rightarrow> nat \<Rightarrow> uint64 \<Rightarrow> 'z pst_scheme \<Rightarrow>
     (int \<times> (uint \<times> uint) option, 'z pst_scheme) res" where
  "waitx_loop 0 sw p a s = Diverge"
| "waitx_loop (Suc n) sw p a s =
     bnd (waitx_scan [0..<NPROC] p a False s) (\<lambda>(found, havekids) s.
     case found of Some r \<Rightarrow> Ok r s
     | None \<Rightarrow>
       if \<not> havekids \<or> p_killed (procs s p) \<noteq> 0 then bnd (release L_wait s) (\<lambda>_ s. Ok (-1, None) s)
       else bnd (sleep sw (Ch_proc p) L_wait s) (\<lambda>_ s. waitx_loop n sw p a s))"

definition waitx ::
  "nat \<Rightarrow> ('z pst_scheme \<Rightarrow> (unit, 'z pst_scheme) res) \<Rightarrow> uint64 \<Rightarrow> 'z pst_scheme \<Rightarrow>
     (int \<times> (uint \<times> uint) option, 'z pst_scheme) res" where
  "waitx n sw a s = bnd (curproc s) (\<lambda>p s. bnd (acquire L_wait s) (\<lambda>_ s. waitx_loop n sw p a s))"

subsection \<open>Accounting and dynamic priority\<close>

definition update__proc_stats :: "nat \<Rightarrow> 'z pst_scheme \<Rightarrow> (unit, 'z pst_scheme) res" where
  "update__proc_stats p s =
     bnd (acquire (L_proc p) s) (\<lambda>_ s.
     let s = (if p_state (procs s p) = RUNNING
              then upd_proc p (\<lambda>q. q\<lparr>p_RTime := p_RTime q + 1, p_rtime := p_rtime q + 1\<rparr>) s else s);
         s = (if p_state (procs s p) = RUNNABLE then upd_proc p (\<lambda>q. q\<lparr>p_WTime := p_WTime q + 1\<rparr>) s else s);
         s = (if p_state (procs s p) = SLEEPING then upd_proc p (\<lambda>q. q\<lparr>p_STime := p_STime q + 1\<rparr>) s else s)
     in release (L_proc p) s)"

definition update_time :: "'z pst_scheme \<Rightarrow> (unit, 'z pst_scheme) res" where
  "update_time = for_each update__proc_stats [0..<NPROC]"

text \<open>Both callers pass a slot of the table, so the test for a null pointer has no counterpart.\<close>

definition calculate_rbi :: "proc \<Rightarrow> 32 word" where
  "calculate_rbi p =
     (let numerator = 3 * p_RTime p - p_STime p - p_WTime p;
          denominator = p_RTime p + p_WTime p + p_STime p + 1;
          rbi = word_of_int (sint numerator sdiv sint denominator) * 50 :: 32 word
      in if 0 <s rbi then rbi else 0)"

definition update_dp :: "proc \<Rightarrow> proc" where
  "update_dp p =
     (let p = p\<lparr>p_RBI := calculate_rbi p\<rparr>;
          temp = p_SP p + p_RBI p
      in p\<lparr>p_DP := if temp <s 100 then temp else 100\<rparr>)"

definition clampDP :: "int \<Rightarrow> int" where
  "clampDP DP = (if DP > 100 then 100 else if DP < 0 then 0 else DP)"

subsection \<open>Schedulers\<close>

text \<open>
  One round of each scheduler's endless loop: the round-robin scheduler visits every slot, the
  priority-based one chooses a process and runs it. (The round-robin scheduler clears
  \<open>c->proc\<close> before its loop; \<open>rr_visit\<close> leaves it clear, so doing so in every round is the
  same.)
\<close>

definition rr_visit ::
  "('z pst_scheme \<Rightarrow> (unit, 'z pst_scheme) res) \<Rightarrow> nat \<Rightarrow> nat \<Rightarrow> 'z pst_scheme \<Rightarrow> (unit, 'z pst_scheme) res" where
  "rr_visit sw c p s =
     bnd (acquire (L_proc p) s) (\<lambda>_ s.
     bnd (if p_state (procs s p) = RUNNABLE
          then let s = upd_proc p (\<lambda>q. q\<lparr>p_state := RUNNING\<rparr>) s;
                   s = s\<lparr>cpus := (cpus s)(c := (cpus s c)\<lparr>cpu_proc := Some p\<rparr>)\<rparr>
               in bnd (sw s) (\<lambda>_ s. Ok () (s\<lparr>cpus := (cpus s)(c := (cpus s c)\<lparr>cpu_proc := None\<rparr>)\<rparr>))
          else Ok () s) (\<lambda>_ s.
     release (L_proc p) s))"

definition scheduler_rr ::
  "('z pst_scheme \<Rightarrow> (unit, 'z pst_scheme) res) \<Rightarrow> 'z pst_scheme \<Rightarrow> (unit, 'z pst_scheme) res" where
  "scheduler_rr sw s =
     (let c = cpuid s;
          s = s\<lparr>cpus := (cpus s)(c := (cpus s c)\<lparr>cpu_proc := None\<rparr>)\<rparr>
      in for_each (rr_visit sw c) [0..<NPROC] (intr_on s))"

definition selectHigherPriorityProcess :: "nat \<Rightarrow> nat \<Rightarrow> 'z pst_scheme \<Rightarrow> (nat, 'z pst_scheme) res" where
  "selectHigherPriorityProcess selectedProc currentProc s =
     bnd (acquire (L_proc selectedProc) s) (\<lambda>_ s.
     let a = procs s selectedProc; b = procs s currentProc;
         r = (if p_numScheduled a = p_numScheduled b
              then if p_ctime a > p_ctime b then currentProc else selectedProc
              else if p_numScheduled b < p_numScheduled a then currentProc
              else selectedProc)
     in bnd (release (L_proc selectedProc) s) (\<lambda>_ s. Ok r s))"

primrec pbs_scan ::
  "nat list \<Rightarrow> uint \<Rightarrow> nat option \<Rightarrow> 'z pst_scheme \<Rightarrow> (nat option, 'z pst_scheme) res" where
  "pbs_scan [] lowestPriority selectedProc s = Ok selectedProc s"
| "pbs_scan (p # ps) lowestPriority selectedProc s =
     bnd (acquire (L_proc p) s) (\<lambda>_ s.
     bnd (if p_state (procs s p) = RUNNABLE
          then if p_SP (procs s p) = lowestPriority
               then case selectedProc of
                      Some q \<Rightarrow> if q \<noteq> p
                        then bnd (selectHigherPriorityProcess q p s) (\<lambda>r s. Ok (lowestPriority, Some r) s)
                        else Ok (lowestPriority, Some p) s
                    | None \<Rightarrow> Ok (lowestPriority, Some p) s
               else if lowestPriority > p_SP (procs s p) then Ok (p_SP (procs s p), Some p) s
               else Ok (lowestPriority, selectedProc) s
          else Ok (lowestPriority, selectedProc) s) (\<lambda>(lowest, sel) s.
     bnd (release (L_proc p) s) (\<lambda>_ s. pbs_scan ps lowest sel s)))"

definition scheduleProcess ::
  "('z pst_scheme \<Rightarrow> (unit, 'z pst_scheme) res) \<Rightarrow> nat \<Rightarrow> nat \<Rightarrow> 'z pst_scheme \<Rightarrow> (unit, 'z pst_scheme) res" where
  "scheduleProcess sw procToRun c s =
     bnd (acquire (L_proc procToRun) s) (\<lambda>_ s.
     bnd (if p_state (procs s procToRun) = RUNNABLE
          then let startTime = ticks s;
                   s = s\<lparr>cpus := (cpus s)(c := (cpus s c)\<lparr>cpu_proc := Some procToRun\<rparr>)\<rparr>;
                   s = upd_proc procToRun (\<lambda>q. q\<lparr>p_RTime := 0, p_STime := 0,
                         p_numScheduled := p_numScheduled q + 1, p_state := RUNNING\<rparr>) s
               in bnd (sw s) (\<lambda>_ s.
                  let s = upd_proc procToRun (\<lambda>q. update_dp (q\<lparr>p_RTime := ticks s - startTime\<rparr>)) s;
                      s = upd_proc procToRun (\<lambda>q. q\<lparr>p_SP := word_of_int (clampDP (sint (p_DP q)))\<rparr>) s
                  in Ok () (s\<lparr>cpus := (cpus s)(c := (cpus s c)\<lparr>cpu_proc := None\<rparr>)\<rparr>))
          else Ok () s) (\<lambda>_ s.
     release (L_proc procToRun) s))"

definition scheduler_pbs ::
  "('z pst_scheme \<Rightarrow> (unit, 'z pst_scheme) res) \<Rightarrow> 'z pst_scheme \<Rightarrow> (unit, 'z pst_scheme) res" where
  "scheduler_pbs sw s =
     (let c = cpuid s;
          s = s\<lparr>cpus := (cpus s)(c := (cpus s c)\<lparr>cpu_proc := None\<rparr>)\<rparr>;
          s = intr_on s
      in bnd (pbs_scan [0..<NPROC] 9999999 None s) (\<lambda>sel s.
         case sel of Some p \<Rightarrow> scheduleProcess sw p c s | None \<Rightarrow> Ok () s))"

end
