(* ===== verification/ProcSched.thy ===== *)
theory ProcSched
  imports Proc
begin

text \<open>
  The priority-based scheduler: which process \<open>pbs_scan\<close> chooses, and the bounds on the
  dynamic priority.
\<close>

subsection \<open>Lock frames for the process table\<close>

lemma hold_pst [frame_simps, simp]:
  "procs (hold lk s) = procs s" "nextpid (hold lk s) = nextpid s" "initproc (hold lk s) = initproc s"
  "ticks (hold lk s) = ticks s" "kernel_pagetable (hold lk s) = kernel_pagetable s"
  "satp (hold lk s) = satp s" "etext (hold lk s) = etext s" "trampoline (hold lk s) = trampoline s"
  by (simp_all add: hold_def push_off_def mach_defs Let_def)

lemma touch_pst [frame_simps, simp]:
  "procs (touch s) = procs s" "nextpid (touch s) = nextpid s" "initproc (touch s) = initproc s"
  "ticks (touch s) = ticks s" "kernel_pagetable (touch s) = kernel_pagetable s"
  "satp (touch s) = satp s" "etext (touch s) = etext s" "trampoline (touch s) = trampoline s"
  by (simp_all add: touch_def)

lemma hold_pst_upd [lock_simps]:
  "(hold lk s)\<lparr>procs := a\<rparr> = hold lk (s\<lparr>procs := a\<rparr>)"
  "(hold lk s)\<lparr>nextpid := b\<rparr> = hold lk (s\<lparr>nextpid := b\<rparr>)"
  "(hold lk s)\<lparr>ticks := c\<rparr> = hold lk (s\<lparr>ticks := c\<rparr>)"
  by (simp_all add: hold_def push_off_def mach_defs Let_def)

lemma touch_pst_upd [lock_simps]:
  "touch (s\<lparr>procs := a\<rparr>) = (touch s)\<lparr>procs := a\<rparr>"
  "touch (s\<lparr>nextpid := b\<rparr>) = (touch s)\<lparr>nextpid := b\<rparr>"
  "touch (s\<lparr>ticks := c\<rparr>) = (touch s)\<lparr>ticks := c\<rparr>"
  by (simp_all add: touch_def)

lemma upd_proc_locks [lock_simps]:
  "upd_proc p f (hold lk s) = hold lk (upd_proc p f s)"
  "touch (upd_proc p f s) = upd_proc p f (touch s)"
  by (simp_all add: upd_proc_def lock_simps)

lemma upd_proc_frame [simp]:
  "hart (upd_proc p f s) = hart s" "cpus (upd_proc p f s) = cpus s" "sie (upd_proc p f s) = sie s"
  "locks (upd_proc p f s) = locks s" "ticks (upd_proc p f s) = ticks s" "mem (upd_proc p f s) = mem s"
  "procs (upd_proc p f s) = (procs s)(p := f (procs s p))" "initproc (upd_proc p f s) = initproc s"
  by (simp_all add: upd_proc_def)

lemma hold_frame_touch: "irqs_ok s \<Longrightarrow> touch (hold lk s) = hold lk s"
  by (simp add: touch_def irq_ok_def)

lemma lk_free_other [simp]: "lk \<noteq> lk' \<Longrightarrow> lk_free (locks (hold lk' s) lk) = lk_free (locks s lk)"
  by simp

subsection \<open>Priorities\<close>

text \<open>
  An order on processes: a priority, then the number of times scheduled, then the creation time; the smaller one
  first. The documents take the dynamic priority (\<open>doc_prio\<close>), the code compares static priorities (\<open>prio_of\<close>).
\<close>

datatype prio = Prio (pr_first: uint) (pr_num: uint) (pr_ctime: uint)

lemma prio_eq_iff: "a = b \<longleftrightarrow> pr_first a = pr_first b \<and> pr_num a = pr_num b \<and> pr_ctime a = pr_ctime b"
  by (cases a; cases b) auto

instantiation prio :: linorder
begin

definition less_prio :: "prio \<Rightarrow> prio \<Rightarrow> bool" where
  "a < b \<longleftrightarrow> pr_first a < pr_first b \<or> pr_first a = pr_first b \<and> (pr_num a < pr_num b \<or>
     pr_num a = pr_num b \<and> pr_ctime a < pr_ctime b)"

definition less_eq_prio :: "prio \<Rightarrow> prio \<Rightarrow> bool" where
  "(a :: prio) \<le> b \<longleftrightarrow> a < b \<or> a = b"

instance
  by standard (auto simp: less_prio_def less_eq_prio_def prio_eq_iff)

end

definition prio_of :: "proc \<Rightarrow> prio" where
  "prio_of q = Prio (p_SP q) (p_numScheduled q) (p_ctime q)"

definition doc_prio :: "proc \<Rightarrow> prio" where
  "doc_prio q = Prio (p_DP q) (p_numScheduled q) (p_ctime q)"

definition pbs_pick :: "(nat \<Rightarrow> proc) \<Rightarrow> nat \<Rightarrow> uint \<times> nat option \<Rightarrow> uint \<times> nat option" where
  "pbs_pick f p ls = (case ls of (low, sel) \<Rightarrow>
     if p_state (f p) \<noteq> RUNNABLE then (low, sel)
     else if p_SP (f p) = low then (low, case sel of None \<Rightarrow> Some p | Some q \<Rightarrow>
       Some (if p_numScheduled (f q) = p_numScheduled (f p)
             then if p_ctime (f q) > p_ctime (f p) then p else q
             else if p_numScheduled (f p) < p_numScheduled (f q) then p else q))
     else if low > p_SP (f p) then (p_SP (f p), Some p) else (low, sel))"

definition pbs_locks :: "nat list \<Rightarrow> nat option \<Rightarrow> 'z pst_scheme \<Rightarrow> bool" where
  "pbs_locks ps sel s \<longleftrightarrow> (\<forall>p\<in>set ps \<union> set_option sel. lk_free (locks s (L_proc p))) \<and> irqs_ok s"

lemma selectHigherPriorityProcess_eq:
  assumes "lk_free (locks s (L_proc q))" "lk_free (locks s (L_proc p))" "q \<noteq> p" "irqs_ok s"
  shows "selectHigherPriorityProcess q p (hold (L_proc p) s) =
    Ok (if p_numScheduled (procs s q) = p_numScheduled (procs s p)
        then if p_ctime (procs s q) > p_ctime (procs s p) then p else q
        else if p_numScheduled (procs s p) < p_numScheduled (procs s q) then p else q) (hold (L_proc p) s)"
  using assms
  by (simp add: selectHigherPriorityProcess_def acquire_free release_hold hold_frame_touch Let_def)

text \<open>
  With the locks free, the locked scan computes the same choice as \<open>pbs_pick\<close> on the table.
\<close>

lemma pbs_scan_eq:
  assumes "distinct ps" "sel \<notin> Some ` set ps" "pbs_locks ps sel s"
  shows "pbs_scan ps low sel s =
    Ok (snd (fold (pbs_pick (procs s)) ps (low, sel))) (if ps = [] then s else touch s)"
  using assms
proof (induction ps arbitrary: low sel s)
  case (Cons p ps)
  have fp: "lk_free (locks s (L_proc p))" and irq: "irqs_ok s" using Cons.prems by (auto simp: pbs_locks_def)
  have np: "sel \<noteq> Some p" using Cons.prems by auto
  let ?r = "pbs_pick (procs s) p (low, sel)"
  have sel: "lk_free (locks s (L_proc q))" "q \<noteq> p" if "sel = Some q" for q
    using Cons.prems that by (auto simp: pbs_locks_def)
  have step: "pbs_scan (p # ps) low sel s = pbs_scan ps (fst ?r) (snd ?r) (touch s)"
    using fp irq sel
    by (auto simp: acquire_free release_hold selectHigherPriorityProcess_eq pbs_pick_def split: option.split)
  have "snd ?r \<in> {sel, Some p}" by (auto simp: pbs_pick_def split: option.splits)
  then have "snd ?r \<notin> Some ` set ps" "pbs_locks ps (snd ?r) (touch s)"
    using Cons.prems by (auto simp: pbs_locks_def)
  then show ?case unfolding step using Cons.prems(1) by (simp add: Cons.IH)
qed simp

definition pbs_best :: "(nat \<Rightarrow> proc) \<Rightarrow> nat list \<Rightarrow> uint \<times> nat option \<Rightarrow> bool" where
  "pbs_best f ps ls \<longleftrightarrow> (case snd ls of
     None \<Rightarrow> fst ls = 9999999 \<and> (\<forall>p\<in>set ps. p_state (f p) \<noteq> RUNNABLE)
   | Some q \<Rightarrow> q \<in> set ps \<and> p_state (f q) = RUNNABLE \<and> fst ls = p_SP (f q) \<and>
       (\<forall>p\<in>set ps. p_state (f p) = RUNNABLE \<longrightarrow> prio_of (f q) \<le> prio_of (f p)))"

lemma prio_le_iff:
  "prio_of a \<le> prio_of b \<longleftrightarrow> p_SP a < p_SP b \<or> p_SP a = p_SP b \<and> (p_numScheduled a < p_numScheduled b \<or>
     p_numScheduled a = p_numScheduled b \<and> p_ctime a \<le> p_ctime b)"
  by (auto simp: prio_of_def less_eq_prio_def less_prio_def)

lemma pbs_pick_best:
  assumes "pbs_best f ps ls" "p_state (f p) = RUNNABLE \<longrightarrow> p_SP (f p) < 9999999"
  shows "pbs_best f (ps @ [p]) (pbs_pick f p ls)"
proof (cases "p_state (f p) = RUNNABLE")
  case False
  then show ?thesis using assms(1) by (cases ls) (auto simp: pbs_best_def pbs_pick_def split: option.splits)
next
  case True
  obtain low sel where ls: "ls = (low, sel)" by (cases ls)
  show ?thesis
  proof (cases sel)
    case None
    then show ?thesis using assms True by (auto simp: ls pbs_best_def pbs_pick_def)
  next
    case (Some q)
    let ?c = "if prio_of (f p) < prio_of (f q) then p else q"
    have low: "low = p_SP (f q)" using assms(1) Some ls by (simp add: pbs_best_def)
    have "pbs_pick f p ls = (p_SP (f ?c), Some ?c)"
      using True Some low
      by (auto simp: ls pbs_pick_def less_prio_def prio_of_def not_less word_le_less_eq)
    moreover have "prio_of (f ?c) \<le> prio_of (f r)" if "r \<in> set (ps @ [p])" "p_state (f r) = RUNNABLE" for r
      using that assms(1) Some ls by (auto simp: pbs_best_def)
    ultimately show ?thesis using assms(1) Some ls True by (auto simp: pbs_best_def)
  qed
qed

lemma pbs_fold_best:
  assumes "\<forall>p\<in>set ps. p_state (f p) = RUNNABLE \<longrightarrow> p_SP (f p) < 9999999"
  shows "pbs_best f ps (fold (pbs_pick f) ps (9999999, None))"
  using assms
proof (induction ps rule: rev_induct)
  case Nil
  then show ?case by (simp add: pbs_best_def)
next
  case (snoc p ps)
  then have "pbs_best f ps (fold (pbs_pick f) ps (9999999, None))" by simp
  with snoc.prems pbs_pick_best [of f ps _ p] show ?case by simp
qed

text \<open>
  With no process lock held, the scan returns a first process of the code's order, and leaves the table and the locks as they were.
\<close>

lemma pbs_scan_first:
  assumes "\<forall>p<NPROC. lk_free (locks s (L_proc p))" "irqs_ok s"
    and "\<forall>p<NPROC. p_state (procs s p) = RUNNABLE \<longrightarrow> p_SP (procs s p) < 9999999"
  shows "\<exists>sel t. pbs_scan [0..<NPROC] 9999999 None s = Ok sel t \<and> procs t = procs s \<and> locks t = locks s \<and>
    (case sel of None \<Rightarrow> \<forall>p<NPROC. p_state (procs s p) \<noteq> RUNNABLE
     | Some q \<Rightarrow> q < NPROC \<and> p_state (procs s q) = RUNNABLE \<and>
         (\<forall>p<NPROC. p_state (procs s p) = RUNNABLE \<longrightarrow> prio_of (procs s q) \<le> prio_of (procs s p)))"
proof -
  have e: "pbs_scan [0..<NPROC] 9999999 None s =
      Ok (snd (fold (pbs_pick (procs s)) [0..<NPROC] (9999999, None))) (touch s)"
    using assms(1,2) by (subst pbs_scan_eq) (auto simp: pbs_locks_def NPROC_def)
  have "pbs_best (procs s) [0..<NPROC] (fold (pbs_pick (procs s)) [0..<NPROC] (9999999, None))"
    using assms(3) by (intro pbs_fold_best) auto
  then show ?thesis unfolding e by (auto simp: pbs_best_def split: option.splits)
qed

subsection \<open>A state to run from\<close>

definition blank_proc :: proc where
  "blank_proc = \<lparr>p_state = UNUSED, p_chan = Ch_null, p_killed = 0, p_xstate = 0, p_pid = 0, p_parent = None,
     p_kstack = 0, p_sz = 0, p_pagetable = 0, p_trapframe = 0, p_context = zero_context, p_ofile = (\<lambda>_. None),
     p_cwd = None, p_name = replicate 16 0, p_rtime = 0, p_ctime = 0, p_etime = 0, p_SP = 50, p_DP = 0, p_RBI = 0,
     p_RTime = 0, p_STime = 0, p_WTime = 0, p_start_time = 0, p_numScheduled = 0\<rparr>"

definition boot_pst :: pst where
  "boot_pst = vst.extend (kst.extend (boot_kst 0x80001000) (vst.fields 0 (\<lambda>_. 0) 0x80001000 0x80000000))
     (pst.fields (\<lambda>_. blank_proc) 1 None 0 0x80000100)"

lemma boot_pst_simps [simp]:
  "hart boot_pst = 0" "locks boot_pst lk = \<lparr>lk_locked = 0, lk_name = [], lk_cpu = None\<rparr>"
  "procs boot_pst = (\<lambda>_. blank_proc)" "ticks boot_pst = 0" "irq_ok 0 (cpus boot_pst) (sie boot_pst)"
  "mem boot_pst = (\<lambda>_. 0)" "cpus boot_pst i = \<lparr>cpu_proc = None, noff = 0, intena = False\<rparr>" "nextpid boot_pst = 1"
  by (simp_all add: boot_pst_def boot_kst_def boot_mach_def mach.defs kst.defs vst.defs pst.defs irq_ok_def)

lemma lk_free_unlocked [simp]: "lk_free \<lparr>lk_locked = 0, lk_name = n, lk_cpu = None\<rparr>"
  by (simp add: lk_free_def)

lemma blank_proc_simps [simp]:
  "p_state blank_proc = UNUSED" "p_SP blank_proc = 50" "p_numScheduled blank_proc = 0"
  "p_ctime blank_proc = 0" "p_DP blank_proc = 0" "p_RTime blank_proc = 0" "p_STime blank_proc = 0"
  "p_WTime blank_proc = 0" "p_chan blank_proc = Ch_null" "p_killed blank_proc = 0" "p_parent blank_proc = None"
  "p_pid blank_proc = 0"
  by (simp_all add: blank_proc_def)

text \<open>
  C1: When no process lock is held and the two priorities of every runnable process agree (as \<open>scheduleProcess\<close> leaves
  them), the priority scheduler's scan of the table chooses as documented: a runnable process that no other runnable
  process precedes in the order (dynamic priority, number of times scheduled, creation time), or nothing when no process
  is runnable. It leaves the process table and the locks as they were.
\<close>

theorem pbs_scan_chooses_best:
  assumes "\<forall>p<NPROC. lk_free (locks s (L_proc p))" "irqs_ok s"
    and "\<forall>p<NPROC. p_state (procs s p) = RUNNABLE \<longrightarrow> p_SP (procs s p) = p_DP (procs s p) \<and> p_DP (procs s p) \<le> 100"
  shows "\<exists>sel t. pbs_scan [0..<NPROC] 9999999 None s = Ok sel t \<and> procs t = procs s \<and> locks t = locks s \<and>
    (case sel of None \<Rightarrow> \<forall>p<NPROC. p_state (procs s p) \<noteq> RUNNABLE
     | Some q \<Rightarrow> q < NPROC \<and> p_state (procs s q) = RUNNABLE \<and>
         (\<forall>p<NPROC. p_state (procs s p) = RUNNABLE \<longrightarrow> doc_prio (procs s q) \<le> doc_prio (procs s p)))"
proof -
  have eq: "prio_of (procs s p) = doc_prio (procs s p)" "p_SP (procs s p) < 9999999" if "p < NPROC" "p_state (procs s p) = RUNNABLE" for p
  proof -
    have "p_SP (procs s p) = p_DP (procs s p)" "unat (p_DP (procs s p)) \<le> 100"
      using assms(3) that by (auto simp: word_le_nat_alt)
    then show "prio_of (procs s p) = doc_prio (procs s p)" "p_SP (procs s p) < 9999999"
      by (simp_all add: prio_of_def doc_prio_def word_less_nat_alt)
  qed
  then obtain sel t where r: "pbs_scan [0..<NPROC] 9999999 None s = Ok sel t" "procs t = procs s" "locks t = locks s"
    and c: "case sel of None \<Rightarrow> \<forall>p<NPROC. p_state (procs s p) \<noteq> RUNNABLE
     | Some q \<Rightarrow> q < NPROC \<and> p_state (procs s q) = RUNNABLE \<and>
         (\<forall>p<NPROC. p_state (procs s p) = RUNNABLE \<longrightarrow> prio_of (procs s q) \<le> prio_of (procs s p))"
    using pbs_scan_first [OF assms(1,2)] by blast
  have "case sel of None \<Rightarrow> \<forall>p<NPROC. p_state (procs s p) \<noteq> RUNNABLE
     | Some q \<Rightarrow> q < NPROC \<and> p_state (procs s q) = RUNNABLE \<and>
         (\<forall>p<NPROC. p_state (procs s p) = RUNNABLE \<longrightarrow> doc_prio (procs s q) \<le> doc_prio (procs s p))"
    using c eq(1) by (auto split: option.splits)
  then show ?thesis using r by blast
qed

definition three_runnable :: pst where
  "three_runnable = boot_pst\<lparr>procs := (\<lambda>_. blank_proc)(
     2 := blank_proc\<lparr>p_state := RUNNABLE, p_SP := 40, p_DP := 40, p_numScheduled := 3\<rparr>,
     5 := blank_proc\<lparr>p_state := RUNNABLE, p_SP := 40, p_DP := 40, p_numScheduled := 1\<rparr>,
     9 := blank_proc\<lparr>p_state := RUNNABLE, p_SP := 60, p_DP := 60\<rparr>)\<rparr>"

theorem pbs_scan_chooses_best_witness:
  "\<exists>t. pbs_scan [0..<NPROC] 9999999 None three_runnable = Ok (Some 5) t \<and> procs t = procs three_runnable"
proof -
  let ?s = three_runnable
  have p: "\<forall>p<NPROC. lk_free (locks ?s (L_proc p))" "irqs_ok ?s"
    "\<forall>p<NPROC. p_state (procs ?s p) = RUNNABLE \<longrightarrow> p_SP (procs ?s p) = p_DP (procs ?s p) \<and> p_DP (procs ?s p) \<le> 100"
    by (auto simp: three_runnable_def)
  from pbs_scan_chooses_best [OF this] obtain sel t
    where r: "pbs_scan [0..<NPROC] 9999999 None ?s = Ok sel t" "procs t = procs ?s"
      and c: "case sel of None \<Rightarrow> \<forall>p<NPROC. p_state (procs ?s p) \<noteq> RUNNABLE
       | Some q \<Rightarrow> q < NPROC \<and> p_state (procs ?s q) = RUNNABLE \<and>
           (\<forall>p<NPROC. p_state (procs ?s p) = RUNNABLE \<longrightarrow> doc_prio (procs ?s q) \<le> doc_prio (procs ?s p))"
    by blast
  have n: "5 < NPROC" "p_state (procs ?s 5) = RUNNABLE" by (simp_all add: NPROC_def three_runnable_def)
  have "sel = Some 5"
  proof (cases sel)
    case None
    then show ?thesis using c n by auto
  next
    case (Some q)
    with c n have "p_state (procs ?s q) = RUNNABLE" "doc_prio (procs ?s q) \<le> doc_prio (procs ?s 5)" by auto
    then show ?thesis using Some
      by (auto simp: three_runnable_def doc_prio_def less_eq_prio_def less_prio_def split: if_splits)
  qed
  with r show ?thesis by auto
qed

subsection \<open>Dynamic priority\<close>

lemma clampDP_range: "0 \<le> clampDP d" "clampDP d \<le> 100"
  by (simp_all add: clampDP_def)

lemma clamped_SP: "word_of_int (clampDP d) \<le> (100 :: uint)"
proof -
  have "uint (word_of_int (clampDP d) :: uint) = clampDP d"
    using clampDP_range [of d] by (simp add: uint_word_of_int)
  then show ?thesis using clampDP_range [of d] by (simp add: word_le_def)
qed

lemma sint_of_int_small: "-2147483648 \<le> n \<Longrightarrow> n < 2147483648 \<Longrightarrow> sint (word_of_int n :: uint) = n"
  by (simp add: sint_sbintrunc' signed_take_bit_int_eq_self_iff)

lemma sint_small:
  assumes "unat w < 2147483648"
  shows "sint (w :: uint) = int (unat w)"
proof -
  have "sint (word_of_int (int (unat w)) :: uint) = int (unat w)"
    using assms by (intro sint_of_int_small) linarith+
  moreover have "word_of_int (int (unat w)) = w" by simp
  ultimately show ?thesis by (simp only:)
qed

lemma rbi_quotient:
  fixes R S W :: nat
  defines "n \<equiv> 3 * int R - int S - int W" and "d \<equiv> int R + int W + int S + 1"
  defines "q \<equiv> (3 * R - (S + W)) div (R + W + S + 1)"
  shows "n sdiv d = int q" "q \<le> 2"
proof -
  have d: "0 < d" by (simp add: d_def)
  show "q \<le> 2" unfolding q_def by (rule less_Suc_eq_le [THEN iffD1]) (simp add: less_mult_imp_div_less)
  show "n sdiv d = int q"
  proof (cases "0 \<le> n")
    case True
    then have "n = int (3 * R - (S + W))" "d = int (R + W + S + 1)" by (simp_all add: n_def d_def)
    with True d show ?thesis unfolding q_def zdiv_int signed_divide_int_def by (simp add: sgn_if)
  next
    case False
    then have "3 * R - (S + W) = 0" by (simp add: n_def)
    moreover have "(- n) div d = 0" using False by (intro div_pos_pos_trivial) (simp_all add: n_def d_def)
    ultimately show ?thesis using False d by (simp add: q_def signed_divide_int_def sgn_if)
  qed
qed

lemma calculate_rbi_eq:
  assumes "unat (p_RTime p) + unat (p_STime p) + unat (p_WTime p) < 2 ^ 29"
  defines "q \<equiv> (3 * unat (p_RTime p) - (unat (p_STime p) + unat (p_WTime p))) div
     (unat (p_RTime p) + unat (p_WTime p) + unat (p_STime p) + 1)"
  shows "calculate_rbi p = of_nat (50 * q)" "q \<le> 2"
proof -
  define R S W where "R = unat (p_RTime p)" and "S = unat (p_STime p)" and "W = unat (p_WTime p)"
  note Q = rbi_quotient [of R S W]
  have q: "q = (3 * R - (S + W)) div (R + W + S + 1)" by (simp add: q_def R_def S_def W_def)
  show q2: "q \<le> 2" using Q(2) by (simp add: q)
  have b: "R + S + W < 536870912" using assms(1) by (simp add: R_def S_def W_def)
  have w: "p_RTime p = word_of_int (int R)" "p_STime p = word_of_int (int S)" "p_WTime p = word_of_int (int W)"
    by (simp_all add: R_def S_def W_def)
  have "3 * p_RTime p - p_STime p - p_WTime p = word_of_int (3 * int R - int S - int W)"
    unfolding w by simp
  moreover have "sint (word_of_int (3 * int R - int S - int W) :: uint) = 3 * int R - int S - int W"
    using b by (intro sint_of_int_small) linarith+
  ultimately have n: "sint (3 * p_RTime p - p_STime p - p_WTime p) = 3 * int R - int S - int W"
    by (simp only:)
  have "p_RTime p + p_WTime p + p_STime p + 1 = word_of_int (int R + int W + int S + 1)"
    unfolding w by simp
  moreover have "sint (word_of_int (int R + int W + int S + 1) :: uint) = int R + int W + int S + 1"
    using b by (intro sint_of_int_small) linarith+
  ultimately have d: "sint (p_RTime p + p_WTime p + p_STime p + 1) = int R + int W + int S + 1"
    by (simp only:)
  have e: "calculate_rbi p = (if 0 <s (word_of_int (int q) * 50 :: uint) then word_of_int (int q) * 50 else 0)"
    unfolding calculate_rbi_def Let_def n d Q(1) q [symmetric] ..
  from q2 consider "q = 0" | "q = 1" | "q = 2" by linarith
  then show "calculate_rbi p = of_nat (50 * q)"
    by cases (simp_all add: e word_sless_alt)
qed

text \<open>
  The documented index: the integer part of \<open>(3 RTime - STime - WTime) / (RTime + WTime + STime + 1) * 50\<close>, at least 0.
\<close>

definition documented_rbi :: "proc \<Rightarrow> nat" where
  "documented_rbi p = (3 * unat (p_RTime p) - (unat (p_STime p) + unat (p_WTime p))) * 50 div
     (unat (p_RTime p) + unat (p_WTime p) + unat (p_STime p) + 1)"

lemma scaled_div:
  fixes n d :: nat
  assumes "0 < d"
  shows "50 * (n div d) \<le> n * 50 div d" "n * 50 div d < 50 * (n div d) + 50"
proof -
  have "n * 50 = (d * (n div d) + n mod d) * 50" by (simp only: mult_div_mod_eq)
  also have "\<dots> = d * (50 * (n div d)) + n mod d * 50" by (subst distrib_right) simp
  finally have "n * 50 div d = 50 * (n div d) + n mod d * 50 div d" using assms by (metis div_mult_self2 not_gr_zero add.commute)
  moreover have "n mod d * 50 div d < 50" using assms by (intro less_mult_imp_div_less) simp
  ultimately show "50 * (n div d) \<le> n * 50 div d" "n * 50 div d < 50 * (n div d) + 50" by simp_all
qed

text \<open>
  C24: While a process's running, sleeping and waiting times sum to less than \<open>2 ^ 29\<close> ticks and its static priority is
  at most 100, \<open>update_dp\<close> sets the dynamic priority to the static priority plus the index it has computed, at most
  100. The index is never above the documented one and less than 50 below it, and so is the dynamic priority.
\<close>

theorem update_dp_value:
  assumes "unat (p_RTime p) + unat (p_STime p) + unat (p_WTime p) < 2 ^ 29" "p_SP p \<le> 100"
  shows "unat (p_DP (update_dp p)) = min (unat (p_SP p) + unat (p_RBI (update_dp p))) 100 \<and>
    unat (p_RBI (update_dp p)) \<le> documented_rbi p \<and> documented_rbi p < unat (p_RBI (update_dp p)) + 50 \<and>
    unat (p_DP (update_dp p)) \<le> min (unat (p_SP p) + documented_rbi p) 100 \<and>
    min (unat (p_SP p) + documented_rbi p) 100 < unat (p_DP (update_dp p)) + 50"
proof -
  let ?n = "3 * unat (p_RTime p) - (unat (p_STime p) + unat (p_WTime p))" and ?d = "unat (p_RTime p) + unat (p_WTime p) + unat (p_STime p) + 1"
  define q where "q = ?n div ?d"
  have r: "calculate_rbi p = of_nat (50 * q)" and q: "q \<le> 2"
    using calculate_rbi_eq [OF assms(1), folded q_def] by auto
  define x where "x = p_RBI (update_dp p)"
  from q consider "q = 0" | "q = 1" | "q = 2" by linarith
  then have x: "unat x = 50 * q" by cases (simp_all add: x_def update_dp_def r Let_def)
  have sp: "unat (p_SP p) \<le> 100" using assms(2) by (simp add: word_le_nat_alt)
  have s: "unat (p_SP p + x) = unat (p_SP p) + unat x"
    using sp x q by (subst unat_add_lem [THEN iffD1]) simp_all
  have si: "sint (p_SP p + x) = int (unat (p_SP p) + unat x)"
    using sp x q by (subst sint_small) (simp_all only: s)
  have "sint (100 :: uint) = int 100" by simp
  then have lt: "p_SP p + x <s 100 \<longleftrightarrow> unat (p_SP p) + unat x < 100"
    by (simp only: word_sless_alt si of_nat_less_iff)
  have "p_DP (update_dp p) = (if p_SP p + x <s 100 then p_SP p + x else 100)"
    by (simp add: update_dp_def x_def Let_def)
  then have dp: "unat (p_DP (update_dp p)) = min (unat (p_SP p) + unat x) 100"
    using s lt by (simp add: min_def)
  have "unat x \<le> documented_rbi p" "documented_rbi p < unat x + 50"
    using scaled_div [of ?d ?n] unfolding documented_rbi_def x q_def by simp_all
  with dp show ?thesis unfolding x_def [symmetric] by auto
qed

theorem update_dp_value_witness:
  "p_RBI (update_dp (blank_proc\<lparr>p_RTime := 2\<rparr>)) = 100 \<and> documented_rbi (blank_proc\<lparr>p_RTime := 2\<rparr>) = 100 \<and>
   p_DP (update_dp (blank_proc\<lparr>p_RTime := 2\<rparr>)) = 100"
proof -
  let ?p = "blank_proc\<lparr>p_RTime := 2\<rparr>"
  have "documented_rbi ?p = 100" by (simp add: documented_rbi_def)
  moreover have "calculate_rbi ?p = of_nat (50 * 2)" by (subst calculate_rbi_eq(1)) simp_all
  ultimately show ?thesis using update_dp_value [of ?p] by (simp add: update_dp_def Let_def word_unat_eq_iff)
qed

text \<open>
  C38: The scheduler compares static priorities where the documents ask for dynamic ones. There are process tables,
  with dynamic priorities as \<open>update_dp\<close> computes them, in which the scan chooses a process although another
  runnable process has a smaller dynamic priority.
\<close>

theorem pbs_scan_ignores_DP:
  "\<exists>(s :: pst) t p q. pbs_locks [0..<NPROC] None s \<and> p < NPROC \<and> q < NPROC \<and>
     p_state (procs s p) = RUNNABLE \<and> p_state (procs s q) = RUNNABLE \<and>
     update_dp (procs s p) = procs s p \<and> update_dp (procs s q) = procs s q \<and>
     p_DP (procs s p) < p_DP (procs s q) \<and> pbs_scan [0..<NPROC] 9999999 None s = Ok (Some q) t"
proof -
  let ?p = "update_dp (blank_proc\<lparr>p_state := RUNNABLE, p_SP := 60\<rparr>)"
  let ?q = "update_dp (blank_proc\<lparr>p_state := RUNNABLE, p_SP := 40, p_RTime := 2\<rparr>)"
  let ?s = "boot_pst\<lparr>procs := (\<lambda>_. blank_proc)(3 := ?p, 7 := ?q)\<rparr>"
  have "calculate_rbi (blank_proc\<lparr>p_state := RUNNABLE, p_SP := 60\<rparr>) = of_nat (50 * 0)"
    "calculate_rbi (blank_proc\<lparr>p_state := RUNNABLE, p_SP := 40, p_RTime := 2\<rparr>) = of_nat (50 * 2)"
    by (subst calculate_rbi_eq(1); simp)+
  then have v: "?p = blank_proc\<lparr>p_state := RUNNABLE, p_SP := 60, p_RBI := 0, p_DP := 60\<rparr>"
    "?q = blank_proc\<lparr>p_state := RUNNABLE, p_SP := 40, p_RTime := 2, p_RBI := 100, p_DP := 100\<rparr>"
    by (simp_all add: update_dp_def Let_def word_sless_alt)
  have idem: "update_dp (update_dp x) = update_dp x" for x by (simp add: update_dp_def calculate_rbi_def Let_def)
  have pre: "\<forall>r<NPROC. lk_free (locks ?s (L_proc r))" "irqs_ok ?s"
    "\<forall>r<NPROC. p_state (procs ?s r) = RUNNABLE \<longrightarrow> p_SP (procs ?s r) < 9999999"
    by (auto simp: v)
  from pbs_scan_first [OF this] obtain sel t
    where r: "pbs_scan [0..<NPROC] 9999999 None ?s = Ok sel t"
      and c: "case sel of None \<Rightarrow> \<forall>p<NPROC. p_state (procs ?s p) \<noteq> RUNNABLE
       | Some q \<Rightarrow> q < NPROC \<and> p_state (procs ?s q) = RUNNABLE \<and>
           (\<forall>p<NPROC. p_state (procs ?s p) = RUNNABLE \<longrightarrow> prio_of (procs ?s q) \<le> prio_of (procs ?s p))"
    by blast
  have n: "7 < NPROC" "3 < NPROC" "p_state (procs ?s 7) = RUNNABLE" by (simp_all add: NPROC_def v)
  have "sel = Some 7"
  proof (cases sel)
    case None
    then show ?thesis using c n by auto
  next
    case (Some x)
    with c n have "p_state (procs ?s x) = RUNNABLE" "prio_of (procs ?s x) \<le> prio_of (procs ?s 7)" by auto
    then show ?thesis using Some by (auto simp: v prio_of_def less_eq_prio_def less_prio_def split: if_splits)
  qed
  moreover have "update_dp (procs ?s 3) = procs ?s 3" "update_dp (procs ?s 7) = procs ?s 7" using idem by simp_all
  moreover have "p_DP (procs ?s 3) < p_DP (procs ?s 7)" "p_state (procs ?s 3) = RUNNABLE" by (simp_all add: v)
  moreover have "pbs_locks [0..<NPROC] None ?s" using pre(1,2) by (simp add: pbs_locks_def)
  ultimately show ?thesis using r n by blast
qed


text \<open>
  C26: Whatever the process does while it runs, when \<open>scheduleProcess\<close> gets the CPU back
  from a runnable process it leaves that process with a static priority of at most 100, whatever
  value it had before, equal to its dynamic priority unless that is negative, and no process recorded on the CPU.
\<close>

theorem scheduleProcess_priority_bound:
  assumes "scheduleProcess sw p c s = Ok () t" "lk_free (locks s (L_proc p))" "p_state (procs s p) = RUNNABLE"
  shows "p_SP (procs t p) \<le> 100 \<and> (0 \<le> sint (p_DP (procs t p)) \<longrightarrow> p_SP (procs t p) = p_DP (procs t p)) \<and> cpu_proc (cpus t c) = None"
proof -
  let ?s = "hold (L_proc p) s"
  let ?u = "upd_proc p (\<lambda>q. q\<lparr>p_RTime := 0, p_STime := 0, p_numScheduled := p_numScheduled q + 1, p_state := RUNNING\<rparr>)
    (?s\<lparr>cpus := (cpus ?s)(c := (cpus ?s c)\<lparr>cpu_proc := Some p\<rparr>)\<rparr>)"
  from assms obtain u where u: "sw ?u = Ok () u"
    and r: "release (L_proc p) (upd_proc p (\<lambda>q. q\<lparr>p_SP := word_of_int (clampDP (sint (p_DP q)))\<rparr>)
      (upd_proc p (\<lambda>q. update_dp (q\<lparr>p_RTime := ticks u - ticks s\<rparr>)) u)
      \<lparr>cpus := (cpus u)(c := (cpus u c)\<lparr>cpu_proc := None\<rparr>)\<rparr>) = Ok () t"
    by (auto simp: scheduleProcess_def acquire_free bnd_eq_Ok Let_def)
  have rel: "procs t' = procs u' \<and> cpu_proc (cpus t' i) = cpu_proc (cpus u' i)"
    if "release lk u' = Ok () t'" for lk i and u' t' :: "'a pst_scheme"
    using that by (auto simp: release_def pop_off_def mach_defs Let_def split: if_splits)
  have "sint (p_DP (update_dp q)) \<le> 100" for q by (simp add: update_dp_def Let_def word_sless_alt)
  then have "word_of_int (clampDP (sint (p_DP (update_dp q)))) = p_DP (update_dp q)" if "0 \<le> sint (p_DP (update_dp q))" for q
    using that by (simp add: clampDP_def not_less [symmetric])
  with rel [OF r, of c] show ?thesis by (simp add: clamped_SP)
qed

theorem scheduleProcess_priority_bound_witness:
  "\<exists>t. scheduleProcess (Ok ()) 9 0 three_runnable = Ok () t \<and> p_SP (procs t 9) \<le> 100 \<and> cpu_proc (cpus t 0) = None"
proof -
  have "\<exists>t. scheduleProcess (Ok ()) 9 0 three_runnable = Ok () t"
    by (simp add: scheduleProcess_def three_runnable_def acquire_free Let_def release_def holding_def pop_off_def
        mach_defs upd_proc_def hold_def push_off_def)
  then obtain t where t: "scheduleProcess (Ok ()) 9 0 three_runnable = Ok () t" ..
  with scheduleProcess_priority_bound [OF t] show ?thesis by (simp add: three_runnable_def)
qed

end
