(* ===== verification/SleepWakeup.thy ===== *)
theory SleepWakeup
  imports ProcSched
begin

text \<open>
  One process that waits for a condition (\<open>while(!cond) sleep(chan, lk)\<close>, under the lock
  \<open>lk\<close>) on one hart, and a process on another hart that makes the condition true under the
  same lock and calls \<open>wakeup(chan)\<close>. Each lock operation and each access to the sleeper's slot
  of the process table is one step, in the order of the source, and the two harts' steps
  interleave freely. The sleeper's steps include the checks of \<open>sched\<close>, and the scheduler's visits to its slot:
  after the switch the scheduler releases the process lock, and later it takes the lock again and resumes the
  process if it finds it runnable. What the scheduler does with other slots, and what the other
  harts do, is a step of the environment, which may change anything but the sleeper's slot, the two
  locks and the nesting of interrupts on the two harts. Of the loop in \<open>wakeup\<close> the iteration for the sleeper's
  slot is followed.
\<close>

subsection \<open>Instructions\<close>

text \<open>From the switch on, the sleeper's stack holds the value of \<open>intena\<close> that \<open>sched\<close> restores.\<close>

datatype spc = S_lock | S_test | S_sleep | S_rel | S_chan | S_state | S_check | S_swtch bool | S_asleep bool | S_sched bool
  | S_resume bool | S_wake | S_prel | S_relock | S_leave | S_done | S_panic

datatype wpc = W_lock | W_set | W_plock | W_wake | W_prel | W_rel | W_done | W_panic

text \<open>An operation that spins is tried again; one that panics stops its hart.\<close>

fun attempt :: "(unit, pst) res \<Rightarrow> 'pc \<Rightarrow> 'pc \<Rightarrow> 'pc \<times> pst \<Rightarrow> 'pc \<times> pst" where
  "attempt (Ok u s) pc' panic c = (pc', s)"
| "attempt (Panic e) pc' panic c = (panic, snd c)"
| "attempt Spin pc' panic c = c"
| "attempt Diverge pc' panic c = c"

definition sched_checks :: "nat \<Rightarrow> pst \<Rightarrow> (unit, pst) res" where
  "sched_checks p s =
     (if \<not> holding (L_proc p) s then Panic ''sched p->lock''
      else if noff (mycpu s) \<noteq> 1 then Panic ''sched locks''
      else if p_state (procs s p) = RUNNING then Panic ''sched running''
      else if intr_get s then Panic ''sched interruptible''
      else Ok () s)"

definition set_cpu_proc :: "nat option \<Rightarrow> pst \<Rightarrow> pst" where
  "set_cpu_proc q s = upd_mycpu (\<lambda>c. c\<lparr>cpu_proc := q\<rparr>) s"

fun sleeper_instr :: "nat \<Rightarrow> nat \<Rightarrow> chan \<Rightarrow> lockid \<Rightarrow> bool \<Rightarrow> spc \<times> pst \<Rightarrow> spc \<times> pst" where
  "sleeper_instr h p ch lk cond (pc, s) =
     (let s = s\<lparr>hart := h\<rparr> in case pc of
        S_lock \<Rightarrow> attempt (acquire lk s) S_test S_panic (pc, s)
      | S_test \<Rightarrow> (if cond then S_leave else S_sleep, s)
      | S_sleep \<Rightarrow> attempt (acquire (L_proc p) s) S_rel S_panic (pc, s)
      | S_rel \<Rightarrow> attempt (release lk s) S_chan S_panic (pc, s)
      | S_chan \<Rightarrow> (S_state, upd_proc p (\<lambda>q. q\<lparr>p_chan := ch\<rparr>) s)
      | S_state \<Rightarrow> (S_check, upd_proc p (\<lambda>q. q\<lparr>p_state := SLEEPING\<rparr>) s)
      | S_check \<Rightarrow> attempt (sched_checks p s) (S_swtch (intena (mycpu s))) S_panic (pc, s)
      | S_swtch i \<Rightarrow> attempt (release (L_proc p) (set_cpu_proc None s)) (S_asleep i) S_panic (pc, s)
      | S_asleep i \<Rightarrow> attempt (acquire (L_proc p) s) (S_sched i) S_panic (pc, s)
      | S_sched i \<Rightarrow> if p_state (procs s p) = RUNNABLE
                   then (S_resume i, set_cpu_proc (Some p) (upd_proc p (\<lambda>q. q\<lparr>p_state := RUNNING\<rparr>) s))
                   else attempt (release (L_proc p) s) (S_asleep i) S_panic (pc, s)
      | S_resume i \<Rightarrow> (S_wake, upd_mycpu (\<lambda>c. c\<lparr>intena := i\<rparr>) s)
      | S_wake \<Rightarrow> (S_prel, upd_proc p (\<lambda>q. q\<lparr>p_chan := Ch_null\<rparr>) s)
      | S_prel \<Rightarrow> attempt (release (L_proc p) s) S_relock S_panic (pc, s)
      | S_relock \<Rightarrow> attempt (acquire lk s) S_test S_panic (pc, s)
      | S_leave \<Rightarrow> attempt (release lk s) S_done S_panic (pc, s)
      | S_done \<Rightarrow> (S_done, s)
      | S_panic \<Rightarrow> (S_panic, s))"

fun waker_instr :: "nat \<Rightarrow> nat \<Rightarrow> chan \<Rightarrow> lockid \<Rightarrow> wpc \<times> pst \<Rightarrow> wpc \<times> pst" where
  "waker_instr h p ch lk (pc, s) =
     (let s = s\<lparr>hart := h\<rparr> in case pc of
        W_lock \<Rightarrow> attempt (acquire lk s) W_set W_panic (pc, s)
      | W_set \<Rightarrow> (W_plock, s)
      | W_plock \<Rightarrow> attempt (acquire (L_proc p) s) W_wake W_panic (pc, s)
      | W_wake \<Rightarrow> (W_prel, if p_state (procs s p) = SLEEPING \<and> p_chan (procs s p) = ch
                           then upd_proc p (\<lambda>q. q\<lparr>p_state := RUNNABLE\<rparr>) s else s)
      | W_prel \<Rightarrow> attempt (release (L_proc p) s) W_rel W_panic (pc, s)
      | W_rel \<Rightarrow> attempt (release lk s) W_done W_panic (pc, s)
      | W_done \<Rightarrow> (W_done, s)
      | W_panic \<Rightarrow> (W_panic, s))"

text \<open>The condition is what the waker sets at \<open>W_set\<close>.\<close>

definition cond_set :: "wpc \<Rightarrow> bool" where
  "cond_set pc \<longleftrightarrow> pc \<noteq> W_lock \<and> pc \<noteq> W_set"

definition env_step :: "nat \<Rightarrow> nat \<Rightarrow> nat \<Rightarrow> lockid \<Rightarrow> pst \<Rightarrow> pst \<Rightarrow> bool" where
  "env_step a b p lk s s' \<longleftrightarrow> procs s' p = procs s p \<and> locks s' lk = locks s lk \<and> locks s' (L_proc p) = locks s (L_proc p) \<and>
     (\<forall>h. irq_ok h (cpus s') (sie s')) \<and> noff (cpus s' a) = noff (cpus s a) \<and> noff (cpus s' b) = noff (cpus s b)"

inductive handoff :: "nat \<Rightarrow> nat \<Rightarrow> nat \<Rightarrow> chan \<Rightarrow> lockid \<Rightarrow> spc \<Rightarrow> wpc \<Rightarrow> pst \<Rightarrow> bool" for a b p ch lk where
  start: "lk_free (locks s lk) \<Longrightarrow> lk_free (locks s (L_proc p)) \<Longrightarrow> (\<And>h. irq_ok h (cpus s) (sie s)) \<Longrightarrow>
     noff (cpus s a) = 0 \<Longrightarrow> p_state (procs s p) = RUNNING \<Longrightarrow> handoff a b p ch lk S_lock W_lock s"
| sleeper: "handoff a b p ch lk sp wp s \<Longrightarrow> sleeper_instr a p ch lk (cond_set wp) (sp, s) = (sp', s') \<Longrightarrow>
     handoff a b p ch lk sp' wp s'"
| waker: "handoff a b p ch lk sp wp s \<Longrightarrow> waker_instr b p ch lk (wp, s) = (wp', s') \<Longrightarrow>
     handoff a b p ch lk sp wp' s'"
| other: "handoff a b p ch lk sp wp s \<Longrightarrow> env_step a b p lk s s' \<Longrightarrow> handoff a b p ch lk sp wp s'"

subsection \<open>Lock operations of either hart\<close>

definition unhold :: "lockid \<Rightarrow> 'z mach_scheme \<Rightarrow> 'z mach_scheme" where
  "unhold lk s = (let c = cpus s (hart s); s' = s\<lparr>locks := (locks s)(lk := (locks s lk)\<lparr>lk_cpu := None, lk_locked := 0\<rparr>),
       cpus := (cpus s)(hart s := c\<lparr>noff := noff c - 1\<rparr>)\<rparr>
     in if noff c = 1 \<and> intena c then s'\<lparr>sie := (sie s)(hart s := True)\<rparr> else s')"

lemma unhold_simps [simp]:
  "hart (unhold lk s) = hart s" "procs (unhold lk s) = procs s"
  "locks (unhold lk s) = (locks s)(lk := (locks s lk)\<lparr>lk_cpu := None, lk_locked := 0\<rparr>)"
  "noff (cpus (unhold lk s) i) = noff (cpus s i) - (if i = hart s then 1 else 0)"
  by (simp_all add: unhold_def Let_def)

lemma hold_noff: "noff (cpus (hold lk s) i) = noff (cpus s i) + (if i = hart s then 1 else 0)"
  by (simp add: hold_def noff_push_off Let_def)

lemma irq_ok_hold: "(\<And>i. irq_ok i (cpus s) (sie s)) \<Longrightarrow> irq_ok i (cpus (hold lk s)) (sie (hold lk s))"
  using irq_ok_push_off [of s i] by (simp add: hold_def Let_def)

lemma irq_ok_unhold:
  "(\<And>i. irq_ok i (cpus s) (sie s)) \<Longrightarrow> 1 \<le> noff (cpus s (hart s)) \<Longrightarrow> irq_ok i (cpus (unhold lk s)) (sie (unhold lk s))"
  by (auto simp: unhold_def Let_def irq_ok_def split: if_splits)

lemma release_eq:
  assumes "lk_locked (locks s lk) \<noteq> 0" "lk_cpu (locks s lk) = Some (hart s)"
    "irqs_ok s" "1 \<le> noff (cpus s (hart s))"
  shows "release lk s = Ok () (unhold lk s)"
  using assms by (cases s) (auto simp: release_def holding_def unhold_def pop_off_def mach_defs Let_def irq_ok_def)

lemma acquire_attempt:
  "lk_cpu (locks s lk) \<noteq> Some (hart s) \<or> lk_locked (locks s lk) = 0 \<Longrightarrow>
    attempt (acquire lk s) pc' pn (pc, s) = (if lk_locked (locks s lk) = 0 then (pc', hold lk s) else (pc, s))"
  by (auto simp: acquire_def hold_def holding_def Let_def cpuid_def)

lemma cpu_steps [simp]:
  "hart (set_cpu_proc q s) = hart s" "locks (set_cpu_proc q s) = locks s" "procs (set_cpu_proc q s) = procs s"
  "sie (set_cpu_proc q s) = sie s" "noff (cpus (set_cpu_proc q s) i) = noff (cpus s i)"
  "irq_ok i (cpus (set_cpu_proc q s)) ie = irq_ok i (cpus s) ie"
  by (auto simp: set_cpu_proc_def mach_defs irq_ok_def)

lemma intena_step [simp]:
  "noff (cpus (upd_mycpu (\<lambda>c. c\<lparr>intena := v\<rparr>) s) i) = noff (cpus s i)" "locks (upd_mycpu f s) = locks s"
  "sie (upd_mycpu f s) = sie s" "irq_ok i (cpus (upd_mycpu (\<lambda>c. c\<lparr>intena := v\<rparr>) s)) ie = irq_ok i (cpus s) ie"
  by (auto simp: mach_defs irq_ok_def)

subsection \<open>The invariant\<close>

text \<open>Which of the two locks each program counter holds.\<close>

fun s_lk :: "spc \<Rightarrow> bool" where
  "s_lk S_test = True" | "s_lk S_leave = True" | "s_lk S_sleep = True" | "s_lk S_rel = True" | "s_lk _ = False"

fun s_pl :: "spc \<Rightarrow> bool" where
  "s_pl S_rel = True" | "s_pl S_chan = True" | "s_pl S_state = True" | "s_pl S_check = True" | "s_pl (S_swtch i) = True"
| "s_pl (S_sched i) = True" | "s_pl (S_resume i) = True" | "s_pl S_wake = True" | "s_pl S_prel = True" | "s_pl _ = False"

definition w_lk :: "wpc \<Rightarrow> bool" where
  "w_lk pc \<longleftrightarrow> pc \<in> {W_set, W_plock, W_wake, W_prel, W_rel}"

definition w_pl :: "wpc \<Rightarrow> bool" where
  "w_pl pc \<longleftrightarrow> pc \<in> {W_wake, W_prel}"

definition owner_ok :: "spinlock \<Rightarrow> nat \<Rightarrow> bool \<Rightarrow> nat \<Rightarrow> bool \<Rightarrow> bool" where
  "owner_ok l a x b y \<longleftrightarrow> \<not> (x \<and> y) \<and> (x \<longrightarrow> lk_locked l \<noteq> 0 \<and> lk_cpu l = Some a) \<and>
     (y \<longrightarrow> lk_locked l \<noteq> 0 \<and> lk_cpu l = Some b) \<and> (\<not> x \<and> \<not> y \<longrightarrow> lk_locked l = 0)"

text \<open>The sleeper is between the test and the switch; it has switched away.\<close>

fun going :: "spc \<Rightarrow> bool" where
  "going S_sleep = True" | "going S_rel = True" | "going S_chan = True" | "going S_state = True" | "going S_check = True"
| "going (S_swtch i) = True" | "going _ = False"

fun away :: "spc \<Rightarrow> bool" where
  "away (S_asleep i) = True" | "away (S_sched i) = True" | "away _ = False"

definition sleep_inv :: "chan \<Rightarrow> spc \<Rightarrow> wpc \<Rightarrow> proc \<Rightarrow> bool" where
  "sleep_inv ch sp wp q \<longleftrightarrow> sp \<noteq> S_panic \<and> wp \<noteq> W_panic \<and>
     (sp \<in> {S_sleep, S_rel} \<longrightarrow> wp = W_lock) \<and>
     (going sp \<longrightarrow> wp \<in> {W_lock, W_set, W_plock}) \<and>
     ((going sp \<and> sp \<notin> {S_sleep, S_rel, S_chan} \<or> away sp) \<longrightarrow> p_chan q = ch) \<and>
     ((going sp \<and> sp \<notin> {S_sleep, S_rel, S_chan, S_state} \<or> away sp) \<longrightarrow> p_state q \<in> {SLEEPING, RUNNABLE}) \<and>
     (away sp \<and> wp \<in> {W_prel, W_rel, W_done} \<longrightarrow> p_state q = RUNNABLE)"

definition handoff_inv :: "nat \<Rightarrow> nat \<Rightarrow> nat \<Rightarrow> chan \<Rightarrow> lockid \<Rightarrow> spc \<Rightarrow> wpc \<Rightarrow> pst \<Rightarrow> bool" where
  "handoff_inv a b p ch lk sp wp s \<longleftrightarrow>
     owner_ok (locks s lk) a (s_lk sp) b (w_lk wp) \<and> owner_ok (locks s (L_proc p)) a (s_pl sp) b (w_pl wp) \<and>
     (\<forall>i. irq_ok i (cpus s) (sie s)) \<and>
     noff (cpus s a) = of_bool (s_lk sp) + of_bool (s_pl sp) \<and>
     of_bool (w_lk wp) + of_bool (w_pl wp) \<le> noff (cpus s b) \<and>
     sleep_inv ch sp wp (procs s p)"

lemmas pc_sets = w_lk_def w_pl_def

lemma set_hart [simp]:
  "irq_ok i (cpus (s\<lparr>hart := h\<rparr>)) (sie (s\<lparr>hart := h\<rparr>)) = irq_ok i (cpus s) (sie s)"
  by simp

lemma sched_checks_ok:
  assumes "holding (L_proc p) s" "noff (cpus s (hart s)) = 1" "p_state (procs s p) \<noteq> RUNNING" "irqs_ok s"
  shows "sched_checks p s = Ok () s"
  using assms by (auto simp: sched_checks_def mach_defs irq_ok_def)

lemma handoff_sleeper:
  assumes "handoff_inv a b p ch lk sp wp s" "a \<noteq> b" "lk \<noteq> L_proc p"
  shows "case sleeper_instr a p ch lk (cond_set wp) (sp, s) of (sp', s') \<Rightarrow> handoff_inv a b p ch lk sp' wp s'"
proof -
  let ?s = "s\<lparr>hart := a\<rparr>"
  from assms(1) have irq: "\<And>i. irq_ok i (cpus ?s) (sie ?s)"
    and ol: "owner_ok (locks s lk) a (s_lk sp) b (w_lk wp)" and op: "owner_ok (locks s (L_proc p)) a (s_pl sp) b (w_pl wp)"
    and na: "noff (cpus s a) = of_bool (s_lk sp) + of_bool (s_pl sp)"
    and nb: "of_bool (w_lk wp) + of_bool (w_pl wp) \<le> noff (cpus s b)"
    and si: "sleep_inv ch sp wp (procs s p)"
    by (simp_all add: handoff_inv_def)
  have irq': "\<And>i l. irq_ok i (cpus (hold l ?s)) (sie (hold l ?s))" by (rule irq_ok_hold [OF irq])
  have irq'': "\<And>i l. 1 \<le> noff (cpus s a) \<Longrightarrow> irq_ok i (cpus (unhold l ?s)) (sie (unhold l ?s))"
    by (rule irq_ok_unhold [OF irq]) simp
  have irq3: "\<And>i l. 1 \<le> noff (cpus s a) \<Longrightarrow> irq_ok i (cpus (unhold l (set_cpu_proc q ?s))) (sie (unhold l (set_cpu_proc q ?s)))" for q
    using irq by (intro irq_ok_unhold) simp_all
  have irqs: "irqs_ok ?s" by (rule irq)
  have rel: "release l ?s = Ok () (unhold l ?s)" if "lk_locked (locks s l) \<noteq> 0" "lk_cpu (locks s l) = Some a" "1 \<le> noff (cpus s a)" for l
    using that irqs by (intro release_eq) simp_all
  have rel': "release l (set_cpu_proc q ?s) = Ok () (unhold l (set_cpu_proc q ?s))"
    if "lk_locked (locks s l) \<noteq> 0" "lk_cpu (locks s l) = Some a" "1 \<le> noff (cpus s a)" for l q
    using that irqs by (intro release_eq) simp_all
  have nn: "noff (cpus (hold l ?s) i) = noff (cpus s i) + (if i = a then 1 else 0)" for l i
    by (simp add: hold_noff)
  have sc: "sched_checks p ?s = Ok () ?s" if "sp = S_check"
    using that op na si irqs by (intro sched_checks_ok) (auto simp: holding_def cpuid_def owner_ok_def sleep_inv_def)
  note simps = acquire_attempt rel rel' sc nn owner_ok_def pc_sets sleep_inv_def cond_set_def Let_def
  show ?thesis using assms(2,3) ol op na nb si irq irq' irq'' irq3
    by (cases sp; cases wp; simp_all add: simps del: hold_simps(2);
        simp_all add: simps handoff_inv_def del: hold_simps(2)) blast+
qed

lemma handoff_waker:
  assumes "handoff_inv a b p ch lk sp wp s" "a \<noteq> b" "lk \<noteq> L_proc p"
  shows "case waker_instr b p ch lk (wp, s) of (wp', s') \<Rightarrow> handoff_inv a b p ch lk sp wp' s'"
proof -
  let ?s = "s\<lparr>hart := b\<rparr>"
  from assms(1) have irq: "\<And>i. irq_ok i (cpus ?s) (sie ?s)"
    and ol: "owner_ok (locks s lk) a (s_lk sp) b (w_lk wp)" and op: "owner_ok (locks s (L_proc p)) a (s_pl sp) b (w_pl wp)"
    and na: "noff (cpus s a) = of_bool (s_lk sp) + of_bool (s_pl sp)"
    and nb: "of_bool (w_lk wp) + of_bool (w_pl wp) \<le> noff (cpus s b)"
    and si: "sleep_inv ch sp wp (procs s p)"
    by (simp_all add: handoff_inv_def)
  have irq': "\<And>i l. irq_ok i (cpus (hold l ?s)) (sie (hold l ?s))" by (rule irq_ok_hold [OF irq])
  have irq'': "\<And>i l. 1 \<le> noff (cpus s b) \<Longrightarrow> irq_ok i (cpus (unhold l ?s)) (sie (unhold l ?s))"
    by (rule irq_ok_unhold [OF irq]) simp
  have irqs: "irqs_ok ?s" by (rule irq)
  have rel: "release l ?s = Ok () (unhold l ?s)" if "lk_locked (locks s l) \<noteq> 0" "lk_cpu (locks s l) = Some b" "1 \<le> noff (cpus s b)" for l
    using that irqs by (intro release_eq) simp_all
  have nn: "noff (cpus (hold l ?s) i) = noff (cpus s i) + (if i = b then 1 else 0)" for l i
    by (simp add: hold_noff)
  note simps = acquire_attempt rel nn owner_ok_def pc_sets sleep_inv_def cond_set_def Let_def
  show ?thesis using assms(2,3) ol op na nb si irq irq' irq''
    by (cases wp; cases sp; simp_all add: simps del: hold_simps(2);
        simp_all add: simps handoff_inv_def del: hold_simps(2)) blast+
qed

declare sleeper_instr.simps [simp del] waker_instr.simps [simp del]

lemma handoff_invariant:
  assumes "handoff a b p ch lk sp wp s" "a \<noteq> b" "lk \<noteq> L_proc p"
  shows "handoff_inv a b p ch lk sp wp s"
  using assms
proof (induction rule: handoff.induct)
  case (start s)
  then show ?case
    by (auto simp: handoff_inv_def owner_ok_def pc_sets lk_free_def sleep_inv_def) (simp_all add: irq_ok_def)
next
  case (sleeper sp wp s sp' s')
  with handoff_sleeper [of a b p ch lk sp wp s] show ?case by simp
next
  case (waker sp wp s wp' s')
  with handoff_waker [of a b p ch lk sp wp s] show ?case by simp
next
  case (other sp wp s s')
  then show ?case by (simp add: handoff_inv_def env_step_def)
qed

text \<open>
  C2: No wakeup is lost. In every interleaving of a process that sleeps until a condition holds
  with a process that makes it true and calls \<open>wakeup\<close>, and with whatever else the machine does, neither of
  the two panics (in particular not in the checks of \<open>sched\<close>), and once the waker has passed the
  sleeper's slot the sleeper is not left asleep: it is not on its way to the switch, and if it has switched away, its state is
  \<open>RUNNABLE\<close>.
\<close>

theorem no_lost_wakeup:
  assumes "handoff a b p ch lk sp wp s" "a \<noteq> b" "lk \<noteq> L_proc p"
  shows "sp \<noteq> S_panic \<and> wp \<noteq> W_panic \<and>
    (wp \<in> {W_prel, W_rel, W_done} \<longrightarrow> \<not> going sp \<and> (away sp \<longrightarrow> p_state (procs s p) = RUNNABLE))"
  using handoff_invariant [OF assms] by (auto simp: handoff_inv_def sleep_inv_def)

subsection \<open>An interleaving\<close>

text \<open>The process in slot 3 goes to sleep, then the waker runs to its end.\<close>

definition sleeper_start :: pst where
  "sleeper_start = boot_pst\<lparr>procs := (\<lambda>_. blank_proc\<lparr>p_state := RUNNING\<rparr>)\<rparr>"

lemma handoff_sleepers:
  "handoff a b p ch lk sp wp s \<Longrightarrow>
    case (sleeper_instr a p ch lk (cond_set wp) ^^ n) (sp, s) of (sp', s') \<Rightarrow> handoff a b p ch lk sp' wp s'"
  by (induction n) (auto split: prod.splits intro: handoff.sleeper)

lemma handoff_wakers:
  "handoff a b p ch lk sp wp s \<Longrightarrow>
    case (waker_instr b p ch lk ^^ n) (wp, s) of (wp', s') \<Rightarrow> handoff a b p ch lk sp wp' s'"
  by (induction n) (auto split: prod.splits intro: handoff.waker)

lemma sample_handoff: "\<exists>s i. handoff 0 1 3 Ch_ticks L_ticks (S_asleep i) W_done s"
proof -
  let ?c = "(sleeper_instr 0 3 Ch_ticks L_ticks False ^^ 8) (S_lock, sleeper_start)"
  have "handoff 0 1 3 Ch_ticks L_ticks S_lock W_lock sleeper_start"
    by (rule handoff.start) (auto simp: sleeper_start_def irq_ok_def boot_pst_def boot_kst_def boot_mach_def
        mach.defs kst.defs vst.defs pst.defs)
  from handoff_sleepers [OF this, of 8] have h: "case ?c of (sp', s') \<Rightarrow> handoff 0 1 3 Ch_ticks L_ticks sp' W_lock s'"
    by (simp add: cond_set_def)
  have c: "\<exists>s i. ?c = (S_asleep i, s) \<and> fst ((waker_instr 1 3 Ch_ticks L_ticks ^^ 7) (W_lock, s)) = W_done"
    by (simp add: sleeper_start_def eval_nat_numeral sleeper_instr.simps waker_instr.simps acquire_def release_def
        holding_def pop_off_def push_off_def mach_defs Let_def upd_proc_def sched_checks_def set_cpu_proc_def) blast
  then obtain s i where s: "?c = (S_asleep i, s)" "fst ((waker_instr 1 3 Ch_ticks L_ticks ^^ 7) (W_lock, s)) = W_done"
    by blast
  from h s(1) have "handoff 0 1 3 Ch_ticks L_ticks (S_asleep i) W_lock s" by simp
  from handoff_wakers [OF this, of 7] s(2) show ?thesis by (auto split: prod.splits)
qed

theorem no_lost_wakeup_witness:
  "\<exists>s i. handoff 0 1 3 Ch_ticks L_ticks (S_asleep i) W_done s \<and> p_state (procs s 3) = RUNNABLE"
proof -
  from sample_handoff obtain s i where s: "handoff 0 1 3 Ch_ticks L_ticks (S_asleep i) W_done s" by blast
  from no_lost_wakeup [OF s] s show ?thesis by auto
qed

end
