(* ===== verification/RoundRobin.thy ===== *)
theory RoundRobin
  imports SleepWakeup
begin

text \<open>
  The round-robin scheduler of \<open>kernel/proc.c\<close>: one pass over the process table. The state carries the list of the
  processes that got the hart, in order.
\<close>

record rrst = pst +
  ran :: "nat list"

text \<open>The scheduler between two visits holds no process lock; while a process runs, it holds the lock of that process.\<close>

definition idle :: "'z pst_scheme \<Rightarrow> bool" where
  "idle s \<longleftrightarrow> (\<forall>p<NPROC. lk_free (locks s (L_proc p))) \<and> irqs_ok s \<and> noff (cpus s (hart s)) = 0"

definition on_cpu :: "nat \<Rightarrow> 'z pst_scheme \<Rightarrow> bool" where
  "on_cpu p s \<longleftrightarrow> lk_locked (locks s (L_proc p)) \<noteq> 0 \<and> lk_cpu (locks s (L_proc p)) = Some (hart s) \<and>
     (\<forall>q<NPROC. q \<noteq> p \<longrightarrow> lk_free (locks s (L_proc q))) \<and> irqs_ok s \<and> noff (cpus s (hart s)) = 1"

text \<open>
  What the scheduler relies on when it switches to a process: the process comes back, holding its lock
  and no other process lock, and it has not taken the hart from a process that was ready to run.
\<close>

definition comes_back :: "('z rrst_scheme \<Rightarrow> (unit, 'z rrst_scheme) res) \<Rightarrow> bool" where
  "comes_back sw \<longleftrightarrow> (\<forall>p s. p < NPROC \<and> on_cpu p s \<and> cpu_proc (cpus s (hart s)) = Some p \<longrightarrow>
     (\<exists>t. sw s = Ok () t \<and> on_cpu p t \<and> hart t = hart s \<and> ran t = ran s @ [p] \<and>
       (\<forall>q<NPROC. q \<noteq> p \<and> p_state (procs s q) = RUNNABLE \<longrightarrow> p_state (procs t q) = RUNNABLE)))"

lemma hold_on_cpu: "idle s \<Longrightarrow> on_cpu p (hold (L_proc p) s)"
  by (simp add: idle_def on_cpu_def hold_noff)

lemma on_cpu_frame:
  "on_cpu p (upd_proc q f s) = on_cpu p s" "on_cpu p (s\<lparr>cpus := (cpus s)(i := (cpus s i)\<lparr>cpu_proc := v\<rparr>)\<rparr>) = on_cpu p s"
  by (simp_all add: on_cpu_def irq_ok_def)

lemma release_on_cpu:
  assumes "on_cpu p s"
  shows "release (L_proc p) s = Ok () (unhold (L_proc p) s)" "idle (unhold (L_proc p) s)"
proof -
  show "release (L_proc p) s = Ok () (unhold (L_proc p) s)"
    using assms by (intro release_eq) (simp_all add: on_cpu_def)
  show "idle (unhold (L_proc p) s)"
    using assms by (auto simp: on_cpu_def idle_def lk_free_def irq_ok_def)
qed

lemma unhold_ran [simp]: "ran (unhold lk s) = ran s"
  by (simp add: unhold_def Let_def)

lemma hold_ran [simp]: "ran (hold lk s) = ran s"
  by (simp add: hold_def push_off_def mach_defs Let_def)

lemma upd_proc_ran [simp]: "ran (upd_proc p f s) = ran s"
  by (simp add: upd_proc_def)

lemma rr_visit_step:
  assumes s: "idle s" and sw: "comes_back sw" and p: "p < NPROC"
  shows "\<exists>t. rr_visit sw (hart s) p s = Ok () t \<and> idle t \<and> hart t = hart s \<and>
    ran t = (if p_state (procs s p) = RUNNABLE then ran s @ [p] else ran s) \<and>
    (\<forall>q<NPROC. q \<noteq> p \<and> p_state (procs s q) = RUNNABLE \<longrightarrow> p_state (procs t q) = RUNNABLE)"
proof -
  let ?s = "hold (L_proc p) s"
  have a: "acquire (L_proc p) s = Ok () ?s" using s p by (simp add: idle_def acquire_free)
  show ?thesis
  proof (cases "p_state (procs s p) = RUNNABLE")
    case False
    then show ?thesis using release_on_cpu [OF hold_on_cpu [OF s]] a by (simp add: rr_visit_def)
  next
    case True
    let ?u = "upd_proc p (\<lambda>q. q\<lparr>p_state := RUNNING\<rparr>) ?s"
    let ?v = "?u\<lparr>cpus := (cpus ?u)(hart s := (cpus ?u (hart s))\<lparr>cpu_proc := Some p\<rparr>)\<rparr>"
    have "on_cpu p ?v" unfolding on_cpu_frame by (rule hold_on_cpu [OF s])
    moreover have "cpu_proc (cpus ?v (hart ?v)) = Some p" by simp
    ultimately obtain w where w: "sw ?v = Ok () w" "on_cpu p w" "hart w = hart ?v" "ran w = ran ?v @ [p]"
      "\<forall>q<NPROC. q \<noteq> p \<and> p_state (procs ?v q) = RUNNABLE \<longrightarrow> p_state (procs w q) = RUNNABLE"
      using sw p unfolding comes_back_def by blast
    let ?w = "w\<lparr>cpus := (cpus w)(hart s := (cpus w (hart s))\<lparr>cpu_proc := None\<rparr>)\<rparr>"
    have "on_cpu p ?w" using w(2) by (simp add: on_cpu_frame)
    from release_on_cpu [OF this] show ?thesis using a True w by (simp add: rr_visit_def Let_def)
  qed
qed

text \<open>
  C3: One pass of the round-robin scheduler starves nobody. If every process it switches to comes back, and none of
  them makes a process unready that was ready to run, the pass over the table ends with the process locks released; the processes that
  got the hart are in the order of the table, each once; and every process that was runnable at the start is among
  them.
\<close>

theorem round_robin_runs_all:
  assumes "idle s" "ran s = []" "comes_back sw"
  shows "\<exists>t. scheduler_rr sw s = Ok () t \<and> idle t \<and> sorted_wrt (<) (ran t) \<and> set (ran t) \<subseteq> {..<NPROC} \<and>
    (\<forall>p<NPROC. p_state (procs s p) = RUNNABLE \<longrightarrow> p \<in> set (ran t))"
proof -
  let ?c = "hart s" and ?s = "intr_on (s\<lparr>cpus := (cpus s)(hart s := (cpus s (hart s))\<lparr>cpu_proc := None\<rparr>)\<rparr>)"
  let ?I = "\<lambda>xs t. idle t \<and> hart t = ?c \<and> sorted_wrt (<) (ran t) \<and> set (ran t) \<subseteq> set xs \<and>
    (\<forall>p<NPROC. p_state (procs s p) = RUNNABLE \<longrightarrow> (if p \<in> set xs then p \<in> set (ran t) else p_state (procs t p) = RUNNABLE))"
  have "\<exists>t. for_each (rr_visit sw ?c) [0..<NPROC] ?s = Ok () t \<and> ?I [0..<NPROC] t"
  proof (rule for_each_inv)
    show "?I [] ?s" using assms(1,2) by (simp add: idle_def irq_ok_def intr_on_def)
    fix xs p ys and t :: "'a rrst_scheme" assume xs: "[0..<NPROC] = xs @ p # ys" and t: "?I xs t"
    have n: "length xs < NPROC" using arg_cong [OF xs, of length] by simp
    have "[0..<NPROC] ! length xs = p" "take (length xs) [0..<NPROC] = xs" by (simp_all add: xs)
    then have xs': "xs = [0..<p]" "p < NPROC" using n by (simp_all add: take_upt)
    from t xs'(2) rr_visit_step [OF _ assms(3), of t p] obtain u where u: "rr_visit sw ?c p t = Ok () u" "idle u" "hart u = ?c"
      "ran u = (if p_state (procs t p) = RUNNABLE then ran t @ [p] else ran t)"
      "\<forall>q<NPROC. q \<noteq> p \<and> p_state (procs t q) = RUNNABLE \<longrightarrow> p_state (procs u q) = RUNNABLE" by auto
    have "?I (xs @ [p]) u" using t u xs' by (auto simp: sorted_wrt_append)
    then show "\<exists>u. rr_visit sw ?c p t = Ok () u \<and> ?I (xs @ [p]) u" using u(1) by blast
  qed
  then obtain t where t: "for_each (rr_visit sw ?c) [0..<NPROC] ?s = Ok () t" "?I [0..<NPROC] t" by blast
  then show ?thesis by (intro exI [of _ t]) (auto simp: scheduler_rr_def cpuid_def Let_def)
qed

text \<open>Processes that yield at once.\<close>

definition yielding :: "rrst \<Rightarrow> (unit, rrst) res" where
  "yielding s = (case cpu_proc (cpus s (hart s)) of
     None \<Rightarrow> Ok () s
   | Some p \<Rightarrow> Ok () ((upd_proc p (\<lambda>q. q\<lparr>p_state := RUNNABLE\<rparr>) s)\<lparr>ran := ran s @ [p]\<rparr>))"

lemma yielding_comes_back: "comes_back yielding"
  by (auto simp: comes_back_def yielding_def on_cpu_def)

theorem round_robin_runs_all_witness:
  "\<exists>t. scheduler_rr yielding (pst.extend three_runnable (rrst.fields [])) = Ok () t \<and> {2, 5, 9} \<subseteq> set (ran t) \<and> distinct (ran t)"
proof -
  let ?s = "pst.extend three_runnable (rrst.fields [])"
  have "idle ?s" "ran ?s = []" by (simp_all add: idle_def three_runnable_def boot_pst_def boot_kst_def boot_mach_def
      mach.defs kst.defs vst.defs pst.defs rrst.defs irq_ok_def)
  moreover have "\<forall>p\<in>{2, 5, 9}. p < NPROC \<and> p_state (procs ?s p) = RUNNABLE"
    by (simp add: NPROC_def three_runnable_def pst.defs)
  ultimately obtain t where "scheduler_rr yielding ?s = Ok () t" "{2, 5, 9} \<subseteq> set (ran t)" "sorted_wrt (<) (ran t)"
    using round_robin_runs_all [OF _ _ yielding_comes_back, of ?s] by blast
  then show ?thesis by (auto simp: strict_sorted_iff)
qed

end
