(* ===== verification/VmFrame.thy ===== *)
theory VmFrame
  imports Vm
begin

text \<open>
  The memory-management operations leave everything beyond the allocator's own state alone: the
  later components of the kernel's state (\<open>kst.more\<close>) and the executing hart.
\<close>

lemma acquire_Ok_iff: "acquire lk s = Ok u t \<longleftrightarrow> lk_locked (locks s lk) = 0 \<and> t = hold lk s"
  by (auto simp: acquire_def hold_def holding_def Let_def cpuid_def)

definition outside :: "'z kst_scheme \<Rightarrow> nat \<times> (nat \<Rightarrow> nat option) \<times> 'z" where
  "outside s = (hart s, (\<lambda>i. cpu_proc (cpus s i)), kst.more s)"

lemma outside_simps [simp]:
  "outside (s\<lparr>mem := m\<rparr>) = outside s" "outside (s\<lparr>freelist := f\<rparr>) = outside s" "outside (s\<lparr>cowrefs := c\<rparr>) = outside s"
  "outside (s\<lparr>locks := l\<rparr>) = outside s" "outside (hold lk s) = outside s" "outside (touch s) = outside s"
  by (simp_all add: outside_def) (simp_all add: hold_def touch_def push_off_def mach_defs Let_def)

lemma acquire_outside: "acquire lk s = Ok u t \<Longrightarrow> outside t = outside s"
  by (auto simp: acquire_Ok_iff)

lemma pop_off_outside: "pop_off s = Ok u t \<Longrightarrow> outside t = outside s"
  by (auto simp: pop_off_def mach_defs Let_def outside_def split: if_splits)

lemma release_outside: "release lk s = Ok u t \<Longrightarrow> outside t = outside s"
  by (auto simp: release_def split: if_splits dest: pop_off_outside)

lemma kfree_outside: "kfree pa s = Ok u t \<Longrightarrow> outside t = outside s"
  by (auto simp: kfree_def Let_def bnd_eq_Ok split: if_splits dest!: acquire_outside release_outside)

lemma kalloc_outside: "kalloc s = Ok r t \<Longrightarrow> outside t = outside s"
  by (auto simp: kalloc_def Let_def bnd_eq_Ok split: if_splits dest!: acquire_outside release_outside)

lemma walk_levels_outside: "walk_levels n pt va al s = Ok r t \<Longrightarrow> outside t = outside s"
  by (induction n arbitrary: pt s) (auto simp: Let_def bnd_eq_Ok split: if_splits dest!: kalloc_outside)

lemma walk_outside: "walk pt va al s = Ok r t \<Longrightarrow> outside t = outside s"
  by (auto simp: walk_def split: if_splits dest: walk_levels_outside)

lemma walkaddr_outside: "walkaddr pt va s = Ok r t \<Longrightarrow> outside t = outside s"
  by (auto simp: walkaddr_def bnd_eq_Ok split: if_splits dest: walk_outside)

lemma mappages_loop_outside: "mappages_loop a l pa perm pt s = Ok r t \<Longrightarrow> outside t = outside s"
proof (induction a l pa perm pt s rule: mappages_loop.induct)
  case (1 a l pa perm pt s)
  from "1.prems" obtain pte u where w: "walk pt a True s = Ok pte u" by (auto simp: mappages_loop.simps [of a] bnd_eq_Ok)
  with "1.prems" "1.IH" [OF w] show ?case
    by (auto simp: mappages_loop.simps [of a] Let_def walk_outside split: if_splits)
qed

lemma mappages_outside: "mappages pt va sz pa perm s = Ok r t \<Longrightarrow> outside t = outside s"
  by (auto simp: mappages_def split: if_splits dest: mappages_loop_outside)

lemma uvmunmap_loop_outside: "uvmunmap_loop a b df pt s = Ok r t \<Longrightarrow> outside t = outside s"
proof (induction a b df pt s rule: uvmunmap_loop.induct)
  case (1 a b df pt s)
  then show ?case
  proof (cases "a < b")
    case True
    with "1.prems" obtain pte u where w: "walk pt a False s = Ok pte u"
      and c: "pte \<noteq> 0" "load64 (mem u) pte AND PTE_V \<noteq> 0" "PTE_FLAGS (load64 (mem u) pte) \<noteq> PTE_V"
      by (auto simp: uvmunmap_loop.simps [of a] bnd_eq_Ok split: if_splits)
    with True "1.prems" obtain v where v: "(if df then kfree (PTE2PA (load64 (mem u) pte)) u else Ok () u) = Ok () v"
      and l: "uvmunmap_loop (a + PGSIZE) b df pt (v\<lparr>mem := store64 (mem v) pte 0\<rparr>) = Ok r t"
      by (auto simp: uvmunmap_loop.simps [of a] bnd_eq_Ok)
    from "1.IH" [OF True w c v l] v walk_outside [OF w] show ?thesis
      by (auto split: if_splits dest: kfree_outside)
  qed (simp add: uvmunmap_loop.simps)
qed

lemma uvmunmap_outside: "uvmunmap pt va n df s = Ok r t \<Longrightarrow> outside t = outside s"
  by (auto simp: uvmunmap_def split: if_splits dest: uvmunmap_loop_outside)

lemma for_each_rel:
  assumes "\<And>x s t. f x s = Ok () t \<Longrightarrow> g t = g s" "for_each f xs s = Ok () t"
  shows "g t = g s"
  using assms(2) by (induction xs arbitrary: s) (auto simp: bnd_eq_Ok dest: assms(1))

lemma freewalk_outside: "freewalk n pt s = Ok u t \<Longrightarrow> outside t = outside s"
proof (induction n arbitrary: pt s t u)
  case (Suc n)
  then obtain v where "for_each (\<lambda>i s.
            let pte = load64 (mem s) (pt + 8 * of_nat i)
            in if pte AND PTE_V \<noteq> 0 \<and> pte AND (PTE_R OR PTE_W OR PTE_X) = 0
               then bnd (freewalk n (PTE2PA pte) s) (\<lambda>_ s.
                    Ok () (s\<lparr>mem := store64 (mem s) (pt + 8 * of_nat i) 0\<rparr>))
               else if pte AND PTE_V \<noteq> 0 then Panic ''freewalk: leaf''
               else Ok () s) [0..<512] s = Ok () v" and k: "kfree pt v = Ok u t"
    by (auto simp: bnd_eq_Ok)
  from this(1) have "outside v = outside s"
    by (rule for_each_rel [rotated, where g = outside]) (auto simp: bnd_eq_Ok Let_def split: if_splits dest: Suc.IH)
  with k show ?case by (auto dest: kfree_outside)
qed simp

lemma uvmfree_outside: "uvmfree pt sz s = Ok u t \<Longrightarrow> outside t = outside s"
  by (auto simp: uvmfree_def bnd_eq_Ok split: if_splits dest!: uvmunmap_outside freewalk_outside)

lemma uvmcreate_outside: "uvmcreate s = Ok r t \<Longrightarrow> outside t = outside s"
  by (auto simp: uvmcreate_def bnd_eq_Ok split: if_splits dest: kalloc_outside)

lemma uvmdealloc_outside: "uvmdealloc pt a b s = Ok r t \<Longrightarrow> outside t = outside s"
  by (auto simp: uvmdealloc_def bnd_eq_Ok Let_def split: if_splits dest: uvmunmap_outside)

lemma cowmappage_outside: "cowmappage pt va sz pa perm s = Ok r t \<Longrightarrow> outside t = outside s"
  by (auto simp: cowmappage_def Let_def bnd_eq_Ok split: if_splits
      dest!: acquire_outside release_outside mappages_outside)

lemma dup_pg_outside: "dup_pg pt va s = Ok r t \<Longrightarrow> outside t = outside s"
  by (auto simp: dup_pg_def Let_def bnd_eq_Ok split: if_splits dest!: walk_outside kalloc_outside kfree_outside)

lemma copyout_outside: "copyout pt va src s = Ok r t \<Longrightarrow> outside t = outside s"
proof (induction pt va src s rule: copyout.induct)
  case (1 pt va src s)
  show ?case
  proof (cases "src = []")
    case False
    let ?v = "PGROUNDDOWN va"
    from False "1.prems" obtain x u where d: "dup_pg pt ?v s = Ok x u" by (auto simp: copyout.simps [of pt va src s] Let_def bnd_eq_Ok)
    note du = dup_pg_outside [OF d]
    show ?thesis
    proof (cases "x < 0")
      case F: False
      with False d "1.prems" obtain y v where w: "walkaddr pt ?v u = Ok y v"
        by (auto simp: copyout.simps [of pt va src s] Let_def bnd_eq_Ok)
      note wu = walkaddr_outside [OF w]
      from "1.IH" [OF False refl d F w _ refl refl] "1.prems" False F d w du wu show ?thesis
        by (cases "y = 0") (auto simp: copyout.simps [of pt va src s] Let_def)
    qed (use False d du "1.prems" in \<open>auto simp: copyout.simps [of pt va src s] Let_def\<close>)
  qed (use "1.prems" in \<open>simp add: copyout.simps\<close>)
qed

lemma copyin_outside: "copyin pt va n s = Ok r t \<Longrightarrow> outside t = outside s"
proof (induction pt va n s arbitrary: r rule: copyin.induct)
  case (1 pt va n s)
  show ?case
  proof (cases "n = 0")
    case False
    let ?v = "PGROUNDDOWN va"
    from False "1.prems" obtain y v where w: "walkaddr pt ?v s = Ok y v"
      by (auto simp: copyin.simps [of pt va n s] Let_def bnd_eq_Ok)
    note wu = walkaddr_outside [OF w]
    from "1.IH" [OF False refl w _ refl refl] "1.prems" False w wu show ?thesis
      by (cases "y = 0") (auto simp: copyin.simps [of pt va n s] Let_def bnd_eq_Ok)
  qed (use "1.prems" in \<open>simp add: copyin.simps\<close>)
qed

end
