(* ===== verification/ProcSleep.thy ===== *)
theory ProcSleep
  imports ProcSched VmFrame
begin

text \<open>
  What \<open>wakeup\<close>, \<open>kill\<close>, \<open>wait\<close> and the accounting of \<open>kernel/proc.c\<close> do to the process
  table, and the interleaving of \<open>sleep\<close> with \<open>wakeup\<close>: no wakeup is lost.
\<close>

subsection \<open>The current process\<close>

lemma myproc_eq: "irqs_ok s \<Longrightarrow> myproc s = Ok (cpu_proc (cpus s (hart s))) (touch s)"
  by (cases s) (auto simp: myproc_def touch_def irq_ok_def pop_off_def push_off_def mach_defs Let_def fun_eq_iff)

lemma curproc_eq:
  "irqs_ok s \<Longrightarrow> cpu_proc (cpus s (hart s)) = Some p \<Longrightarrow> curproc s = Ok p (touch s)"
  by (simp add: curproc_def myproc_eq)

subsection \<open>Loops over the process table\<close>

text \<open>
  A loop whose body locks one slot, changes that slot and unlocks it is a fold of the changes.
\<close>

lemma for_each_touch:
  assumes "\<And>x s. x \<in> set xs \<Longrightarrow> P s \<Longrightarrow> f x s = Ok () (touch (g x s)) \<and> P (touch (g x s))"
    and "\<And>x s. g x (touch s) = touch (g x s)" "P s" "xs \<noteq> []"
  shows "for_each f xs s = Ok () (touch (fold g xs s))"
proof -
  have ft: "fold g ys (touch u) = touch (fold g ys u)" for ys u
    by (induction ys arbitrary: u) (simp_all add: assms(2))
  have "P s \<Longrightarrow> for_each f xs s = Ok () (if xs = [] then s else touch (fold g xs s))"
    using assms(1) by (induction xs arbitrary: s) (auto simp: ft)
  then show ?thesis using assms(3,4) by simp
qed

definition slots_free :: "'z pst_scheme \<Rightarrow> bool" where
  "slots_free s \<longleftrightarrow> irqs_ok s \<and> (\<forall>p<NPROC. lk_free (locks s (L_proc p)))"

lemma slots_free_touch [simp]: "slots_free (touch s) = slots_free s"
  by (simp add: slots_free_def)

lemma slots_free_upd [simp]: "slots_free (upd_proc p f s) = slots_free s"
  by (simp add: slots_free_def)

lemma slots_free_irqs: "slots_free s \<Longrightarrow> irqs_ok s"
  by (simp add: slots_free_def)

lemma visit_slot:
  assumes "slots_free s" "p < NPROC"
  shows "bnd (acquire (L_proc p) s) (\<lambda>_ s. release (L_proc p) (upd_proc p h s)) = Ok () (touch (upd_proc p h s))"
  using assms by (simp add: slots_free_def acquire_free lock_simps release_hold)

lemma fold_upd_procs:
  "procs (fold (\<lambda>p s. upd_proc p (h p) s) ps s) =
    (\<lambda>q. if q \<in> set ps then (h q ^^ count_list ps q) (procs s q) else procs s q)"
  by (induction ps arbitrary: s) (auto simp: fun_eq_iff funpow_swap1)

lemma fold_upd_frame:
  "locks (fold (\<lambda>p s. upd_proc p (h p) s) ps s) = locks s" "mem (fold (\<lambda>p s. upd_proc p (h p) s) ps s) = mem s"
  by (induction ps arbitrary: s) simp_all

lemma count_upt: "n < m \<Longrightarrow> count_list [0..<m] n = 1"
  by (induction m) (auto simp: less_Suc_eq count_notin)

lemma fold_upd_eq: "fold (\<lambda>p s. upd_proc p (h p) s) ps s = s\<lparr>procs := procs (fold (\<lambda>p s. upd_proc p (h p) s) ps s)\<rparr>"
proof (induction ps arbitrary: s)
  case (Cons p ps)
  from Cons [of "upd_proc p (h p) s"] show ?case by (simp add: upd_proc_def)
qed simp

lemma table_loop_eq:
  assumes "slots_free s" and f: "\<And>p s. p < NPROC \<Longrightarrow> slots_free s \<Longrightarrow> P s \<Longrightarrow> f p s = Ok () (touch (upd_proc p (h p) s))"
    and P: "\<And>p s. P s \<Longrightarrow> P (touch (upd_proc p (h p) s))" "P s"
  shows "for_each f [0..<NPROC] s =
    Ok () (touch (s\<lparr>procs := (\<lambda>p. if p < NPROC then h p (procs s p) else procs s p)\<rparr>))"
proof -
  have "for_each f [0..<NPROC] s = Ok () (touch (fold (\<lambda>p s. upd_proc p (h p) s) [0..<NPROC] s))"
    using assms by (intro for_each_touch [where P = "\<lambda>s. slots_free s \<and> P s"]) (auto simp: lock_simps NPROC_def)
  moreover have "procs (fold (\<lambda>p s. upd_proc p (h p) s) [0..<NPROC] s) =
      (\<lambda>p. if p < NPROC then h p (procs s p) else procs s p)"
    by (auto simp: fold_upd_procs count_upt fun_eq_iff)
  ultimately show ?thesis using fold_upd_eq [of h "[0..<NPROC]" s] by simp
qed

lemma table_loop:
  assumes "slots_free s" and f: "\<And>p s. p < NPROC \<Longrightarrow> slots_free s \<Longrightarrow> P s \<Longrightarrow> f p s = Ok () (touch (upd_proc p (h p) s))"
    and P: "\<And>p s. P s \<Longrightarrow> P (touch (upd_proc p (h p) s))" "P s"
  shows "\<exists>t. for_each f [0..<NPROC] s = Ok () t \<and> locks t = locks s \<and> mem t = mem s \<and>
    procs t = (\<lambda>p. if p < NPROC then h p (procs s p) else procs s p)"
  using table_loop_eq [where P = P, OF assms] by simp

subsection \<open>wakeup, kill and the tick accounting\<close>

definition woken :: "chan \<Rightarrow> proc \<Rightarrow> proc" where
  "woken ch q = (if p_state q = SLEEPING \<and> p_chan q = ch then q\<lparr>p_state := RUNNABLE\<rparr> else q)"

lemma upd_proc_id [simp]: "upd_proc p (\<lambda>q. q) s = s"
  by (cases s) (simp add: upd_proc_def)

lemma woken_slot:
  "upd_proc p (woken ch) u = (if p_state (procs u p) = SLEEPING \<and> p_chan (procs u p) = ch
     then upd_proc p (\<lambda>q. q\<lparr>p_state := RUNNABLE\<rparr>) u else u)"
  by (cases u) (auto simp: upd_proc_def woken_def fun_eq_iff)

lemma wakeup_eq:
  assumes "slots_free s"
  shows "wakeup ch s = Ok () (touch (s\<lparr>procs := (\<lambda>p. if p < NPROC \<and> cpu_proc (cpus s (hart s)) \<noteq> Some p
    then woken ch (procs s p) else procs s p)\<rparr>))"
proof -
  define me where "me = cpu_proc (cpus s (hart s))"
  have f: "bnd (myproc u) (\<lambda>m u. if Some p \<noteq> m then bnd (acquire (L_proc p) u) (\<lambda>_ u. release (L_proc p)
        (if p_state (procs u p) = SLEEPING \<and> p_chan (procs u p) = ch
         then upd_proc p (\<lambda>q. q\<lparr>p_state := RUNNABLE\<rparr>) u else u)) else Ok () u) =
      Ok () (touch (upd_proc p (if me = Some p then (\<lambda>q. q) else woken ch) u))"
    if "p < NPROC" "slots_free u" "cpu_proc (cpus u (hart u)) = me" for p and u :: "'a pst_scheme"
  proof (cases "me = Some p")
    case False
    with visit_slot [of "touch u" p "woken ch"] that show ?thesis
      by (simp add: myproc_eq slots_free_irqs lock_simps woken_slot [symmetric])
  qed (use that in \<open>auto simp: myproc_eq slots_free_irqs\<close>)
  have "wakeup ch s = Ok () (touch (s\<lparr>procs :=
      (\<lambda>p. if p < NPROC then (if me = Some p then (\<lambda>q. q) else woken ch) (procs s p) else procs s p)\<rparr>))"
    unfolding wakeup_def
    by (rule table_loop_eq [where P = "\<lambda>u. cpu_proc (cpus u (hart u)) = me"])
      (use assms f in \<open>auto simp: me_def\<close>)
  moreover have "(\<lambda>p. if p < NPROC then (if me = Some p then (\<lambda>q. q) else woken ch) (procs s p) else procs s p) =
      (\<lambda>p. if p < NPROC \<and> cpu_proc (cpus s (hart s)) \<noteq> Some p then woken ch (procs s p) else procs s p)"
    by (auto simp: me_def fun_eq_iff)
  ultimately show ?thesis by simp
qed

text \<open>
  C28: With no process lock held, \<open>wakeup\<close> makes runnable exactly the processes other than
  the caller that sleep on the channel, and changes nothing else of the process table.
\<close>

theorem wakeup_spec:
  assumes "slots_free s"
  shows "\<exists>t. wakeup ch s = Ok () t \<and> locks t = locks s \<and> mem t = mem s \<and>
    procs t = (\<lambda>p. if p < NPROC \<and> cpu_proc (cpus s (hart s)) \<noteq> Some p then woken ch (procs s p) else procs s p)"
  by (simp add: wakeup_eq [OF assms])

theorem wakeup_spec_witness:
  "\<exists>t. wakeup Ch_ticks (boot_pst\<lparr>procs := (\<lambda>_. blank_proc)(3 := blank_proc\<lparr>p_state := SLEEPING, p_chan := Ch_ticks\<rparr>,
       4 := blank_proc\<lparr>p_state := SLEEPING, p_chan := Ch_log\<rparr>)\<rparr>) = Ok () t \<and>
     p_state (procs t 3) = RUNNABLE \<and> p_state (procs t 4) = SLEEPING"
proof -
  let ?s = "boot_pst\<lparr>procs := (\<lambda>_. blank_proc)(3 := blank_proc\<lparr>p_state := SLEEPING, p_chan := Ch_ticks\<rparr>,
       4 := blank_proc\<lparr>p_state := SLEEPING, p_chan := Ch_log\<rparr>)\<rparr>"
  have "slots_free ?s" by (simp add: slots_free_def)
  from wakeup_spec [OF this, of Ch_ticks] show ?thesis by (auto simp: woken_def NPROC_def)
qed

definition kill_mark :: "proc \<Rightarrow> proc" where
  "kill_mark q = q\<lparr>p_killed := 1, p_state := if p_state q = SLEEPING then RUNNABLE else p_state q\<rparr>"

lemma kill_mark_slot:
  "(let s = upd_proc p (\<lambda>q. q\<lparr>p_killed := 1\<rparr>) s
    in if p_state (procs s p) = SLEEPING then upd_proc p (\<lambda>q. q\<lparr>p_state := RUNNABLE\<rparr>) s else s) =
   upd_proc p kill_mark s"
  by (cases s) (auto simp: upd_proc_def kill_mark_def fun_eq_iff Let_def)

lemma visit_slot_keep:
  assumes "slots_free s" "p < NPROC"
  shows "acquire (L_proc p) s = Ok () (hold (L_proc p) s)" "release (L_proc p) (hold (L_proc p) s) = Ok () (touch s)"
    "procs (hold (L_proc p) s) p = procs s p"
    "release (L_proc p) (upd_proc p h (hold (L_proc p) s)) = Ok () (touch (upd_proc p h s))"
  using assms by (simp_all add: slots_free_def acquire_free lock_simps release_hold)

lemma kill_scan_eq:
  assumes "slots_free s" "set ps \<subseteq> {..<NPROC}"
  shows "\<exists>t. kill_scan pid ps s = Ok (if \<exists>p\<in>set ps. p_pid (procs s p) = pid then 0 else -1) t \<and> locks t = locks s \<and>
    procs t = (case List.find (\<lambda>p. p_pid (procs s p) = pid) ps of None \<Rightarrow> procs s
      | Some p \<Rightarrow> (procs s)(p := kill_mark (procs s p)))"
  using assms
proof (induction ps arbitrary: s)
  case (Cons p ps)
  note v = visit_slot_keep [of s p, OF Cons.prems(1)] and k = kill_mark_slot [of p "hold (L_proc p) s"]
  show ?case
  proof (cases "p_pid (procs s p) = pid")
    case True
    then show ?thesis using Cons.prems v k by (simp add: Let_def fun_upd_def)
  next
    case False
    then show ?thesis using Cons.prems v Cons.IH [of "touch s"] by (auto cong: option.case_cong)
  qed
qed simp

text \<open>
  C30: \<open>kill\<close> returns -1 and changes no process when no slot has the given pid; otherwise it
  marks the first such process as killed, makes it runnable if it was asleep, returns 0 and
  changes no other process.
\<close>

theorem kill_spec:
  assumes "slots_free s"
  shows "\<exists>t. kill pid s = Ok (if \<exists>p<NPROC. p_pid (procs s p) = pid then 0 else -1) t \<and> locks t = locks s \<and>
    procs t = (case List.find (\<lambda>p. p_pid (procs s p) = pid) [0..<NPROC] of None \<Rightarrow> procs s
      | Some p \<Rightarrow> (procs s)(p := kill_mark (procs s p)))"
  using kill_scan_eq [OF assms, of "[0..<NPROC]" pid] by (simp add: kill_def Bex_def lessThan_atLeast0 conj_commute)

theorem kill_spec_witness:
  "\<exists>t. kill 7 (boot_pst\<lparr>procs := (\<lambda>_. blank_proc)(1 := blank_proc\<lparr>p_pid := 7, p_state := SLEEPING\<rparr>)\<rparr>) = Ok 0 t \<and>
     p_state (procs t 1) = RUNNABLE \<and> p_killed (procs t 1) = 1"
proof -
  let ?s = "boot_pst\<lparr>procs := (\<lambda>_. blank_proc)(1 := blank_proc\<lparr>p_pid := 7, p_state := SLEEPING\<rparr>)\<rparr>"
  have "slots_free ?s" by (simp add: slots_free_def)
  moreover have "[0..<NPROC] = 0 # 1 # [2..<NPROC]" by (simp add: NPROC_def upt_conv_Cons numeral_2_eq_2)
  moreover have "\<exists>p<NPROC. p_pid (procs ?s p) = 7" by (intro exI [of _ 1]) (simp add: NPROC_def)
  ultimately show ?thesis using kill_spec [of ?s 7] by (auto simp: kill_mark_def)
qed

definition ticked :: "proc \<Rightarrow> proc" where
  "ticked q = (case p_state q of RUNNING \<Rightarrow> q\<lparr>p_RTime := p_RTime q + 1, p_rtime := p_rtime q + 1\<rparr>
     | RUNNABLE \<Rightarrow> q\<lparr>p_WTime := p_WTime q + 1\<rparr> | SLEEPING \<Rightarrow> q\<lparr>p_STime := p_STime q + 1\<rparr> | _ \<Rightarrow> q)"

lemma upd_proc_cong: "f (procs s p) = g (procs s p) \<Longrightarrow> upd_proc p f s = upd_proc p g s"
  by (simp add: upd_proc_def)

text \<open>
  On a clock tick \<open>update_time\<close> charges every process exactly one tick, to the counter of
  the state it is in: running (both run-time counters), waiting for a CPU, or sleeping.
\<close>

theorem update_time_spec:
  assumes "slots_free s"
  shows "\<exists>t. update_time s = Ok () t \<and> locks t = locks s \<and> mem t = mem s \<and>
    procs t = (\<lambda>p. if p < NPROC then ticked (procs s p) else procs s p)"
  unfolding update_time_def
proof (rule table_loop [where P = "\<lambda>_. True", OF assms])
  fix p and u :: "'a pst_scheme" assume p: "p < NPROC" "slots_free u"
  then show "update__proc_stats p u = Ok () (touch (upd_proc p ticked u))"
    by (cases "p_state (procs u p)")
      (simp_all add: update__proc_stats_def Let_def visit_slot_keep ticked_def
        upd_proc_cong [of ticked u p, OF trans, OF ticked_def])
qed simp_all

theorem update_time_spec_witness:
  "\<exists>t. update_time three_runnable = Ok () t \<and> p_WTime (procs t 2) = 1 \<and> p_WTime (procs t 0) = 0"
proof -
  have "slots_free three_runnable" by (simp add: slots_free_def three_runnable_def)
  from update_time_spec [OF this] show ?thesis by (auto simp: three_runnable_def ticked_def NPROC_def)
qed

subsection \<open>Reaping children\<close>

lemma outside_pst:
  fixes s t :: "'z pst_scheme"
  assumes "outside t = outside s"
  shows "procs t = procs s" "hart t = hart s" "cpu_proc (cpus t i) = cpu_proc (cpus s i)" "nextpid t = nextpid s"
    "ticks t = ticks s" "initproc t = initproc s" "forkret_addr t = forkret_addr s" "pst.more t = pst.more s"
  using assms by (cases s; cases t; simp add: outside_def fun_eq_iff)+

definition freed :: "proc \<Rightarrow> proc" where
  "freed q = q\<lparr>p_trapframe := 0, p_pagetable := 0, p_sz := 0, p_pid := 0, p_parent := None,
     p_name := (p_name q)[0 := 0], p_chan := Ch_null, p_killed := 0, p_xstate := 0, p_state := UNUSED,
     p_rtime := 0, p_etime := 0, p_RTime := 0, p_WTime := 0, p_STime := 0, p_numScheduled := 0, p_SP := 50\<rparr>"

lemma proc_freepagetable_outside: "proc_freepagetable pt sz s = Ok u t \<Longrightarrow> outside t = outside s"
  by (auto simp: proc_freepagetable_def bnd_eq_Ok dest!: uvmunmap_outside uvmfree_outside)

lemma freeproc_procs:
  assumes "freeproc p s = Ok u t"
  shows "procs t = (procs s)(p := freed (procs s p))"
proof -
  from assms obtain v w
    where v: "(if p_trapframe (procs s p) \<noteq> 0 then kfree (p_trapframe (procs s p)) s else Ok () s) = Ok () v"
      and w: "(let s = upd_proc p (\<lambda>q. q\<lparr>p_trapframe := 0\<rparr>) v in
        if p_pagetable (procs s p) \<noteq> 0 then proc_freepagetable (p_pagetable (procs s p)) (p_sz (procs s p)) s
        else Ok () s) = Ok () w"
      and t: "t = upd_proc p (\<lambda>q. q\<lparr>p_pagetable := 0, p_sz := 0, p_pid := 0, p_parent := None,
       p_name := (p_name q)[0 := 0], p_chan := Ch_null, p_killed := 0, p_xstate := 0, p_state := UNUSED,
       p_rtime := 0, p_etime := 0, p_RTime := 0, p_WTime := 0, p_STime := 0, p_numScheduled := 0,
       p_SP := 50\<rparr>) w"
    unfolding freeproc_def Let_def bnd_eq_Ok by auto
  from v have "procs v = procs s" by (auto split: if_splits dest: kfree_outside outside_pst(1))
  moreover from w have "procs w = procs (upd_proc p (\<lambda>q. q\<lparr>p_trapframe := 0\<rparr>) v)"
    by (auto simp: Let_def split: if_splits dest: proc_freepagetable_outside [THEN outside_pst(1)])
  ultimately show ?thesis by (simp add: t freed_def)
qed

lemma release_procs: "release lk s = Ok u t \<Longrightarrow> procs t = procs s"
  by (rule outside_pst(1) [OF release_outside])

lemma acquire_procs: "acquire lk s = Ok u t \<Longrightarrow> procs t = procs s"
  by (rule outside_pst(1) [OF acquire_outside])

lemma copyout_procs: "copyout pt va src s = Ok r t \<Longrightarrow> procs t = procs s"
  by (rule outside_pst(1) [OF copyout_outside])

lemma wait_scan_found:
  assumes "wait_scan ps p a h s = Ok (Some r, k) t" "r \<noteq> -1"
  shows "\<exists>pp\<in>set ps. p_parent (procs s pp) = Some p \<and> p_state (procs s pp) = ZOMBIE \<and> p_pid (procs s pp) = r \<and>
    procs t = (procs s)(pp := freed (procs s pp))"
  using assms
proof (induction ps arbitrary: h s)
  case (Cons pp ps)
  show ?case
  proof (cases "p_parent (procs s pp) = Some p")
    case par: True
    with Cons.prems(1) obtain u where u: "acquire (L_proc pp) s = Ok () u" by (auto simp: bnd_eq_Ok)
    note pu = acquire_procs [OF u]
    show ?thesis
    proof (cases "p_state (procs s pp) = ZOMBIE")
      case True
      with par u pu Cons.prems obtain x v
        where v: "(if a \<noteq> 0 then copyout (p_pagetable (procs s p)) a (int_bytes (p_xstate (procs s pp))) u else Ok 0 u) = Ok x v"
          and w: "\<exists>w y. freeproc pp v = Ok () w \<and> release (L_proc pp) w = Ok () y \<and> release L_wait y = Ok () t"
          and r: "r = p_pid (procs s pp)"
        by (auto simp: bnd_eq_Ok Let_def split: if_splits)
      from v have "procs v = procs u" by (auto split: if_splits dest: copyout_procs)
      with w pu have "procs t = (procs s)(pp := freed (procs s pp))"
        by (auto dest!: freeproc_procs release_procs)
      with par True r show ?thesis by auto
    next
      case False
      with par u pu Cons.prems(1) obtain v where v: "release (L_proc pp) u = Ok () v"
        and w: "wait_scan ps p a True v = Ok (Some r, k) t" by (auto simp: bnd_eq_Ok)
      from Cons.IH [OF w Cons.prems(2)] release_procs [OF v] pu show ?thesis by auto
    qed
  next
    case False
    with Cons.prems Cons.IH [of h s] show ?thesis by auto
  qed
qed simp

lemma wait_scan_childless:
  "(\<forall>pp\<in>set ps. p_parent (procs s pp) \<noteq> Some p) \<Longrightarrow> wait_scan ps p a h s = Ok (None, h) s"
  by (induction ps) auto

text \<open>
  C31: One pass of \<open>wait\<close> over the process table that returns a pid has found a child of the
  caller in state \<open>ZOMBIE\<close> with that pid; it has reset that child's slot to \<open>UNUSED\<close> and
  changed no other slot.
\<close>

theorem wait_reaps_zombie_child:
  assumes "wait_scan [0..<NPROC] p a False s = Ok (Some r, k) t" "r \<noteq> -1"
  shows "\<exists>pp<NPROC. p_parent (procs s pp) = Some p \<and> p_state (procs s pp) = ZOMBIE \<and> p_pid (procs s pp) = r \<and>
    procs t = (procs s)(pp := freed (procs s pp)) \<and> p_state (procs t pp) = UNUSED"
  using wait_scan_found [OF assms] by (auto simp: freed_def)

definition zombie_child :: pst where
  "zombie_child = hold L_wait (boot_pst\<lparr>procs := (\<lambda>_. blank_proc)(
     0 := blank_proc\<lparr>p_parent := Some 1, p_state := ZOMBIE, p_pid := 5\<rparr>)\<rparr>)"

theorem wait_reaps_zombie_child_witness:
  "\<exists>k t. wait_scan [0..<NPROC] 1 0 False zombie_child = Ok (Some 5, k) t \<and> p_state (procs t 0) = UNUSED"
proof -
  let ?s = "boot_pst\<lparr>procs := (\<lambda>_. blank_proc)(0 := blank_proc\<lparr>p_parent := Some 1, p_state := ZOMBIE, p_pid := 5\<rparr>)\<rparr>"
  have n: "[0..<NPROC] = 0 # [1..<NPROC]" by (simp add: NPROC_def upt_conv_Cons)
  have z: "p_trapframe blank_proc = 0" "p_pagetable blank_proc = 0" by (simp_all add: blank_proc_def)
  have "\<exists>t. wait_scan [0..<NPROC] 1 0 False zombie_child = Ok (Some 5, True) t"
    by (simp add: n zombie_child_def acquire_free freeproc_def z release_def holding_def pop_off_def
        mach_defs upd_proc_def hold_def push_off_def Let_def)
  then obtain k t where t: "wait_scan [0..<NPROC] 1 0 False zombie_child = Ok (Some 5, k) t" by blast
  from wait_reaps_zombie_child [OF t] have "p_state (procs t 0) = UNUSED"
    by (auto simp: zombie_child_def split: if_splits)
  with t show ?thesis by blast
qed

text \<open>
  A process without children gets -1 from \<open>wait\<close> at once: the call does not sleep,
  gives the wait lock back and changes no process.
\<close>

theorem wait_without_children:
  assumes "irqs_ok s" "lk_free (locks s L_wait)" "cpu_proc (cpus s (hart s)) = Some p"
    and "\<forall>pp<NPROC. p_parent (procs s pp) \<noteq> Some p"
  shows "\<exists>t. wait (Suc n) sw a s = Ok (-1) t \<and> procs t = procs s \<and> locks t = locks s \<and> mem t = mem s"
proof -
  let ?s = "hold L_wait (touch s)"
  have "wait_scan [0..<NPROC] p a False ?s = Ok (None, False) ?s"
    using assms(4) by (intro wait_scan_childless) auto
  with assms(1-3) show ?thesis by (simp add: wait_def curproc_eq acquire_free release_hold)
qed

theorem wait_without_children_witness:
  "\<exists>t. wait 1 (Ok ()) 0 (boot_pst\<lparr>cpus := (cpus boot_pst)(0 := \<lparr>cpu_proc = Some 3, noff = 0, intena = False\<rparr>)\<rparr>) = Ok (-1) t"
  using wait_without_children [of "boot_pst\<lparr>cpus := (cpus boot_pst)(0 := \<lparr>cpu_proc = Some 3, noff = 0, intena = False\<rparr>)\<rparr>" 3 0 "Ok ()" 0]
  by (auto simp: irq_ok_def)

end
