(* ===== verification/Sleeplock.thy ===== *)
theory Sleeplock
  imports ProcSleep
begin

text \<open>
  Sleep locks (\<open>kernel/sleeplock.c\<close>, \<open>kernel/sleeplock.h\<close>). A sleep lock is named by the
  \<open>lockid\<close> of the spinlock inside it. \<open>n\<close> bounds how often the loop of \<open>acquiresleep\<close> goes to
  sleep and \<open>sw\<close> is what the system does while it sleeps, as for \<open>wait\<close>.
\<close>

type_synonym 's switch = "'s \<Rightarrow> (unit, 's) res"

record sleeplock =
  sl_locked :: uint
  sl_name :: string
  sl_pid :: int

record slst = pst +
  sleeplocks :: "lockid \<Rightarrow> sleeplock"

definition initsleeplock :: "lockid \<Rightarrow> string \<Rightarrow> 'z slst_scheme \<Rightarrow> 'z slst_scheme" where
  "initsleeplock lk nm s =
     (let s = initlock lk ''sleep lock'' s
      in s\<lparr>sleeplocks := (sleeplocks s)(lk := \<lparr>sl_locked = 0, sl_name = nm, sl_pid = 0\<rparr>)\<rparr>)"

primrec acquiresleep_loop :: "nat \<Rightarrow> 'z slst_scheme switch \<Rightarrow> lockid \<Rightarrow> 'z slst_scheme \<Rightarrow> (unit, 'z slst_scheme) res" where
  "acquiresleep_loop 0 sw lk s = (if sl_locked (sleeplocks s lk) \<noteq> 0 then Diverge else Ok () s)"
| "acquiresleep_loop (Suc n) sw lk s =
     (if sl_locked (sleeplocks s lk) \<noteq> 0
      then bnd (sleep sw (Ch_sleeplock lk) lk s) (\<lambda>_ s. acquiresleep_loop n sw lk s)
      else Ok () s)"

definition acquiresleep :: "nat \<Rightarrow> 'z slst_scheme switch \<Rightarrow> lockid \<Rightarrow> 'z slst_scheme \<Rightarrow> (unit, 'z slst_scheme) res" where
  "acquiresleep n sw lk s =
     bnd (acquire lk s) (\<lambda>_ s.
     bnd (acquiresleep_loop n sw lk s) (\<lambda>_ s.
     let s = s\<lparr>sleeplocks := (sleeplocks s)(lk := (sleeplocks s lk)\<lparr>sl_locked := 1\<rparr>)\<rparr> in
     bnd (curproc s) (\<lambda>p s.
     let s = s\<lparr>sleeplocks := (sleeplocks s)(lk := (sleeplocks s lk)\<lparr>sl_pid := p_pid (procs s p)\<rparr>)\<rparr> in
     release lk s)))"

definition releasesleep :: "lockid \<Rightarrow> 'z slst_scheme \<Rightarrow> (unit, 'z slst_scheme) res" where
  "releasesleep lk s =
     bnd (acquire lk s) (\<lambda>_ s.
     let s = s\<lparr>sleeplocks := (sleeplocks s)(lk := (sleeplocks s lk)\<lparr>sl_locked := 0, sl_pid := 0\<rparr>)\<rparr> in
     bnd (wakeup (Ch_sleeplock lk) s) (\<lambda>_ s.
     release lk s))"

definition holdingsleep :: "lockid \<Rightarrow> 'z slst_scheme \<Rightarrow> (bool, 'z slst_scheme) res" where
  "holdingsleep lk s =
     bnd (acquire lk s) (\<lambda>_ s.
     bnd (if sl_locked (sleeplocks s lk) \<noteq> 0
          then bnd (curproc s) (\<lambda>p s. Ok (sl_pid (sleeplocks s lk) = p_pid (procs s p)) s)
          else Ok False s) (\<lambda>r s.
     bnd (release lk s) (\<lambda>_ s. Ok r s)))"

subsection \<open>Lock frames\<close>

lemma hold_slst [frame_simps, simp]: "sleeplocks (hold lk s) = sleeplocks s"
  by (simp add: hold_def push_off_def mach_defs Let_def)

lemma touch_slst [frame_simps, simp]: "sleeplocks (touch s) = sleeplocks s"
  by (simp add: touch_def)

lemma hold_slst_upd [lock_simps]: "(hold lk s)\<lparr>sleeplocks := a\<rparr> = hold lk (s\<lparr>sleeplocks := a\<rparr>)"
  by (simp add: hold_def push_off_def mach_defs Let_def)

lemma touch_slst_upd [lock_simps]: "touch (s\<lparr>sleeplocks := a\<rparr>) = (touch s)\<lparr>sleeplocks := a\<rparr>"
  by (simp add: touch_def)

lemma upd_proc_slst [simp]: "sleeplocks (upd_proc p f s) = sleeplocks s"
  by (simp add: upd_proc_def)

end
