(* ===== verification/Virtio_disk.thy ===== *)
theory Virtio_disk
  imports Sleeplock
begin

text \<open>
  The driver of the virtio disk (\<open>kernel/virtio_disk.c\<close>, \<open>kernel/virtio.h\<close>, \<open>struct buf\<close> of
  \<open>kernel/buf.h\<close>). The descriptor table, the available ring and the used ring are shared with the
  device, which is not part of the kernel: its steps happen while the driver sleeps, inside
  \<open>sw\<close>. Buffers are slots of \<open>bufs\<close>; slot \<open>NBUF\<close> is the list head \<open>bcache.head\<close>. A memory address in a
  descriptor is the object it points to.
\<close>

definition BSIZE :: nat where "BSIZE = 1024"
definition NUM :: nat where "NUM = 8"
definition NBUF :: nat where "NBUF = 30"

record buf =
  b_valid :: int
  b_disk :: int
  b_dev :: uint
  b_blockno :: uint
  b_refcnt :: uint
  b_prev :: nat
  b_next :: nat
  b_data :: "uchar list"

datatype daddr = D_null | D_op nat | D_data nat | D_status nat

record virtq_desc =
  d_addr :: daddr
  d_len :: uint
  d_flags :: ushort
  d_next :: ushort

record virtio_blk_req =
  r_type :: uint
  r_reserved :: uint
  r_sector :: uint64

record vdisk =
  desc :: "nat \<Rightarrow> virtq_desc"
  avail_idx :: ushort
  avail_ring :: "nat \<Rightarrow> ushort"
  used_ring_idx :: ushort
  used_ring :: "nat \<Rightarrow> uint"
  dfree :: "nat \<Rightarrow> bool"
  used_idx :: ushort
  info_b :: "nat \<Rightarrow> nat option"
  info_status :: "nat \<Rightarrow> uchar"
  ops :: "nat \<Rightarrow> virtio_blk_req"

record vdst = slst +
  bufs :: "nat \<Rightarrow> buf"
  disk :: vdisk

definition VRING_DESC_F_NEXT :: ushort where "VRING_DESC_F_NEXT = 1"
definition VRING_DESC_F_WRITE :: ushort where "VRING_DESC_F_WRITE = 2"
definition VIRTIO_BLK_T_IN :: uint where "VIRTIO_BLK_T_IN = 0"
definition VIRTIO_BLK_T_OUT :: uint where "VIRTIO_BLK_T_OUT = 1"

definition upd_buf :: "nat \<Rightarrow> (buf \<Rightarrow> buf) \<Rightarrow> 'z vdst_scheme \<Rightarrow> 'z vdst_scheme" where
  "upd_buf b f s = s\<lparr>bufs := (bufs s)(b := f (bufs s b))\<rparr>"

definition upd_desc :: "nat \<Rightarrow> virtq_desc \<Rightarrow> 'z vdst_scheme \<Rightarrow> 'z vdst_scheme" where
  "upd_desc i d s = s\<lparr>disk := (disk s)\<lparr>desc := (desc (disk s))(i := d)\<rparr>\<rparr>"

subsection \<open>Initialisation\<close>

text \<open>
  \<open>vreg\<close> has the values the device returns for its memory-mapped registers; the result lists the
  registers written, in order, with the values. The three queue areas are zeroed pages.
\<close>

definition VIRTIO_features :: "uint \<Rightarrow> uint" where
  "VIRTIO_features f = f AND NOT (push_bit 5 1) AND NOT (push_bit 7 1) AND NOT (push_bit 11 1) AND NOT (push_bit 12 1)
     AND NOT (push_bit 27 1) AND NOT (push_bit 29 1) AND NOT (push_bit 28 1)"

definition virtio_disk_init :: "(uint \<Rightarrow> uint) \<Rightarrow> 'z vdst_scheme \<Rightarrow> ((uint \<times> uint) list, 'z vdst_scheme) res" where
  "virtio_disk_init vreg s =
     (let s = initlock L_vdisk ''virtio_disk'' s in
      if vreg 0x000 \<noteq> 0x74726976 \<or> vreg 0x004 \<noteq> 2 \<or> vreg 0x008 \<noteq> 2 \<or> vreg 0x00c \<noteq> 0x554d4551
      then Panic ''could not find virtio disk''
      else if vreg 0x070 AND 8 = 0 then Panic ''virtio disk FEATURES_OK unset''
      else if vreg 0x044 \<noteq> 0 then Panic ''virtio disk should not be ready''
      else if vreg 0x034 = 0 then Panic ''virtio disk has no queue 0''
      else if vreg 0x034 < of_nat NUM then Panic ''virtio disk max queue too short''
      else
        bnd (kalloc s) (\<lambda>dp s.
        bnd (kalloc s) (\<lambda>ap s.
        bnd (kalloc s) (\<lambda>up s.
        if dp = 0 \<or> ap = 0 \<or> up = 0 then Panic ''virtio disk kalloc''
        else let s = s\<lparr>mem := memset dp 0 (ucast PGSIZE) (mem s)\<rparr>;
                 s = s\<lparr>mem := memset ap 0 (ucast PGSIZE) (mem s)\<rparr>;
                 s = s\<lparr>mem := memset up 0 (ucast PGSIZE) (mem s)\<rparr>;
                 s = s\<lparr>disk := (disk s)\<lparr>desc := (\<lambda>_. \<lparr>d_addr = D_null, d_len = 0, d_flags = 0, d_next = 0\<rparr>),
                       avail_idx := 0, avail_ring := (\<lambda>_. 0), used_ring_idx := 0, used_ring := (\<lambda>_. 0),
                       dfree := (\<lambda>i. i < NUM \<or> dfree (disk s) i)\<rparr>\<rparr>;
                 st = vreg 0x070
             in Ok [(0x070, 0), (0x070, 1), (0x070, 3), (0x020, VIRTIO_features (vreg 0x010)), (0x070, 11),
                    (0x030, 0), (0x038, of_nat NUM),
                    (0x080, ucast dp), (0x084, ucast (drop_bit 32 dp)), (0x090, ucast ap), (0x094, ucast (drop_bit 32 ap)),
                    (0x0a0, ucast up), (0x0a4, ucast (drop_bit 32 up)), (0x044, 1), (0x070, st OR 4)] s))))"

subsection \<open>Descriptors\<close>

definition alloc_desc :: "'z vdst_scheme \<Rightarrow> nat option \<times> 'z vdst_scheme" where
  "alloc_desc s =
     (case List.find (dfree (disk s)) [0..<NUM] of
        Some i \<Rightarrow> (Some i, s\<lparr>disk := (disk s)\<lparr>dfree := (dfree (disk s))(i := False)\<rparr>\<rparr>)
      | None \<Rightarrow> (None, s))"

definition free_desc :: "nat \<Rightarrow> 'z vdst_scheme \<Rightarrow> (unit, 'z vdst_scheme) res" where
  "free_desc i s =
     (if i \<ge> NUM then Panic ''free_desc 1''
      else if dfree (disk s) i then Panic ''free_desc 2''
      else let s = upd_desc i \<lparr>d_addr = D_null, d_len = 0, d_flags = 0, d_next = 0\<rparr> s;
               s = s\<lparr>disk := (disk s)\<lparr>dfree := (dfree (disk s))(i := True)\<rparr>\<rparr>
           in wakeup Ch_disk_free s)"

text \<open>
  Freeing a descriptor twice panics, so a chain has at most \<open>NUM\<close> descriptors that can be freed;
  \<open>free_chain\<close> carries one more as its bound.
\<close>

primrec free_chain_loop :: "nat \<Rightarrow> nat \<Rightarrow> 'z vdst_scheme \<Rightarrow> (unit, 'z vdst_scheme) res" where
  "free_chain_loop 0 i s = Diverge"
| "free_chain_loop (Suc k) i s =
     (let flag = d_flags (desc (disk s) i); nxt = d_next (desc (disk s) i)
      in bnd (free_desc i s) (\<lambda>_ s.
         if flag AND VRING_DESC_F_NEXT \<noteq> 0 then free_chain_loop k (unat nxt) s else Ok () s))"

definition free_chain :: "nat \<Rightarrow> 'z vdst_scheme \<Rightarrow> (unit, 'z vdst_scheme) res" where
  "free_chain i s = free_chain_loop (Suc NUM) i s"

definition alloc3_desc :: "'z vdst_scheme \<Rightarrow> ((nat \<times> nat \<times> nat) option, 'z vdst_scheme) res" where
  "alloc3_desc s =
     (case alloc_desc s of (None, s) \<Rightarrow> Ok None s
      | (Some i, s) \<Rightarrow>
        (case alloc_desc s of (None, s) \<Rightarrow> bnd (free_desc i s) (\<lambda>_ s. Ok None s)
         | (Some j, s) \<Rightarrow>
           (case alloc_desc s of
              (None, s) \<Rightarrow> bnd (free_desc i s) (\<lambda>_ s. bnd (free_desc j s) (\<lambda>_ s. Ok None s))
            | (Some k, s) \<Rightarrow> Ok (Some (i, j, k)) s)))"

subsection \<open>Requests\<close>

primrec alloc3_wait :: "nat \<Rightarrow> 'z vdst_scheme switch \<Rightarrow> 'z vdst_scheme \<Rightarrow> (nat \<times> nat \<times> nat, 'z vdst_scheme) res" where
  "alloc3_wait 0 sw s = bnd (alloc3_desc s) (\<lambda>r s. case r of Some idx \<Rightarrow> Ok idx s | None \<Rightarrow> Diverge)"
| "alloc3_wait (Suc n) sw s =
     bnd (alloc3_desc s) (\<lambda>r s.
     case r of Some idx \<Rightarrow> Ok idx s
     | None \<Rightarrow> bnd (sleep sw Ch_disk_free L_vdisk s) (\<lambda>_ s. alloc3_wait n sw s))"

primrec disk_wait :: "nat \<Rightarrow> 'z vdst_scheme switch \<Rightarrow> nat \<Rightarrow> 'z vdst_scheme \<Rightarrow> (unit, 'z vdst_scheme) res" where
  "disk_wait 0 sw b s = (if b_disk (bufs s b) = 1 then Diverge else Ok () s)"
| "disk_wait (Suc n) sw b s =
     (if b_disk (bufs s b) = 1
      then bnd (sleep sw (Ch_buf b) L_vdisk s) (\<lambda>_ s. disk_wait n sw b s)
      else Ok () s)"

definition submit :: "nat \<Rightarrow> bool \<Rightarrow> nat \<times> nat \<times> nat \<Rightarrow> uint64 \<Rightarrow> 'z vdst_scheme \<Rightarrow> 'z vdst_scheme" where
  "submit b wr idx sector s =
     (case idx of (i0, i1, i2) \<Rightarrow>
      let s = s\<lparr>disk := (disk s)\<lparr>ops := (ops (disk s))(i0 :=
                \<lparr>r_type = (if wr then VIRTIO_BLK_T_OUT else VIRTIO_BLK_T_IN), r_reserved = 0, r_sector = sector\<rparr>)\<rparr>\<rparr>;
          s = upd_desc i0 \<lparr>d_addr = D_op i0, d_len = 16, d_flags = VRING_DESC_F_NEXT, d_next = of_nat i1\<rparr> s;
          s = upd_desc i1 \<lparr>d_addr = D_data b, d_len = of_nat BSIZE,
                d_flags = (if wr then 0 else VRING_DESC_F_WRITE) OR VRING_DESC_F_NEXT, d_next = of_nat i2\<rparr> s;
          s = s\<lparr>disk := (disk s)\<lparr>info_status := (info_status (disk s))(i0 := 0xff)\<rparr>\<rparr>;
          s = upd_desc i2 \<lparr>d_addr = D_status i0, d_len = 1, d_flags = VRING_DESC_F_WRITE, d_next = 0\<rparr> s;
          s = upd_buf b (\<lambda>q. q\<lparr>b_disk := 1\<rparr>) s;
          s = s\<lparr>disk := (disk s)\<lparr>info_b := (info_b (disk s))(i0 := Some b)\<rparr>\<rparr>;
          s = s\<lparr>disk := (disk s)\<lparr>avail_ring := (avail_ring (disk s))(unat (avail_idx (disk s)) mod NUM := of_nat i0)\<rparr>\<rparr>
      in s\<lparr>disk := (disk s)\<lparr>avail_idx := avail_idx (disk s) + 1\<rparr>\<rparr>)"

definition virtio_disk_rw :: "nat \<Rightarrow> 'z vdst_scheme switch \<Rightarrow> nat \<Rightarrow> bool \<Rightarrow> 'z vdst_scheme \<Rightarrow> (unit, 'z vdst_scheme) res" where
  "virtio_disk_rw n sw b wr s =
     (let sector = ucast (b_blockno (bufs s b) * 2) in
      bnd (acquire L_vdisk s) (\<lambda>_ s.
      bnd (alloc3_wait n sw s) (\<lambda>idx s.
      let s = submit b wr idx sector s in
      bnd (disk_wait n sw b s) (\<lambda>_ s.
      let s = s\<lparr>disk := (disk s)\<lparr>info_b := (info_b (disk s))(fst idx := None)\<rparr>\<rparr> in
      bnd (free_chain (fst idx) s) (\<lambda>_ s.
      release L_vdisk s)))))"

text \<open>
  The interrupt handler visits the entries the device has added to the used ring up to now. An entry that the device adds
  while the handler runs is left to the next call: the handler acknowledges the interrupt first, so the device
  raises another one for it. The ring index has 16 bits, and the distance of the two indices bounds the loop.
\<close>

primrec virtio_intr_loop :: "nat \<Rightarrow> 'z vdst_scheme \<Rightarrow> (unit, 'z vdst_scheme) res" where
  "virtio_intr_loop 0 s = (if used_idx (disk s) \<noteq> used_ring_idx (disk s) then Diverge else Ok () s)"
| "virtio_intr_loop (Suc k) s =
     (if used_idx (disk s) \<noteq> used_ring_idx (disk s)
      then let id = unat (used_ring (disk s) (unat (used_idx (disk s)) mod NUM)) in
        if info_status (disk s) id \<noteq> 0 then Panic ''virtio_disk_intr status''
        else case info_b (disk s) id of
          None \<Rightarrow> Panic ''kerneltrap''
        | Some b \<Rightarrow>
          let s = upd_buf b (\<lambda>q. q\<lparr>b_disk := 0\<rparr>) s in
          bnd (wakeup (Ch_buf b) s) (\<lambda>_ s.
          virtio_intr_loop k (s\<lparr>disk := (disk s)\<lparr>used_idx := used_idx (disk s) + 1\<rparr>\<rparr>))
      else Ok () s)"

definition virtio_disk_intr :: "'z vdst_scheme \<Rightarrow> (unit, 'z vdst_scheme) res" where
  "virtio_disk_intr s =
     bnd (acquire L_vdisk s) (\<lambda>_ s.
     bnd (virtio_intr_loop (unat (used_ring_idx (disk s) - used_idx (disk s))) s) (\<lambda>_ s.
     release L_vdisk s))"

subsection \<open>Lock frames\<close>

lemma hold_vdst [frame_simps, simp]: "bufs (hold lk s) = bufs s" "disk (hold lk s) = disk s"
  by (simp_all add: hold_def push_off_def mach_defs Let_def)

lemma touch_vdst [frame_simps, simp]: "bufs (touch s) = bufs s" "disk (touch s) = disk s"
  by (simp_all add: touch_def)

lemma hold_vdst_upd [lock_simps]:
  "(hold lk s)\<lparr>bufs := a\<rparr> = hold lk (s\<lparr>bufs := a\<rparr>)" "(hold lk s)\<lparr>disk := d\<rparr> = hold lk (s\<lparr>disk := d\<rparr>)"
  by (simp_all add: hold_def push_off_def mach_defs Let_def)

lemma touch_vdst_upd [lock_simps]:
  "touch (s\<lparr>bufs := a\<rparr>) = (touch s)\<lparr>bufs := a\<rparr>" "touch (s\<lparr>disk := d\<rparr>) = (touch s)\<lparr>disk := d\<rparr>"
  by (simp_all add: touch_def)

lemma upd_proc_vdst [simp]: "bufs (upd_proc p f s) = bufs s" "disk (upd_proc p f s) = disk s"
  by (simp_all add: upd_proc_def)

end
