(* ===== verification/Bio.thy ===== *)
theory Bio
  imports Virtio_disk
begin

text \<open>
  The buffer cache (\<open>kernel/bio.c\<close>). The list of buffers is doubly linked through \<open>b_prev\<close> and
  \<open>b_next\<close>, with slot \<open>NBUF\<close> as its head; a scan of it carries a bound of \<open>Suc NBUF\<close> steps, one
  more than the list has elements.
\<close>

subsection \<open>Operations\<close>

definition binit_one :: "nat \<Rightarrow> 'z vdst_scheme \<Rightarrow> 'z vdst_scheme" where
  "binit_one b s =
     (let s = upd_buf b (\<lambda>q. q\<lparr>b_next := b_next (bufs s NBUF), b_prev := NBUF\<rparr>) s;
          s = initsleeplock (L_bufsleep b) ''buffer'' s;
          s = upd_buf (b_next (bufs s NBUF)) (\<lambda>q. q\<lparr>b_prev := b\<rparr>) s
      in upd_buf NBUF (\<lambda>q. q\<lparr>b_next := b\<rparr>) s)"

definition binit :: "'z vdst_scheme \<Rightarrow> 'z vdst_scheme" where
  "binit s =
     (let s = initlock L_bcache ''bcache'' s;
          s = upd_buf NBUF (\<lambda>q. q\<lparr>b_prev := NBUF, b_next := NBUF\<rparr>) s
      in fold binit_one [0..<NBUF] s)"

primrec bget_cached :: "nat \<Rightarrow> nat \<Rightarrow> uint \<Rightarrow> uint \<Rightarrow> 'z vdst_scheme \<Rightarrow> (nat option, 'z vdst_scheme) res" where
  "bget_cached 0 b dev blockno s = Diverge"
| "bget_cached (Suc k) b dev blockno s =
     (if b = NBUF then Ok None s
      else if b_dev (bufs s b) = dev \<and> b_blockno (bufs s b) = blockno then Ok (Some b) s
      else bget_cached k (b_next (bufs s b)) dev blockno s)"

primrec bget_unused :: "nat \<Rightarrow> nat \<Rightarrow> 'z vdst_scheme \<Rightarrow> (nat option, 'z vdst_scheme) res" where
  "bget_unused 0 b s = Diverge"
| "bget_unused (Suc k) b s =
     (if b = NBUF then Ok None s
      else if b_refcnt (bufs s b) = 0 then Ok (Some b) s
      else bget_unused k (b_prev (bufs s b)) s)"

definition bget :: "nat \<Rightarrow> 'z vdst_scheme switch \<Rightarrow> uint \<Rightarrow> uint \<Rightarrow> 'z vdst_scheme \<Rightarrow> (nat, 'z vdst_scheme) res" where
  "bget n sw dev blockno s =
     bnd (acquire L_bcache s) (\<lambda>_ s.
     bnd (bget_cached (Suc NBUF) (b_next (bufs s NBUF)) dev blockno s) (\<lambda>r s.
     case r of
       Some b \<Rightarrow>
         let s = upd_buf b (\<lambda>q. q\<lparr>b_refcnt := b_refcnt q + 1\<rparr>) s in
         bnd (release L_bcache s) (\<lambda>_ s.
         bnd (acquiresleep n sw (L_bufsleep b) s) (\<lambda>_ s. Ok b s))
     | None \<Rightarrow>
       bnd (bget_unused (Suc NBUF) (b_prev (bufs s NBUF)) s) (\<lambda>r s.
       case r of
         Some b \<Rightarrow>
           let s = upd_buf b (\<lambda>q. q\<lparr>b_dev := dev, b_blockno := blockno, b_valid := 0, b_refcnt := 1\<rparr>) s in
           bnd (release L_bcache s) (\<lambda>_ s.
           bnd (acquiresleep n sw (L_bufsleep b) s) (\<lambda>_ s. Ok b s))
       | None \<Rightarrow> Panic ''bget: no buffers'')))"

definition bread :: "nat \<Rightarrow> 'z vdst_scheme switch \<Rightarrow> uint \<Rightarrow> uint \<Rightarrow> 'z vdst_scheme \<Rightarrow> (nat, 'z vdst_scheme) res" where
  "bread n sw dev blockno s =
     bnd (bget n sw dev blockno s) (\<lambda>b s.
     if b_valid (bufs s b) = 0
     then bnd (virtio_disk_rw n sw b False s) (\<lambda>_ s. Ok b (upd_buf b (\<lambda>q. q\<lparr>b_valid := 1\<rparr>) s))
     else Ok b s)"

definition bwrite :: "nat \<Rightarrow> 'z vdst_scheme switch \<Rightarrow> nat \<Rightarrow> 'z vdst_scheme \<Rightarrow> (unit, 'z vdst_scheme) res" where
  "bwrite n sw b s =
     bnd (holdingsleep (L_bufsleep b) s) (\<lambda>h s.
     if \<not> h then Panic ''bwrite'' else virtio_disk_rw n sw b True s)"

definition unlink_buf :: "nat \<Rightarrow> 'z vdst_scheme \<Rightarrow> 'z vdst_scheme" where
  "unlink_buf b s =
     (let s = upd_buf (b_next (bufs s b)) (\<lambda>q. q\<lparr>b_prev := b_prev (bufs s b)\<rparr>) s
      in upd_buf (b_prev (bufs s b)) (\<lambda>q. q\<lparr>b_next := b_next (bufs s b)\<rparr>) s)"

definition push_front :: "nat \<Rightarrow> 'z vdst_scheme \<Rightarrow> 'z vdst_scheme" where
  "push_front b s =
     (let s = upd_buf b (\<lambda>q. q\<lparr>b_next := b_next (bufs s NBUF)\<rparr>) s;
          s = upd_buf b (\<lambda>q. q\<lparr>b_prev := NBUF\<rparr>) s;
          s = upd_buf (b_next (bufs s NBUF)) (\<lambda>q. q\<lparr>b_prev := b\<rparr>) s
      in upd_buf NBUF (\<lambda>q. q\<lparr>b_next := b\<rparr>) s)"

definition brelse :: "nat \<Rightarrow> 'z vdst_scheme \<Rightarrow> (unit, 'z vdst_scheme) res" where
  "brelse b s =
     bnd (holdingsleep (L_bufsleep b) s) (\<lambda>h s.
     if \<not> h then Panic ''brelse''
     else bnd (releasesleep (L_bufsleep b) s) (\<lambda>_ s.
       bnd (acquire L_bcache s) (\<lambda>_ s.
       let s = upd_buf b (\<lambda>q. q\<lparr>b_refcnt := b_refcnt q - 1\<rparr>) s;
           s = (if b_refcnt (bufs s b) = 0 then push_front b (unlink_buf b s) else s)
       in release L_bcache s)))"

definition bpin :: "nat \<Rightarrow> 'z vdst_scheme \<Rightarrow> (unit, 'z vdst_scheme) res" where
  "bpin b s =
     bnd (acquire L_bcache s) (\<lambda>_ s.
     release L_bcache (upd_buf b (\<lambda>q. q\<lparr>b_refcnt := b_refcnt q + 1\<rparr>) s))"

definition bunpin :: "nat \<Rightarrow> 'z vdst_scheme \<Rightarrow> (unit, 'z vdst_scheme) res" where
  "bunpin b s =
     bnd (acquire L_bcache s) (\<lambda>_ s.
     release L_bcache (upd_buf b (\<lambda>q. q\<lparr>b_refcnt := b_refcnt q - 1\<rparr>) s))"

end
