(* ===== verification/Log.thy ===== *)
theory Log
  imports Bio
begin

text \<open>
  The write-ahead log (\<open>kernel/log.c\<close>). The in-memory header \<open>log.lh\<close> has the block numbers as a
  function of the index; a buffer's contents are a list of \<open>BSIZE\<close> bytes, and the header block on
  disk is read and written through 32-bit little-endian fields of it.
\<close>

definition LOGSIZE :: int where "LOGSIZE = 30"
definition MAXOPBLOCKS :: int where "MAXOPBLOCKS = 10"

definition get32 :: "uchar list \<Rightarrow> nat \<Rightarrow> uint" where
  "get32 bs i = ucast (of_bytes (take 4 (drop i bs)))"

definition put :: "uchar list \<Rightarrow> nat \<Rightarrow> uchar list \<Rightarrow> uchar list" where
  "put bs i vs = take i bs @ vs @ drop (i + length vs) bs"

definition put32 :: "uchar list \<Rightarrow> nat \<Rightarrow> uint \<Rightarrow> uchar list" where
  "put32 bs i v = put bs i (bytes_le 4 (ucast v))"

record logheader =
  lh_n :: int
  lh_block :: "nat \<Rightarrow> uint"

record log =
  lg_start :: uint
  lg_size :: int
  lg_outstanding :: int
  lg_committing :: int
  lg_dev :: uint
  lg_lh :: logheader

record superblock =
  sb_magic :: uint
  sb_size :: uint
  sb_nblocks :: uint
  sb_ninodes :: uint
  sb_nlog :: uint
  sb_logstart :: uint
  sb_inodestart :: uint
  sb_bmapstart :: uint

record lgst = vdst +
  log :: log

definition set_n :: "int \<Rightarrow> 'z lgst_scheme \<Rightarrow> 'z lgst_scheme" where
  "set_n k s = s\<lparr>log := (log s)\<lparr>lg_lh := (lg_lh (log s))\<lparr>lh_n := k\<rparr>\<rparr>\<rparr>"

definition set_block :: "nat \<Rightarrow> uint \<Rightarrow> 'z lgst_scheme \<Rightarrow> 'z lgst_scheme" where
  "set_block i v s =
     s\<lparr>log := (log s)\<lparr>lg_lh := (lg_lh (log s))\<lparr>lh_block := (lh_block (lg_lh (log s)))(i := v)\<rparr>\<rparr>\<rparr>"

subsection \<open>Installing, reading and writing the header\<close>

definition install_trans :: "nat \<Rightarrow> 'z lgst_scheme switch \<Rightarrow> bool \<Rightarrow> 'z lgst_scheme \<Rightarrow> (unit, 'z lgst_scheme) res" where
  "install_trans n sw recovering s =
     for_each (\<lambda>tail s.
       bnd (bread n sw (lg_dev (log s)) (lg_start (log s) + of_nat tail + 1) s) (\<lambda>lbuf s.
       bnd (bread n sw (lg_dev (log s)) (lh_block (lg_lh (log s)) tail) s) (\<lambda>dbuf s.
       let s = upd_buf dbuf (\<lambda>q. q\<lparr>b_data := b_data (bufs s lbuf)\<rparr>) s in
       bnd (bwrite n sw dbuf s) (\<lambda>_ s.
       bnd (if \<not> recovering then bunpin dbuf s else Ok () s) (\<lambda>_ s.
       bnd (brelse lbuf s) (\<lambda>_ s.
       brelse dbuf s))))))
     [0..<nat (lh_n (lg_lh (log s)))] s"

definition read_head :: "nat \<Rightarrow> 'z lgst_scheme switch \<Rightarrow> 'z lgst_scheme \<Rightarrow> (unit, 'z lgst_scheme) res" where
  "read_head n sw s =
     bnd (bread n sw (lg_dev (log s)) (lg_start (log s)) s) (\<lambda>b s.
     let lh = b_data (bufs s b);
         s = set_n (sint (get32 lh 0)) s;
         s = fold (\<lambda>i s. set_block i (get32 lh (4 + 4 * i)) s) [0..<nat (lh_n (lg_lh (log s)))] s
     in brelse b s)"

definition write_head :: "nat \<Rightarrow> 'z lgst_scheme switch \<Rightarrow> 'z lgst_scheme \<Rightarrow> (unit, 'z lgst_scheme) res" where
  "write_head n sw s =
     bnd (bread n sw (lg_dev (log s)) (lg_start (log s)) s) (\<lambda>b s.
     let lh = lg_lh (log s);
         s = upd_buf b (\<lambda>q. q\<lparr>b_data := put32 (b_data q) 0 (word_of_int (lh_n lh))\<rparr>) s;
         s = fold (\<lambda>i s. upd_buf b (\<lambda>q. q\<lparr>b_data := put32 (b_data q) (4 + 4 * i) (lh_block lh i)\<rparr>) s)
               [0..<nat (lh_n lh)] s
     in bnd (bwrite n sw b s) (\<lambda>_ s.
        brelse b s))"

definition recover_from_log :: "nat \<Rightarrow> 'z lgst_scheme switch \<Rightarrow> 'z lgst_scheme \<Rightarrow> (unit, 'z lgst_scheme) res" where
  "recover_from_log n sw s =
     bnd (read_head n sw s) (\<lambda>_ s.
     bnd (install_trans n sw True s) (\<lambda>_ s.
     write_head n sw (set_n 0 s)))"

text \<open>
  The header structure, 4 * 31 bytes, is smaller than a block, so the panic of \<open>initlog\<close> is never
  reached.
\<close>

definition initlog :: "nat \<Rightarrow> 'z lgst_scheme switch \<Rightarrow> uint \<Rightarrow> superblock \<Rightarrow> 'z lgst_scheme \<Rightarrow> (unit, 'z lgst_scheme) res" where
  "initlog n sw dev sb s =
     (if 4 * (1 + nat LOGSIZE) \<ge> BSIZE then Panic ''initlog: too big logheader''
      else let s = initlock L_log ''log'' s;
               s = s\<lparr>log := (log s)\<lparr>lg_start := sb_logstart sb, lg_size := sint (sb_nlog sb), lg_dev := dev\<rparr>\<rparr>
           in recover_from_log n sw s)"

subsection \<open>Transactions\<close>

primrec begin_op_loop :: "nat \<Rightarrow> 'z lgst_scheme switch \<Rightarrow> 'z lgst_scheme \<Rightarrow> (unit, 'z lgst_scheme) res" where
  "begin_op_loop 0 sw s = Diverge"
| "begin_op_loop (Suc k) sw s =
     (if lg_committing (log s) \<noteq> 0
      then bnd (sleep sw Ch_log L_log s) (\<lambda>_ s. begin_op_loop k sw s)
      else if lh_n (lg_lh (log s)) + (lg_outstanding (log s) + 1) * MAXOPBLOCKS > LOGSIZE
      then bnd (sleep sw Ch_log L_log s) (\<lambda>_ s. begin_op_loop k sw s)
      else release L_log (s\<lparr>log := (log s)\<lparr>lg_outstanding := lg_outstanding (log s) + 1\<rparr>\<rparr>))"

definition begin_op :: "nat \<Rightarrow> 'z lgst_scheme switch \<Rightarrow> 'z lgst_scheme \<Rightarrow> (unit, 'z lgst_scheme) res" where
  "begin_op n sw s = bnd (acquire L_log s) (\<lambda>_ s. begin_op_loop (Suc n) sw s)"

definition write_log :: "nat \<Rightarrow> 'z lgst_scheme switch \<Rightarrow> 'z lgst_scheme \<Rightarrow> (unit, 'z lgst_scheme) res" where
  "write_log n sw s =
     for_each (\<lambda>tail s.
       bnd (bread n sw (lg_dev (log s)) (lg_start (log s) + of_nat tail + 1) s) (\<lambda>to_b s.
       bnd (bread n sw (lg_dev (log s)) (lh_block (lg_lh (log s)) tail) s) (\<lambda>from_b s.
       let s = upd_buf to_b (\<lambda>q. q\<lparr>b_data := b_data (bufs s from_b)\<rparr>) s in
       bnd (bwrite n sw to_b s) (\<lambda>_ s.
       bnd (brelse from_b s) (\<lambda>_ s.
       brelse to_b s)))))
     [0..<nat (lh_n (lg_lh (log s)))] s"

definition commit :: "nat \<Rightarrow> 'z lgst_scheme switch \<Rightarrow> 'z lgst_scheme \<Rightarrow> (unit, 'z lgst_scheme) res" where
  "commit n sw s =
     (if lh_n (lg_lh (log s)) > 0
      then bnd (write_log n sw s) (\<lambda>_ s.
           bnd (write_head n sw s) (\<lambda>_ s.
           bnd (install_trans n sw False s) (\<lambda>_ s.
           write_head n sw (set_n 0 s))))
      else Ok () s)"

definition end_op :: "nat \<Rightarrow> 'z lgst_scheme switch \<Rightarrow> 'z lgst_scheme \<Rightarrow> (unit, 'z lgst_scheme) res" where
  "end_op n sw s =
     bnd (acquire L_log s) (\<lambda>_ s.
     let s = s\<lparr>log := (log s)\<lparr>lg_outstanding := lg_outstanding (log s) - 1\<rparr>\<rparr> in
     if lg_committing (log s) \<noteq> 0 then Panic ''log.committing''
     else bnd (if lg_outstanding (log s) = 0
               then Ok True (s\<lparr>log := (log s)\<lparr>lg_committing := 1\<rparr>\<rparr>)
               else bnd (wakeup Ch_log s) (\<lambda>_ s. Ok False s)) (\<lambda>do_commit s.
     bnd (release L_log s) (\<lambda>_ s.
     if do_commit
     then bnd (commit n sw s) (\<lambda>_ s.
          bnd (acquire L_log s) (\<lambda>_ s.
          let s = s\<lparr>log := (log s)\<lparr>lg_committing := 0\<rparr>\<rparr> in
          bnd (wakeup Ch_log s) (\<lambda>_ s.
          release L_log s)))
     else Ok () s)))"

text \<open>
  The search for the block stops at the first index that holds it, or at \<open>n\<close>.
\<close>

definition log_write :: "nat \<Rightarrow> 'z lgst_scheme \<Rightarrow> (unit, 'z lgst_scheme) res" where
  "log_write b s =
     bnd (acquire L_log s) (\<lambda>_ s.
     let n = lh_n (lg_lh (log s)) in
     if n \<ge> LOGSIZE \<or> n \<ge> lg_size (log s) - 1 then Panic ''too big a transaction''
     else if lg_outstanding (log s) < 1 then Panic ''log_write outside of trans''
     else let bno = b_blockno (bufs s b);
              i = (case List.find (\<lambda>i. lh_block (lg_lh (log s)) i = bno) [0..<nat n] of
                     Some i \<Rightarrow> i | None \<Rightarrow> nat n);
              s = set_block i bno s
          in bnd (if int i = n then bnd (bpin b s) (\<lambda>_ s. Ok () (set_n (n + 1) s)) else Ok () s) (\<lambda>_ s.
             release L_log s))"

end
