(* ===== verification/Fs.thy ===== *)
theory Fs
  imports Log
begin

text \<open>
  The file system (\<open>kernel/fs.c\<close>, \<open>kernel/fs.h\<close>, \<open>struct inode\<close> of \<open>kernel/file.h\<close>): block
  allocation, the inode table, inode contents, directories and path names. An inode pointer is a
  slot number of \<open>itable\<close>; on-disk inodes and directory entries are byte ranges of a block. The
  bytes that \<open>readi\<close> copies out are returned with its result, for callers that read into a local
  variable; the bytes that \<open>writei\<close> takes from a local variable are passed to it.
  A C string is the list of its characters before the terminating NUL.
\<close>

subsection \<open>Layout\<close>

type_synonym short = "16 word"

definition FSMAGIC :: uint where "FSMAGIC = 0x10203040"
definition ROOTDEV :: uint where "ROOTDEV = 1"
definition ROOTINO :: uint where "ROOTINO = 1"
definition NINODE :: nat where "NINODE = 50"
definition NDIRECT :: nat where "NDIRECT = 12"
definition NINDIRECT :: nat where "NINDIRECT = BSIZE div 4"
definition MAXFILE :: nat where "MAXFILE = NDIRECT + NINDIRECT"
definition IPB :: nat where "IPB = BSIZE div 64"
definition BPB :: nat where "BPB = BSIZE * 8"
definition DIRSIZ :: nat where "DIRSIZ = 14"
definition T_DIR :: short where "T_DIR = 1"
definition T_FILE :: short where "T_FILE = 2"
definition T_DEVICE :: short where "T_DEVICE = 3"

definition IBLOCK :: "uint \<Rightarrow> superblock \<Rightarrow> uint" where
  "IBLOCK i sb = i div of_nat IPB + sb_inodestart sb"

definition BBLOCK :: "uint \<Rightarrow> superblock \<Rightarrow> uint" where
  "BBLOCK b sb = b div of_nat BPB + sb_bmapstart sb"

definition get16 :: "uchar list \<Rightarrow> nat \<Rightarrow> short" where
  "get16 bs i = ucast (of_bytes (take 2 (drop i bs)))"

definition put16 :: "uchar list \<Rightarrow> nat \<Rightarrow> short \<Rightarrow> uchar list" where
  "put16 bs i v = put bs i (bytes_le 2 (ucast v))"

record inode =
  i_dev :: uint
  i_inum :: uint
  i_ref :: int
  i_valid :: int
  i_type :: short
  i_major :: short
  i_minor :: short
  i_nlink :: short
  i_size :: uint
  i_addrs :: "uint list"

record fsst = lgst +
  sb :: superblock
  itable :: "nat \<Rightarrow> inode"

definition upd_ino :: "nat \<Rightarrow> (inode \<Rightarrow> inode) \<Rightarrow> 'z fsst_scheme \<Rightarrow> 'z fsst_scheme" where
  "upd_ino ip f s = s\<lparr>itable := (itable s)(ip := f (itable s ip))\<rparr>"

subsection \<open>Superblock and blocks\<close>

definition superblock_of :: "uchar list \<Rightarrow> superblock" where
  "superblock_of d = \<lparr>sb_magic = get32 d 0, sb_size = get32 d 4, sb_nblocks = get32 d 8, sb_ninodes = get32 d 12,
     sb_nlog = get32 d 16, sb_logstart = get32 d 20, sb_inodestart = get32 d 24, sb_bmapstart = get32 d 28\<rparr>"

definition readsb :: "nat \<Rightarrow> 'z fsst_scheme switch \<Rightarrow> uint \<Rightarrow> 'z fsst_scheme \<Rightarrow> (unit, 'z fsst_scheme) res" where
  "readsb n sw dev s =
     bnd (bread n sw dev 1 s) (\<lambda>bp s.
     brelse bp (s\<lparr>sb := superblock_of (b_data (bufs s bp))\<rparr>))"

definition fsinit :: "nat \<Rightarrow> 'z fsst_scheme switch \<Rightarrow> uint \<Rightarrow> 'z fsst_scheme \<Rightarrow> (unit, 'z fsst_scheme) res" where
  "fsinit n sw dev s =
     bnd (readsb n sw dev s) (\<lambda>_ s.
     if sb_magic (sb s) \<noteq> FSMAGIC then Panic ''invalid file system''
     else initlog n sw dev (sb s) s)"

definition bzero :: "nat \<Rightarrow> 'z fsst_scheme switch \<Rightarrow> uint \<Rightarrow> uint \<Rightarrow> 'z fsst_scheme \<Rightarrow> (unit, 'z fsst_scheme) res" where
  "bzero n sw dev bno s =
     bnd (bread n sw dev bno s) (\<lambda>bp s.
     let s = upd_buf bp (\<lambda>q. q\<lparr>b_data := replicate BSIZE 0\<rparr>) s in
     bnd (log_write bp s) (\<lambda>_ s.
     brelse bp s))"

definition block_bit :: "uchar list \<Rightarrow> nat \<Rightarrow> bool" where
  "block_bit d bi = (d ! (bi div 8) AND push_bit (bi mod 8) 1 \<noteq> 0)"

definition set_block_bit :: "nat \<Rightarrow> uchar list \<Rightarrow> uchar list" where
  "set_block_bit bi d = d[bi div 8 := d ! (bi div 8) OR push_bit (bi mod 8) 1]"

definition clear_block_bit :: "nat \<Rightarrow> uchar list \<Rightarrow> uchar list" where
  "clear_block_bit bi d = d[bi div 8 := d ! (bi div 8) AND NOT (push_bit (bi mod 8) 1)]"

text \<open>
  \<open>balloc\<close> visits the bitmap blocks in order; the list has the first block number of each.
\<close>

primrec balloc_scan :: "nat list \<Rightarrow> nat \<Rightarrow> 'z fsst_scheme switch \<Rightarrow> uint \<Rightarrow> 'z fsst_scheme \<Rightarrow> (uint, 'z fsst_scheme) res" where
  "balloc_scan [] n sw dev s = Ok 0 s"
| "balloc_scan (b # bs) n sw dev s =
     bnd (bread n sw dev (BBLOCK (of_nat b) (sb s)) s) (\<lambda>bp s.
     case List.find (\<lambda>bi. \<not> block_bit (b_data (bufs s bp)) bi)
            [0..<min BPB (unat (sb_size (sb s)) - b)] of
       Some bi \<Rightarrow>
         let s = upd_buf bp (\<lambda>q. q\<lparr>b_data := set_block_bit bi (b_data q)\<rparr>) s in
         bnd (log_write bp s) (\<lambda>_ s.
         bnd (brelse bp s) (\<lambda>_ s.
         bnd (bzero n sw dev (of_nat (b + bi)) s) (\<lambda>_ s.
         Ok (of_nat (b + bi)) s)))
     | None \<Rightarrow> bnd (brelse bp s) (\<lambda>_ s. balloc_scan bs n sw dev s))"

definition balloc :: "nat \<Rightarrow> 'z fsst_scheme switch \<Rightarrow> uint \<Rightarrow> 'z fsst_scheme \<Rightarrow> (uint, 'z fsst_scheme) res" where
  "balloc n sw dev s =
     balloc_scan (map (\<lambda>k. k * BPB) [0..<(unat (sb_size (sb s)) + BPB - 1) div BPB]) n sw dev s"

definition bfree :: "nat \<Rightarrow> 'z fsst_scheme switch \<Rightarrow> uint \<Rightarrow> uint \<Rightarrow> 'z fsst_scheme \<Rightarrow> (unit, 'z fsst_scheme) res" where
  "bfree n sw dev b s =
     bnd (bread n sw dev (BBLOCK b (sb s)) s) (\<lambda>bp s.
     let bi = unat b mod BPB in
     if \<not> block_bit (b_data (bufs s bp)) bi then Panic ''freeing free block''
     else let s = upd_buf bp (\<lambda>q. q\<lparr>b_data := clear_block_bit bi (b_data q)\<rparr>) s in
       bnd (log_write bp s) (\<lambda>_ s.
       brelse bp s))"

subsection \<open>Inodes\<close>

definition iinit :: "'z fsst_scheme \<Rightarrow> 'z fsst_scheme" where
  "iinit s =
     (let s = initlock L_itable ''itable'' s
      in fold (\<lambda>i s. initsleeplock (L_inosleep i) ''inode'' s) [0..<NINODE] s)"

primrec iget_scan :: "nat list \<Rightarrow> nat option \<Rightarrow> uint \<Rightarrow> uint \<Rightarrow> 'z fsst_scheme \<Rightarrow> nat option \<times> nat option" where
  "iget_scan [] emp dev inum s = (None, emp)"
| "iget_scan (ip # ips) emp dev inum s =
     (let q = itable s ip in
      if i_ref q > 0 \<and> i_dev q = dev \<and> i_inum q = inum then (Some ip, emp)
      else iget_scan ips (if emp = None \<and> i_ref q = 0 then Some ip else emp) dev inum s)"

definition iget :: "uint \<Rightarrow> uint \<Rightarrow> 'z fsst_scheme \<Rightarrow> (nat, 'z fsst_scheme) res" where
  "iget dev inum s =
     bnd (acquire L_itable s) (\<lambda>_ s.
     case iget_scan [0..<NINODE] None dev inum s of
       (Some ip, _) \<Rightarrow>
         let s = upd_ino ip (\<lambda>q. q\<lparr>i_ref := i_ref q + 1\<rparr>) s in
         bnd (release L_itable s) (\<lambda>_ s. Ok ip s)
     | (None, None) \<Rightarrow> Panic ''iget: no inodes''
     | (None, Some ip) \<Rightarrow>
         let s = upd_ino ip (\<lambda>q. q\<lparr>i_dev := dev, i_inum := inum, i_ref := 1, i_valid := 0\<rparr>) s in
         bnd (release L_itable s) (\<lambda>_ s. Ok ip s))"

text \<open>\<open>dinode_off\<close> is the offset of an on-disk inode in its block.\<close>

definition dinode_off :: "uint \<Rightarrow> nat" where
  "dinode_off inum = 64 * (unat inum mod IPB)"

primrec ialloc_scan :: "nat list \<Rightarrow> nat \<Rightarrow> 'z fsst_scheme switch \<Rightarrow> uint \<Rightarrow> short \<Rightarrow> 'z fsst_scheme \<Rightarrow> (nat option, 'z fsst_scheme) res" where
  "ialloc_scan [] n sw dev type s = Ok None s"
| "ialloc_scan (inum # inums) n sw dev type s =
     bnd (bread n sw dev (IBLOCK (of_nat inum) (sb s)) s) (\<lambda>bp s.
     let off = dinode_off (of_nat inum) in
     if get16 (b_data (bufs s bp)) off = 0
     then let s = upd_buf bp (\<lambda>q. q\<lparr>b_data := put16 (put (b_data q) off (replicate 64 0)) off type\<rparr>) s in
       bnd (log_write bp s) (\<lambda>_ s.
       bnd (brelse bp s) (\<lambda>_ s.
       bnd (iget dev (of_nat inum) s) (\<lambda>ip s. Ok (Some ip) s)))
     else bnd (brelse bp s) (\<lambda>_ s. ialloc_scan inums n sw dev type s))"

definition ialloc :: "nat \<Rightarrow> 'z fsst_scheme switch \<Rightarrow> uint \<Rightarrow> short \<Rightarrow> 'z fsst_scheme \<Rightarrow> (nat option, 'z fsst_scheme) res" where
  "ialloc n sw dev type s = ialloc_scan [1..<unat (sb_ninodes (sb s))] n sw dev type s"

definition put_dinode :: "inode \<Rightarrow> nat \<Rightarrow> uchar list \<Rightarrow> uchar list" where
  "put_dinode q off d =
     (let d = put16 d off (i_type q);
          d = put16 d (off + 2) (i_major q);
          d = put16 d (off + 4) (i_minor q);
          d = put16 d (off + 6) (i_nlink q);
          d = put32 d (off + 8) (i_size q)
      in put d (off + 12) (concat (map (\<lambda>a. bytes_le 4 (ucast a)) (i_addrs q))))"

definition get_dinode :: "uchar list \<Rightarrow> nat \<Rightarrow> inode \<Rightarrow> inode" where
  "get_dinode d off q = q\<lparr>i_type := get16 d off, i_major := get16 d (off + 2), i_minor := get16 d (off + 4),
     i_nlink := get16 d (off + 6), i_size := get32 d (off + 8),
     i_addrs := map (\<lambda>k. get32 d (off + 12 + 4 * k)) [0..<NDIRECT + 1]\<rparr>"

definition iupdate :: "nat \<Rightarrow> 'z fsst_scheme switch \<Rightarrow> nat \<Rightarrow> 'z fsst_scheme \<Rightarrow> (unit, 'z fsst_scheme) res" where
  "iupdate n sw ip s =
     bnd (bread n sw (i_dev (itable s ip)) (IBLOCK (i_inum (itable s ip)) (sb s)) s) (\<lambda>bp s.
     let s = upd_buf bp (\<lambda>q. q\<lparr>b_data :=
               put_dinode (itable s ip) (dinode_off (i_inum (itable s ip))) (b_data q)\<rparr>) s in
     bnd (log_write bp s) (\<lambda>_ s.
     brelse bp s))"

definition idup :: "nat \<Rightarrow> 'z fsst_scheme \<Rightarrow> (nat, 'z fsst_scheme) res" where
  "idup ip s =
     bnd (acquire L_itable s) (\<lambda>_ s.
     bnd (release L_itable (upd_ino ip (\<lambda>q. q\<lparr>i_ref := i_ref q + 1\<rparr>) s)) (\<lambda>_ s. Ok ip s))"

definition ilock :: "nat \<Rightarrow> 'z fsst_scheme switch \<Rightarrow> nat option \<Rightarrow> 'z fsst_scheme \<Rightarrow> (unit, 'z fsst_scheme) res" where
  "ilock n sw ipo s =
     (case ipo of None \<Rightarrow> Panic ''ilock''
      | Some ip \<Rightarrow>
        if i_ref (itable s ip) < 1 then Panic ''ilock''
        else bnd (acquiresleep n sw (L_inosleep ip) s) (\<lambda>_ s.
          if i_valid (itable s ip) = 0
          then bnd (bread n sw (i_dev (itable s ip)) (IBLOCK (i_inum (itable s ip)) (sb s)) s) (\<lambda>bp s.
            let s = upd_ino ip (get_dinode (b_data (bufs s bp)) (dinode_off (i_inum (itable s ip)))) s in
            bnd (brelse bp s) (\<lambda>_ s.
            let s = upd_ino ip (\<lambda>q. q\<lparr>i_valid := 1\<rparr>) s in
            if i_type (itable s ip) = 0 then Panic ''ilock: no type'' else Ok () s))
          else Ok () s))"

definition iunlock :: "nat option \<Rightarrow> 'z fsst_scheme \<Rightarrow> (unit, 'z fsst_scheme) res" where
  "iunlock ipo s =
     (case ipo of None \<Rightarrow> Panic ''iunlock''
      | Some ip \<Rightarrow>
        bnd (holdingsleep (L_inosleep ip) s) (\<lambda>h s.
        if \<not> h \<or> i_ref (itable s ip) < 1 then Panic ''iunlock''
        else releasesleep (L_inosleep ip) s))"

subsection \<open>Inode contents\<close>

definition bmap :: "nat \<Rightarrow> 'z fsst_scheme switch \<Rightarrow> nat \<Rightarrow> nat \<Rightarrow> 'z fsst_scheme \<Rightarrow> (uint, 'z fsst_scheme) res" where
  "bmap n sw ip bn s =
     (if bn < NDIRECT
      then let addr = i_addrs (itable s ip) ! bn in
        if addr = 0
        then bnd (balloc n sw (i_dev (itable s ip)) s) (\<lambda>addr s.
             if addr = 0 then Ok 0 s
             else Ok addr (upd_ino ip (\<lambda>q. q\<lparr>i_addrs := (i_addrs q)[bn := addr]\<rparr>) s))
        else Ok addr s
      else let bn = bn - NDIRECT in
        if bn < NINDIRECT
        then bnd (let addr = i_addrs (itable s ip) ! NDIRECT in
                  if addr = 0
                  then bnd (balloc n sw (i_dev (itable s ip)) s) (\<lambda>addr s.
                       if addr = 0 then Ok 0 s
                       else Ok addr (upd_ino ip (\<lambda>q. q\<lparr>i_addrs := (i_addrs q)[NDIRECT := addr]\<rparr>) s))
                  else Ok addr s) (\<lambda>ind s.
          if ind = 0 then Ok 0 s
          else bnd (bread n sw (i_dev (itable s ip)) ind s) (\<lambda>bp s.
            let addr = get32 (b_data (bufs s bp)) (4 * bn) in
            bnd (if addr = 0
                 then bnd (balloc n sw (i_dev (itable s ip)) s) (\<lambda>addr s.
                      if addr \<noteq> 0
                      then let s = upd_buf bp (\<lambda>q. q\<lparr>b_data := put32 (b_data q) (4 * bn) addr\<rparr>) s in
                           bnd (log_write bp s) (\<lambda>_ s. Ok addr s)
                      else Ok addr s)
                 else Ok addr s) (\<lambda>addr s.
            bnd (brelse bp s) (\<lambda>_ s. Ok addr s))))
        else Panic ''bmap: out of range'')"

definition itrunc :: "nat \<Rightarrow> 'z fsst_scheme switch \<Rightarrow> nat \<Rightarrow> 'z fsst_scheme \<Rightarrow> (unit, 'z fsst_scheme) res" where
  "itrunc n sw ip s =
     bnd (for_each (\<lambda>i s.
            if i_addrs (itable s ip) ! i \<noteq> 0
            then bnd (bfree n sw (i_dev (itable s ip)) (i_addrs (itable s ip) ! i) s) (\<lambda>_ s.
                 Ok () (upd_ino ip (\<lambda>q. q\<lparr>i_addrs := (i_addrs q)[i := 0]\<rparr>) s))
            else Ok () s) [0..<NDIRECT] s) (\<lambda>_ s.
     bnd (if i_addrs (itable s ip) ! NDIRECT \<noteq> 0
          then bnd (bread n sw (i_dev (itable s ip)) (i_addrs (itable s ip) ! NDIRECT) s) (\<lambda>bp s.
            bnd (for_each (\<lambda>j s.
                   let a = get32 (b_data (bufs s bp)) (4 * j)
                   in if a \<noteq> 0 then bfree n sw (i_dev (itable s ip)) a s else Ok () s) [0..<NINDIRECT] s) (\<lambda>_ s.
            bnd (brelse bp s) (\<lambda>_ s.
            bnd (bfree n sw (i_dev (itable s ip)) (i_addrs (itable s ip) ! NDIRECT) s) (\<lambda>_ s.
            Ok () (upd_ino ip (\<lambda>q. q\<lparr>i_addrs := (i_addrs q)[NDIRECT := 0]\<rparr>) s)))))
          else Ok () s) (\<lambda>_ s.
     iupdate n sw ip (upd_ino ip (\<lambda>q. q\<lparr>i_size := 0\<rparr>) s)))"

definition iput :: "nat \<Rightarrow> 'z fsst_scheme switch \<Rightarrow> nat \<Rightarrow> 'z fsst_scheme \<Rightarrow> (unit, 'z fsst_scheme) res" where
  "iput n sw ip s =
     bnd (acquire L_itable s) (\<lambda>_ s.
     let q = itable s ip in
     bnd (if i_ref q = 1 \<and> i_valid q \<noteq> 0 \<and> i_nlink q = 0
          then bnd (acquiresleep n sw (L_inosleep ip) s) (\<lambda>_ s.
               bnd (release L_itable s) (\<lambda>_ s.
               bnd (itrunc n sw ip s) (\<lambda>_ s.
               bnd (iupdate n sw ip (upd_ino ip (\<lambda>q. q\<lparr>i_type := 0\<rparr>) s)) (\<lambda>_ s.
               let s = upd_ino ip (\<lambda>q. q\<lparr>i_valid := 0\<rparr>) s in
               bnd (releasesleep (L_inosleep ip) s) (\<lambda>_ s.
               acquire L_itable s)))))
          else Ok () s) (\<lambda>_ s.
     release L_itable (upd_ino ip (\<lambda>q. q\<lparr>i_ref := i_ref q - 1\<rparr>) s)))"

definition iunlockput :: "nat \<Rightarrow> 'z fsst_scheme switch \<Rightarrow> nat \<Rightarrow> 'z fsst_scheme \<Rightarrow> (unit, 'z fsst_scheme) res" where
  "iunlockput n sw ip s = bnd (iunlock (Some ip) s) (\<lambda>_ s. iput n sw ip s)"

record stat =
  st_dev :: uint
  st_ino :: uint
  st_type :: short
  st_nlink :: short
  st_size :: uint64

definition stati :: "nat \<Rightarrow> 'z fsst_scheme \<Rightarrow> stat" where
  "stati ip s = (let q = itable s ip in
     \<lparr>st_dev = i_dev q, st_ino = i_inum q, st_type = i_type q, st_nlink = i_nlink q, st_size = ucast (i_size q)\<rparr>)"

fun uadd :: "uaddr \<Rightarrow> nat \<Rightarrow> uaddr" where
  "uadd (User a) k = User (a + of_nat k)"
| "uadd (Kern a) k = Kern (a + of_nat k)"
| "uadd Local k = Local"

lemma block_rest: "0 < BSIZE - unat (off :: uint) mod BSIZE"
  by (simp add: BSIZE_def)

text \<open>
  In the two loops \<open>rest\<close> is \<open>n - tot\<close>, the number of bytes still to copy.
\<close>

function readi_loop :: "nat \<Rightarrow> 'z fsst_scheme switch \<Rightarrow> nat \<Rightarrow> uaddr \<Rightarrow> uint \<Rightarrow> nat \<Rightarrow> nat \<Rightarrow> uchar list \<Rightarrow> 'z fsst_scheme
    \<Rightarrow> (int \<times> uchar list, 'z fsst_scheme) res" where
  "readi_loop n sw ip dst off rest tot acc s =
     (if rest = 0 then Ok (int tot, acc) s
      else bnd (bmap n sw ip (unat off div BSIZE) s) (\<lambda>addr s.
        if addr = 0 then Ok (int tot, acc) s
        else bnd (bread n sw (i_dev (itable s ip)) addr s) (\<lambda>bp s.
          let m = min rest (BSIZE - unat off mod BSIZE);
              src = take m (drop (unat off mod BSIZE) (b_data (bufs s bp))) in
          bnd (either_copyout dst src s) (\<lambda>r s.
          if r = -1 then bnd (brelse bp s) (\<lambda>_ s. Ok (-1, acc) s)
          else bnd (brelse bp s) (\<lambda>_ s.
            readi_loop n sw ip (uadd dst m) (off + of_nat m) (rest - m) (tot + m) (acc @ src) s)))))"
  by pat_completeness auto
termination
  by (relation "measure (\<lambda>(n, sw, ip, dst, off, rest, _). rest)") (use block_rest in \<open>auto simp: min_def\<close>)

declare readi_loop.simps [simp del]

definition readi :: "nat \<Rightarrow> 'z fsst_scheme switch \<Rightarrow> nat \<Rightarrow> uaddr \<Rightarrow> uint \<Rightarrow> uint \<Rightarrow> 'z fsst_scheme
    \<Rightarrow> (int \<times> uchar list, 'z fsst_scheme) res" where
  "readi n sw ip dst off cnt s =
     (let sz = i_size (itable s ip) in
      if off > sz \<or> off + cnt < off then Ok (0, []) s
      else let cnt = (if off + cnt > sz then sz - off else cnt)
           in readi_loop n sw ip dst off (unat cnt) 0 [] s)"

function writei_loop :: "nat \<Rightarrow> 'z fsst_scheme switch \<Rightarrow> nat \<Rightarrow> uaddr \<Rightarrow> uchar list \<Rightarrow> uint \<Rightarrow> nat \<Rightarrow> nat \<Rightarrow> 'z fsst_scheme
    \<Rightarrow> (nat \<times> uint, 'z fsst_scheme) res" where
  "writei_loop n sw ip src loc off rest tot s =
     (if rest = 0 then Ok (tot, off) s
      else bnd (bmap n sw ip (unat off div BSIZE) s) (\<lambda>addr s.
        if addr = 0 then Ok (tot, off) s
        else bnd (bread n sw (i_dev (itable s ip)) addr s) (\<lambda>bp s.
          let m = min rest (BSIZE - unat off mod BSIZE) in
          bnd (either_copyin src loc m s) (\<lambda>(r, bs) s.
          let s = upd_buf bp (\<lambda>q. q\<lparr>b_data := put (b_data q) (unat off mod BSIZE) bs\<rparr>) s in
          if r = -1 then bnd (brelse bp s) (\<lambda>_ s. Ok (tot, off) s)
          else bnd (log_write bp s) (\<lambda>_ s.
            bnd (brelse bp s) (\<lambda>_ s.
            writei_loop n sw ip (uadd src m) (drop m loc) (off + of_nat m) (rest - m) (tot + m) s))))))"
  by pat_completeness auto
termination
  by (relation "measure (\<lambda>(n, sw, ip, src, loc, off, rest, _). rest)") (use block_rest in \<open>auto simp: min_def\<close>)

declare writei_loop.simps [simp del]

definition writei :: "nat \<Rightarrow> 'z fsst_scheme switch \<Rightarrow> nat \<Rightarrow> uaddr \<Rightarrow> uchar list \<Rightarrow> uint \<Rightarrow> uint \<Rightarrow> 'z fsst_scheme
    \<Rightarrow> (int, 'z fsst_scheme) res" where
  "writei n sw ip src loc off cnt s =
     (if off > i_size (itable s ip) \<or> off + cnt < off then Ok (-1) s
      else if off + cnt > of_nat (MAXFILE * BSIZE) then Ok (-1) s
      else bnd (writei_loop n sw ip src loc off (unat cnt) 0 s) (\<lambda>(tot, off) s.
        let s = (if off > i_size (itable s ip) then upd_ino ip (\<lambda>q. q\<lparr>i_size := off\<rparr>) s else s) in
        bnd (iupdate n sw ip s) (\<lambda>_ s. Ok (int tot) s)))"

end
