(* ===== verification/FsDir.thy ===== *)
theory FsDir
  imports Fs
begin

text \<open>
  Directories and path names (the second part of \<open>kernel/fs.c\<close>). A directory is a file of
  16-byte entries: an inode number and a name of at most \<open>DIRSIZ\<close> bytes. Names that live in a
  buffer of the caller are lists of bytes; reading past the end of such a list gives NUL.
\<close>

subsection \<open>Names\<close>

primrec char0 :: "uchar list \<Rightarrow> uchar" where
  "char0 [] = 0"
| "char0 (c # cs) = c"

primrec strncmp_list :: "nat \<Rightarrow> uchar list \<Rightarrow> uchar list \<Rightarrow> int" where
  "strncmp_list 0 p q = 0"
| "strncmp_list (Suc n) p q =
     (if char0 p \<noteq> 0 \<and> char0 p = char0 q then strncmp_list n (tl p) (tl q)
      else int (unat (char0 p)) - int (unat (char0 q)))"

primrec strncpy_list :: "nat \<Rightarrow> uchar list \<Rightarrow> uchar list" where
  "strncpy_list 0 t = []"
| "strncpy_list (Suc n) t = (if char0 t = 0 then replicate (Suc n) 0 else char0 t # strncpy_list n (tl t))"

definition namecmp :: "uchar list \<Rightarrow> uchar list \<Rightarrow> int" where
  "namecmp p q = strncmp_list DIRSIZ p q"

definition de_inum :: "uchar list \<Rightarrow> ushort" where
  "de_inum de = get16 de 0"

definition de_name :: "uchar list \<Rightarrow> uchar list" where
  "de_name de = take DIRSIZ (drop 2 de)"

subsection \<open>Directory entries\<close>

text \<open>
  The loops over a directory visit the offsets 0, 16, 32, ... below its size, which does not
  change meanwhile.
\<close>

definition de_offsets :: "uint \<Rightarrow> uint list" where
  "de_offsets sz = map (\<lambda>k. of_nat (16 * k)) [0..<(unat sz + 15) div 16]"

primrec dirlookup_scan :: "uint list \<Rightarrow> nat \<Rightarrow> 'z fsst_scheme switch \<Rightarrow> nat \<Rightarrow> uchar list \<Rightarrow> 'z fsst_scheme
    \<Rightarrow> ((nat \<times> uint) option, 'z fsst_scheme) res" where
  "dirlookup_scan [] n sw dp name s = Ok None s"
| "dirlookup_scan (off # offs) n sw dp name s =
     bnd (readi n sw dp Local off 16 s) (\<lambda>(r, de) s.
     if r \<noteq> 16 then Panic ''dirlookup read''
     else if de_inum de = 0 then dirlookup_scan offs n sw dp name s
     else if namecmp name (de_name de) = 0
     then bnd (iget (i_dev (itable s dp)) (ucast (de_inum de)) s) (\<lambda>ip s. Ok (Some (ip, off)) s)
     else dirlookup_scan offs n sw dp name s)"

definition dirlookup :: "nat \<Rightarrow> 'z fsst_scheme switch \<Rightarrow> nat \<Rightarrow> uchar list \<Rightarrow> 'z fsst_scheme
    \<Rightarrow> ((nat \<times> uint) option, 'z fsst_scheme) res" where
  "dirlookup n sw dp name s =
     (if i_type (itable s dp) \<noteq> T_DIR then Panic ''dirlookup not DIR''
      else dirlookup_scan (de_offsets (i_size (itable s dp))) n sw dp name s)"

primrec dirlink_scan :: "uint list \<Rightarrow> uint \<Rightarrow> nat \<Rightarrow> 'z fsst_scheme switch \<Rightarrow> nat \<Rightarrow> 'z fsst_scheme
    \<Rightarrow> (uint, 'z fsst_scheme) res" where
  "dirlink_scan [] endoff n sw dp s = Ok endoff s"
| "dirlink_scan (off # offs) endoff n sw dp s =
     bnd (readi n sw dp Local off 16 s) (\<lambda>(r, de) s.
     if r \<noteq> 16 then Panic ''dirlink read''
     else if de_inum de = 0 then Ok off s
     else dirlink_scan offs endoff n sw dp s)"

definition dirlink :: "nat \<Rightarrow> 'z fsst_scheme switch \<Rightarrow> nat \<Rightarrow> uchar list \<Rightarrow> uint \<Rightarrow> 'z fsst_scheme \<Rightarrow> (int, 'z fsst_scheme) res" where
  "dirlink n sw dp name inum s =
     bnd (dirlookup n sw dp name s) (\<lambda>found s.
     case found of
       Some (ip, _) \<Rightarrow> bnd (iput n sw ip s) (\<lambda>_ s. Ok (-1) s)
     | None \<Rightarrow>
       let sz = i_size (itable s dp) in
       bnd (dirlink_scan (de_offsets sz) (of_nat (16 * ((unat sz + 15) div 16))) n sw dp s) (\<lambda>off s.
       let de = bytes_le 2 (ucast inum) @ strncpy_list DIRSIZ name in
       bnd (writei n sw dp Local de off 16 s) (\<lambda>r s.
       if r \<noteq> 16 then Ok (-1) s else Ok 0 s)))"

subsection \<open>Path names\<close>

definition skipelem :: "uchar list \<Rightarrow> uchar list \<Rightarrow> (uchar list \<times> uchar list) option" where
  "skipelem path name =
     (let path = dropWhile (\<lambda>c. c = 0x2f) path in
      if path = [] then None
      else let el = takeWhile (\<lambda>c. c \<noteq> 0x2f) path;
               path = dropWhile (\<lambda>c. c \<noteq> 0x2f) path;
               name = (if length el \<ge> DIRSIZ then take DIRSIZ el
                       else el @ [0] @ drop (length el + 1) name)
           in Some (dropWhile (\<lambda>c. c = 0x2f) path, name))"

lemma skipelem_shorter:
  assumes "skipelem path name = Some (path', name')"
  shows "length path' < length path"
proof -
  define p where "p = dropWhile (\<lambda>c. c = 0x2f) path"
  from assms have ne: "p \<noteq> []" and p': "path' = dropWhile (\<lambda>c. c = 0x2f) (dropWhile (\<lambda>c. c \<noteq> 0x2f) p)"
    unfolding p_def by (auto simp: skipelem_def Let_def split: if_splits)
  from ne obtain c cs where c: "p = c # cs" by (cases p) auto
  moreover from ne have "hd p \<noteq> 0x2f" unfolding p_def by (rule hd_dropWhile)
  ultimately have "length (dropWhile (\<lambda>c. c \<noteq> 0x2f) p) \<le> length cs"
    by (simp add: length_dropWhile_le)
  moreover have "length p \<le> length path" unfolding p_def by (rule length_dropWhile_le)
  moreover have "length path' \<le> length (dropWhile (\<lambda>c. c \<noteq> 0x2f) p)" unfolding p' by (rule length_dropWhile_le)
  ultimately show ?thesis using c by simp
qed

function namex_loop :: "nat \<Rightarrow> 'z fsst_scheme switch \<Rightarrow> uchar list \<Rightarrow> bool \<Rightarrow> uchar list \<Rightarrow> nat \<Rightarrow> 'z fsst_scheme
    \<Rightarrow> (nat option \<times> uchar list, 'z fsst_scheme) res" where
  "namex_loop n sw path nmparent name ip s =
     (case skipelem path name of
        None \<Rightarrow>
          if nmparent then bnd (iput n sw ip s) (\<lambda>_ s. Ok (None, name) s)
          else Ok (Some ip, name) s
      | Some (path', name') \<Rightarrow>
          bnd (ilock n sw (Some ip) s) (\<lambda>_ s.
          if i_type (itable s ip) \<noteq> T_DIR then bnd (iunlockput n sw ip s) (\<lambda>_ s. Ok (None, name') s)
          else if nmparent \<and> path' = [] then bnd (iunlock (Some ip) s) (\<lambda>_ s. Ok (Some ip, name') s)
          else bnd (dirlookup n sw ip name' s) (\<lambda>nxt s.
            case nxt of
              None \<Rightarrow> bnd (iunlockput n sw ip s) (\<lambda>_ s. Ok (None, name') s)
            | Some (ip', _) \<Rightarrow> bnd (iunlockput n sw ip s) (\<lambda>_ s. namex_loop n sw path' nmparent name' ip' s))))"
  by pat_completeness auto
termination
proof (relation "measure (\<lambda>(n, sw, path, _). length path)", goal_cases)
  case (2 n sw path nmparent name ip s x2 path' name')
  then have "skipelem path name = Some (path', name')" by (simp only:)
  then show ?case by (simp only: in_measure prod.case skipelem_shorter)
qed (simp only: wf_measure)

declare namex_loop.simps [simp del]

definition namex :: "nat \<Rightarrow> 'z fsst_scheme switch \<Rightarrow> uchar list \<Rightarrow> bool \<Rightarrow> uchar list \<Rightarrow> 'z fsst_scheme
    \<Rightarrow> (nat option \<times> uchar list, 'z fsst_scheme) res" where
  "namex n sw path nmparent name s =
     bnd (if char0 path = 0x2f then iget ROOTDEV ROOTINO s
          else bnd (curproc s) (\<lambda>p s.
            case p_cwd (procs s p) of Some ip \<Rightarrow> idup ip s | None \<Rightarrow> Panic ''kerneltrap'')) (\<lambda>ip s.
     namex_loop n sw path nmparent name ip s)"

text \<open>The local \<open>name\<close> of \<open>namei\<close> is not initialised; its contents do not reach the result.\<close>

definition namei :: "nat \<Rightarrow> 'z fsst_scheme switch \<Rightarrow> uchar list \<Rightarrow> 'z fsst_scheme \<Rightarrow> (nat option, 'z fsst_scheme) res" where
  "namei n sw path s = bnd (namex n sw path False (replicate DIRSIZ 0) s) (\<lambda>(ip, _) s. Ok ip s)"

definition nameiparent :: "nat \<Rightarrow> 'z fsst_scheme switch \<Rightarrow> uchar list \<Rightarrow> uchar list \<Rightarrow> 'z fsst_scheme
    \<Rightarrow> (nat option \<times> uchar list, 'z fsst_scheme) res" where
  "nameiparent n sw path name s = namex n sw path True name s"

end
