(* ===== verification/Console.thy ===== *)
theory Console
  imports FsDir
begin

text \<open>
  The serial port (\<open>kernel/uart.c\<close>), the console (\<open>kernel/console.c\<close>) and the kernel's \<open>printf\<close>
  (\<open>kernel/printf.c\<close>). The 16550 device is represented by what the driver reads from it and
  writes to it: \<open>u_idle\<close> has the successive answers of the transmitter-idle bit (no more answers
  means not idle), \<open>u_in\<close> the received bytes not read yet, \<open>u_out\<close> the bytes given to the
  transmitter. Waiting for ever on the device is \<open>Spin\<close>. The other control registers, set once by
  \<open>uartinit\<close>, are not represented.
\<close>

subsection \<open>State\<close>

datatype devfun = Consoleread | Consolewrite

record devsw =
  dv_read :: "devfun option"
  dv_write :: "devfun option"

record cons =
  c_buf :: "nat \<Rightarrow> uchar"
  c_r :: uint
  c_w :: uint
  c_e :: uint

record cnst = fsst +
  panicked :: int
  pr_locking :: int
  uart_tx_buf :: "nat \<Rightarrow> uchar"
  uart_tx_w :: uint64
  uart_tx_r :: uint64
  u_idle :: "bool list"
  u_in :: "uchar list"
  u_out :: "uchar list"
  cons :: cons
  devsw :: "nat \<Rightarrow> devsw"

definition UART_TX_BUF_SIZE :: nat where "UART_TX_BUF_SIZE = 32"
definition INPUT_BUF_SIZE :: nat where "INPUT_BUF_SIZE = 128"
definition BACKSPACE :: int where "BACKSPACE = 0x100"
definition CONSOLE :: nat where "CONSOLE = 1"

definition chars :: "string \<Rightarrow> uchar list" where
  "chars = map of_char"

subsection \<open>The serial port\<close>

definition uartinit :: "'z cnst_scheme \<Rightarrow> 'z cnst_scheme" where
  "uartinit s = initlock L_uart_tx ''uart'' s"

definition tx_idle :: "'z cnst_scheme \<Rightarrow> bool \<times> 'z cnst_scheme" where
  "tx_idle s = (case u_idle s of [] \<Rightarrow> (False, s) | b # bs \<Rightarrow> (b, s\<lparr>u_idle := bs\<rparr>))"

primrec uartstart_loop :: "nat \<Rightarrow> 'z cnst_scheme \<Rightarrow> (unit, 'z cnst_scheme) res" where
  "uartstart_loop 0 s = (if uart_tx_w s = uart_tx_r s then Ok () s else Diverge)"
| "uartstart_loop (Suc k) s =
     (if uart_tx_w s = uart_tx_r s then Ok () s
      else case tx_idle s of (idle, s) \<Rightarrow>
        if \<not> idle then Ok () s
        else let c = uart_tx_buf s (unat (uart_tx_r s) mod UART_TX_BUF_SIZE);
                 s = s\<lparr>uart_tx_r := uart_tx_r s + 1\<rparr>
             in bnd (wakeup Ch_uart_tx s) (\<lambda>_ s.
                uartstart_loop k (s\<lparr>u_out := u_out s @ [c]\<rparr>)))"

definition uartstart :: "'z cnst_scheme \<Rightarrow> (unit, 'z cnst_scheme) res" where
  "uartstart s = uartstart_loop (unat (uart_tx_w s - uart_tx_r s)) s"

primrec uartputc_wait :: "nat \<Rightarrow> 'z cnst_scheme switch \<Rightarrow> 'z cnst_scheme \<Rightarrow> (unit, 'z cnst_scheme) res" where
  "uartputc_wait 0 sw s =
     (if uart_tx_w s = uart_tx_r s + of_nat UART_TX_BUF_SIZE then Diverge else Ok () s)"
| "uartputc_wait (Suc n) sw s =
     (if uart_tx_w s = uart_tx_r s + of_nat UART_TX_BUF_SIZE
      then bnd (sleep sw Ch_uart_tx L_uart_tx s) (\<lambda>_ s. uartputc_wait n sw s)
      else Ok () s)"

definition uartputc :: "nat \<Rightarrow> 'z cnst_scheme switch \<Rightarrow> uchar \<Rightarrow> 'z cnst_scheme \<Rightarrow> (unit, 'z cnst_scheme) res" where
  "uartputc n sw c s =
     bnd (acquire L_uart_tx s) (\<lambda>_ s.
     if panicked s \<noteq> 0 then Spin
     else bnd (uartputc_wait n sw s) (\<lambda>_ s.
       let s = s\<lparr>uart_tx_buf := (uart_tx_buf s)(unat (uart_tx_w s) mod UART_TX_BUF_SIZE := c)\<rparr>;
           s = s\<lparr>uart_tx_w := uart_tx_w s + 1\<rparr>
       in bnd (uartstart s) (\<lambda>_ s.
          release L_uart_tx s)))"

text \<open>The polling loop of \<open>uartputc_sync\<close> discards the answers up to the first positive one.\<close>

definition uartputc_sync :: "uchar \<Rightarrow> 'z cnst_scheme \<Rightarrow> (unit, 'z cnst_scheme) res" where
  "uartputc_sync c s =
     (let s = push_off s in
      if panicked s \<noteq> 0 then Spin
      else case dropWhile Not (u_idle s) of
        [] \<Rightarrow> Spin
      | _ # bs \<Rightarrow> pop_off (s\<lparr>u_idle := bs, u_out := u_out s @ [c]\<rparr>))"

definition uartgetc :: "'z cnst_scheme \<Rightarrow> int \<times> 'z cnst_scheme" where
  "uartgetc s = (case u_in s of [] \<Rightarrow> (-1, s) | c # cs \<Rightarrow> (uint c, s\<lparr>u_in := cs\<rparr>))"

subsection \<open>Output\<close>

definition consputc :: "int \<Rightarrow> 'z cnst_scheme \<Rightarrow> (unit, 'z cnst_scheme) res" where
  "consputc c s =
     (if c = BACKSPACE
      then bnd (uartputc_sync 8 s) (\<lambda>_ s. bnd (uartputc_sync 0x20 s) (\<lambda>_ s. uartputc_sync 8 s))
      else uartputc_sync (word_of_int c) s)"

definition digits :: "uchar list" where
  "digits = chars ''0123456789abcdef''"

text \<open>
  The digits of \<open>printint\<close> are generated from the lowest up: \<open>digits_rev b x\<close> is the array \<open>buf\<close>.
\<close>

function digits_rev :: "nat \<Rightarrow> nat \<Rightarrow> uchar list" where
  "digits_rev b x =
     (if b > 1 \<and> x div b \<noteq> 0 then digits ! (x mod b) # digits_rev b (x div b) else [digits ! (x mod b)])"
  by pat_completeness auto
termination
  by (relation "measure snd") (auto intro!: div_less_dividend gr0I)

declare digits_rev.simps [simp del]

definition printint_chars :: "int \<Rightarrow> nat \<Rightarrow> bool \<Rightarrow> uchar list" where
  "printint_chars xx base sign =
     (let neg = sign \<and> xx < 0;
          x = (if neg then - word_of_int xx else word_of_int xx) :: uint
      in rev (digits_rev base (unat x) @ (if neg then chars ''-'' else [])))"

definition printint :: "int \<Rightarrow> nat \<Rightarrow> bool \<Rightarrow> 'z cnst_scheme \<Rightarrow> (unit, 'z cnst_scheme) res" where
  "printint xx base sign s = for_each (\<lambda>c. consputc (uint c)) (printint_chars xx base sign) s"

definition printptr_chars :: "uint64 \<Rightarrow> uchar list" where
  "printptr_chars x = chars ''0x'' @ map (\<lambda>i. digits ! unat (drop_bit 60 (push_bit (4 * i) x))) [0..<16]"

definition printptr :: "uint64 \<Rightarrow> 'z cnst_scheme \<Rightarrow> (unit, 'z cnst_scheme) res" where
  "printptr x s = for_each (\<lambda>c. consputc (uint c)) (printptr_chars x) s"

text \<open>
  The arguments of \<open>printf\<close> are tagged; a call whose arguments do not fit its format has no
  defined behaviour in C and no result here but \<open>Panic\<close>.
\<close>

datatype arg = A_int int | A_ptr uint64 | A_str "uchar list option"

fun printf_loop :: "uchar list \<Rightarrow> arg list \<Rightarrow> 'z cnst_scheme \<Rightarrow> (unit, 'z cnst_scheme) res" where
  "printf_loop [] as s = Ok () s"
| "printf_loop [c] as s = (if c \<noteq> 0x25 then consputc (uint c) s else Ok () s)"
| "printf_loop (c # d # cs) as s =
     (if c \<noteq> 0x25 then bnd (consputc (uint c) s) (\<lambda>_ s. printf_loop (d # cs) as s)
      else if d = 0x64
      then (case as of A_int x # as \<Rightarrow> bnd (printint x 10 True s) (\<lambda>_ s. printf_loop cs as s) | _ \<Rightarrow> Panic ''va_arg'')
      else if d = 0x78
      then (case as of A_int x # as \<Rightarrow> bnd (printint x 16 True s) (\<lambda>_ s. printf_loop cs as s) | _ \<Rightarrow> Panic ''va_arg'')
      else if d = 0x70
      then (case as of A_ptr x # as \<Rightarrow> bnd (printptr x s) (\<lambda>_ s. printf_loop cs as s) | _ \<Rightarrow> Panic ''va_arg'')
      else if d = 0x73
      then (case as of A_str x # as \<Rightarrow>
              bnd (for_each (\<lambda>c. consputc (uint c)) (case x of None \<Rightarrow> chars ''(null)'' | Some t \<Rightarrow> t) s) (\<lambda>_ s.
              printf_loop cs as s)
            | _ \<Rightarrow> Panic ''va_arg'')
      else if d = 0x25 then bnd (consputc 0x25 s) (\<lambda>_ s. printf_loop cs as s)
      else bnd (consputc 0x25 s) (\<lambda>_ s. bnd (consputc (uint d) s) (\<lambda>_ s. printf_loop cs as s)))"

definition printf :: "uchar list option \<Rightarrow> arg list \<Rightarrow> 'z cnst_scheme \<Rightarrow> (unit, 'z cnst_scheme) res" where
  "printf fmt as s =
     (let locking = (pr_locking s \<noteq> 0) in
      bnd (if locking then acquire L_pr s else Ok () s) (\<lambda>_ s.
      case fmt of None \<Rightarrow> Panic ''null fmt''
      | Some f \<Rightarrow>
        bnd (printf_loop f as s) (\<lambda>_ s.
        if locking then release L_pr s else Ok () s)))"

definition printfinit :: "'z cnst_scheme \<Rightarrow> 'z cnst_scheme" where
  "printfinit s = (initlock L_pr ''pr'' s)\<lparr>pr_locking := 1\<rparr>"

fun state_name :: "procstate \<Rightarrow> string" where
  "state_name UNUSED = ''unused''"
| "state_name USED = ''used''"
| "state_name SLEEPING = ''sleep ''"
| "state_name RUNNABLE = ''runble''"
| "state_name RUNNING = ''run   ''"
| "state_name ZOMBIE = ''zombie''"

definition procdump :: "'z cnst_scheme \<Rightarrow> (unit, 'z cnst_scheme) res" where
  "procdump s =
     bnd (printf (Some [10]) [] s) (\<lambda>_ s.
     for_each (\<lambda>p s.
       if p_state (procs s p) = UNUSED then Ok () s
       else bnd (printf (Some (chars ''%d %s %s''))
                   [A_int (p_pid (procs s p)), A_str (Some (chars (state_name (p_state (procs s p))))),
                    A_str (Some (takeWhile (\<lambda>c. c \<noteq> 0) (p_name (procs s p))))] s) (\<lambda>_ s.
            printf (Some [10]) [] s)) [0..<NPROC] s)"

subsection \<open>The console device\<close>

primrec consolewrite_loop :: "nat \<Rightarrow> nat \<Rightarrow> 'z cnst_scheme switch \<Rightarrow> uaddr \<Rightarrow> nat \<Rightarrow> 'z cnst_scheme \<Rightarrow> (int, 'z cnst_scheme) res" where
  "consolewrite_loop 0 n sw src i s = Ok (int i) s"
| "consolewrite_loop (Suc k) n sw src i s =
     bnd (either_copyin (uadd src i) [] 1 s) (\<lambda>(r, bs) s.
     if r = -1 then Ok (int i) s
     else bnd (uartputc n sw (char0 bs) s) (\<lambda>_ s. consolewrite_loop k n sw src (Suc i) s))"

definition consolewrite :: "nat \<Rightarrow> 'z cnst_scheme switch \<Rightarrow> uaddr \<Rightarrow> int \<Rightarrow> 'z cnst_scheme \<Rightarrow> (int, 'z cnst_scheme) res" where
  "consolewrite n sw src cnt s = consolewrite_loop (nat cnt) n sw src 0 s"

definition cons_char :: "cons \<Rightarrow> uint \<Rightarrow> uchar" where
  "cons_char c i = c_buf c (unat i mod INPUT_BUF_SIZE)"

text \<open>\<open>True\<close>: there is input; \<open>False\<close>: the process has been killed.\<close>

primrec consoleread_wait :: "nat \<Rightarrow> 'z cnst_scheme switch \<Rightarrow> 'z cnst_scheme \<Rightarrow> (bool, 'z cnst_scheme) res" where
  "consoleread_wait 0 sw s = (if c_r (cons s) = c_w (cons s) then Diverge else Ok True s)"
| "consoleread_wait (Suc n) sw s =
     (if c_r (cons s) = c_w (cons s)
      then bnd (curproc s) (\<lambda>p s.
           bnd (killed p s) (\<lambda>k s.
           if k \<noteq> 0 then Ok False s
           else bnd (sleep sw Ch_cons_r L_cons s) (\<lambda>_ s. consoleread_wait n sw s)))
      else Ok True s)"

text \<open>
  \<open>left\<close> is the remaining \<open>n\<close> of the source; the result is the final \<open>n\<close>, or nothing when the
  process has been killed.
\<close>

primrec consoleread_loop :: "nat \<Rightarrow> nat \<Rightarrow> nat \<Rightarrow> 'z cnst_scheme switch \<Rightarrow> uaddr \<Rightarrow> 'z cnst_scheme \<Rightarrow> (nat option, 'z cnst_scheme) res" where
  "consoleread_loop 0 target n sw dst s = Ok (Some 0) s"
| "consoleread_loop (Suc left) target n sw dst s =
     bnd (consoleread_wait n sw s) (\<lambda>ok s.
     if \<not> ok then Ok None s
     else let c = cons_char (cons s) (c_r (cons s));
              s = s\<lparr>cons := (cons s)\<lparr>c_r := c_r (cons s) + 1\<rparr>\<rparr>
          in if c = 4
             then Ok (Some (Suc left))
               (if Suc left < target then s\<lparr>cons := (cons s)\<lparr>c_r := c_r (cons s) - 1\<rparr>\<rparr> else s)
             else bnd (either_copyout dst [c] s) (\<lambda>r s.
               if r = -1 then Ok (Some (Suc left)) s
               else if c = 10 then Ok (Some left) s
               else consoleread_loop left target n sw (uadd dst 1) s))"

definition consoleread :: "nat \<Rightarrow> 'z cnst_scheme switch \<Rightarrow> uaddr \<Rightarrow> int \<Rightarrow> 'z cnst_scheme \<Rightarrow> (int, 'z cnst_scheme) res" where
  "consoleread n sw dst cnt s =
     bnd (acquire L_cons s) (\<lambda>_ s.
     bnd (consoleread_loop (nat cnt) (nat cnt) n sw dst s) (\<lambda>r s.
     bnd (release L_cons s) (\<lambda>_ s.
     Ok (case r of None \<Rightarrow> -1 | Some left \<Rightarrow> int (nat cnt) - int left) s)))"

primrec kill_line :: "nat \<Rightarrow> 'z cnst_scheme \<Rightarrow> (unit, 'z cnst_scheme) res" where
  "kill_line 0 s = Ok () s"
| "kill_line (Suc k) s =
     (if c_e (cons s) \<noteq> c_w (cons s) \<and> cons_char (cons s) (c_e (cons s) - 1) \<noteq> 10
      then bnd (consputc BACKSPACE (s\<lparr>cons := (cons s)\<lparr>c_e := c_e (cons s) - 1\<rparr>\<rparr>)) (\<lambda>_ s. kill_line k s)
      else Ok () s)"

definition consoleintr :: "int \<Rightarrow> 'z cnst_scheme \<Rightarrow> (unit, 'z cnst_scheme) res" where
  "consoleintr c s =
     bnd (acquire L_cons s) (\<lambda>_ s.
     bnd (if c = 16 then procdump s
          else if c = 21 then kill_line (unat (c_e (cons s) - c_w (cons s))) s
          else if c = 8 \<or> c = 0x7f
          then (if c_e (cons s) \<noteq> c_w (cons s)
                then consputc BACKSPACE (s\<lparr>cons := (cons s)\<lparr>c_e := c_e (cons s) - 1\<rparr>\<rparr>)
                else Ok () s)
          else if c \<noteq> 0 \<and> c_e (cons s) - c_r (cons s) < of_nat INPUT_BUF_SIZE
          then let c = (if c = 13 then 10 else c) in
            bnd (consputc c s) (\<lambda>_ s.
            let s = s\<lparr>cons := (cons s)\<lparr>c_buf := (c_buf (cons s))(unat (c_e (cons s)) mod INPUT_BUF_SIZE := word_of_int c),
                      c_e := c_e (cons s) + 1\<rparr>\<rparr>
            in if c = 10 \<or> c = 4 \<or> c_e (cons s) - c_r (cons s) = of_nat INPUT_BUF_SIZE
               then wakeup Ch_cons_r (s\<lparr>cons := (cons s)\<lparr>c_w := c_e (cons s)\<rparr>\<rparr>)
               else Ok () s)
          else Ok () s) (\<lambda>_ s.
     release L_cons s))"

definition consoleinit :: "'z cnst_scheme \<Rightarrow> 'z cnst_scheme" where
  "consoleinit s =
     (let s = initlock L_cons ''cons'' s;
          s = uartinit s
      in s\<lparr>devsw := (devsw s)(CONSOLE := \<lparr>dv_read = Some Consoleread, dv_write = Some Consolewrite\<rparr>)\<rparr>)"

text \<open>The loop over the received characters; nothing arrives while it runs.\<close>

primrec uartintr_loop :: "nat \<Rightarrow> 'z cnst_scheme \<Rightarrow> (unit, 'z cnst_scheme) res" where
  "uartintr_loop 0 s = Ok () s"
| "uartintr_loop (Suc k) s =
     (case uartgetc s of (c, s) \<Rightarrow>
        if c = -1 then Ok () s
        else bnd (consoleintr c s) (\<lambda>_ s. uartintr_loop k s))"

definition uartintr :: "'z cnst_scheme \<Rightarrow> (unit, 'z cnst_scheme) res" where
  "uartintr s =
     bnd (uartintr_loop (length (u_in s)) s) (\<lambda>_ s.
     bnd (acquire L_uart_tx s) (\<lambda>_ s.
     bnd (uartstart s) (\<lambda>_ s.
     release L_uart_tx s)))"

end
