(* ===== verification/File.thy ===== *)
theory File
  imports Console
begin

text \<open>
  Open files (\<open>kernel/file.c\<close>, \<open>struct file\<close> of \<open>kernel/file.h\<close>) and pipes (\<open>kernel/pipe.c\<close>). A file
  pointer is a slot number of \<open>ftable\<close>; a pipe is the page that \<open>kalloc\<close> returned for it, and its
  fields are the record at that address in \<open>pipes\<close>. Loops that may sleep carry a bound \<open>n\<close> on
  the number of times they do.
\<close>

subsection \<open>Data\<close>

datatype fdtype = FD_NONE | FD_PIPE | FD_INODE | FD_DEVICE

record open_file =
  f_type :: fdtype
  f_ref :: int
  f_readable :: bool
  f_writable :: bool
  f_pipe :: addr
  f_ip :: "nat option"
  f_off :: uint
  f_major :: short

record pipe =
  pi_data :: "nat \<Rightarrow> uchar"
  pi_nread :: uint
  pi_nwrite :: uint
  pi_readopen :: int
  pi_writeopen :: int

record flst = cnst +
  ftable :: "nat \<Rightarrow> open_file"
  pipes :: "addr \<Rightarrow> pipe"

definition NFILE :: nat where "NFILE = 100"
definition NDEV :: int where "NDEV = 10"
definition PIPESIZE :: nat where "PIPESIZE = 512"

definition upd_file :: "nat \<Rightarrow> (open_file \<Rightarrow> open_file) \<Rightarrow> 'z flst_scheme \<Rightarrow> 'z flst_scheme" where
  "upd_file f g s = s\<lparr>ftable := (ftable s)(f := g (ftable s f))\<rparr>"

definition upd_pipe :: "addr \<Rightarrow> (pipe \<Rightarrow> pipe) \<Rightarrow> 'z flst_scheme \<Rightarrow> 'z flst_scheme" where
  "upd_pipe pi g s = s\<lparr>pipes := (pipes s)(pi := g (pipes s pi))\<rparr>"

subsection \<open>Pipes\<close>

definition pipeclose :: "addr \<Rightarrow> bool \<Rightarrow> 'z flst_scheme \<Rightarrow> (unit, 'z flst_scheme) res" where
  "pipeclose pi writable s =
     bnd (acquire (L_pipe pi) s) (\<lambda>_ s.
     bnd (if writable then wakeup (Ch_nread pi) (upd_pipe pi (\<lambda>q. q\<lparr>pi_writeopen := 0\<rparr>) s)
          else wakeup (Ch_nwrite pi) (upd_pipe pi (\<lambda>q. q\<lparr>pi_readopen := 0\<rparr>) s)) (\<lambda>_ s.
     if pi_readopen (pipes s pi) = 0 \<and> pi_writeopen (pipes s pi) = 0
     then bnd (release (L_pipe pi) s) (\<lambda>_ s. kfree pi s)
     else release (L_pipe pi) s))"

text \<open>
  One iteration of \<open>pipewrite\<close>'s loop writes a byte, sleeps or ends it, so \<open>cnt\<close> plus the number
  of sleeps bounds the iterations. \<open>None\<close> is the early return of -1.
\<close>

primrec pipewrite_loop :: "nat \<Rightarrow> 'z flst_scheme switch \<Rightarrow> addr \<Rightarrow> nat \<Rightarrow> uint64 \<Rightarrow> int \<Rightarrow> int \<Rightarrow> 'z flst_scheme
    \<Rightarrow> (int option, 'z flst_scheme) res" where
  "pipewrite_loop 0 sw pi pr a cnt i s = (if i < cnt then Diverge else Ok (Some i) s)"
| "pipewrite_loop (Suc k) sw pi pr a cnt i s =
     (if i < cnt
      then bnd (if pi_readopen (pipes s pi) = 0 then Ok True s
                else bnd (killed pr s) (\<lambda>kd s. Ok (kd \<noteq> 0) s)) (\<lambda>quit s.
        if quit then bnd (release (L_pipe pi) s) (\<lambda>_ s. Ok None s)
        else if pi_nwrite (pipes s pi) = pi_nread (pipes s pi) + of_nat PIPESIZE
        then bnd (wakeup (Ch_nread pi) s) (\<lambda>_ s.
             bnd (sleep sw (Ch_nwrite pi) (L_pipe pi) s) (\<lambda>_ s.
             pipewrite_loop k sw pi pr a cnt i s))
        else bnd (copyin (p_pagetable (procs s pr)) (a + word_of_int i) 1 s) (\<lambda>(r, ch) s.
          if r = -1 then Ok (Some i) s
          else let s = upd_pipe pi (\<lambda>q. q\<lparr>pi_data := (pi_data q)(unat (pi_nwrite q) mod PIPESIZE := char0 ch),
                                           pi_nwrite := pi_nwrite q + 1\<rparr>) s
               in pipewrite_loop k sw pi pr a cnt (i + 1) s))
      else Ok (Some i) s)"

definition pipewrite :: "nat \<Rightarrow> 'z flst_scheme switch \<Rightarrow> addr \<Rightarrow> uint64 \<Rightarrow> int \<Rightarrow> 'z flst_scheme \<Rightarrow> (int, 'z flst_scheme) res" where
  "pipewrite n sw pi a cnt s =
     bnd (curproc s) (\<lambda>pr s.
     bnd (acquire (L_pipe pi) s) (\<lambda>_ s.
     bnd (pipewrite_loop (nat cnt + n) sw pi pr a cnt 0 s) (\<lambda>r s.
     case r of None \<Rightarrow> Ok (-1) s
     | Some i \<Rightarrow>
       bnd (wakeup (Ch_nread pi) s) (\<lambda>_ s.
       bnd (release (L_pipe pi) s) (\<lambda>_ s. Ok i s)))))"

text \<open>\<open>False\<close>: the process was killed while it waited, and the lock has been released.\<close>

primrec piperead_wait :: "nat \<Rightarrow> 'z flst_scheme switch \<Rightarrow> addr \<Rightarrow> nat \<Rightarrow> 'z flst_scheme \<Rightarrow> (bool, 'z flst_scheme) res" where
  "piperead_wait 0 sw pi pr s =
     (if pi_nread (pipes s pi) = pi_nwrite (pipes s pi) \<and> pi_writeopen (pipes s pi) \<noteq> 0 then Diverge else Ok True s)"
| "piperead_wait (Suc n) sw pi pr s =
     (if pi_nread (pipes s pi) = pi_nwrite (pipes s pi) \<and> pi_writeopen (pipes s pi) \<noteq> 0
      then bnd (killed pr s) (\<lambda>kd s.
           if kd \<noteq> 0 then bnd (release (L_pipe pi) s) (\<lambda>_ s. Ok False s)
           else bnd (sleep sw (Ch_nread pi) (L_pipe pi) s) (\<lambda>_ s. piperead_wait n sw pi pr s))
      else Ok True s)"

primrec piperead_loop :: "nat \<Rightarrow> addr \<Rightarrow> nat \<Rightarrow> uint64 \<Rightarrow> nat \<Rightarrow> 'z flst_scheme \<Rightarrow> (nat, 'z flst_scheme) res" where
  "piperead_loop 0 pi pr a i s = Ok i s"
| "piperead_loop (Suc k) pi pr a i s =
     (if pi_nread (pipes s pi) = pi_nwrite (pipes s pi) then Ok i s
      else let ch = pi_data (pipes s pi) (unat (pi_nread (pipes s pi)) mod PIPESIZE);
               s = upd_pipe pi (\<lambda>q. q\<lparr>pi_nread := pi_nread q + 1\<rparr>) s
           in bnd (copyout (p_pagetable (procs s pr)) (a + of_nat i) [ch] s) (\<lambda>r s.
              if r = -1 then Ok i s else piperead_loop k pi pr a (Suc i) s))"

definition piperead :: "nat \<Rightarrow> 'z flst_scheme switch \<Rightarrow> addr \<Rightarrow> uint64 \<Rightarrow> int \<Rightarrow> 'z flst_scheme \<Rightarrow> (int, 'z flst_scheme) res" where
  "piperead n sw pi a cnt s =
     bnd (curproc s) (\<lambda>pr s.
     bnd (acquire (L_pipe pi) s) (\<lambda>_ s.
     bnd (piperead_wait n sw pi pr s) (\<lambda>ok s.
     if \<not> ok then Ok (-1) s
     else bnd (piperead_loop (nat cnt) pi pr a 0 s) (\<lambda>i s.
       bnd (wakeup (Ch_nwrite pi) s) (\<lambda>_ s.
       bnd (release (L_pipe pi) s) (\<lambda>_ s. Ok (int i) s))))))"

subsection \<open>The file table\<close>

definition fileinit :: "'z flst_scheme \<Rightarrow> 'z flst_scheme" where
  "fileinit s = initlock L_ftable ''ftable'' s"

definition filealloc :: "'z flst_scheme \<Rightarrow> (nat option, 'z flst_scheme) res" where
  "filealloc s =
     bnd (acquire L_ftable s) (\<lambda>_ s.
     case List.find (\<lambda>f. f_ref (ftable s f) = 0) [0..<NFILE] of
       Some f \<Rightarrow> bnd (release L_ftable (upd_file f (\<lambda>q. q\<lparr>f_ref := 1\<rparr>) s)) (\<lambda>_ s. Ok (Some f) s)
     | None \<Rightarrow> bnd (release L_ftable s) (\<lambda>_ s. Ok None s))"

definition filedup :: "nat \<Rightarrow> 'z flst_scheme \<Rightarrow> (nat, 'z flst_scheme) res" where
  "filedup f s =
     bnd (acquire L_ftable s) (\<lambda>_ s.
     if f_ref (ftable s f) < 1 then Panic ''filedup''
     else bnd (release L_ftable (upd_file f (\<lambda>q. q\<lparr>f_ref := f_ref q + 1\<rparr>) s)) (\<lambda>_ s. Ok f s))"

definition deref :: "'a option \<Rightarrow> 's \<Rightarrow> ('a, 's) res" where
  "deref p s = (case p of None \<Rightarrow> Panic ''kerneltrap'' | Some x \<Rightarrow> Ok x s)"

definition fileclose :: "nat \<Rightarrow> 'z flst_scheme switch \<Rightarrow> nat \<Rightarrow> 'z flst_scheme \<Rightarrow> (unit, 'z flst_scheme) res" where
  "fileclose n sw f s =
     bnd (acquire L_ftable s) (\<lambda>_ s.
     if f_ref (ftable s f) < 1 then Panic ''fileclose''
     else let s = upd_file f (\<lambda>q. q\<lparr>f_ref := f_ref q - 1\<rparr>) s in
       if f_ref (ftable s f) > 0 then release L_ftable s
       else let ff = ftable s f;
                s = upd_file f (\<lambda>q. q\<lparr>f_ref := 0, f_type := FD_NONE\<rparr>) s
            in bnd (release L_ftable s) (\<lambda>_ s.
               if f_type ff = FD_PIPE then pipeclose (f_pipe ff) (f_writable ff) s
               else if f_type ff = FD_INODE \<or> f_type ff = FD_DEVICE
               then bnd (begin_op n sw s) (\<lambda>_ s.
                    bnd (deref (f_ip ff) s) (\<lambda>ip s.
                    bnd (iput n sw ip s) (\<lambda>_ s.
                    end_op n sw s)))
               else Ok () s))"

definition pipealloc :: "nat \<Rightarrow> 'z flst_scheme switch \<Rightarrow> 'z flst_scheme \<Rightarrow> ((nat \<times> nat) option, 'z flst_scheme) res" where
  "pipealloc n sw s =
     bnd (filealloc s) (\<lambda>f0 s.
     case f0 of None \<Rightarrow> Ok None s
     | Some f0 \<Rightarrow>
       bnd (filealloc s) (\<lambda>f1 s.
       case f1 of None \<Rightarrow> bnd (fileclose n sw f0 s) (\<lambda>_ s. Ok None s)
       | Some f1 \<Rightarrow>
         bnd (kalloc s) (\<lambda>pi s.
         if pi = 0
         then bnd (fileclose n sw f0 s) (\<lambda>_ s. bnd (fileclose n sw f1 s) (\<lambda>_ s. Ok None s))
         else let s = upd_pipe pi (\<lambda>q. q\<lparr>pi_readopen := 1, pi_writeopen := 1, pi_nwrite := 0, pi_nread := 0\<rparr>) s;
                  s = initlock (L_pipe pi) ''pipe'' s;
                  s = upd_file f0 (\<lambda>q. q\<lparr>f_type := FD_PIPE, f_readable := True, f_writable := False, f_pipe := pi\<rparr>) s;
                  s = upd_file f1 (\<lambda>q. q\<lparr>f_type := FD_PIPE, f_readable := False, f_writable := True, f_pipe := pi\<rparr>) s
              in Ok (Some (f0, f1)) s)))"

text \<open>The layout of \<open>struct stat\<close>: four bytes of padding precede the 64-bit size.\<close>

definition stat_bytes :: "stat \<Rightarrow> uchar list \<Rightarrow> uchar list" where
  "stat_bytes st pad = bytes_le 4 (ucast (st_dev st)) @ bytes_le 4 (ucast (st_ino st)) @
     bytes_le 2 (ucast (st_type st)) @ bytes_le 2 (ucast (st_nlink st)) @ pad @ bytes_le 8 (st_size st)"

definition filestat :: "nat \<Rightarrow> 'z flst_scheme switch \<Rightarrow> uchar list \<Rightarrow> nat \<Rightarrow> uint64 \<Rightarrow> 'z flst_scheme \<Rightarrow> (int, 'z flst_scheme) res" where
  "filestat n sw pad f a s =
     bnd (curproc s) (\<lambda>p s.
     if f_type (ftable s f) = FD_INODE \<or> f_type (ftable s f) = FD_DEVICE
     then bnd (ilock n sw (f_ip (ftable s f)) s) (\<lambda>_ s.
          bnd (deref (f_ip (ftable s f)) s) (\<lambda>ip s.
          let st = stati ip s in
          bnd (iunlock (Some ip) s) (\<lambda>_ s.
          bnd (copyout (p_pagetable (procs s p)) a (stat_bytes st pad) s) (\<lambda>r s.
          if r < 0 then Ok (-1) s else Ok 0 s))))
     else Ok (-1) s)"

definition call_dev :: "nat \<Rightarrow> 'z flst_scheme switch \<Rightarrow> devfun \<Rightarrow> uaddr \<Rightarrow> int \<Rightarrow> 'z flst_scheme \<Rightarrow> (int, 'z flst_scheme) res" where
  "call_dev n sw fn a cnt s =
     (case fn of Consoleread \<Rightarrow> consoleread n sw a cnt s | Consolewrite \<Rightarrow> consolewrite n sw a cnt s)"

definition fileread :: "nat \<Rightarrow> 'z flst_scheme switch \<Rightarrow> nat \<Rightarrow> uint64 \<Rightarrow> int \<Rightarrow> 'z flst_scheme \<Rightarrow> (int, 'z flst_scheme) res" where
  "fileread n sw f a cnt s =
     (if \<not> f_readable (ftable s f) then Ok (-1) s
      else case f_type (ftable s f) of
        FD_PIPE \<Rightarrow> piperead n sw (f_pipe (ftable s f)) a cnt s
      | FD_DEVICE \<Rightarrow>
          (let mj = sint (f_major (ftable s f)) in
           if mj < 0 \<or> mj \<ge> NDEV then Ok (-1) s
           else case dv_read (devsw s (nat mj)) of None \<Rightarrow> Ok (-1) s
             | Some fn \<Rightarrow> call_dev n sw fn (User a) cnt s)
      | FD_INODE \<Rightarrow>
          bnd (ilock n sw (f_ip (ftable s f)) s) (\<lambda>_ s.
          bnd (deref (f_ip (ftable s f)) s) (\<lambda>ip s.
          bnd (readi n sw ip (User a) (f_off (ftable s f)) (word_of_int cnt) s) (\<lambda>(r, _) s.
          let s = (if r > 0 then upd_file f (\<lambda>q. q\<lparr>f_off := f_off q + word_of_int r\<rparr>) s else s) in
          bnd (iunlock (Some ip) s) (\<lambda>_ s. Ok r s))))
      | FD_NONE \<Rightarrow> Panic ''fileread'')"

text \<open>
  \<open>filewrite\<close> writes at most \<open>((MAXOPBLOCKS-1-1-2)/2)*BSIZE\<close> bytes per transaction.
\<close>

definition fw_max :: nat where
  "fw_max = nat ((MAXOPBLOCKS - 1 - 1 - 2) div 2) * BSIZE"

function filewrite_loop :: "nat \<Rightarrow> 'z flst_scheme switch \<Rightarrow> nat \<Rightarrow> uint64 \<Rightarrow> nat \<Rightarrow> nat \<Rightarrow> 'z flst_scheme \<Rightarrow> (nat, 'z flst_scheme) res" where
  "filewrite_loop n sw f a cnt i s =
     (if i < cnt
      then let n1 = min (cnt - i) fw_max in
        bnd (begin_op n sw s) (\<lambda>_ s.
        bnd (ilock n sw (f_ip (ftable s f)) s) (\<lambda>_ s.
        bnd (deref (f_ip (ftable s f)) s) (\<lambda>ip s.
        bnd (writei n sw ip (User (a + of_nat i)) [] (f_off (ftable s f)) (of_nat n1) s) (\<lambda>r s.
        let s = (if r > 0 then upd_file f (\<lambda>q. q\<lparr>f_off := f_off q + word_of_int r\<rparr>) s else s) in
        bnd (iunlock (Some ip) s) (\<lambda>_ s.
        bnd (end_op n sw s) (\<lambda>_ s.
        if r \<noteq> int n1 then Ok i s
        else filewrite_loop n sw f a cnt (i + n1) s))))))
      else Ok i s)"
  by pat_completeness auto
termination
proof (relation "measure (\<lambda>(n, sw, f, a, cnt, i, s). cnt - i)", goal_cases)
  case (2 n sw f a cnt i s n1)
  have "0 < fw_max" by (simp add: fw_max_def MAXOPBLOCKS_def BSIZE_def)
  with 2(1,2) show ?case by (simp only: in_measure prod.case)
qed (simp only: wf_measure)

declare filewrite_loop.simps [simp del]

definition filewrite :: "nat \<Rightarrow> 'z flst_scheme switch \<Rightarrow> nat \<Rightarrow> uint64 \<Rightarrow> int \<Rightarrow> 'z flst_scheme \<Rightarrow> (int, 'z flst_scheme) res" where
  "filewrite n sw f a cnt s =
     (if \<not> f_writable (ftable s f) then Ok (-1) s
      else case f_type (ftable s f) of
        FD_PIPE \<Rightarrow> pipewrite n sw (f_pipe (ftable s f)) a cnt s
      | FD_DEVICE \<Rightarrow>
          (let mj = sint (f_major (ftable s f)) in
           if mj < 0 \<or> mj \<ge> NDEV then Ok (-1) s
           else case dv_write (devsw s (nat mj)) of None \<Rightarrow> Ok (-1) s
             | Some fn \<Rightarrow> call_dev n sw fn (User a) cnt s)
      | FD_INODE \<Rightarrow>
          bnd (filewrite_loop n sw f a (nat cnt) 0 s) (\<lambda>i s.
          Ok (if int i = cnt then cnt else -1) s)
      | FD_NONE \<Rightarrow> Panic ''filewrite'')"

end
