(* ===== verification/RingBuffer.thy ===== *)
theory RingBuffer
  imports File
begin

text \<open>
  The circular buffers of the kernel: the pipe (\<open>kernel/pipe.c\<close>), the transmit buffer of the serial
  port (\<open>kernel/uart.c\<close>) and the input buffer of the console (\<open>kernel/console.c\<close>). All three count
  reads and writes with machine words that are never reduced and index the array by the count
  modulo its size. One locale has the argument that this is a bounded queue, also after the
  counts have wrapped around, which needs the size to divide the range of the counts.
\<close>

locale ring_buffer =
  fixes cap :: nat and capw :: "'w::len word"
  assumes cap_pos: "0 < cap" and cap_dvd: "cap dvd 2 ^ LENGTH('w)" and cap_less: "cap < 2 ^ LENGTH('w)"
    and capw: "capw = of_nat cap"
begin

definition contents :: "(nat \<Rightarrow> 'a) \<Rightarrow> 'w word \<Rightarrow> 'w word \<Rightarrow> 'a list" where
  "contents buf r w = map (\<lambda>i. buf (unat (r + of_nat i) mod cap)) [0..<unat (w - r)]"

lemma length_contents [simp]: "length (contents buf r w) = unat (w - r)"
  by (simp add: contents_def)

lemma contents_same [simp]: "contents buf r r = []"
  by (simp add: contents_def)

lemma empty_iff: "contents buf r w = [] \<longleftrightarrow> r = w"
  by (metis contents_same length_contents list.size(3) right_minus_eq unat_eq_zero)

lemma idx: "unat ((r :: 'w word) + of_nat i) mod cap = (unat r + i) mod cap"
  using cap_dvd by (simp add: unat_word_ariths unat_of_nat mod_mod_cancel mod_simps)

lemma full_iff:
  assumes "unat (w - r) \<le> cap"
  shows "w = r + capw \<longleftrightarrow> unat (w - r) = cap"
proof -
  have "unat capw = cap" using cap_less by (simp add: capw unat_of_nat)
  then have "unat (w - r) = cap \<longleftrightarrow> w - r = capw" by (metis unsigned_word_eqI)
  then show ?thesis by (auto simp: algebra_simps)
qed

lemma push_count: "unat (w - r :: 'w word) < cap \<Longrightarrow> unat (w + 1 - r) = Suc (unat (w - r))"
proof -
  assume "unat (w - r) < cap"
  then have "unat (w - r) + 1 < 2 ^ LENGTH('w)" using cap_less by simp
  then have "unat (w - r + 1) = Suc (unat (w - r))" by (simp add: unat_word_ariths)
  then show ?thesis by (simp add: algebra_simps)
qed

lemma push:
  assumes "unat (w - r) < cap"
  shows "contents (buf(unat w mod cap := c)) r (w + 1) = contents buf r w @ [c]"
proof -
  have w: "unat w mod cap = (unat r + unat (w - r)) mod cap"
    using idx [of r "unat (w - r)"] by simp
  have "(unat r + i) mod cap \<noteq> (unat r + unat (w - r)) mod cap" if "i < unat (w - r)" for i
  proof
    assume "(unat r + i) mod cap = (unat r + unat (w - r)) mod cap"
    then have "cap dvd unat (w - r) - i" using that mod_eq_dvd_iff_nat [of "unat r + i" "unat r + unat (w - r)" cap] by auto
    then show False using that assms by (auto dest: dvd_imp_le)
  qed
  then show ?thesis by (auto simp: contents_def push_count [OF assms] idx w)
qed

lemma pop_count: "r \<noteq> w \<Longrightarrow> unat (w - (r + 1)) = unat (w - r) - 1"
proof -
  assume "r \<noteq> w"
  then have "w - r \<noteq> 0" by simp
  then have "unat (w - r - 1) = unat (w - r) - 1" by (simp add: unat_minus_one)
  then show ?thesis by (simp add: algebra_simps)
qed

lemma pop:
  assumes "r \<noteq> w"
  shows "contents buf r w = buf (unat r mod cap) # contents buf (r + 1) w"
proof -
  have pos: "0 < unat (w - r)" using assms by (simp add: unat_gt_0)
  then have "[0..<unat (w - r)] = 0 # map Suc [0..<unat (w - r) - 1]"
    by (metis Suc_pred' map_Suc_upt upt_conv_Cons)
  then show ?thesis
    using idx [of r "Suc i" for i] idx [of "r + 1" i for i] by (simp add: contents_def pop_count [OF assms] comp_def add.assoc)
qed

end

interpretation pipe: ring_buffer PIPESIZE "512 :: uint"
  by unfold_locales (simp_all add: PIPESIZE_def)

interpretation uart: ring_buffer UART_TX_BUF_SIZE "32 :: uint64"
  by unfold_locales (simp_all add: UART_TX_BUF_SIZE_def)

interpretation cons: ring_buffer INPUT_BUF_SIZE "128 :: uint"
  by unfold_locales (simp_all add: INPUT_BUF_SIZE_def)

end
