(* ===== verification/KernelFrame.thy ===== *)
theory KernelFrame
  imports Bio
begin

text \<open>
  Weakest liberal preconditions of kernel code, and the frame of the process layer: locking,
  sleeping, waking and copying change nothing of the state above \<open>kernel/proc.c\<close>, but for what other
  processes do while the caller sleeps.
\<close>

subsection \<open>Weakest liberal preconditions\<close>

definition wlp :: "('a, 's) res \<Rightarrow> ('a \<Rightarrow> 's \<Rightarrow> bool) \<Rightarrow> bool" where
  "wlp m Q \<longleftrightarrow> (\<forall>r t. m = Ok r t \<longrightarrow> Q r t)"

lemma wlp_simps [simp]:
  "wlp (Ok r t) Q = Q r t" "wlp (Panic e) Q" "wlp Spin Q" "wlp Diverge Q"
  "wlp (bnd m k) Q = wlp m (\<lambda>r t. wlp (k r t) Q)"
  by (cases m; auto simp: wlp_def)+

lemma wlp_mono: "wlp m Q \<Longrightarrow> (\<And>r t. Q r t \<Longrightarrow> R r t) \<Longrightarrow> wlp m R"
  by (auto simp: wlp_def)

lemma wlpD: "wlp m Q \<Longrightarrow> m = Ok r t \<Longrightarrow> Q r t"
  by (simp add: wlp_def)

lemma wlp_for_each:
  assumes "\<And>x s. x \<in> set xs \<Longrightarrow> P s \<Longrightarrow> wlp (f x s) (\<lambda>_. P)" "P s" "\<And>t. P t \<Longrightarrow> Q () t"
  shows "wlp (for_each f xs s) Q"
  using assms(1,2)
proof (induction xs arbitrary: s)
  case (Cons x xs)
  have "wlp (for_each f xs t) Q" if "P t" for t using Cons that by simp
  with Cons.prems show ?case by (auto intro: wlp_mono [of "f x s"])
qed (simp add: assms(3))

subsection \<open>The state above the process layer\<close>

lemma more_frame [simp]:
  "pst.more (hold lk s) = pst.more s" "pst.more (touch s) = pst.more s"
  "pst.more (upd_proc p f s) = pst.more s" "pst.more (upd_mycpu g s) = pst.more s"
  by (simp_all add: hold_def push_off_def mach_defs touch_def upd_proc_def Let_def)

lemma outside_more: "outside t = outside s \<Longrightarrow> pst.more t = pst.more s"
  by (cases s; cases t) (auto simp: outside_def)

lemma myproc_more: "myproc s = Ok r t \<Longrightarrow> pst.more t = pst.more s"
  by (auto simp: myproc_def Let_def bnd_eq_Ok dest!: pop_off_outside outside_more)
    (simp add: push_off_def mach_defs Let_def)

text \<open>
  A predicate of the state above the process layer. Its locale has the rules for the operations of
  the layers below, with the postcondition the rest of the code needs.
\<close>

locale upper_pred =
  fixes P :: "'z pst_scheme \<Rightarrow> bool"
  assumes upper: "pst.more s = pst.more t \<Longrightarrow> P s = P t"
begin

lemma upd [simp]:
  "P (upd_proc p f s) = P s" "P (upd_mycpu g s) = P s" "P (hold lk s) = P s" "P (touch s) = P s"
  "P (s\<lparr>mem := m\<rparr>) = P s"
  by (rule upper, simp)+

lemma wlp_more:
  assumes "\<forall>r t. m = Ok r t \<longrightarrow> pst.more t = pst.more s" "P s" "\<And>r t. P t \<Longrightarrow> Q r t"
  shows "wlp m Q"
  using assms upper by (metis wlp_def)

lemma wlp_lock:
  assumes "P s" "\<And>r t. P t \<Longrightarrow> Q r t"
  shows "wlp (acquire lk s) Q" "wlp (release lk s) Q"
  by (rule wlp_more [OF _ assms]; auto dest: acquire_outside release_outside outside_more)+

lemma wlp_kalloc: "P s \<Longrightarrow> (\<And>r t. P t \<Longrightarrow> Q r t) \<Longrightarrow> wlp (kalloc s) Q"
  by (rule wlp_more) (auto dest: kalloc_outside outside_more)

lemma wlp_kfree: "P s \<Longrightarrow> (\<And>r t. P t \<Longrightarrow> Q r t) \<Longrightarrow> wlp (kfree pa s) Q"
  by (rule wlp_more) (auto dest: kfree_outside outside_more)

lemma wlp_copyout: "P s \<Longrightarrow> (\<And>r t. P t \<Longrightarrow> Q r t) \<Longrightarrow> wlp (copyout pt va src s) Q"
  by (rule wlp_more) (auto dest: copyout_outside outside_more)

lemma wlp_copyin: "P s \<Longrightarrow> (\<And>r t. P t \<Longrightarrow> Q r t) \<Longrightarrow> wlp (copyin pt va n s) Q"
  by (rule wlp_more) (auto dest: copyin_outside outside_more)

lemma wlp_myproc: "P s \<Longrightarrow> (\<And>r t. P t \<Longrightarrow> Q r t) \<Longrightarrow> wlp (myproc s) Q"
  by (rule wlp_more) (auto dest: myproc_more)

lemma wlp_curproc: "P s \<Longrightarrow> (\<And>r t. P t \<Longrightarrow> Q r t) \<Longrightarrow> wlp (curproc s) Q"
  by (auto simp: curproc_def split: option.split intro!: wlp_myproc)

lemma wlp_killed: "P s \<Longrightarrow> (\<And>r t. P t \<Longrightarrow> Q r t) \<Longrightarrow> wlp (killed p s) Q"
  by (auto simp: killed_def intro!: wlp_lock)

lemma wlp_wakeup:
  assumes "P s" "\<And>r t. P t \<Longrightarrow> Q r t"
  shows "wlp (wakeup ch s) Q"
  unfolding wakeup_def by (rule wlp_for_each [where P = P]) (use assms in \<open>auto intro!: wlp_lock wlp_myproc\<close>)

lemma wlp_sleep:
  assumes sw: "\<forall>s u t. sw s = Ok u t \<longrightarrow> P s \<longrightarrow> P t" and "P s" "\<And>r t. P t \<Longrightarrow> Q r t"
  shows "wlp (sleep sw ch lk s) Q"
proof -
  have sw: "wlp (sw u) R" if "P u" "\<And>r t. P t \<Longrightarrow> R r t" for u R
    using sw that by (auto simp: wlp_def)
  show ?thesis
    unfolding sleep_def sched_def
    by (auto simp: Let_def intro!: wlp_lock wlp_curproc sw intro: assms)
qed

lemma wlp_either_copyout: "P s \<Longrightarrow> (\<And>r t. P t \<Longrightarrow> Q r t) \<Longrightarrow> wlp (either_copyout dst src s) Q"
  by (auto simp: either_copyout_def split: uaddr.split intro!: wlp_curproc wlp_copyout)

lemma wlp_either_copyin: "P s \<Longrightarrow> (\<And>r t. P t \<Longrightarrow> Q r t) \<Longrightarrow> wlp (either_copyin src l n s) Q"
  by (auto simp: either_copyin_def split: uaddr.split intro!: wlp_curproc wlp_copyin)

lemmas wlps = wlp_lock wlp_kalloc wlp_kfree wlp_copyout wlp_copyin wlp_myproc wlp_curproc wlp_killed wlp_wakeup
  wlp_either_copyout wlp_either_copyin

end

text \<open>
  A predicate of the state above the sleep locks is also one of the state above the process layer.
\<close>

locale above_sleeplocks =
  fixes P :: "'z slst_scheme \<Rightarrow> bool"
  assumes above: "slst.more s = slst.more t \<Longrightarrow> P s = P t"
begin

lemma sleeplocks_upd [simp]: "P (s\<lparr>sleeplocks := a\<rparr>) = P s"
  by (rule above) simp

end

sublocale above_sleeplocks \<subseteq> upper_pred P
proof
  fix s t :: "'z slst_scheme" assume "pst.more s = pst.more t"
  then have "slst.more s = slst.more t" by (cases s; cases t) simp
  then show "P s = P t" by (rule above)
qed

context above_sleeplocks
begin

lemma wlp_acquiresleep_loop:
  assumes "\<forall>s u t. sw s = Ok u t \<longrightarrow> P s \<longrightarrow> P t"
  shows "P s \<Longrightarrow> (\<And>r t. P t \<Longrightarrow> Q r t) \<Longrightarrow> wlp (acquiresleep_loop n sw lk s) Q"
  by (induction n arbitrary: s) (auto intro!: wlp_sleep [OF assms])

lemma wlp_acquiresleep:
  assumes "\<forall>s u t. sw s = Ok u t \<longrightarrow> P s \<longrightarrow> P t" "P s" "\<And>r t. P t \<Longrightarrow> Q r t"
  shows "wlp (acquiresleep n sw lk s) Q"
  unfolding acquiresleep_def
  by (auto simp: Let_def intro!: wlp_lock wlp_curproc wlp_acquiresleep_loop [OF assms(1)] intro: assms)

lemma wlp_releasesleep: "P s \<Longrightarrow> (\<And>r t. P t \<Longrightarrow> Q r t) \<Longrightarrow> wlp (releasesleep lk s) Q"
  unfolding releasesleep_def by (auto simp: Let_def intro!: wlp_lock wlp_wakeup)

lemma wlp_holdingsleep: "P s \<Longrightarrow> (\<And>r t. P t \<Longrightarrow> Q r t) \<Longrightarrow> wlp (holdingsleep lk s) Q"
  unfolding holdingsleep_def by (auto intro!: wlp_lock wlp_curproc)

lemmas sl_wlps = wlps wlp_releasesleep wlp_holdingsleep

end

subsection \<open>The disk driver\<close>

lemma upd_buf_simps [simp]:
  "bufs (upd_buf b f s) = (bufs s)(b := f (bufs s b))"
  "locks (upd_buf b f s) = locks s" "procs (upd_buf b f s) = procs s" "sleeplocks (upd_buf b f s) = sleeplocks s"
  "hart (upd_buf b f s) = hart s" "cpus (upd_buf b f s) = cpus s" "sie (upd_buf b f s) = sie s"
  "disk (upd_buf b f s) = disk s"
  by (simp_all add: upd_buf_def)

text \<open>
  A predicate that depends neither on the driver's queue nor on the \<open>disk\<close> flags of the buffers.
\<close>

locale above_driver = above_sleeplocks P for P :: "'z vdst_scheme \<Rightarrow> bool" +
  assumes disk_upd [simp]: "P (s\<lparr>disk := d\<rparr>) = P s"
    and b_disk_upd [simp]: "P (upd_buf b (b_disk_update f) s) = P s"
begin

lemma upd_desc [simp]: "P (upd_desc i d s) = P s"
  by (simp add: upd_desc_def)

lemma submit [simp]: "P (submit b wr idx sector s) = P s"
  by (cases idx) (simp add: submit_def Let_def)

lemma wlp_free_desc: "P s \<Longrightarrow> (\<And>r t. P t \<Longrightarrow> Q r t) \<Longrightarrow> wlp (free_desc i s) Q"
  by (auto simp: free_desc_def Let_def intro!: wlp_wakeup)

lemma wlp_free_chain: "P s \<Longrightarrow> (\<And>r t. P t \<Longrightarrow> Q r t) \<Longrightarrow> wlp (free_chain_loop k i s) Q"
  by (induction k arbitrary: i s) (auto simp: Let_def intro!: wlp_free_desc)

lemma alloc_desc: "alloc_desc s = (r, t) \<Longrightarrow> P t = P s"
  by (auto simp: alloc_desc_def split: option.splits)

lemma wlp_alloc3: "P s \<Longrightarrow> (\<And>r t. P t \<Longrightarrow> Q r t) \<Longrightarrow> wlp (alloc3_desc s) Q"
  by (auto simp: alloc3_desc_def alloc_desc split: prod.split option.split intro!: wlp_free_desc)

lemma wlp_alloc3_wait:
  assumes "\<forall>s u t. sw s = Ok u t \<longrightarrow> P s \<longrightarrow> P t"
  shows "P s \<Longrightarrow> (\<And>r t. P t \<Longrightarrow> Q r t) \<Longrightarrow> wlp (alloc3_wait n sw s) Q"
  by (induction n arbitrary: s) (auto split: option.split intro!: wlp_alloc3 wlp_sleep [OF assms])

lemma wlp_disk_wait:
  assumes "\<forall>s u t. sw s = Ok u t \<longrightarrow> P s \<longrightarrow> P t"
  shows "P s \<Longrightarrow> (\<And>r t. P t \<Longrightarrow> Q r t) \<Longrightarrow> wlp (disk_wait n sw b s) Q"
  by (induction n arbitrary: s) (auto intro!: wlp_sleep [OF assms])

lemma wlp_virtio_disk_rw:
  assumes "\<forall>s u t. sw s = Ok u t \<longrightarrow> P s \<longrightarrow> P t" "P s" "\<And>r t. P t \<Longrightarrow> Q r t"
  shows "wlp (virtio_disk_rw n sw b wr s) Q"
  unfolding virtio_disk_rw_def free_chain_def
  by (auto simp: Let_def intro!: wlp_lock wlp_alloc3_wait [OF assms(1)] wlp_disk_wait [OF assms(1)] wlp_free_chain
      intro: assms simp del: free_chain_loop.simps)

lemma wlp_bwrite:
  assumes "\<forall>s u t. sw s = Ok u t \<longrightarrow> P s \<longrightarrow> P t" "P s" "\<And>r t. P t \<Longrightarrow> Q r t"
  shows "wlp (bwrite n sw b s) Q"
  unfolding bwrite_def by (auto intro!: wlp_holdingsleep wlp_virtio_disk_rw [OF assms(1)] intro: assms)

lemma wlp_virtio_intr_loop: "P s \<Longrightarrow> (\<And>r t. P t \<Longrightarrow> Q r t) \<Longrightarrow> wlp (virtio_intr_loop k s) Q"
  by (induction k arbitrary: s) (auto simp: Let_def split: option.split intro!: wlp_wakeup)

lemma wlp_virtio_disk_intr: "P s \<Longrightarrow> (\<And>r t. P t \<Longrightarrow> Q r t) \<Longrightarrow> wlp (virtio_disk_intr s) Q"
  unfolding virtio_disk_intr_def by (auto intro!: wlp_lock wlp_virtio_intr_loop)

end

end
