(* ===== verification/SleeplockSpec.thy ===== *)
theory SleeplockSpec
  imports KernelFrame
begin

text \<open>
  What the sleep-lock operations do when they need not wait (\<open>kernel/sleeplock.c\<close>).
\<close>

lemma touch_held [simp]: "irqs_ok s \<Longrightarrow> touch (hold lk s) = hold lk s"
  by (auto simp: touch_def hold_def push_off_def mach_defs Let_def irq_ok_def)

lemma irqs_ok_hold_upd [simp]:
  "h = hart s \<Longrightarrow> e = sie s \<Longrightarrow> irqs_ok s \<Longrightarrow> irq_ok h (cpus (hold lk s)) (e(h := False))"
  by simp

lemma irq_ok_touch [simp]: "irq_ok h (cpus (touch s)) e = irq_ok h (cpus s) e"
  by (simp add: irq_ok_def)

lemma slots_free_hold [simp]:
  "(\<And>p. lk \<noteq> L_proc p) \<Longrightarrow> slots_free s \<Longrightarrow> slots_free (hold lk s)"
  by (auto simp: slots_free_def)

lemma slots_free_slst [simp]: "slots_free (s\<lparr>sleeplocks := a\<rparr>) = slots_free s"
  by (simp add: slots_free_def)

lemma touch_held_upd [simp]: "irqs_ok s \<Longrightarrow> touch ((hold lk s)\<lparr>procs := a\<rparr>) = (hold lk s)\<lparr>procs := a\<rparr>"
  using touch_held [of s lk] by (simp add: lock_simps)

lemma acquiresleep_loop_free: "sl_locked (sleeplocks s lk) = 0 \<Longrightarrow> acquiresleep_loop n sw lk s = Ok () s"
  by (cases n) simp_all

lemma acquiresleep_eq:
  assumes "irqs_ok s" "lk_free (locks s lk)" "cpu_proc (cpus s (hart s)) = Some p" "sl_locked (sleeplocks s lk) = 0"
  shows "acquiresleep n sw lk s = Ok () (touch (s\<lparr>sleeplocks := (sleeplocks s)(lk := (sleeplocks s lk)
    \<lparr>sl_locked := 1, sl_pid := p_pid (procs s p)\<rparr>)\<rparr>))"
  using assms by (simp add: acquiresleep_def acquire_free acquiresleep_loop_free Let_def curproc_eq lock_simps)

lemma holdingsleep_eq:
  assumes "irqs_ok s" "lk_free (locks s lk)" "cpu_proc (cpus s (hart s)) = Some p"
  shows "holdingsleep lk s =
    Ok (sl_locked (sleeplocks s lk) \<noteq> 0 \<and> sl_pid (sleeplocks s lk) = p_pid (procs s p)) (touch s)"
  using assms by (auto simp: holdingsleep_def acquire_free Let_def curproc_eq lock_simps)

lemma releasesleep_eq:
  assumes "slots_free s" "lk_free (locks s lk)" "\<And>p. lk \<noteq> L_proc p"
  shows "releasesleep lk s = Ok () (touch (s\<lparr>sleeplocks := (sleeplocks s)(lk := (sleeplocks s lk)
      \<lparr>sl_locked := 0, sl_pid := 0\<rparr>),
    procs := (\<lambda>p. if p < NPROC \<and> cpu_proc (cpus s (hart s)) \<noteq> Some p
      then woken (Ch_sleeplock lk) (procs s p) else procs s p)\<rparr>))"
  using assms by (simp add: releasesleep_def acquire_free wakeup_eq Let_def lock_simps slots_free_irqs cong: if_cong)

text \<open>
  C33: A process that takes a free sleep lock holds it: \<open>holdingsleep\<close> answers true for it and false
  for a process with another pid; after \<open>releasesleep\<close> the lock is free again and every process
  asleep on it is runnable.
\<close>

theorem sleeplock_cycle:
  assumes "slots_free s" "lk_free (locks s lk)" "\<forall>p. lk \<noteq> L_proc p" "cpu_proc (cpus s (hart s)) = Some p"
    and "sl_locked (sleeplocks s lk) = 0"
  shows "\<exists>t. acquiresleep n sw lk s = Ok () t \<and> sl_pid (sleeplocks t lk) = p_pid (procs s p) \<and>
    (\<exists>u. holdingsleep lk t = Ok True u) \<and>
    (\<forall>q. p_pid (procs s q) \<noteq> p_pid (procs s p) \<longrightarrow>
       (\<exists>u. holdingsleep lk (t\<lparr>cpus := (cpus t)(hart t := (cpus t (hart t))\<lparr>cpu_proc := Some q\<rparr>)\<rparr>) = Ok False u)) \<and>
    (\<exists>u. releasesleep lk t = Ok () u \<and> sl_locked (sleeplocks u lk) = 0 \<and> locks u = locks s \<and>
       (\<forall>q<NPROC. q \<noteq> p \<longrightarrow> procs u q = woken (Ch_sleeplock lk) (procs s q)))"
proof -
  let ?t = "touch (s\<lparr>sleeplocks := (sleeplocks s)(lk := (sleeplocks s lk)\<lparr>sl_locked := 1, sl_pid := p_pid (procs s p)\<rparr>)\<rparr>)"
  note i = slots_free_irqs [OF assms(1)]
  have a: "acquiresleep n sw lk s = Ok () ?t" using assms i by (intro acquiresleep_eq) auto
  have h: "\<exists>u. holdingsleep lk ?t = Ok True u"
    using assms i by (subst holdingsleep_eq [where p = p]) auto
  have h': "\<exists>u. holdingsleep lk (?t\<lparr>cpus := (cpus ?t)(hart ?t := (cpus ?t (hart ?t))\<lparr>cpu_proc := Some q\<rparr>)\<rparr>) = Ok False u"
    if "p_pid (procs s q) \<noteq> p_pid (procs s p)" for q
    using assms i that by (subst holdingsleep_eq [where p = q]) (auto simp: irq_ok_def)
  have r: "\<exists>u. releasesleep lk ?t = Ok () u \<and> sl_locked (sleeplocks u lk) = 0 \<and> locks u = locks s \<and>
       (\<forall>q<NPROC. q \<noteq> p \<longrightarrow> procs u q = woken (Ch_sleeplock lk) (procs s q))"
    using assms i by (subst releasesleep_eq) auto
  show ?thesis using a h h' r by (intro exI [of _ ?t]) auto
qed

definition boot_slst :: slst where
  "boot_slst = pst.extend (boot_pst\<lparr>cpus := (\<lambda>_. \<lparr>cpu_proc = Some 0, noff = 0, intena = False\<rparr>)\<rparr>)
     (slst.fields (\<lambda>_. \<lparr>sl_locked = 0, sl_name = [], sl_pid = 0\<rparr>))"

lemma boot_slst_simps [simp]:
  "hart boot_slst = 0" "locks boot_slst lk = \<lparr>lk_locked = 0, lk_name = [], lk_cpu = None\<rparr>"
  "procs boot_slst = (\<lambda>_. blank_proc)" "slots_free boot_slst"
  "cpus boot_slst i = \<lparr>cpu_proc = Some 0, noff = 0, intena = False\<rparr>"
  "sleeplocks boot_slst lk = \<lparr>sl_locked = 0, sl_name = [], sl_pid = 0\<rparr>"
  by (simp_all add: boot_slst_def boot_pst_def boot_kst_def boot_mach_def mach.defs kst.defs vst.defs pst.defs slst.defs
      irq_ok_def slots_free_def lk_free_def)

theorem sleeplock_cycle_witness:
  "let s = boot_slst\<lparr>procs := (\<lambda>_. blank_proc)(0 := blank_proc\<lparr>p_pid := 3\<rparr>,
        1 := blank_proc\<lparr>p_pid := 4, p_state := SLEEPING, p_chan := Ch_sleeplock L_ticks\<rparr>)\<rparr>
   in \<exists>t. acquiresleep 0 (Ok ()) L_ticks s = Ok () t \<and> sl_pid (sleeplocks t L_ticks) = 3 \<and>
     (\<exists>u. releasesleep L_ticks t = Ok () u \<and> p_state (procs u 1) = RUNNABLE)"
proof -
  let ?s = "boot_slst\<lparr>procs := (\<lambda>_. blank_proc)(0 := blank_proc\<lparr>p_pid := 3\<rparr>,
        1 := blank_proc\<lparr>p_pid := 4, p_state := SLEEPING, p_chan := Ch_sleeplock L_ticks\<rparr>)\<rparr>"
  have "slots_free ?s" using boot_slst_simps(4) by (simp add: slots_free_def lk_free_def)
  from sleeplock_cycle [OF this, of L_ticks 0 0 "Ok ()"] obtain t u
    where "acquiresleep 0 (Ok ()) L_ticks ?s = Ok () t" "sl_pid (sleeplocks t L_ticks) = 3"
      "releasesleep L_ticks t = Ok () u" "\<forall>q<NPROC. q \<noteq> 0 \<longrightarrow> procs u q = woken (Ch_sleeplock L_ticks) (procs ?s q)"
    by (auto simp: lk_free_def)
  then show ?thesis by (auto simp: Let_def woken_def NPROC_def)
qed

end
