(* ===== verification/BioList.thy ===== *)
theory BioList
  imports SleeplockSpec
begin

text \<open>
  The linked list of buffers represents a list of slots, most recently used first: \<open>binit\<close> builds
  it, \<open>brelse\<close> moves a buffer to its front, and the two scans of \<open>bget\<close> search it forwards and
  backwards.
\<close>

subsection \<open>Representation\<close>

primrec linked :: "(nat \<Rightarrow> buf) \<Rightarrow> nat \<Rightarrow> nat list \<Rightarrow> nat \<Rightarrow> bool" where
  "linked f a [] c \<longleftrightarrow> b_next (f a) = c \<and> b_prev (f c) = a"
| "linked f a (x # xs) c \<longleftrightarrow> b_next (f a) = x \<and> b_prev (f x) = a \<and> linked f x xs c"

definition ring :: "(nat \<Rightarrow> buf) \<Rightarrow> nat list \<Rightarrow> bool" where
  "ring f xs \<longleftrightarrow> distinct xs \<and> NBUF \<notin> set xs \<and> linked f NBUF xs NBUF"

lemma linked_append:
  "linked f a (xs @ y # ys) c \<longleftrightarrow> linked f a xs y \<and> linked f y ys c"
  by (induction xs arbitrary: a) auto

text \<open>
  \<open>linked\<close> depends on the \<open>next\<close> field of the elements but the last and on the \<open>prev\<close> field of those
  but the first.
\<close>

lemma linked_cong:
  assumes "\<And>x. x \<in> set (a # xs) \<Longrightarrow> b_next (g x) = b_next (f x)"
    and "\<And>x. x \<in> set (xs @ [c]) \<Longrightarrow> b_prev (g x) = b_prev (f x)"
  shows "linked g a xs c = linked f a xs c"
  using assms by (induction xs arbitrary: a) auto

lemma linked_last_prev: "linked f a xs c \<Longrightarrow> b_prev (f c) = (if xs = [] then a else last xs)"
  by (induction xs arbitrary: a) auto

lemma linked_first_next: "linked f a xs c \<Longrightarrow> b_next (f a) = (if xs = [] then c else hd xs)"
  by (cases xs) auto

subsection \<open>Unlinking and pushing\<close>

lemma ring_unlink:
  assumes "ring (bufs s) (xs @ b # ys)"
  shows "ring (bufs (unlink_buf b s)) (xs @ ys)"
proof -
  let ?f = "bufs s"
  from assms have d: "distinct (xs @ b # ys)" "NBUF \<notin> set (xs @ b # ys)"
    and l1: "linked ?f NBUF xs b" and l2: "linked ?f b ys NBUF"
    by (auto simp: ring_def linked_append)
  define p where "p = (if xs = [] then NBUF else last xs)"
  define n where "n = (if ys = [] then NBUF else hd ys)"
  have pn: "b_prev (?f b) = p" "b_next (?f b) = n"
    using linked_last_prev [OF l1] linked_first_next [OF l2] by (auto simp: p_def n_def)
  have bn: "b \<noteq> n" "b \<noteq> p" using d by (auto simp: p_def n_def)
  let ?g = "bufs (unlink_buf b s)"
  have g: "b_next (?g x) = (if x = p then n else b_next (?f x))" "b_prev (?g x) = (if x = n then p else b_prev (?f x))"
    for x
    using pn bn by (auto simp: unlink_buf_def Let_def)
  have rest: "linked ?g p ys NBUF"
  proof (cases ys)
    case Nil
    then show ?thesis using g [of p] g [of NBUF] bn d by (simp add: n_def)
  next
    case (Cons y zs)
    have "p \<notin> set ys" using d last_in_set [of xs] by (auto simp: p_def simp del: last_in_set)
    then have "linked ?g y zs NBUF = linked ?f y zs NBUF"
      using d Cons by (intro linked_cong) (auto simp: g n_def)
    then show ?thesis using l2 Cons g [of p] g [of y] bn d by (simp add: n_def)
  qed
  have "linked ?g NBUF (xs @ ys) NBUF"
  proof (cases xs rule: rev_cases)
    case Nil
    with rest show ?thesis by (simp add: p_def)
  next
    case (snoc zs z)
    with d have "linked ?g NBUF zs z = linked ?f NBUF zs z"
      by (intro linked_cong) (auto simp: g p_def n_def)
    with rest l1 snoc show ?thesis by (simp add: linked_append p_def)
  qed
  with d show ?thesis by (auto simp: ring_def)
qed

lemma ring_push_front:
  assumes "ring (bufs s) xs" "b \<notin> set xs" "b \<noteq> NBUF"
  shows "ring (bufs (push_front b s)) (b # xs)"
proof -
  let ?f = "bufs s" and ?g = "bufs (push_front b s)"
  define n where "n = b_next (?f NBUF)"
  from assms(1) have d: "distinct xs" "NBUF \<notin> set xs" and l: "linked ?f NBUF xs NBUF" by (auto simp: ring_def)
  have n: "n = (if xs = [] then NBUF else hd xs)" using linked_first_next [OF l] by (simp add: n_def)
  have bn: "b \<noteq> n" using assms(2,3) n by (auto split: if_splits)
  have g: "b_next (?g x) = (if x = NBUF then b else if x = b then n else b_next (?f x))"
    "b_prev (?g x) = (if x = n then b else if x = b then NBUF else b_prev (?f x))" for x
    using bn assms(3) by (auto simp: push_front_def Let_def n_def)
  have "linked ?g b xs NBUF"
  proof (cases xs)
    case Nil
    then show ?thesis using bn assms(3) n by (simp add: g)
  next
    case (Cons y zs)
    then have "linked ?g y zs NBUF = linked ?f y zs NBUF"
      using d assms(2,3) n by (intro linked_cong) (auto simp: g)
    then show ?thesis using l Cons bn assms(3) n by (simp add: g)
  qed
  then show ?thesis using d assms(2,3) bn by (simp add: ring_def g)
qed

lemma ring_move_front:
  assumes "ring (bufs s) xs" "b \<in> set xs"
  shows "ring (bufs (push_front b (unlink_buf b s))) (b # remove1 b xs)"
proof -
  from split_list [OF assms(2)] obtain ys zs where x: "xs = ys @ b # zs" by blast
  with assms(1) have d: "distinct xs" "NBUF \<notin> set xs" by (simp_all add: ring_def)
  then have r: "remove1 b xs = ys @ zs" using x by (simp add: remove1_append)
  have "ring (bufs (unlink_buf b s)) (ys @ zs)" using assms(1) x by (intro ring_unlink) simp
  then show ?thesis using d x unfolding r by (intro ring_push_front) auto
qed


lemma initlock_bufs [simp]: "bufs (initsleeplock lk nm s) = bufs s" "bufs (initlock lk nm s) = bufs s"
  by (simp_all add: initsleeplock_def initlock_def Let_def)

lemma binit_one_bufs: "b \<noteq> NBUF \<Longrightarrow> bufs (binit_one b s) = bufs (push_front b s)"
  by (simp add: binit_one_def push_front_def Let_def)

lemma ring_binit_fold:
  "ring (bufs s) xs \<Longrightarrow> m \<le> NBUF \<Longrightarrow> set xs = {..<k} \<Longrightarrow> k \<le> m \<Longrightarrow>
    ring (bufs (fold binit_one [k..<m] s)) (rev [k..<m] @ xs)"
proof (induction m)
  case (Suc m)
  show ?case
  proof (cases "k \<le> m")
    case True
    with Suc have "ring (bufs (fold binit_one [k..<m] s)) (rev [k..<m] @ xs)" by simp
    with Suc.prems(2,3) True show ?thesis by (simp add: binit_one_bufs) (rule ring_push_front, auto)
  qed (use Suc in \<open>simp add: le_Suc_eq\<close>)
qed simp

text \<open>After \<open>binit\<close> the list has every slot, the last one first.\<close>

lemma ring_binit: "ring (bufs (binit s)) (rev [0..<NBUF])"
proof -
  let ?s = "upd_buf NBUF (\<lambda>q. q\<lparr>b_prev := NBUF, b_next := NBUF\<rparr>) (initlock L_bcache ''bcache'' s)"
  have "ring (bufs ?s) []" by (simp add: ring_def)
  from ring_binit_fold [OF this, of NBUF 0] show ?thesis by (simp add: binit_def Let_def)
qed

subsection \<open>The scans of bget\<close>

lemma bget_cached_find:
  assumes "linked (bufs s) a xs NBUF" "NBUF \<notin> set xs" "length xs < k"
  shows "bget_cached k (b_next (bufs s a)) dev bno s =
    Ok (List.find (\<lambda>b. b_dev (bufs s b) = dev \<and> b_blockno (bufs s b) = bno) xs) s"
  using assms
proof (induction xs arbitrary: a k)
  case Nil
  then show ?case by (cases k) auto
next
  case (Cons x xs)
  from Cons.prems(3) obtain j where "k = Suc j" by (cases k) auto
  with Cons.prems Cons.IH [of x j] show ?case by auto
qed

lemma linked_rev_scan:
  assumes "linked (bufs s) a xs c" "a = NBUF" "NBUF \<notin> set xs" "length xs < k"
  shows "bget_unused k (b_prev (bufs s c)) s = Ok (List.find (\<lambda>b. b_refcnt (bufs s b) = 0) (rev xs)) s"
  using assms
proof (induction xs arbitrary: c k rule: rev_induct)
  case Nil
  then show ?case by (cases k) auto
next
  case (snoc x xs)
  from snoc.prems(4) obtain j where "k = Suc j" by (cases k) auto
  moreover have "linked (bufs s) a xs x" "b_prev (bufs s c) = x" using snoc.prems(1) by (simp_all add: linked_append)
  ultimately show ?case using snoc.prems snoc.IH [of x j] by auto
qed

lemma ring_length: "ring f xs \<Longrightarrow> set xs = {..<NBUF} \<Longrightarrow> length xs = NBUF"
  using distinct_card [of xs] by (simp add: ring_def)

lemma bget_scans:
  assumes "ring (bufs s) xs" "set xs = {..<NBUF}"
  shows "bget_cached (Suc NBUF) (b_next (bufs s NBUF)) dev bno s =
      Ok (List.find (\<lambda>b. b_dev (bufs s b) = dev \<and> b_blockno (bufs s b) = bno) xs) s"
    and "bget_unused (Suc NBUF) (b_prev (bufs s NBUF)) s = Ok (List.find (\<lambda>b. b_refcnt (bufs s b) = 0) (rev xs)) s"
proof -
  note len = ring_length [OF assms]
  show "bget_cached (Suc NBUF) (b_next (bufs s NBUF)) dev bno s =
      Ok (List.find (\<lambda>b. b_dev (bufs s b) = dev \<and> b_blockno (bufs s b) = bno) xs) s"
    using assms len by (intro bget_cached_find) (auto simp: ring_def)
  show "bget_unused (Suc NBUF) (b_prev (bufs s NBUF)) s = Ok (List.find (\<lambda>b. b_refcnt (bufs s b) = 0) (rev xs)) s"
    using assms len by (intro linked_rev_scan) (auto simp: ring_def)
qed

subsection \<open>The invariant of the cache\<close>

text \<open>
  Every slot is on the list once, and no two slots hold the same block of a real device (device 0 marks
  a buffer never used).
\<close>

definition bcache_inv :: "'z vdst_scheme \<Rightarrow> bool" where
  "bcache_inv s \<longleftrightarrow> (\<exists>xs. ring (bufs s) xs \<and> set xs = {..<NBUF}) \<and>
     (\<forall>a<NBUF. \<forall>b<NBUF. b_dev (bufs s a) = b_dev (bufs s b) \<longrightarrow> b_dev (bufs s a) \<noteq> 0 \<longrightarrow>
        b_blockno (bufs s a) = b_blockno (bufs s b) \<longrightarrow> a = b)"

lemma above_bufs: "slst.more s = slst.more t \<Longrightarrow> bufs s = bufs t"
  by (cases s; cases t) simp

lemma bcache_inv_frame:
  assumes "\<And>b. b_next (bufs t b) = b_next (bufs s b)" "\<And>b. b_prev (bufs t b) = b_prev (bufs s b)"
    "\<And>b. b_dev (bufs t b) = b_dev (bufs s b)" "\<And>b. b_blockno (bufs t b) = b_blockno (bufs s b)"
  shows "bcache_inv t = bcache_inv s"
proof -
  have "linked (bufs t) NBUF xs NBUF = linked (bufs s) NBUF xs NBUF" for xs
    by (rule linked_cong) (simp_all add: assms(1,2))
  then have "ring (bufs t) xs = ring (bufs s) xs" for xs
    by (simp add: ring_def)
  then show ?thesis by (simp add: bcache_inv_def assms(3,4))
qed

interpretation bc: above_driver "bcache_inv :: 'z vdst_scheme \<Rightarrow> bool"
proof
  fix s t :: "'z vdst_scheme" assume "slst.more s = slst.more t"
  then have "bufs s = bufs t" by (rule above_bufs)
  then show "bcache_inv s = bcache_inv t" by (intro bcache_inv_frame) simp_all
qed (rule bcache_inv_frame; simp)+

lemma bcache_inv_upd [simp]:
  "(\<And>q. b_next (f q) = b_next q) \<Longrightarrow> (\<And>q. b_prev (f q) = b_prev q) \<Longrightarrow> (\<And>q. b_dev (f q) = b_dev q) \<Longrightarrow>
    (\<And>q. b_blockno (f q) = b_blockno q) \<Longrightarrow> bcache_inv (upd_buf b f s) = bcache_inv s"
  by (rule bcache_inv_frame; simp)

lemma relink_ident:
  "b_dev (bufs (push_front b s) x) = b_dev (bufs s x)" "b_blockno (bufs (push_front b s) x) = b_blockno (bufs s x)"
  "b_dev (bufs (unlink_buf b s) x) = b_dev (bufs s x)" "b_blockno (bufs (unlink_buf b s) x) = b_blockno (bufs s x)"
  by (simp_all add: push_front_def unlink_buf_def Let_def)

lemma bcache_inv_move_front:
  assumes "bcache_inv s" "b < NBUF"
  shows "bcache_inv (push_front b (unlink_buf b s))"
proof -
  from assms(1) obtain xs where r: "ring (bufs s) xs" and x: "set xs = {..<NBUF}" by (auto simp: bcache_inv_def)
  have "ring (bufs (push_front b (unlink_buf b s))) (b # remove1 b xs)" using r x assms(2) by (intro ring_move_front) auto
  moreover have "set (b # remove1 b xs) = {..<NBUF}" using r x assms(2) by (auto simp: ring_def)
  ultimately have "\<exists>xs. ring (bufs (push_front b (unlink_buf b s))) xs \<and> set xs = {..<NBUF}" by blast
  then show ?thesis using assms(1) by (simp add: bcache_inv_def relink_ident)
qed

lemma bcache_inv_recycle:
  assumes "bcache_inv s" "b < NBUF" "\<forall>a<NBUF. \<not> (b_dev (bufs s a) = dev \<and> b_blockno (bufs s a) = bno)"
  shows "bcache_inv (upd_buf b (\<lambda>q. q\<lparr>b_dev := dev, b_blockno := bno, b_valid := v, b_refcnt := r\<rparr>) s)" (is "bcache_inv ?t")
proof -
  from assms(1) obtain xs where r: "ring (bufs s) xs" and x: "set xs = {..<NBUF}" by (auto simp: bcache_inv_def)
  have "linked (bufs ?t) NBUF xs NBUF = linked (bufs s) NBUF xs NBUF" by (rule linked_cong) simp_all
  with r x have "\<exists>xs. ring (bufs ?t) xs \<and> set xs = {..<NBUF}" by (auto simp: ring_def)
  then show ?thesis using assms by (auto simp: bcache_inv_def)
qed

lemma wlp_bget:
  assumes sw: "\<forall>s u t. sw s = Ok u t \<longrightarrow> bcache_inv s \<longrightarrow> bcache_inv t" and "bcache_inv s"
    and Q: "\<And>r t. bcache_inv t \<Longrightarrow> r < NBUF \<Longrightarrow> Q r t"
  shows "wlp (bget n sw dev bno s) Q"
  unfolding bget_def wlp_simps
proof (rule bc.wlp_lock [OF assms(2)])
  fix u :: "'a vdst_scheme" assume i: "bcache_inv u"
  then obtain xs where r: "ring (bufs u) xs" and x: "set xs = {..<NBUF}" by (auto simp: bcache_inv_def)
  let ?f = "List.find (\<lambda>b. b_dev (bufs u b) = dev \<and> b_blockno (bufs u b) = bno) xs"
  let ?g = "List.find (\<lambda>b. b_refcnt (bufs u b) = 0) (rev xs)"
  have hit: "b < NBUF" if "?f = Some b" for b
    using that x by (auto simp: find_Some_iff dest: nth_mem)
  have miss: "\<forall>a<NBUF. \<not> (b_dev (bufs u a) = dev \<and> b_blockno (bufs u a) = bno)" if "?f = None"
    using that x by (auto simp: find_None_iff)
  have new: "b < NBUF" if "?g = Some b" for b
    using that x by (metis find_Some_iff lessThan_iff nth_mem set_rev)
  show "wlp (bget_cached (Suc NBUF) (b_next (bufs u NBUF)) dev bno u)
        (\<lambda>r s. wlp (case r of Some b \<Rightarrow> let s = upd_buf b (\<lambda>q. q\<lparr>b_refcnt := b_refcnt q + 1\<rparr>) s in
             bnd (release L_bcache s) (\<lambda>_ s. bnd (acquiresleep n sw (L_bufsleep b) s) (\<lambda>_ s. Ok b s))
         | None \<Rightarrow> bnd (bget_unused (Suc NBUF) (b_prev (bufs s NBUF)) s) (\<lambda>r s. case r of Some b \<Rightarrow>
             let s = upd_buf b (\<lambda>q. q\<lparr>b_dev := dev, b_blockno := bno, b_valid := 0, b_refcnt := 1\<rparr>) s in
             bnd (release L_bcache s) (\<lambda>_ s. bnd (acquiresleep n sw (L_bufsleep b) s) (\<lambda>_ s. Ok b s))
           | None \<Rightarrow> Panic ''bget: no buffers'')) Q)"
    unfolding bget_scans [OF r x]
    using i by (auto simp: Let_def bget_scans(2) [OF r x] hit new simp del: bget_unused.simps split: option.split
        intro!: bc.wlp_lock bc.wlp_acquiresleep [OF sw] Q bcache_inv_recycle miss)
qed

lemma wlp_brelse:
  assumes "bcache_inv s" "b < NBUF" "\<And>r t. bcache_inv t \<Longrightarrow> Q r t"
  shows "wlp (brelse b s) Q"
  unfolding brelse_def using assms
  by (auto simp: Let_def intro!: bc.sl_wlps bcache_inv_move_front)

lemma wlp_bread:
  assumes sw: "\<forall>s u t. sw s = Ok u t \<longrightarrow> bcache_inv s \<longrightarrow> bcache_inv t" and "bcache_inv s"
    and Q: "\<And>r t. bcache_inv t \<Longrightarrow> r < NBUF \<Longrightarrow> Q r t"
  shows "wlp (bread n sw dev bno s) Q"
  unfolding bread_def wlp_simps
  by (rule wlp_bget [OF assms(1,2)]) (auto intro!: bc.wlp_virtio_disk_rw [OF sw] Q)

lemma wlp_bpin:
  assumes "bcache_inv s" "\<And>r t. bcache_inv t \<Longrightarrow> Q r t"
  shows "wlp (bpin b s) Q" "wlp (bunpin b s) Q"
  unfolding bpin_def bunpin_def using assms by (auto intro!: bc.wlps)

subsection \<open>Properties\<close>

text \<open>
  C9: The buffer cache never has two buffers for one block: if the invariant holds and what other
  processes do keeps it, then every operation of the cache and the disk interrupt keep it, and
  \<open>bget\<close> and \<open>bread\<close> return a slot of the cache.
\<close>

theorem bcache_operations_keep_invariant:
  assumes "\<forall>s u t. sw s = Ok u t \<longrightarrow> bcache_inv s \<longrightarrow> bcache_inv t" "bcache_inv s"
  shows "(\<forall>b t. bget n sw dev bno s = Ok b t \<longrightarrow> bcache_inv t \<and> b < NBUF) \<and>
    (\<forall>b t. bread n sw dev bno s = Ok b t \<longrightarrow> bcache_inv t \<and> b < NBUF) \<and>
    (\<forall>b u t. bwrite n sw b s = Ok u t \<longrightarrow> bcache_inv t) \<and>
    (\<forall>b u t. b < NBUF \<longrightarrow> brelse b s = Ok u t \<longrightarrow> bcache_inv t) \<and>
    (\<forall>b u t. bpin b s = Ok u t \<longrightarrow> bcache_inv t) \<and> (\<forall>b u t. bunpin b s = Ok u t \<longrightarrow> bcache_inv t) \<and>
    (\<forall>u t. virtio_disk_intr s = Ok u t \<longrightarrow> bcache_inv t)"
proof -
  have "wlp (bget n sw dev bno s) (\<lambda>b t. bcache_inv t \<and> b < NBUF)" by (rule wlp_bget [OF assms]) simp
  moreover have "wlp (bread n sw dev bno s) (\<lambda>b t. bcache_inv t \<and> b < NBUF)" by (rule wlp_bread [OF assms]) simp
  moreover have "wlp (bwrite n sw b s) (\<lambda>_ t. bcache_inv t)" for b by (rule bc.wlp_bwrite [OF assms])
  moreover have "wlp (brelse b s) (\<lambda>_ t. bcache_inv t)" if "b < NBUF" for b by (rule wlp_brelse [OF assms(2) that])
  moreover have "wlp (bpin b s) (\<lambda>_ t. bcache_inv t)" "wlp (bunpin b s) (\<lambda>_ t. bcache_inv t)" for b
    by (rule wlp_bpin [OF assms(2)], assumption)+
  moreover have "wlp (virtio_disk_intr s) (\<lambda>_ t. bcache_inv t)" by (rule bc.wlp_virtio_disk_intr [OF assms(2)])
  ultimately show ?thesis by (auto simp: wlp_def)
qed

lemma bcache_inv_binit:
  assumes "\<forall>b<NBUF. b_dev (bufs s b) = 0"
  shows "bcache_inv (binit s)"
proof -
  have dev: "b_dev (bufs (fold binit_one bs u) x) = b_dev (bufs u x)" if "NBUF \<notin> set bs" for bs x and u :: "'a vdst_scheme"
    using that by (induction bs arbitrary: u) (auto simp: binit_one_bufs relink_ident)
  have "\<forall>b<NBUF. b_dev (bufs (binit s) b) = 0"
    using assms by (simp add: binit_def Let_def dev)
  moreover have "set (rev [0..<NBUF]) = {..<NBUF}" by auto
  ultimately show ?thesis using ring_binit [of s] unfolding bcache_inv_def by (metis (no_types, lifting))
qed

text \<open>
  C32: \<open>binit\<close> builds the list of all buffers, each exactly once, and establishes the invariant of
  the cache when no buffer has been used yet.
\<close>

theorem binit_establishes_invariant:
  assumes "\<forall>b<NBUF. b_dev (bufs s b) = 0"
  shows "ring (bufs (binit s)) (rev [0..<NBUF]) \<and> bcache_inv (binit s)"
  by (simp add: ring_binit bcache_inv_binit [OF assms])

text \<open>
  The states in which the operations need not wait: no lock of the cache is held, and process \<open>p\<close>
  runs on the hart.
\<close>

definition bio_idle :: "nat \<Rightarrow> 'z vdst_scheme \<Rightarrow> bool" where
  "bio_idle p s \<longleftrightarrow> slots_free s \<and> lk_free (locks s L_bcache) \<and> (\<forall>b<NBUF. lk_free (locks s (L_bufsleep b))) \<and>
     cpu_proc (cpus s (hart s)) = Some p"

text \<open>
  The buffer a request is served by: the one that caches the block, or else the least recently
  used one without references.
\<close>

definition bget_choice :: "(nat \<Rightarrow> buf) \<Rightarrow> nat list \<Rightarrow> uint \<Rightarrow> uint \<Rightarrow> nat option" where
  "bget_choice f xs dev bno =
     (case List.find (\<lambda>b. b_dev (f b) = dev \<and> b_blockno (f b) = bno) xs of
        Some b \<Rightarrow> Some b | None \<Rightarrow> List.find (\<lambda>b. b_refcnt (f b) = 0) (rev xs))"

lemma slots_free_upd_buf [simp]: "slots_free (upd_buf b f s) = slots_free s"
  by (simp add: slots_free_def)

lemma lock_upd_buf [lock_simps]:
  "upd_buf b f (hold lk s) = hold lk (upd_buf b f s)" "upd_buf b f (touch s) = touch (upd_buf b f s)"
  by (simp_all add: upd_buf_def lock_simps)

lemma bget_choice_bound: "bget_choice f xs dev bno = Some b \<Longrightarrow> set xs = {..<NBUF} \<Longrightarrow> b < NBUF"
  by (auto simp: bget_choice_def find_Some_iff rev_nth split: option.splits dest: nth_mem)

lemma bget_idle_eq:
  assumes "bio_idle p s" "ring (bufs s) xs" "set xs = {..<NBUF}"
    and "\<forall>b<NBUF. b_refcnt (bufs s b) = 0 \<or> bget_choice (bufs s) xs dev bno = Some b \<longrightarrow> sl_locked (sleeplocks s (L_bufsleep b)) = 0"
  shows "case bget_choice (bufs s) xs dev bno of
      None \<Rightarrow> bget n sw dev bno s = Panic ''bget: no buffers''
    | Some b \<Rightarrow> bget n sw dev bno s = Ok b (touch (s\<lparr>
        bufs := (bufs s)(b := if b_dev (bufs s b) = dev \<and> b_blockno (bufs s b) = bno
          then (bufs s b)\<lparr>b_refcnt := b_refcnt (bufs s b) + 1\<rparr>
          else (bufs s b)\<lparr>b_dev := dev, b_blockno := bno, b_valid := 0, b_refcnt := 1\<rparr>),
        sleeplocks := (sleeplocks s)(L_bufsleep b := (sleeplocks s (L_bufsleep b))\<lparr>sl_locked := 1, sl_pid := p_pid (procs s p)\<rparr>)\<rparr>))"
proof -
  let ?u = "hold L_bcache s"
  have l: "lk_free (locks s L_bcache)" "\<And>b. b < NBUF \<Longrightarrow> lk_free (locks s (L_bufsleep b))" "irqs_ok s"
    "cpu_proc (cpus s (hart s)) = Some p"
    using assms(1) by (auto simp: bio_idle_def slots_free_irqs)
  have "ring (bufs ?u) xs" using assms(2) by simp
  note scans = bget_scans [OF this assms(3), unfolded hold_vdst]
  let ?hit = "List.find (\<lambda>b. b_dev (bufs s b) = dev \<and> b_blockno (bufs s b) = bno) xs"
  note locking = acquire_free l acquiresleep_eq [where p = p] lock_simps Let_def bget_def
  show ?thesis
  proof (cases ?hit)
    case (Some b)
    then have c: "bget_choice (bufs s) xs dev bno = Some b" by (simp add: bget_choice_def)
    from Some have "b_dev (bufs s b) = dev \<and> b_blockno (bufs s b) = bno" by (auto simp: find_Some_iff)
    with bget_choice_bound [OF c assms(3)] assms(4) Some c show ?thesis
      by (simp add: locking scans upd_buf_def del: bget_cached.simps bget_unused.simps)
  next
    case None
    show ?thesis
    proof (cases "List.find (\<lambda>b. b_refcnt (bufs s b) = 0) (rev xs)")
      case n: None
      with None show ?thesis by (simp add: locking scans bget_choice_def del: bget_cached.simps bget_unused.simps)
    next
      case (Some b)
      with None have c: "bget_choice (bufs s) xs dev bno = Some b" by (simp add: bget_choice_def)
      note b = bget_choice_bound [OF c(1) assms(3)]
      have "\<not> (b_dev (bufs s b) = dev \<and> b_blockno (bufs s b) = bno)"
        using None b assms(3) by (auto simp: find_None_iff)
      with None Some c b assms(4) show ?thesis
        by (simp add: locking scans upd_buf_def del: bget_cached.simps bget_unused.simps) auto
    qed
  qed
qed

text \<open>
  C10: \<open>bget\<close> on an idle cache takes the buffer that caches the block, adding a reference, or
  recycles the least recently used buffer without references, which then is not valid and has one
  reference; it returns it locked by the caller and changes no other buffer. When there is no such
  buffer it panics.
\<close>

theorem bget_serves_lru:
  assumes "bio_idle p s" "ring (bufs s) xs" "set xs = {..<NBUF}"
    and "\<forall>b<NBUF. b_refcnt (bufs s b) = 0 \<or> bget_choice (bufs s) xs dev bno = Some b \<longrightarrow> sl_locked (sleeplocks s (L_bufsleep b)) = 0"
  shows "case bget_choice (bufs s) xs dev bno of
      None \<Rightarrow> bget n sw dev bno s = Panic ''bget: no buffers''
    | Some b \<Rightarrow> \<exists>t. bget n sw dev bno s = Ok b t \<and> locks t = locks s \<and> procs t = procs s \<and>
        sleeplocks t = (sleeplocks s)(L_bufsleep b := (sleeplocks s (L_bufsleep b))\<lparr>sl_locked := 1, sl_pid := p_pid (procs s p)\<rparr>) \<and>
        bufs t = (bufs s)(b := if b_dev (bufs s b) = dev \<and> b_blockno (bufs s b) = bno
          then (bufs s b)\<lparr>b_refcnt := b_refcnt (bufs s b) + 1\<rparr>
          else (bufs s b)\<lparr>b_dev := dev, b_blockno := bno, b_valid := 0, b_refcnt := 1\<rparr>)"
  using bget_idle_eq [OF assms] by (auto split: option.splits)

lemma relink_lock [lock_simps]:
  "unlink_buf b (hold lk s) = hold lk (unlink_buf b s)" "unlink_buf b (touch s) = touch (unlink_buf b s)"
  "push_front b (hold lk s) = hold lk (push_front b s)" "push_front b (touch s) = touch (push_front b s)"
  by (simp_all add: unlink_buf_def push_front_def Let_def lock_simps)

lemma relink_frame [simp]:
  "locks (unlink_buf b s) = locks s" "locks (push_front b s) = locks s"
  "sleeplocks (unlink_buf b s) = sleeplocks s" "sleeplocks (push_front b s) = sleeplocks s"
  "hart (unlink_buf b s) = hart s" "hart (push_front b s) = hart s" "sie (unlink_buf b s) = sie s" "sie (push_front b s) = sie s"
  "cpus (unlink_buf b s) = cpus s" "cpus (push_front b s) = cpus s"
  "b_refcnt (bufs (unlink_buf b s) x) = b_refcnt (bufs s x)" "b_refcnt (bufs (push_front b s) x) = b_refcnt (bufs s x)"
  "b_data (bufs (unlink_buf b s) x) = b_data (bufs s x)" "b_data (bufs (push_front b s) x) = b_data (bufs s x)"
  "b_valid (bufs (unlink_buf b s) x) = b_valid (bufs s x)" "b_valid (bufs (push_front b s) x) = b_valid (bufs s x)"
  by (simp_all add: unlink_buf_def push_front_def Let_def)

lemma ring_upd_buf:
  "(\<And>q. b_next (f q) = b_next q) \<Longrightarrow> (\<And>q. b_prev (f q) = b_prev q) \<Longrightarrow> ring (bufs (upd_buf b f s)) xs = ring (bufs s) xs"
  using linked_cong [of NBUF xs "bufs (upd_buf b f s)" "bufs s" NBUF] by (simp add: ring_def)

lemma brelse_idle_eq:
  assumes "bio_idle p s" "b < NBUF"
    and "sl_locked (sleeplocks s (L_bufsleep b)) \<noteq> 0" "sl_pid (sleeplocks s (L_bufsleep b)) = p_pid (procs s p)"
  shows "brelse b s = Ok () (touch (let d = upd_buf b (\<lambda>q. q\<lparr>b_refcnt := b_refcnt q - 1\<rparr>)
      (s\<lparr>sleeplocks := (sleeplocks s)(L_bufsleep b := (sleeplocks s (L_bufsleep b))\<lparr>sl_locked := 0, sl_pid := 0\<rparr>),
        procs := (\<lambda>q. if q < NPROC \<and> cpu_proc (cpus s (hart s)) \<noteq> Some q
          then woken (Ch_sleeplock (L_bufsleep b)) (procs s q) else procs s q)\<rparr>)
    in if b_refcnt (bufs s b) = 1 then push_front b (unlink_buf b d) else d))"
proof -
  have l: "lk_free (locks s L_bcache)" "lk_free (locks s (L_bufsleep b))" "irqs_ok s" "slots_free s"
    "cpu_proc (cpus s (hart s)) = Some p"
    using assms(1,2) by (auto simp: bio_idle_def slots_free_irqs)
  define u where "u = s\<lparr>sleeplocks := (sleeplocks s)(L_bufsleep b := (sleeplocks s (L_bufsleep b))\<lparr>sl_locked := 0, sl_pid := 0\<rparr>),
    procs := (\<lambda>q. if q < NPROC \<and> cpu_proc (cpus s (hart s)) \<noteq> Some q then woken (Ch_sleeplock (L_bufsleep b)) (procs s q) else procs s q)\<rparr>"
  have rel: "releasesleep (L_bufsleep b) (touch s) = Ok () (touch u)"
    using l by (simp add: releasesleep_eq u_def lock_simps cong: if_cong)
  have u: "bufs u = bufs s" "locks u = locks s" "hart u = hart s" "cpus u = cpus s" "sie u = sie s"
    by (simp_all add: u_def)
  show ?thesis unfolding u_def [symmetric]
    using l assms(3,4) u by (simp add: brelse_def holdingsleep_eq [where p = p] rel acquire_free lock_simps Let_def)
qed

text \<open>
  C11: \<open>brelse\<close> of a buffer the caller holds unlocks it and drops one reference. When that was the
  last reference the buffer becomes the most recently used one, the others keeping their order;
  what the buffers cache stays as it is.
\<close>

theorem brelse_moves_to_front:
  assumes "bio_idle p s" "ring (bufs s) xs" "set xs = {..<NBUF}" "b < NBUF"
    and "sl_locked (sleeplocks s (L_bufsleep b)) \<noteq> 0" "sl_pid (sleeplocks s (L_bufsleep b)) = p_pid (procs s p)"
  shows "\<exists>t. brelse b s = Ok () t \<and> locks t = locks s \<and> sl_locked (sleeplocks t (L_bufsleep b)) = 0 \<and>
    b_refcnt (bufs t b) = b_refcnt (bufs s b) - 1 \<and>
    ring (bufs t) (if b_refcnt (bufs s b) = 1 then b # remove1 b xs else xs) \<and>
    (\<forall>c. b_dev (bufs t c) = b_dev (bufs s c) \<and> b_blockno (bufs t c) = b_blockno (bufs s c) \<and>
       b_valid (bufs t c) = b_valid (bufs s c) \<and> b_data (bufs t c) = b_data (bufs s c))"
proof -
  define u where "u = s\<lparr>sleeplocks := (sleeplocks s)(L_bufsleep b := (sleeplocks s (L_bufsleep b))\<lparr>sl_locked := 0, sl_pid := 0\<rparr>),
    procs := (\<lambda>q. if q < NPROC \<and> cpu_proc (cpus s (hart s)) \<noteq> Some q then woken (Ch_sleeplock (L_bufsleep b)) (procs s q) else procs s q)\<rparr>"
  have u: "bufs u = bufs s" "locks u = locks s" "sl_locked (sleeplocks u (L_bufsleep b)) = 0"
    by (simp_all add: u_def)
  let ?d = "upd_buf b (\<lambda>q. q\<lparr>b_refcnt := b_refcnt q - 1\<rparr>) u"
  define t where "t = (if b_refcnt (bufs s b) = 1 then push_front b (unlink_buf b ?d) else ?d)"
  have "brelse b s = Ok () (touch t)"
    using brelse_idle_eq [OF assms(1,4-6)] unfolding u_def [symmetric] t_def Let_def .
  moreover have "ring (bufs ?d) xs" using assms(2) by (subst ring_upd_buf) (simp_all add: u)
  then have "ring (bufs t) (if b_refcnt (bufs s b) = 1 then b # remove1 b xs else xs)"
    using assms(3,4) ring_move_front [of ?d xs b] by (simp add: t_def)
  moreover have "locks t = locks s" "sleeplocks t = sleeplocks u" "b_refcnt (bufs t b) = b_refcnt (bufs s b) - 1"
    by (simp_all add: t_def u)
  moreover have "b_dev (bufs t c) = b_dev (bufs s c)" "b_blockno (bufs t c) = b_blockno (bufs s c)"
    "b_valid (bufs t c) = b_valid (bufs s c)" "b_data (bufs t c) = b_data (bufs s c)" for c
    by (simp_all add: t_def u relink_ident)
  ultimately show ?thesis using u(3) by simp
qed

subsection \<open>Witnesses\<close>

definition blank_buf :: buf where
  "blank_buf = \<lparr>b_valid = 0, b_disk = 0, b_dev = 0, b_blockno = 0, b_refcnt = 0, b_prev = 0, b_next = 0, b_data = []\<rparr>"

definition blank_disk :: vdisk where
  "blank_disk = \<lparr>desc = (\<lambda>_. \<lparr>d_addr = D_null, d_len = 0, d_flags = 0, d_next = 0\<rparr>), avail_idx = 0, avail_ring = (\<lambda>_. 0),
     used_ring_idx = 0, used_ring = (\<lambda>_. 0), dfree = (\<lambda>i. i < NUM), used_idx = 0, info_b = (\<lambda>_. None),
     info_status = (\<lambda>_. 0), ops = (\<lambda>_. \<lparr>r_type = 0, r_reserved = 0, r_sector = 0\<rparr>)\<rparr>"

definition boot_vdst :: vdst where
  "boot_vdst = slst.extend boot_slst (vdst.fields (\<lambda>_. blank_buf) blank_disk)"

lemma boot_vdst_simps [simp]:
  "hart boot_vdst = 0" "locks boot_vdst lk = \<lparr>lk_locked = 0, lk_name = [], lk_cpu = None\<rparr>"
  "procs boot_vdst = (\<lambda>_. blank_proc)" "slots_free boot_vdst"
  "cpus boot_vdst i = \<lparr>cpu_proc = Some 0, noff = 0, intena = False\<rparr>"
  "sleeplocks boot_vdst lk = \<lparr>sl_locked = 0, sl_name = [], sl_pid = 0\<rparr>"
  "bufs boot_vdst = (\<lambda>_. blank_buf)" "disk boot_vdst = blank_disk"
  using boot_slst_simps(4) by (simp_all add: boot_vdst_def slst.defs vdst.defs slots_free_def)

text \<open>The cache after \<open>binit\<close>.\<close>

definition boot_bufs :: "nat \<Rightarrow> buf" where
  "boot_bufs = bufs (binit boot_vdst)"

lemma boot_bufs_ring: "ring boot_bufs (rev [0..<NBUF])"
  by (simp add: boot_bufs_def ring_binit)

lemma boot_cache_inv: "bcache_inv (boot_vdst\<lparr>bufs := boot_bufs\<rparr>)"
proof -
  have "bcache_inv (binit boot_vdst)"
    by (rule bcache_inv_binit) (simp add: blank_buf_def)
  then show ?thesis by (simp add: bcache_inv_def boot_bufs_def)
qed

lemma boot_bufs_simps: "b < NBUF \<Longrightarrow> b_dev (boot_bufs b) = 0" "b < NBUF \<Longrightarrow> b_refcnt (boot_bufs b) = 0"
proof -
  have "b_dev (bufs (fold binit_one bs u) x) = b_dev (bufs u x) \<and> b_refcnt (bufs (fold binit_one bs u) x) = b_refcnt (bufs u x)"
    if "NBUF \<notin> set bs" for bs x and u :: vdst
    using that by (induction bs arbitrary: u) (auto simp: binit_one_bufs relink_ident)
  then show "b < NBUF \<Longrightarrow> b_dev (boot_bufs b) = 0" "b < NBUF \<Longrightarrow> b_refcnt (boot_bufs b) = 0"
    by (simp_all add: boot_bufs_def binit_def Let_def blank_buf_def)
qed

theorem binit_establishes_invariant_witness:
  "bcache_inv (binit boot_vdst) \<and> b_next (bufs (binit boot_vdst) NBUF) = 29"
proof -
  have i: "ring (bufs (binit boot_vdst)) (rev [0..<NBUF]) \<and> bcache_inv (binit boot_vdst)"
    by (rule binit_establishes_invariant) (simp add: blank_buf_def)
  then have "linked (bufs (binit boot_vdst)) NBUF (rev [0..<NBUF]) NBUF" by (simp add: ring_def)
  from linked_first_next [OF this] have "b_next (bufs (binit boot_vdst) NBUF) = 29" by (simp add: NBUF_def hd_rev)
  with i show ?thesis by simp
qed

lemma bio_idle_boot: "bio_idle 0 (boot_vdst\<lparr>bufs := f, sleeplocks := g\<rparr>)"
  using boot_vdst_simps(4) by (simp add: bio_idle_def slots_free_def lk_free_def)

lemma boot_choice: "bget_choice boot_bufs (rev [0..<NBUF]) 1 7 = Some 0"
proof -
  have pos: "0 < NBUF" by (simp add: NBUF_def)
  then have upt: "[0..<NBUF] = 0 # [1..<NBUF]" by (simp add: upt_conv_Cons)
  have "List.find (\<lambda>b. b_dev (boot_bufs b) = 1 \<and> b_blockno (boot_bufs b) = 7) (rev [0..<NBUF]) = None"
    using boot_bufs_simps(1) by (auto simp: find_None_iff)
  then show ?thesis
    using boot_bufs_simps(2) [OF pos] by (simp add: bget_choice_def) (simp add: upt)
qed

lemma boot_bget_hyps:
  "bio_idle 0 (boot_vdst\<lparr>bufs := boot_bufs\<rparr>)" "set (rev [0..<NBUF]) = {..<NBUF}" "0 < NBUF"
  using bio_idle_boot [where f = boot_bufs and g = "sleeplocks boot_vdst"] by (auto simp: NBUF_def)

theorem bget_serves_lru_witness:
  "\<exists>t. bget 0 (Ok ()) 1 7 (boot_vdst\<lparr>bufs := boot_bufs\<rparr>) = Ok 0 t \<and> b_blockno (bufs t 0) = 7 \<and> b_refcnt (bufs t 0) = 1"
  using bget_serves_lru [of 0 "boot_vdst\<lparr>bufs := boot_bufs\<rparr>" "rev [0..<NBUF]" 1 7 0 "Ok ()"]
    boot_choice boot_bget_hyps boot_bufs_ring boot_bufs_simps(1) [of 0] by auto

theorem bcache_operations_keep_invariant_witness:
  "\<exists>t. bget 0 (Ok ()) 1 7 (boot_vdst\<lparr>bufs := boot_bufs\<rparr>) = Ok 0 t \<and> bcache_inv t"
proof -
  obtain t where "bget 0 (Ok ()) 1 7 (boot_vdst\<lparr>bufs := boot_bufs\<rparr>) = Ok 0 t"
    using bget_idle_eq [of 0 "boot_vdst\<lparr>bufs := boot_bufs\<rparr>" "rev [0..<NBUF]" 1 7 0 "Ok ()"]
      boot_choice boot_bget_hyps boot_bufs_ring by auto
  then show ?thesis
    using bcache_operations_keep_invariant [of "Ok ()" "boot_vdst\<lparr>bufs := boot_bufs\<rparr>" 0 1 7] boot_cache_inv by auto
qed

theorem brelse_moves_to_front_witness:
  "\<exists>t. brelse 4 (boot_vdst\<lparr>bufs := boot_bufs(4 := (boot_bufs 4)\<lparr>b_refcnt := 1\<rparr>),
       sleeplocks := (\<lambda>_. \<lparr>sl_locked = 1, sl_name = [], sl_pid = 0\<rparr>)\<rparr>) = Ok () t \<and>
     ring (bufs t) (4 # remove1 4 (rev [0..<NBUF]))"
proof -
  let ?f = "boot_bufs(4 := (boot_bufs 4)\<lparr>b_refcnt := 1\<rparr>)"
  let ?s = "boot_vdst\<lparr>bufs := ?f, sleeplocks := (\<lambda>_. \<lparr>sl_locked = 1, sl_name = [], sl_pid = 0\<rparr>)\<rparr>"
  have "linked ?f NBUF (rev [0..<NBUF]) NBUF = linked boot_bufs NBUF (rev [0..<NBUF]) NBUF" by (rule linked_cong) simp_all
  then have "ring (bufs ?s) (rev [0..<NBUF])" using boot_bufs_ring by (simp add: ring_def)
  moreover have "set (rev [0..<NBUF]) = {..<NBUF}" by auto
  moreover have four: "4 < NBUF" by (simp add: NBUF_def)
  moreover have "p_pid blank_proc = 0" by (simp add: blank_proc_def)
  ultimately show ?thesis
    using brelse_moves_to_front [of 0 ?s "rev [0..<NBUF]" 4] bio_idle_boot four by auto
qed

end
