(* ===== verification/ProcFork.thy ===== *)
theory ProcFork
  imports File
begin

text \<open>
  The functions of \<open>kernel/proc.c\<close> that involve files: \<open>userinit\<close>, \<open>fork\<close>, \<open>reparent\<close> and
  \<open>exit\<close>. The trap frame of a process (\<open>struct trapframe\<close> of \<open>kernel/proc.h\<close>) is the page at
  \<open>p_trapframe\<close>; its fields are the 64-bit words of that page at the offsets below.
\<close>

subsection \<open>Trap frames\<close>

definition TF_KERNEL_SATP :: uint64 where "TF_KERNEL_SATP = 0"
definition TF_KERNEL_SP :: uint64 where "TF_KERNEL_SP = 8"
definition TF_KERNEL_TRAP :: uint64 where "TF_KERNEL_TRAP = 16"
definition TF_EPC :: uint64 where "TF_EPC = 24"
definition TF_KERNEL_HARTID :: uint64 where "TF_KERNEL_HARTID = 32"
definition TF_SP :: uint64 where "TF_SP = 48"
definition TF_A0 :: uint64 where "TF_A0 = 112"
definition TF_A1 :: uint64 where "TF_A1 = 120"
definition TF_A7 :: uint64 where "TF_A7 = 168"
definition TF_SIZE :: nat where "TF_SIZE = 288"

definition get_tf :: "nat \<Rightarrow> uint64 \<Rightarrow> 'z pst_scheme \<Rightarrow> uint64" where
  "get_tf p off s = load64 (mem s) (p_trapframe (procs s p) + off)"

definition set_tf :: "nat \<Rightarrow> uint64 \<Rightarrow> uint64 \<Rightarrow> 'z pst_scheme \<Rightarrow> 'z pst_scheme" where
  "set_tf p off v s = s\<lparr>mem := store64 (mem s) (p_trapframe (procs s p) + off) v\<rparr>"

text \<open>
  \<open>safestrcpy\<close> into an array of \<open>k + 1\<close> bytes that holds \<open>old\<close>.
\<close>

primrec safestrcpy_list :: "nat \<Rightarrow> uchar list \<Rightarrow> uchar list \<Rightarrow> uchar list" where
  "safestrcpy_list 0 t old = 0 # tl old"
| "safestrcpy_list (Suc k) t old =
     (if char0 t \<noteq> 0 then char0 t # safestrcpy_list k (tl t) (tl old) else 0 # 0 # tl (tl old))"

subsection \<open>The first process\<close>

definition initcode :: "uchar list" where
  "initcode =
     [0x17, 0x05, 0x00, 0x00, 0x13, 0x05, 0x45, 0x02,
      0x97, 0x05, 0x00, 0x00, 0x93, 0x85, 0x35, 0x02,
      0x93, 0x08, 0x70, 0x00, 0x73, 0x00, 0x00, 0x00,
      0x93, 0x08, 0x20, 0x00, 0x73, 0x00, 0x00, 0x00,
      0xef, 0xf0, 0x9f, 0xff, 0x2f, 0x69, 0x6e, 0x69,
      0x74, 0x00, 0x00, 0x24, 0x00, 0x00, 0x00, 0x00,
      0x00, 0x00, 0x00, 0x00]"

definition userinit :: "nat \<Rightarrow> 'z flst_scheme switch \<Rightarrow> 'z flst_scheme \<Rightarrow> (unit, 'z flst_scheme) res" where
  "userinit n sw s =
     bnd (allocproc s) (\<lambda>po s.
     let s = s\<lparr>initproc := po\<rparr> in
     bnd (deref po s) (\<lambda>p s.
     bnd (uvmfirst (p_pagetable (procs s p)) initcode s) (\<lambda>_ s.
     let s = upd_proc p (\<lambda>q. q\<lparr>p_sz := PGSIZE\<rparr>) s;
         s = set_tf p TF_EPC 0 s;
         s = set_tf p TF_SP PGSIZE s;
         s = upd_proc p (\<lambda>q. q\<lparr>p_name := safestrcpy_list 15 (chars ''initcode'') (p_name q)\<rparr>) s in
     bnd (namei n sw (chars ''/'') s) (\<lambda>ip s.
     let s = upd_proc p (\<lambda>q. q\<lparr>p_cwd := ip\<rparr>) s;
         s = upd_proc p (\<lambda>q. q\<lparr>p_state := RUNNABLE\<rparr>) s
     in release (L_proc p) s))))"

subsection \<open>fork\<close>

definition fork_files :: "nat \<Rightarrow> nat \<Rightarrow> 'z flst_scheme \<Rightarrow> (unit, 'z flst_scheme) res" where
  "fork_files p np =
     for_each (\<lambda>i s.
       case p_ofile (procs s p) i of None \<Rightarrow> Ok () s
       | Some f \<Rightarrow> bnd (filedup f s) (\<lambda>f s. Ok () (upd_proc np (\<lambda>q. q\<lparr>p_ofile := (p_ofile q)(i := Some f)\<rparr>) s)))
     [0..<NOFILE]"

text \<open>
  The result of \<open>uvmcowpy\<close> is unsigned, so the test for a negative result never succeeds; the
  branch is kept as it is in the source.
\<close>

definition fork :: "'z flst_scheme \<Rightarrow> (int, 'z flst_scheme) res" where
  "fork s =
     bnd (curproc s) (\<lambda>p s.
     bnd (allocproc s) (\<lambda>npo s.
     case npo of None \<Rightarrow> Ok (-1) s
     | Some np \<Rightarrow>
       bnd (uvmcowpy (p_pagetable (procs s p)) (p_pagetable (procs s np)) (p_sz (procs s p)) s) (\<lambda>r s.
       if r < 0
       then bnd (freeproc np s) (\<lambda>_ s. bnd (release (L_proc np) s) (\<lambda>_ s. Ok (-1) s))
       else
         let s = upd_proc np (\<lambda>q. q\<lparr>p_sz := p_sz (procs s p)\<rparr>) s;
             s = s\<lparr>mem := store_bytes (mem s) (p_trapframe (procs s np))
                            (load_bytes (mem s) (p_trapframe (procs s p)) TF_SIZE)\<rparr>;
             s = set_tf np TF_A0 0 s in
         bnd (fork_files p np s) (\<lambda>_ s.
         bnd (deref (p_cwd (procs s p)) s) (\<lambda>cwd s.
         bnd (idup cwd s) (\<lambda>cwd s.
         let s = upd_proc np (\<lambda>q. q\<lparr>p_cwd := Some cwd\<rparr>) s;
             s = upd_proc np (\<lambda>q. q\<lparr>p_name := safestrcpy_list 15 (p_name (procs s p)) (p_name q)\<rparr>) s;
             pid = p_pid (procs s np) in
         bnd (release (L_proc np) s) (\<lambda>_ s.
         bnd (acquire L_wait s) (\<lambda>_ s.
         bnd (release L_wait (upd_proc np (\<lambda>q. q\<lparr>p_parent := Some p\<rparr>) s)) (\<lambda>_ s.
         bnd (acquire (L_proc np) s) (\<lambda>_ s.
         bnd (release (L_proc np) (upd_proc np (\<lambda>q. q\<lparr>p_state := RUNNABLE\<rparr>) s)) (\<lambda>_ s.
         Ok pid s)))))))))))"

subsection \<open>exit\<close>

definition chan_of :: "nat option \<Rightarrow> chan" where
  "chan_of p = (case p of None \<Rightarrow> Ch_null | Some q \<Rightarrow> Ch_proc q)"

definition reparent :: "nat \<Rightarrow> 'z flst_scheme \<Rightarrow> (unit, 'z flst_scheme) res" where
  "reparent p =
     for_each (\<lambda>pp s.
       if p_parent (procs s pp) = Some p
       then wakeup (chan_of (initproc s)) (upd_proc pp (\<lambda>q. q\<lparr>p_parent := initproc s\<rparr>) s)
       else Ok () s) [0..<NPROC]"

definition close_files :: "nat \<Rightarrow> 'z flst_scheme switch \<Rightarrow> nat \<Rightarrow> 'z flst_scheme \<Rightarrow> (unit, 'z flst_scheme) res" where
  "close_files n sw p =
     for_each (\<lambda>fd s.
       case p_ofile (procs s p) fd of None \<Rightarrow> Ok () s
       | Some f \<Rightarrow> bnd (fileclose n sw f s) (\<lambda>_ s.
           Ok () (upd_proc p (\<lambda>q. q\<lparr>p_ofile := (p_ofile q)(fd := None)\<rparr>) s))) [0..<NOFILE]"

text \<open>\<open>exit_zombie\<close> is the part of \<open>exit\<close> from the wait lock on, up to the final switch.\<close>

definition exit_zombie :: "nat \<Rightarrow> int \<Rightarrow> 'z flst_scheme \<Rightarrow> (unit, 'z flst_scheme) res" where
  "exit_zombie p status s =
     bnd (acquire L_wait s) (\<lambda>_ s.
     bnd (reparent p s) (\<lambda>_ s.
     bnd (wakeup (chan_of (p_parent (procs s p))) s) (\<lambda>_ s.
     bnd (acquire (L_proc p) s) (\<lambda>_ s.
     let s = upd_proc p (\<lambda>q. q\<lparr>p_xstate := status, p_state := ZOMBIE, p_etime := ticks s\<rparr>) s in
     release L_wait s))))"

definition exit :: "nat \<Rightarrow> 'z flst_scheme switch \<Rightarrow> int \<Rightarrow> 'z flst_scheme \<Rightarrow> (unit, 'z flst_scheme) res" where
  "exit n sw status s =
     bnd (curproc s) (\<lambda>p s.
     if Some p = initproc s then Panic ''init exiting''
     else bnd (close_files n sw p s) (\<lambda>_ s.
       bnd (begin_op n sw s) (\<lambda>_ s.
       bnd (deref (p_cwd (procs s p)) s) (\<lambda>cwd s.
       bnd (iput n sw cwd s) (\<lambda>_ s.
       bnd (end_op n sw s) (\<lambda>_ s.
       let s = upd_proc p (\<lambda>q. q\<lparr>p_cwd := None\<rparr>) s in
       bnd (exit_zombie p status s) (\<lambda>_ s.
       bnd (sched sw s) (\<lambda>_ s.
       Panic ''zombie exit''))))))))"

end
