(* ===== verification/Exec.thy ===== *)
theory Exec
  imports ProcFork
begin

text \<open>
  Program loading (\<open>kernel/exec.c\<close>, \<open>kernel/elf.h\<close>). The argument strings are lists of bytes
  without the terminating NUL. \<open>exec_bad\<close> is the error exit: \<open>pt\<close> is the page table built so far
  (0 when there is none) and \<open>ipo\<close> the inode while it is locked.
\<close>

definition ELF_MAGIC :: uint where "ELF_MAGIC = 0x464C457F"
definition ELF_PROG_LOAD :: uint where "ELF_PROG_LOAD = 1"
definition MAXARG :: nat where "MAXARG = 32"

definition get64 :: "uchar list \<Rightarrow> nat \<Rightarrow> uint64" where
  "get64 bs i = of_bytes (take 8 (drop i bs))"

record elfhdr =
  e_magic :: uint
  e_entry :: uint64
  e_phoff :: uint64
  e_phnum :: ushort

definition elfhdr_of :: "uchar list \<Rightarrow> elfhdr" where
  "elfhdr_of d = \<lparr>e_magic = get32 d 0, e_entry = get64 d 24, e_phoff = get64 d 32, e_phnum = get16 d 56\<rparr>"

record proghdr =
  ph_type :: uint
  ph_flags :: uint
  ph_off :: uint64
  ph_vaddr :: uint64
  ph_filesz :: uint64
  ph_memsz :: uint64

definition proghdr_of :: "uchar list \<Rightarrow> proghdr" where
  "proghdr_of d = \<lparr>ph_type = get32 d 0, ph_flags = get32 d 4, ph_off = get64 d 8, ph_vaddr = get64 d 16,
     ph_filesz = get64 d 32, ph_memsz = get64 d 40\<rparr>"

definition flags2perm :: "uint \<Rightarrow> uint64" where
  "flags2perm fl =
     (let perm = (if fl AND 1 \<noteq> 0 then PTE_X else 0)
      in if fl AND 2 \<noteq> 0 then perm OR PTE_W else perm)"

text \<open>
  The offsets of the pages of a segment; the segment's pages are mapped, so its size is far below
  the point where the 32-bit loop counter would wrap.
\<close>

primrec loadseg_loop :: "nat list \<Rightarrow> nat \<Rightarrow> 'z flst_scheme switch \<Rightarrow> addr \<Rightarrow> uint64 \<Rightarrow> nat \<Rightarrow> uint \<Rightarrow> uint \<Rightarrow> 'z flst_scheme
    \<Rightarrow> (int, 'z flst_scheme) res" where
  "loadseg_loop [] n sw pt va ip offset sz s = Ok 0 s"
| "loadseg_loop (i # is) n sw pt va ip offset sz s =
     bnd (walkaddr pt (va + of_nat i) s) (\<lambda>pa s.
     if pa = 0 then Panic ''loadseg: address should exist''
     else let cnt = min (unat sz - i) 4096 in
       bnd (readi n sw ip (Kern pa) (offset + of_nat i) (of_nat cnt) s) (\<lambda>(r, _) s.
       if r \<noteq> int cnt then Ok (-1) s
       else loadseg_loop is n sw pt va ip offset sz s))"

definition loadseg :: "nat \<Rightarrow> 'z flst_scheme switch \<Rightarrow> addr \<Rightarrow> uint64 \<Rightarrow> nat \<Rightarrow> uint \<Rightarrow> uint \<Rightarrow> 'z flst_scheme
    \<Rightarrow> (int, 'z flst_scheme) res" where
  "loadseg n sw pt va ip offset sz s =
     loadseg_loop (map (\<lambda>k. 4096 * k) [0..<(unat sz + 4095) div 4096]) n sw pt va ip offset sz s"

definition exec_bad :: "nat \<Rightarrow> 'z flst_scheme switch \<Rightarrow> addr \<Rightarrow> uint64 \<Rightarrow> nat option \<Rightarrow> 'z flst_scheme \<Rightarrow> (int, 'z flst_scheme) res" where
  "exec_bad n sw pt sz ipo s =
     bnd (if pt \<noteq> 0 then proc_freepagetable pt sz s else Ok () s) (\<lambda>_ s.
     case ipo of None \<Rightarrow> Ok (-1) s
     | Some ip \<Rightarrow> bnd (iunlockput n sw ip s) (\<lambda>_ s. bnd (end_op n sw s) (\<lambda>_ s. Ok (-1) s)))"

text \<open>
  Loading the program: \<open>k\<close> headers are left, the next one at \<open>off\<close>. The result is the size of the
  image, and whether a \<open>goto bad\<close> was taken.
\<close>

primrec exec_load :: "nat \<Rightarrow> nat \<Rightarrow> 'z flst_scheme switch \<Rightarrow> addr \<Rightarrow> nat \<Rightarrow> uint \<Rightarrow> uint64 \<Rightarrow> 'z flst_scheme
    \<Rightarrow> (bool \<times> uint64, 'z flst_scheme) res" where
  "exec_load 0 n sw pt ip off sz s = Ok (True, sz) s"
| "exec_load (Suc k) n sw pt ip off sz s =
     bnd (readi n sw ip Local off 56 s) (\<lambda>(r, d) s.
     let ph = proghdr_of d in
     if r \<noteq> 56 then Ok (False, sz) s
     else if ph_type ph \<noteq> ELF_PROG_LOAD then exec_load k n sw pt ip (off + 56) sz s
     else if ph_memsz ph < ph_filesz ph then Ok (False, sz) s
     else if ph_vaddr ph + ph_memsz ph < ph_vaddr ph then Ok (False, sz) s
     else if ph_vaddr ph mod PGSIZE \<noteq> 0 then Ok (False, sz) s
     else bnd (uvmalloc pt sz (ph_vaddr ph + ph_memsz ph) (flags2perm (ph_flags ph)) s) (\<lambda>sz1 s.
       if sz1 = 0 then Ok (False, sz) s
       else bnd (loadseg n sw pt (ph_vaddr ph) ip (ucast (ph_off ph)) (ucast (ph_filesz ph)) s) (\<lambda>r s.
         if r < 0 then Ok (False, sz1) s
         else exec_load k n sw pt ip (off + 56) sz1 s)))"

text \<open>
  Pushing the argument strings: the result is the stack pointer and the addresses of the strings
  pushed, or nothing after a \<open>goto bad\<close>.
\<close>

primrec push_args :: "uchar list list \<Rightarrow> addr \<Rightarrow> uint64 \<Rightarrow> uint64 \<Rightarrow> uint64 list \<Rightarrow> 'z flst_scheme
    \<Rightarrow> ((uint64 \<times> uint64 list) option, 'z flst_scheme) res" where
  "push_args [] pt stackbase sp ustack s = Ok (Some (sp, ustack)) s"
| "push_args (a # as) pt stackbase sp ustack s =
     (if length ustack \<ge> MAXARG then Ok None s
      else let sp = sp - (of_nat (length a) + 1);
               sp = sp - sp mod 16 in
        if sp < stackbase then Ok None s
        else bnd (copyout pt sp (a @ [0]) s) (\<lambda>r s.
          if r < 0 then Ok None s
          else push_args as pt stackbase sp (ustack @ [sp]) s))"

definition last_elem :: "uchar list \<Rightarrow> uchar list" where
  "last_elem path = rev (takeWhile (\<lambda>c. c \<noteq> 0x2f) (rev path))"

text \<open>\<open>exec_commit\<close> replaces the user image of the process.\<close>

definition exec_commit :: "nat \<Rightarrow> uchar list \<Rightarrow> addr \<Rightarrow> uint64 \<Rightarrow> uint64 \<Rightarrow> uint64 \<Rightarrow> uint64 \<Rightarrow> nat \<Rightarrow> 'z flst_scheme
    \<Rightarrow> (int, 'z flst_scheme) res" where
  "exec_commit p path pt oldsz sz sp entry argc s =
     (let s = set_tf p TF_A1 sp s;
          s = upd_proc p (\<lambda>q. q\<lparr>p_name := safestrcpy_list 15 (last_elem path) (p_name q)\<rparr>) s;
          oldpt = p_pagetable (procs s p);
          s = upd_proc p (\<lambda>q. q\<lparr>p_pagetable := pt\<rparr>) s;
          s = upd_proc p (\<lambda>q. q\<lparr>p_sz := sz\<rparr>) s;
          s = set_tf p TF_EPC entry s;
          s = set_tf p TF_SP sp s
      in bnd (proc_freepagetable oldpt oldsz s) (\<lambda>_ s. Ok (int argc) s))"

definition exec_stack :: "nat \<Rightarrow> 'z flst_scheme switch \<Rightarrow> uchar list \<Rightarrow> uchar list list \<Rightarrow> addr \<Rightarrow> uint64 \<Rightarrow> uint64 \<Rightarrow> 'z flst_scheme
    \<Rightarrow> (int, 'z flst_scheme) res" where
  "exec_stack n sw path argv pt sz entry s =
     bnd (curproc s) (\<lambda>p s.
     let oldsz = p_sz (procs s p); sz = PGROUNDUP sz in
     bnd (uvmalloc pt sz (sz + 2 * PGSIZE) PTE_W s) (\<lambda>sz1 s.
     if sz1 = 0 then exec_bad n sw pt sz None s
     else let sz = sz1 in
       bnd (uvmclear pt (sz - 2 * PGSIZE) s) (\<lambda>_ s.
       let stackbase = sz - PGSIZE in
       bnd (push_args argv pt stackbase sz [] s) (\<lambda>r s.
       case r of None \<Rightarrow> exec_bad n sw pt sz None s
       | Some (sp, ustack) \<Rightarrow>
         let argc = length ustack;
             sp = sp - of_nat (argc + 1) * 8;
             sp = sp - sp mod 16 in
         if sp < stackbase then exec_bad n sw pt sz None s
         else bnd (copyout pt sp (concat (map (bytes_le 8) (ustack @ [0]))) s) (\<lambda>r s.
           if r < 0 then exec_bad n sw pt sz None s
           else exec_commit p path pt oldsz sz sp entry argc s)))))"

definition exec :: "nat \<Rightarrow> 'z flst_scheme switch \<Rightarrow> uchar list \<Rightarrow> uchar list list \<Rightarrow> 'z flst_scheme \<Rightarrow> (int, 'z flst_scheme) res" where
  "exec n sw path argv s =
     bnd (curproc s) (\<lambda>p s.
     bnd (begin_op n sw s) (\<lambda>_ s.
     bnd (namei n sw path s) (\<lambda>ipo s.
     case ipo of None \<Rightarrow> bnd (end_op n sw s) (\<lambda>_ s. Ok (-1) s)
     | Some ip \<Rightarrow>
       bnd (ilock n sw (Some ip) s) (\<lambda>_ s.
       bnd (readi n sw ip Local 0 64 s) (\<lambda>(r, d) s.
       let elf = elfhdr_of d in
       if r \<noteq> 64 then exec_bad n sw 0 0 (Some ip) s
       else if e_magic elf \<noteq> ELF_MAGIC then exec_bad n sw 0 0 (Some ip) s
       else bnd (proc_pagetable p s) (\<lambda>pt s.
         if pt = 0 then exec_bad n sw 0 0 (Some ip) s
         else bnd (exec_load (unat (e_phnum elf)) n sw pt ip (ucast (e_phoff elf)) 0 s) (\<lambda>(ok, sz) s.
           if \<not> ok then exec_bad n sw pt sz (Some ip) s
           else bnd (iunlockput n sw ip s) (\<lambda>_ s.
             bnd (end_op n sw s) (\<lambda>_ s.
             exec_stack n sw path argv pt sz (e_entry elf) s)))))))))"

end
