(* ===== verification/Syscall.thy ===== *)
theory Syscall
  imports Exec
begin

text \<open>
  System calls: argument fetching and dispatch (\<open>kernel/syscall.c\<close>) and the process-related calls
  (\<open>kernel/sysproc.c\<close>). A handler returns the value for the caller's \<open>a0\<close>. Memory that the source
  leaves uninitialised is a parameter (\<open>junk\<close>).
\<close>

record syst = flst +
  readCount :: int

subsection \<open>Arguments\<close>

definition fetchaddr :: "uint64 \<Rightarrow> 'z syst_scheme \<Rightarrow> (uint64 option, 'z syst_scheme) res" where
  "fetchaddr a s =
     bnd (curproc s) (\<lambda>p s.
     if a \<ge> p_sz (procs s p) \<or> a + 8 > p_sz (procs s p) then Ok None s
     else bnd (copyin (p_pagetable (procs s p)) a 8 s) (\<lambda>(r, bs) s.
       if r \<noteq> 0 then Ok None s else Ok (Some (of_bytes bs)) s))"

definition fetchstr :: "uint64 \<Rightarrow> nat \<Rightarrow> 'z syst_scheme \<Rightarrow> (uchar list option, 'z syst_scheme) res" where
  "fetchstr a mx s =
     bnd (curproc s) (\<lambda>p s.
     bnd (copyinstr (p_pagetable (procs s p)) a mx s) (\<lambda>(r, bs) s.
     if r < 0 then Ok None s else Ok (Some (takeWhile (\<lambda>c. c \<noteq> 0) bs)) s))"

definition argraw :: "nat \<Rightarrow> 'z syst_scheme \<Rightarrow> (uint64, 'z syst_scheme) res" where
  "argraw k s =
     bnd (curproc s) (\<lambda>p s.
     if k \<le> 5 then Ok (get_tf p (TF_A0 + 8 * of_nat k) s) s else Panic ''argraw'')"

definition argint :: "nat \<Rightarrow> 'z syst_scheme \<Rightarrow> (int, 'z syst_scheme) res" where
  "argint k s = bnd (argraw k s) (\<lambda>v s. Ok (sint (ucast v :: uint)) s)"

definition argaddr :: "nat \<Rightarrow> 'z syst_scheme \<Rightarrow> (uint64, 'z syst_scheme) res" where
  "argaddr k s = argraw k s"

definition argstr :: "nat \<Rightarrow> nat \<Rightarrow> 'z syst_scheme \<Rightarrow> (uchar list option, 'z syst_scheme) res" where
  "argstr k mx s = bnd (argaddr k s) (\<lambda>a s. fetchstr a mx s)"

subsection \<open>Process system calls\<close>

definition sys_exit :: "nat \<Rightarrow> 'z syst_scheme switch \<Rightarrow> 'z syst_scheme \<Rightarrow> (uint64, 'z syst_scheme) res" where
  "sys_exit n sw s = bnd (argint 0 s) (\<lambda>st s. bnd (exit n sw st s) (\<lambda>_ s. Ok 0 s))"

definition sys_getpid :: "'z syst_scheme \<Rightarrow> (uint64, 'z syst_scheme) res" where
  "sys_getpid s = bnd (curproc s) (\<lambda>p s. Ok (word_of_int (p_pid (procs s p))) s)"

definition sys_fork :: "'z syst_scheme \<Rightarrow> (uint64, 'z syst_scheme) res" where
  "sys_fork s = bnd (fork s) (\<lambda>r s. Ok (word_of_int r) s)"

definition sys_wait :: "nat \<Rightarrow> 'z syst_scheme switch \<Rightarrow> 'z syst_scheme \<Rightarrow> (uint64, 'z syst_scheme) res" where
  "sys_wait n sw s = bnd (argaddr 0 s) (\<lambda>p s. bnd (wait n sw p s) (\<lambda>r s. Ok (word_of_int r) s))"

definition sys_sbrk :: "'z syst_scheme \<Rightarrow> (uint64, 'z syst_scheme) res" where
  "sys_sbrk s =
     bnd (argint 0 s) (\<lambda>k s.
     bnd (curproc s) (\<lambda>p s.
     let a = p_sz (procs s p) in
     bnd (growproc k s) (\<lambda>r s.
     if r < 0 then Ok (-1) s else Ok a s)))"

text \<open>
  \<open>ticks - ticks0 < n\<close> compares an unsigned with a signed number: a negative \<open>n\<close> is converted to a
  large unsigned one.
\<close>

primrec sys_sleep_loop :: "nat \<Rightarrow> 'z syst_scheme switch \<Rightarrow> uint \<Rightarrow> int \<Rightarrow> 'z syst_scheme \<Rightarrow> (uint64, 'z syst_scheme) res" where
  "sys_sleep_loop 0 sw ticks0 cnt s =
     (if ticks s - ticks0 < word_of_int cnt then Diverge
      else bnd (release L_ticks s) (\<lambda>_ s. Ok 0 s))"
| "sys_sleep_loop (Suc n) sw ticks0 cnt s =
     (if ticks s - ticks0 < word_of_int cnt
      then bnd (curproc s) (\<lambda>p s.
           bnd (killed p s) (\<lambda>k s.
           if k \<noteq> 0 then bnd (release L_ticks s) (\<lambda>_ s. Ok (-1) s)
           else bnd (sleep sw Ch_ticks L_ticks s) (\<lambda>_ s. sys_sleep_loop n sw ticks0 cnt s)))
      else bnd (release L_ticks s) (\<lambda>_ s. Ok 0 s))"

definition sys_sleep :: "nat \<Rightarrow> 'z syst_scheme switch \<Rightarrow> 'z syst_scheme \<Rightarrow> (uint64, 'z syst_scheme) res" where
  "sys_sleep n sw s =
     bnd (argint 0 s) (\<lambda>cnt s.
     bnd (acquire L_ticks s) (\<lambda>_ s.
     sys_sleep_loop n sw (ticks s) cnt s))"

definition sys_kill :: "'z syst_scheme \<Rightarrow> (uint64, 'z syst_scheme) res" where
  "sys_kill s = bnd (argint 0 s) (\<lambda>pid s. bnd (kill pid s) (\<lambda>r s. Ok (word_of_int r) s))"

definition sys_uptime :: "'z syst_scheme \<Rightarrow> (uint64, 'z syst_scheme) res" where
  "sys_uptime s =
     bnd (acquire L_ticks s) (\<lambda>_ s.
     let xticks = ticks s in
     bnd (release L_ticks s) (\<lambda>_ s. Ok (ucast xticks) s))"

definition sys_waitx :: "nat \<Rightarrow> 'z syst_scheme switch \<Rightarrow> uint \<times> uint \<Rightarrow> 'z syst_scheme \<Rightarrow> (uint64, 'z syst_scheme) res" where
  "sys_waitx n sw junk s =
     bnd (argaddr 0 s) (\<lambda>a s.
     bnd (argaddr 1 s) (\<lambda>a1 s.
     bnd (argaddr 2 s) (\<lambda>a2 s.
     bnd (waitx n sw a s) (\<lambda>(ret, times) s.
     case (case times of Some t \<Rightarrow> t | None \<Rightarrow> junk) of (wtime, rtime) \<Rightarrow>
     bnd (curproc s) (\<lambda>p s.
     bnd (copyout (p_pagetable (procs s p)) a1 (bytes_le 4 (ucast wtime)) s) (\<lambda>r s.
     if r < 0 then Ok (-1) s
     else bnd (copyout (p_pagetable (procs s p)) a2 (bytes_le 4 (ucast rtime)) s) (\<lambda>r s.
       if r < 0 then Ok (-1) s else Ok (word_of_int ret) s)))))))"

text \<open>
  The scan of \<open>sys_setpriority\<close> compares pids before it takes the lock of the process.
\<close>

definition sys_setpriority :: "'z syst_scheme switch \<Rightarrow> 'z syst_scheme \<Rightarrow> (uint64, 'z syst_scheme) res" where
  "sys_setpriority sw s =
     bnd (argint 0 s) (\<lambda>pid s.
     bnd (argint 1 s) (\<lambda>new_priority s.
     if new_priority < 0 \<or> new_priority > 100 then Ok (-1) s
     else bnd (case List.find (\<lambda>p. p_pid (procs s p) = pid) [0..<NPROC] of
                 None \<Rightarrow> Ok 999999999 s
               | Some p \<Rightarrow>
                 bnd (acquire (L_proc p) s) (\<lambda>_ s.
                 let old_priority = sint (p_SP (procs s p));
                     s = upd_proc p (\<lambda>q. update_dp (q\<lparr>p_SP := word_of_int new_priority, p_RBI := 25\<rparr>)) s in
                 bnd (release (L_proc p) s) (\<lambda>_ s. Ok old_priority s))) (\<lambda>old_priority s.
       bnd (if old_priority \<noteq> -1 \<and> new_priority < old_priority then yield sw s else Ok () s) (\<lambda>_ s.
       Ok (word_of_int old_priority) s))))"

end
