(* ===== verification/BootState.thy ===== *)
theory BootState
  imports BioList Syscall
begin

text \<open>
  Concrete states of every layer, on which the properties are applied: the process in slot 0 runs, no
  lock is held, and the tables are empty.
\<close>

definition blank_log :: log where
  "blank_log = \<lparr>lg_start = 2, lg_size = 30, lg_outstanding = 0, lg_committing = 0, lg_dev = 1,
     lg_lh = \<lparr>lh_n = 0, lh_block = (\<lambda>_. 0)\<rparr>\<rparr>"

definition blank_sb :: superblock where
  "blank_sb = \<lparr>sb_magic = 0x10203040, sb_size = 2000, sb_nblocks = 1954, sb_ninodes = 200, sb_nlog = 30, sb_logstart = 2,
     sb_inodestart = 32, sb_bmapstart = 45\<rparr>"

definition blank_inode :: inode where
  "blank_inode = \<lparr>i_dev = 0, i_inum = 0, i_ref = 0, i_valid = 0, i_type = 0, i_major = 0, i_minor = 0, i_nlink = 0, i_size = 0,
     i_addrs = replicate 13 0\<rparr>"

definition blank_file :: open_file where
  "blank_file = \<lparr>f_type = FD_NONE, f_ref = 0, f_readable = False, f_writable = False, f_pipe = 0, f_ip = None, f_off = 0,
     f_major = 0\<rparr>"

definition blank_pipe :: pipe where
  "blank_pipe = \<lparr>pi_data = (\<lambda>_. 0), pi_nread = 0, pi_nwrite = 0, pi_readopen = 1, pi_writeopen = 1\<rparr>"

definition boot_lgst :: lgst where
  "boot_lgst = vdst.extend (boot_vdst\<lparr>bufs := boot_bufs\<rparr>) (lgst.fields blank_log)"

definition boot_fsst :: fsst where
  "boot_fsst = lgst.extend boot_lgst (fsst.fields blank_sb (\<lambda>_. blank_inode))"

definition boot_cnst :: cnst where
  "boot_cnst = fsst.extend boot_fsst (cnst.fields 0 1 (\<lambda>_. 0) 0 0 [] [] []
     \<lparr>c_buf = (\<lambda>_. 0), c_r = 0, c_w = 0, c_e = 0\<rparr> (\<lambda>_. \<lparr>dv_read = None, dv_write = None\<rparr>))"

definition boot_flst :: flst where
  "boot_flst = cnst.extend boot_cnst (flst.fields (\<lambda>_. blank_file) (\<lambda>_. blank_pipe))"

definition boot_syst :: syst where
  "boot_syst = flst.extend boot_flst (syst.fields 0)"

lemma boot_lgst_simps [simp]:
  "hart boot_lgst = 0" "locks boot_lgst lk = \<lparr>lk_locked = 0, lk_name = [], lk_cpu = None\<rparr>"
  "procs boot_lgst = (\<lambda>_. blank_proc)" "slots_free boot_lgst"
  "cpus boot_lgst i = \<lparr>cpu_proc = Some 0, noff = 0, intena = False\<rparr>"
  "sleeplocks boot_lgst lk = \<lparr>sl_locked = 0, sl_name = [], sl_pid = 0\<rparr>"
  "bufs boot_lgst = boot_bufs" "disk boot_lgst = blank_disk" "log boot_lgst = blank_log" "mem boot_lgst = mem boot_vdst"
  using boot_vdst_simps(4) by (simp_all add: boot_lgst_def vdst.defs lgst.defs slots_free_def)

lemma boot_fsst_simps [simp]:
  "hart boot_fsst = 0" "locks boot_fsst lk = \<lparr>lk_locked = 0, lk_name = [], lk_cpu = None\<rparr>"
  "procs boot_fsst = (\<lambda>_. blank_proc)" "slots_free boot_fsst"
  "cpus boot_fsst i = \<lparr>cpu_proc = Some 0, noff = 0, intena = False\<rparr>"
  "sleeplocks boot_fsst lk = \<lparr>sl_locked = 0, sl_name = [], sl_pid = 0\<rparr>"
  "bufs boot_fsst = boot_bufs" "log boot_fsst = blank_log" "sb boot_fsst = blank_sb" "itable boot_fsst = (\<lambda>_. blank_inode)"
  "mem boot_fsst = mem boot_vdst"
  using boot_lgst_simps(4) by (simp_all add: boot_fsst_def lgst.defs fsst.defs slots_free_def)

lemma boot_cnst_simps [simp]:
  "hart boot_cnst = 0" "locks boot_cnst lk = \<lparr>lk_locked = 0, lk_name = [], lk_cpu = None\<rparr>"
  "procs boot_cnst = (\<lambda>_. blank_proc)" "slots_free boot_cnst"
  "cpus boot_cnst i = \<lparr>cpu_proc = Some 0, noff = 0, intena = False\<rparr>"
  "panicked boot_cnst = 0" "uart_tx_w boot_cnst = 0" "uart_tx_r boot_cnst = 0" "u_idle boot_cnst = []" "u_in boot_cnst = []"
  "u_out boot_cnst = []" "cons boot_cnst = \<lparr>c_buf = (\<lambda>_. 0), c_r = 0, c_w = 0, c_e = 0\<rparr>"
  "mem boot_cnst = mem boot_vdst"
  using boot_fsst_simps(4) by (simp_all add: boot_cnst_def fsst.defs cnst.defs slots_free_def)

lemma boot_flst_simps [simp]:
  "hart boot_flst = 0" "locks boot_flst lk = \<lparr>lk_locked = 0, lk_name = [], lk_cpu = None\<rparr>"
  "procs boot_flst = (\<lambda>_. blank_proc)" "slots_free boot_flst"
  "cpus boot_flst i = \<lparr>cpu_proc = Some 0, noff = 0, intena = False\<rparr>"
  "ftable boot_flst = (\<lambda>_. blank_file)" "pipes boot_flst = (\<lambda>_. blank_pipe)" "mem boot_flst = mem boot_vdst"
  "cons boot_flst = \<lparr>c_buf = (\<lambda>_. 0), c_r = 0, c_w = 0, c_e = 0\<rparr>"
  using boot_cnst_simps(4) by (simp_all add: boot_flst_def cnst.defs flst.defs slots_free_def)

lemma boot_syst_simps [simp]:
  "hart boot_syst = 0" "locks boot_syst lk = \<lparr>lk_locked = 0, lk_name = [], lk_cpu = None\<rparr>"
  "procs boot_syst = (\<lambda>_. blank_proc)" "slots_free boot_syst"
  "cpus boot_syst i = \<lparr>cpu_proc = Some 0, noff = 0, intena = False\<rparr>"
  "ftable boot_syst = (\<lambda>_. blank_file)" "pipes boot_syst = (\<lambda>_. blank_pipe)" "readCount boot_syst = 0"
  using boot_flst_simps(4) by (simp_all add: boot_syst_def flst.defs syst.defs slots_free_def)

lemma boot_mem [simp]: "mem boot_vdst = (\<lambda>_. 0)"
  by (simp add: boot_vdst_def boot_slst_def slst.defs vdst.defs pst.defs)

end
