(* ===== verification/PipeSpec.thy ===== *)
theory PipeSpec
  imports RingBuffer BootState VmMap
begin

text \<open>
  Pipes are bounded queues of bytes (\<open>kernel/pipe.c\<close>).
\<close>

subsection \<open>Reading user memory\<close>

text \<open>
  \<open>walk\<close> without allocation, \<open>walkaddr\<close> and \<open>copyin\<close> only read physical memory.
\<close>

primrec pwalk :: "nat \<Rightarrow> pmem \<Rightarrow> addr \<Rightarrow> uint64 \<Rightarrow> addr" where
  "pwalk 0 m pt va = pt + 8 * PX 0 va"
| "pwalk (Suc l) m pt va =
     (let pte = load64 m (pt + 8 * PX (Suc l) va) in if pte AND PTE_V \<noteq> 0 then pwalk l m (PTE2PA pte) va else 0)"

definition phys :: "pmem \<Rightarrow> addr \<Rightarrow> uint64 \<Rightarrow> addr" where
  "phys m pt va = (let pte = pwalk 2 m pt va in
     if va < MAXVA \<and> pte \<noteq> 0 \<and> load64 m pte AND PTE_V \<noteq> 0 \<and> load64 m pte AND PTE_U \<noteq> 0 then PTE2PA (load64 m pte) else 0)"

definition ubyte :: "pmem \<Rightarrow> addr \<Rightarrow> uint64 \<Rightarrow> uchar option" where
  "ubyte m pt a = (let va = PGROUNDDOWN a; pa = phys m pt va in if pa = 0 then None else Some (m (pa + (a - va))))"

lemma walk_levels_pure: "walk_levels l pt va False s = Ok (pwalk l (mem s) pt va) s"
  by (induction l arbitrary: pt) (simp_all add: Let_def)

lemma walkaddr_read: "walkaddr pt va s = Ok (phys (mem s) pt va) s"
  by (auto simp: walkaddr_def walk_def walk_levels_pure phys_def Let_def)

lemma copyin_byte:
  "copyin pt a 1 s = (case ubyte (mem s) pt a of None \<Rightarrow> Ok (-1, []) s | Some c \<Rightarrow> Ok (0, [c]) s)"
proof -
  have "min (unat (PGSIZE - (a - PGROUNDDOWN a))) 1 = 1" using page_rest(1) [of a] by simp
  then show ?thesis
    by (simp add: copyin.simps [of pt a "Suc 0"] copyin.simps [of _ _ 0] walkaddr_read ubyte_def Let_def load_bytes_def)
qed

text \<open>The bytes \<open>copyin\<close> delivers one by one, up to the first address that is not mapped.\<close>

primrec ubytes :: "pmem \<Rightarrow> addr \<Rightarrow> uint64 \<Rightarrow> nat \<Rightarrow> uchar list" where
  "ubytes m pt a 0 = []"
| "ubytes m pt a (Suc n) = (case ubyte m pt a of None \<Rightarrow> [] | Some c \<Rightarrow> c # ubytes m pt (a + 1) n)"

subsection \<open>The queue\<close>

definition pipe_bytes :: "pipe \<Rightarrow> uchar list" where
  "pipe_bytes q = pipe.contents (pi_data q) (pi_nread q) (pi_nwrite q)"

definition pipe_ok :: "pipe \<Rightarrow> bool" where
  "pipe_ok q \<longleftrightarrow> unat (pi_nwrite q - pi_nread q) \<le> PIPESIZE"

lemma length_pipe_bytes: "length (pipe_bytes q) = unat (pi_nwrite q - pi_nread q)"
  by (simp add: pipe_bytes_def)

lemma pipe_full: "pipe_ok q \<Longrightarrow> pi_nwrite q = pi_nread q + of_nat PIPESIZE \<longleftrightarrow> length (pipe_bytes q) = PIPESIZE"
  using pipe.full_iff [of "pi_nwrite q" "pi_nread q"] by (simp add: pipe_ok_def length_pipe_bytes PIPESIZE_def)

abbreviation pipe_push :: "uchar \<Rightarrow> pipe \<Rightarrow> pipe" where
  "pipe_push c q \<equiv> q\<lparr>pi_data := (pi_data q)(unat (pi_nwrite q) mod PIPESIZE := c), pi_nwrite := pi_nwrite q + 1\<rparr>"

lemma pipe_push_spec:
  assumes "length (pipe_bytes q) < PIPESIZE"
  shows "pipe_bytes (pipe_push c q) = pipe_bytes q @ [c]" "pipe_ok (pipe_push c q)"
proof -
  have "unat (pi_nwrite q - pi_nread q) < PIPESIZE" using assms by (simp add: length_pipe_bytes)
  from pipe.push [OF this] pipe.push_count [OF this] this
  show "pipe_bytes (pipe_push c q) = pipe_bytes q @ [c]" "pipe_ok (pipe_push c q)"
    by (simp_all add: pipe_bytes_def pipe_ok_def)
qed

lemma pipe_pop_spec:
  assumes "pi_nread q \<noteq> pi_nwrite q"
  shows "pipe_bytes q = pi_data q (unat (pi_nread q) mod PIPESIZE) # pipe_bytes (q\<lparr>pi_nread := pi_nread q + 1\<rparr>)"
    "pipe_ok q \<Longrightarrow> pipe_ok (q\<lparr>pi_nread := pi_nread q + 1\<rparr>)"
  using pipe.pop [OF assms] pipe.pop_count [OF assms] by (simp_all add: pipe_bytes_def pipe_ok_def)

lemma pipe_empty: "pi_nread q = pi_nwrite q \<longleftrightarrow> pipe_bytes q = []"
  by (auto simp: pipe_bytes_def pipe.empty_iff)

subsection \<open>Frames\<close>

lemma hold_pipes [simp]: "pipes (hold lk s) = pipes s"
  by (simp add: hold_def push_off_def mach_defs Let_def)

lemma touch_pipes [simp]: "pipes (touch s) = pipes s"
  by (simp add: touch_def)

lemma upd_pipe_simps [simp]:
  "pipes (upd_pipe pi g s) = (pipes s)(pi := g (pipes s pi))" "locks (upd_pipe pi g s) = locks s"
  "procs (upd_pipe pi g s) = procs s" "mem (upd_pipe pi g s) = mem s" "hart (upd_pipe pi g s) = hart s"
  "cpus (upd_pipe pi g s) = cpus s" "sie (upd_pipe pi g s) = sie s" "slots_free (upd_pipe pi g s) = slots_free s"
  by (simp_all add: upd_pipe_def slots_free_def)

lemma lock_upd_pipe [lock_simps]:
  "upd_pipe pi g (hold lk s) = hold lk (upd_pipe pi g s)" "upd_pipe pi g (touch s) = touch (upd_pipe pi g s)"
  by (simp_all add: upd_pipe_def hold_def push_off_def touch_def mach_defs Let_def)

lemma upd_pipe_twice: "upd_pipe pi g (upd_pipe pi h s) = upd_pipe pi (\<lambda>q. g (h q)) s"
  by (simp add: upd_pipe_def)

lemma killed_eq:
  "slots_free s \<Longrightarrow> p < NPROC \<Longrightarrow> killed p s = Ok (p_killed (procs s p)) (touch s)"
  by (simp add: killed_def visit_slot_keep)

subsection \<open>Writing\<close>

definition pipe_pushes :: "uchar list \<Rightarrow> pipe \<Rightarrow> pipe" where
  "pipe_pushes bs q = fold pipe_push bs q"

lemma pipe_pushes_spec:
  "pipe_ok q \<Longrightarrow> length (pipe_bytes q) + length bs \<le> PIPESIZE \<Longrightarrow>
    pipe_bytes (pipe_pushes bs q) = pipe_bytes q @ bs \<and> pipe_ok (pipe_pushes bs q)"
  by (induction bs arbitrary: q) (auto simp: pipe_pushes_def pipe_push_spec)

lemma pipewrite_loop_eq:
  assumes "slots_free s" "lk_free (locks s (L_pipe pi))" "pr < NPROC" "p_killed (procs s pr) = 0"
    and "pi_readopen (pipes s pi) \<noteq> 0" "pipe_ok (pipes s pi)" "length (pipe_bytes (pipes s pi)) + d \<le> PIPESIZE"
    and "d = nat (cnt - i)" "d \<le> k" "0 \<le> i"
  shows "pipewrite_loop k sw pi pr a cnt i (hold (L_pipe pi) s) =
    (let bs = ubytes (mem s) (p_pagetable (procs s pr)) (a + word_of_int i) d
     in Ok (Some (i + int (length bs))) (hold (L_pipe pi) (upd_pipe pi (pipe_pushes bs) s)))"
  using assms
proof (induction d arbitrary: s i k)
  case 0
  then show ?case by (cases k) (simp_all add: pipe_pushes_def upd_pipe_def)
next
  case (Suc d)
  obtain j where k: "k = Suc j" using Suc.prems(9) by (cases k) auto
  have i: "i < cnt" "d = nat (cnt - (i + 1))" using Suc.prems(8) by auto
  have room: "length (pipe_bytes (pipes s pi)) < PIPESIZE" using Suc.prems(7) by simp
  then have nf: "pi_nwrite (pipes s pi) \<noteq> pi_nread (pipes s pi) + of_nat PIPESIZE"
    using pipe_full [OF Suc.prems(6)] by simp
  have kl: "killed pr (hold (L_pipe pi) s) = Ok 0 (hold (L_pipe pi) s)"
    using Suc.prems(1-4) by (simp add: killed_eq slots_free_irqs)
  show ?case
  proof (cases "ubyte (mem s) (p_pagetable (procs s pr)) (a + word_of_int i)")
    case None
    then show ?thesis using i nf kl Suc.prems(5) unfolding k
      by (simp add: copyin_byte [unfolded One_nat_def] pipe_pushes_def upd_pipe_def)
  next
    case (Some c)
    let ?s = "upd_pipe pi (pipe_push c) s"
    have "pipewrite_loop j sw pi pr a cnt (i + 1) (hold (L_pipe pi) ?s) =
      (let bs = ubytes (mem ?s) (p_pagetable (procs ?s pr)) (a + word_of_int (i + 1)) d
       in Ok (Some (i + 1 + int (length bs))) (hold (L_pipe pi) (upd_pipe pi (pipe_pushes bs) ?s)))"
      using Suc.prems i k room pipe_push_spec [OF room] by (intro Suc.IH) auto
    then show ?thesis using Some i nf kl Suc.prems(5) unfolding k
      by (simp add: copyin_byte [unfolded One_nat_def] lock_simps Let_def upd_pipe_twice pipe_pushes_def comp_def algebra_simps)
  qed
qed

lemma wakeup_hold_release:
  assumes "slots_free s" "lk_free (locks s lk)" "\<And>p. lk \<noteq> L_proc p"
  shows "bnd (wakeup ch (hold lk s)) (\<lambda>_ s. release lk s) =
    Ok () (touch (s\<lparr>procs := (\<lambda>p. if p < NPROC \<and> cpu_proc (cpus s (hart s)) \<noteq> Some p
      then woken ch (procs s p) else procs s p)\<rparr>))"
  using assms by (simp add: wakeup_eq lock_simps slots_free_irqs cong: if_cong)

text \<open>
  C12: When the pipe has room, its read end is open and the caller has not been killed, \<open>pipewrite\<close>
  appends to the queue exactly the bytes it can read from user memory, in order, returns their
  number, and wakes every reader; it changes no other pipe and no memory.
\<close>

theorem pipewrite_appends:
  assumes "slots_free s" "lk_free (locks s (L_pipe pi))" "cpu_proc (cpus s (hart s)) = Some pr" "pr < NPROC"
    and "p_killed (procs s pr) = 0" "pi_readopen (pipes s pi) \<noteq> 0" "pipe_ok (pipes s pi)"
    and "length (pipe_bytes (pipes s pi)) + nat cnt \<le> PIPESIZE"
  shows "\<exists>t. pipewrite n sw pi a cnt s = Ok (int (length (ubytes (mem s) (p_pagetable (procs s pr)) a (nat cnt)))) t \<and>
    pipe_bytes (pipes t pi) = pipe_bytes (pipes s pi) @ ubytes (mem s) (p_pagetable (procs s pr)) a (nat cnt) \<and>
    pipe_ok (pipes t pi) \<and> (\<forall>x. x \<noteq> pi \<longrightarrow> pipes t x = pipes s x) \<and> mem t = mem s \<and> locks t = locks s \<and>
    (\<forall>p<NPROC. p \<noteq> pr \<longrightarrow> procs t p = woken (Ch_nread pi) (procs s p))"
proof -
  define bs where "bs = ubytes (mem s) (p_pagetable (procs s pr)) a (nat cnt)"
  have len: "length (ubytes m pt x k) \<le> k" for m pt x k
    by (induction k arbitrary: x) (auto split: option.split)
  let ?s = "touch s"
  have loop: "pipewrite_loop (nat cnt + n) sw pi pr a cnt 0 (hold (L_pipe pi) ?s) =
      Ok (Some (int (length bs))) (hold (L_pipe pi) (upd_pipe pi (pipe_pushes bs) ?s))"
    using assms by (subst pipewrite_loop_eq [where d = "nat cnt"]) (simp_all add: bs_def Let_def)
  have push: "pipe_bytes (pipe_pushes bs (pipes s pi)) = pipe_bytes (pipes s pi) @ bs" "pipe_ok (pipe_pushes bs (pipes s pi))"
    using pipe_pushes_spec [of "pipes s pi" bs] assms(7,8) len [of "mem s" "p_pagetable (procs s pr)" a "nat cnt"]
    by (simp_all add: bs_def)
  let ?u = "upd_pipe pi (pipe_pushes bs) ?s"
  have wk: "bnd (wakeup (Ch_nread pi) (hold (L_pipe pi) ?u)) (\<lambda>_ s. release (L_pipe pi) s) =
    Ok () (touch (?u\<lparr>procs := (\<lambda>p. if p < NPROC \<and> cpu_proc (cpus ?u (hart ?u)) \<noteq> Some p
      then woken (Ch_nread pi) (procs ?u p) else procs ?u p)\<rparr>))" (is "_ = Ok () ?t")
    using assms(1,2) by (intro wakeup_hold_release) auto
  have "pipewrite n sw pi a cnt s = bnd (bnd (wakeup (Ch_nread pi) (hold (L_pipe pi) ?u)) (\<lambda>_ s. release (L_pipe pi) s))
      (\<lambda>_ s. Ok (int (length bs)) s)"
    using assms(1-3) loop by (simp add: pipewrite_def curproc_eq slots_free_irqs acquire_free bnd_assoc)
  then have "pipewrite n sw pi a cnt s = Ok (int (length bs)) ?t" by (simp add: wk)
  then show ?thesis using push assms(3) by (simp add: bs_def)
qed

subsection \<open>Reading\<close>

lemma upper_pipes: "pst.more s = pst.more t \<Longrightarrow> pipes s = pipes t"
  by (cases s; cases t) simp

text \<open>
  Where a byte of user memory lies that \<open>copyout\<close> can write: the page is mapped for the user, and is not page 0.
  \<open>uputs\<close> stores bytes one by one up to the first address that is not mapped.
\<close>

definition upa :: "pmem \<Rightarrow> addr \<Rightarrow> uint64 \<Rightarrow> addr option" where
  "upa m pt a = (let va = PGROUNDDOWN a; pte = pte_at m pt va in
     if va \<noteq> 0 \<and> va < MAXVA \<and> pte AND PTE_V \<noteq> 0 \<and> pte AND PTE_U \<noteq> 0 \<and> PTE2PA pte \<noteq> 0
     then Some (PTE2PA pte + (a - va)) else None)"

primrec uputs :: "(uint64 \<Rightarrow> addr option) \<Rightarrow> uint64 \<Rightarrow> uchar list \<Rightarrow> pmem \<Rightarrow> nat \<times> pmem" where
  "uputs tr a [] m = (0, m)"
| "uputs tr a (c # cs) m = (case tr a of
     None \<Rightarrow> (0, m)
   | Some x \<Rightarrow> (case uputs tr (a + 1) cs (m(x := c)) of (r, m') \<Rightarrow> (Suc r, m')))"

text \<open>
  The destination of a copy: no page is shared copy-on-write, and no byte lies in a page of the page table.
\<close>

definition dest_ok :: "pmem \<Rightarrow> addr \<Rightarrow> uint64 \<Rightarrow> nat \<Rightarrow> bool" where
  "dest_ok m pt a n \<longleftrightarrow> (\<forall>i<n. pte_at m pt (PGROUNDDOWN (a + of_nat i)) AND PTE_COW = 0 \<and>
     (\<forall>x f. upa m pt (a + of_nat i) = Some x \<and> f \<in> tables m pt \<longrightarrow> \<not> in_range f 4096 x))"

lemma copyout_byte:
  assumes "pt_wf e (mem s) pt" "0 < e" "pte_at (mem s) pt (PGROUNDDOWN a) AND PTE_COW = 0"
  shows "copyout pt a [c] s = (case upa (mem s) pt a of None \<Rightarrow> Ok (-1) s | Some x \<Rightarrow> Ok 0 (s\<lparr>mem := (mem s)(x := c)\<rparr>))"
proof -
  let ?va = "PGROUNDDOWN a"
  have rest: "min (unat (PGSIZE - (a - ?va))) 1 = 1" using page_rest(1) [of a] by simp
  have one: "store_bytes m x [c] = m(x := c)" for m x
    by (auto simp: store_bytes_def fun_eq_iff unat_eq_0)
  have w: "walkaddr pt ?va s = Ok (if ?va < MAXVA \<and> pte_at (mem s) pt ?va AND PTE_V \<noteq> 0 \<and> pte_at (mem s) pt ?va AND PTE_U \<noteq> 0
      then PTE2PA (pte_at (mem s) pt ?va) else 0) s"
    using leaf_slot_cases [OF assms(1,2), of ?va] pte_at_0 [OF assms(1,2), of ?va]
    by (cases "?va < MAXVA"; cases "leaf_slot (mem s) pt ?va = 0") (auto simp: walkaddr_def walk_read load_leaf_slot)
  have d: "dup_pg pt ?va s = Ok (if ?va < MAXVA \<and> ?va \<noteq> 0 \<and> leaf_slot (mem s) pt ?va \<noteq> 0 then 0 else -1) s"
    using leaf_slot_cases [OF assms(1,2), of ?va] assms(3) by (auto simp: dup_pg_def walk_read load_leaf_slot not_less)
  show ?thesis
    using pte_at_0 [OF assms(1,2), of ?va] rest one
    by (auto simp: copyout.simps [of _ _ "[c]"] copyout.simps [of _ _ "[]"] d w upa_def Let_def)
qed

definition pipe_drop :: "nat \<Rightarrow> pipe \<Rightarrow> pipe" where
  "pipe_drop d q = q\<lparr>pi_nread := pi_nread q + of_nat d\<rparr>"

lemma pipe_drop_simps: "pipe_drop 0 q = q" "pipe_drop d (q\<lparr>pi_nread := pi_nread q + 1\<rparr>) = pipe_drop (Suc d) q"
  by (simp_all add: pipe_drop_def algebra_simps)

lemma pipe_drop_spec:
  "d \<le> length (pipe_bytes q) \<Longrightarrow> pipe_bytes (pipe_drop d q) = drop d (pipe_bytes q) \<and> (pipe_ok q \<longrightarrow> pipe_ok (pipe_drop d q))"
proof (induction d arbitrary: q)
  case (Suc d)
  then have ne: "pi_nread q \<noteq> pi_nwrite q" by (auto simp: pipe_empty)
  with Suc.IH [of "q\<lparr>pi_nread := pi_nread q + 1\<rparr>"] pipe_pop_spec [OF ne] Suc.prems show ?case
    by (simp add: pipe_drop_simps)
qed (simp add: pipe_drop_simps)

text \<open>
  A byte whose copy fails is gone from the queue as well.
\<close>

definition consumed :: "nat \<Rightarrow> uchar list \<Rightarrow> nat" where
  "consumed r bs = (if r < length bs then Suc r else r)"

lemma piperead_loop_eq:
  assumes "pt_wf e m pt" "0 < e" "\<And>f x. f \<in> tables m pt \<Longrightarrow> in_range f 4096 x \<Longrightarrow> mem s x = m x"
    and "dest_ok m pt (a + of_nat i) k" "p_pagetable (procs s pr) = pt"
    and "uputs (upa m pt) (a + of_nat i) (take k (pipe_bytes (pipes s pi))) (mem s) = (r, m')"
  shows "piperead_loop k pi pr a i s =
    Ok (i + r) ((upd_pipe pi (pipe_drop (consumed r (take k (pipe_bytes (pipes s pi))))) s)\<lparr>mem := m'\<rparr>)"
  using assms(3-)
proof (induction k arbitrary: i s r)
  case 0
  then show ?case by (simp add: consumed_def pipe_drop_simps upd_pipe_def)
next
  case (Suc k)
  let ?q = "pipes s pi" and ?ad = "a + of_nat i"
  show ?case
  proof (cases "pi_nread ?q = pi_nwrite ?q")
    case True
    then show ?thesis using Suc.prems(4) by (simp add: pipe_empty consumed_def pipe_drop_simps upd_pipe_def)
  next
    case ne: False
    let ?c = "pi_data ?q (unat (pi_nread ?q) mod PIPESIZE)" and ?p = "\<lambda>q. q\<lparr>pi_nread := pi_nread q + 1\<rparr>"
    let ?s = "upd_pipe pi ?p s"
    note pop = pipe_pop_spec(1) [OF ne]
    note ag = pt_agree [OF Suc.prems(1)]
    have up: "upa (mem s) pt = upa m pt" by (simp add: upa_def fun_eq_iff ag(3))
    have cow: "pte_at (mem ?s) pt (PGROUNDDOWN ?ad) AND PTE_COW = 0" using Suc.prems(2) by (auto simp: dest_ok_def ag(3) dest: spec [of _ 0])
    have wf: "pt_wf e (mem ?s) pt" using assms(1) ag(2) by simp
    note co = copyout_byte [OF wf assms(2) cow, of ?c]
    show ?thesis
    proof (cases "upa m pt ?ad")
      case None
      then have "r = 0" "m' = mem s" using Suc.prems(4) pop by simp_all
      then show ?thesis using None ne pop co Suc.prems(3)
        by (simp add: Let_def up consumed_def pipe_drop_def upd_pipe_def)
    next
      case (Some x)
      let ?t = "?s\<lparr>mem := (mem s)(x := ?c)\<rparr>"
      obtain r' where r: "r = Suc r'" "uputs (upa m pt) (?ad + 1) (take k (pipe_bytes (?p ?q))) ((mem s)(x := ?c)) = (r', m')"
        using Suc.prems(4) Some pop by (auto split: prod.splits)
      have nt: "\<not> in_range f 4096 x" if "f \<in> tables m pt" for f
        using Suc.prems(2) Some that by (auto simp: dest_ok_def dest: spec [of _ 0])
      have nx: "?ad + 1 = a + of_nat (Suc i)" "dest_ok m pt (a + of_nat (Suc i)) k"
        using Suc.prems(2) by (auto simp: dest_ok_def algebra_simps dest: spec [of _ "Suc _"])
      have "piperead_loop k pi pr a (Suc i) ?t =
          Ok (Suc i + r') ((upd_pipe pi (pipe_drop (consumed r' (take k (pipe_bytes (pipes ?t pi))))) ?t)\<lparr>mem := m'\<rparr>)"
      proof (rule Suc.IH)
        show "uputs (upa m pt) (a + of_nat (Suc i)) (take k (pipe_bytes (pipes ?t pi))) (mem ?t) = (r', m')"
          using r(2) by (simp only: nx(1) [symmetric] upd_pipe_simps) simp
      qed (use Suc.prems nt nx(2) in auto)
      then show ?thesis using ne co Some r pop Suc.prems(3)
        by (simp add: Let_def up consumed_def pipe_drop_simps upd_pipe_def)
    qed
  qed
qed

text \<open>
  C34: When the pipe is not empty or its write end is closed, \<open>piperead\<close> does not wait. It stores the first
  bytes of the queue, in order and at most the number asked for, at the user addresses from \<open>a\<close> on, up to the first
  address that is not mapped, and writes no other memory. It returns their number, they are gone from
  the queue (and one byte more, when its copy to user space failed), and every writer is woken. No other pipe
  changes. No page of the destination may be shared copy-on-write or be part of the page table.
\<close>

theorem piperead_takes:
  assumes "slots_free s" "lk_free (locks s (L_pipe pi))" "cpu_proc (cpus s (hart s)) = Some pr" "pr < NPROC"
    and "pipe_ok (pipes s pi)" "pipe_bytes (pipes s pi) \<noteq> [] \<or> pi_writeopen (pipes s pi) = 0"
    and "pt_wf (kend s) (mem s) pt" "0 < kend s" "p_pagetable (procs s pr) = pt" "dest_ok (mem s) pt a (nat cnt)"
    and "uputs (upa (mem s) pt) a (take (nat cnt) (pipe_bytes (pipes s pi))) (mem s) = (r, m)"
  shows "\<exists>t. piperead n sw pi a cnt s = Ok (int r) t \<and> mem t = m \<and>
    pipe_bytes (pipes t pi) = drop (consumed r (take (nat cnt) (pipe_bytes (pipes s pi)))) (pipe_bytes (pipes s pi)) \<and>
    pipe_ok (pipes t pi) \<and> (\<forall>x. x \<noteq> pi \<longrightarrow> pipes t x = pipes s x) \<and> locks t = locks s \<and>
    (\<forall>p<NPROC. p \<noteq> pr \<longrightarrow> procs t p = woken (Ch_nwrite pi) (procs s p))"
proof -
  let ?s = "touch s" and ?d = "consumed r (take (nat cnt) (pipe_bytes (pipes s pi)))"
  let ?u = "(upd_pipe pi (pipe_drop ?d) ?s)\<lparr>mem := m\<rparr>"
  have wait: "piperead_wait n sw pi pr (hold (L_pipe pi) ?s) = Ok True (hold (L_pipe pi) ?s)"
    using assms(6) by (cases n) (auto simp: pipe_empty)
  have hm: "(hold lk s)\<lparr>mem := m\<rparr> = hold lk (s\<lparr>mem := m\<rparr>)" for lk m and s :: "'a flst_scheme"
    by (simp add: hold_def push_off_def mach_defs Let_def)
  have "piperead_loop (nat cnt) pi pr a 0 (hold (L_pipe pi) ?s) =
      Ok (0 + r) ((upd_pipe pi (pipe_drop (consumed r (take (nat cnt) (pipe_bytes (pipes (hold (L_pipe pi) ?s) pi))))) (hold (L_pipe pi) ?s))\<lparr>mem := m\<rparr>)"
    using assms(7-) by (intro piperead_loop_eq) simp_all
  then have loop: "piperead_loop (nat cnt) pi pr a 0 (hold (L_pipe pi) ?s) = Ok r (hold (L_pipe pi) ?u)"
    by (simp add: lock_simps hm)
  have "r \<le> length bs" if "uputs tr x bs m0 = (r, m1)" for tr x bs m0 r m1
    using that by (induction bs arbitrary: x m0 r) (auto split: option.splits prod.splits)
  from this [OF assms(11)] have d: "?d \<le> length (pipe_bytes (pipes s pi))" by (auto simp: consumed_def)
  have wk: "bnd (wakeup (Ch_nwrite pi) (hold (L_pipe pi) ?u)) (\<lambda>_ s. release (L_pipe pi) s) =
    Ok () (touch (?u\<lparr>procs := (\<lambda>p. if p < NPROC \<and> cpu_proc (cpus ?u (hart ?u)) \<noteq> Some p
      then woken (Ch_nwrite pi) (procs ?u p) else procs ?u p)\<rparr>))" (is "_ = Ok () ?t")
    using assms(1,2) by (intro wakeup_hold_release) (auto simp: slots_free_def)
  have "piperead n sw pi a cnt s = bnd (bnd (wakeup (Ch_nwrite pi) (hold (L_pipe pi) ?u)) (\<lambda>_ s. release (L_pipe pi) s))
      (\<lambda>_ s. Ok (int r) s)"
    using assms(1-3) loop wait by (simp add: piperead_def curproc_eq slots_free_irqs acquire_free bnd_assoc)
  then have "piperead n sw pi a cnt s = Ok (int r) ?t" by (simp add: wk)
  then show ?thesis using pipe_drop_spec [OF d] assms(3,5) by simp
qed

subsection \<open>The capacity is never exceeded\<close>

definition pipes_ok :: "'z flst_scheme \<Rightarrow> bool" where
  "pipes_ok s \<longleftrightarrow> (\<forall>pi. pipe_ok (pipes s pi))"

interpretation po: upper_pred "pipes_ok :: 'z flst_scheme \<Rightarrow> bool"
  by unfold_locales (auto simp: pipes_ok_def dest: upper_pipes)

lemma pipes_ok_pop: "pipes_ok s \<Longrightarrow> pi_nread (pipes s pi) \<noteq> pi_nwrite (pipes s pi) \<Longrightarrow>
    pipes_ok (upd_pipe pi (\<lambda>q. q\<lparr>pi_nread := pi_nread q + 1\<rparr>) s)"
  by (simp add: pipes_ok_def pipe_pop_spec)

lemma pipes_ok_push: "pipes_ok s \<Longrightarrow> pi_nwrite (pipes s pi) \<noteq> pi_nread (pipes s pi) + of_nat PIPESIZE \<Longrightarrow>
    pipes_ok (upd_pipe pi (pipe_push c) s)"
proof -
  assume a: "pipes_ok s" "pi_nwrite (pipes s pi) \<noteq> pi_nread (pipes s pi) + of_nat PIPESIZE"
  then have "length (pipe_bytes (pipes s pi)) < PIPESIZE"
    using pipe_full [of "pipes s pi"] by (auto simp: pipes_ok_def pipe_ok_def length_pipe_bytes le_less)
  from pipe_push_spec(2) [OF this] a(1) show ?thesis by (simp add: pipes_ok_def)
qed

lemma wlp_pipewrite_loop:
  assumes "\<forall>s u t. sw s = Ok u t \<longrightarrow> pipes_ok s \<longrightarrow> pipes_ok t"
  shows "pipes_ok s \<Longrightarrow> wlp (pipewrite_loop k sw pi pr a cnt i s) (\<lambda>_. pipes_ok)"
  by (induction k arbitrary: i s)
    (auto simp: Let_def copyin_byte [unfolded One_nat_def] intro!: po.wlps po.wlp_sleep [OF assms] pipes_ok_push
      split: option.split)

lemma wlp_piperead_wait:
  assumes "\<forall>s u t. sw s = Ok u t \<longrightarrow> pipes_ok s \<longrightarrow> pipes_ok t"
  shows "pipes_ok s \<Longrightarrow> (\<And>r t. pipes_ok t \<Longrightarrow> Q r t) \<Longrightarrow> wlp (piperead_wait n sw pi pr s) Q"
  by (induction n arbitrary: s) (auto intro!: po.wlps po.wlp_sleep [OF assms])

lemma wlp_piperead_loop_ok:
  shows "pipes_ok s \<Longrightarrow> (\<And>r t. pipes_ok t \<Longrightarrow> Q r t) \<Longrightarrow> wlp (piperead_loop k pi pr a i s) Q"
  by (induction k arbitrary: i s) (auto simp: Let_def intro!: po.wlps pipes_ok_pop)

text \<open>
  C35: Whatever other processes do meanwhile that keeps it so, no pipe ever holds more than
  \<open>PIPESIZE\<close> bytes: \<open>pipewrite\<close>, \<open>piperead\<close> and \<open>pipeclose\<close> keep this bound.
\<close>

theorem pipe_capacity_kept:
  assumes "\<forall>s u t. sw s = Ok u t \<longrightarrow> pipes_ok s \<longrightarrow> pipes_ok t" "pipes_ok s"
  shows "(\<forall>r t. pipewrite n sw pi a cnt s = Ok r t \<longrightarrow> pipes_ok t) \<and> (\<forall>r t. piperead n sw pi a cnt s = Ok r t \<longrightarrow> pipes_ok t) \<and>
    (\<forall>w u t. pipeclose pi w s = Ok u t \<longrightarrow> pipes_ok t)"
proof -
  have "wlp (pipewrite n sw pi a cnt s) (\<lambda>_. pipes_ok)"
    unfolding pipewrite_def
    by (auto intro!: po.wlps wlp_mono [OF wlp_pipewrite_loop [OF assms(1)]] assms(2) split: option.split)
  moreover have "wlp (piperead n sw pi a cnt s) (\<lambda>_. pipes_ok)"
    unfolding piperead_def
    by (auto intro!: po.wlps wlp_piperead_wait [OF assms(1)] wlp_piperead_loop_ok assms(2))
  moreover have "pipes_ok (upd_pipe pi (\<lambda>q. q\<lparr>pi_writeopen := 0\<rparr>) u)" "pipes_ok (upd_pipe pi (\<lambda>q. q\<lparr>pi_readopen := 0\<rparr>) u)"
    if "pipes_ok u" for u :: "'a flst_scheme"
    using that by (simp_all add: pipes_ok_def pipe_ok_def)
  then have "wlp (pipeclose pi w s) (\<lambda>_. pipes_ok)" for w
    unfolding pipeclose_def by (auto intro!: po.wlps assms(2))
  ultimately show ?thesis by (simp add: wlp_def)
qed

subsection \<open>Witnesses\<close>

text \<open>A page table at \<open>0x80010000\<close> that maps the page at \<open>0x1000\<close>, whose first bytes are 104 and 105.\<close>

definition sample_mem :: pmem where
  "sample_mem = store64 (store64 (store64 (store_bytes (\<lambda>_. 0) 0x80013000 [104, 105])
     0x80010000 (PA2PTE 0x80011000 OR PTE_V)) 0x80011000 (PA2PTE 0x80012000 OR PTE_V))
     0x80012008 (PA2PTE 0x80013000 OR PTE_V OR PTE_U OR PTE_R)"

lemma sample_walk:
  "load64 sample_mem 0x80010000 = PA2PTE 0x80011000 OR PTE_V" "load64 sample_mem 0x80011000 = PA2PTE 0x80012000 OR PTE_V"
  "load64 sample_mem 0x80012008 = PA2PTE 0x80013000 OR PTE_V OR PTE_U OR PTE_R"
  "sample_mem 0x80013000 = 104" "sample_mem 0x80013001 = 105"
  by (simp_all add: sample_mem_def load64_store64_disjoint aligned_def store64_outside in_range_def store_bytes_def)

lemma sample_px: "PX 0 0x1000 = 1" "PX (Suc 0) 0x1000 = 0" "PX 2 0x1000 = 0"
  by (simp_all add: PX_def)

lemma pwalk_2: "pwalk 2 m pt va =
    (if load64 m (pt + 8 * PX 2 va) AND PTE_V \<noteq> 0
     then if load64 m (PTE2PA (load64 m (pt + 8 * PX 2 va)) + 8 * PX 1 va) AND PTE_V \<noteq> 0
       then PTE2PA (load64 m (PTE2PA (load64 m (pt + 8 * PX 2 va)) + 8 * PX 1 va)) + 8 * PX 0 va else 0
     else 0)"
  by (simp only: numeral_2_eq_2 One_nat_def pwalk.simps Let_def)

lemma sample_phys: "phys sample_mem 0x80010000 0x1000 = 0x80013000"
  by (simp add: phys_def pwalk_2 sample_px Let_def sample_walk PTE2PA_def PA2PTE_def pte_bits MAXVA_def)

lemma ubytes_2: "ubytes m pt a 2 = (case ubyte m pt a of None \<Rightarrow> [] | Some c \<Rightarrow>
    c # (case ubyte m pt (a + 1) of None \<Rightarrow> [] | Some d \<Rightarrow> [d]))"
  by (simp only: numeral_2_eq_2 One_nat_def ubytes.simps)

lemma sample_ubytes: "ubytes sample_mem 0x80010000 0x1000 2 = [104, 105]"
  by (simp add: ubytes_2 ubyte_def Let_def sample_phys PGROUNDDOWN_def sample_walk)

definition sample_pipe_state :: flst where
  "sample_pipe_state = boot_flst\<lparr>mem := sample_mem, procs := (\<lambda>_. blank_proc\<lparr>p_pagetable := 0x80010000\<rparr>)\<rparr>"

lemma blank_pipe_ok [simp]: "pipe_bytes blank_pipe = []" "pipe_ok blank_pipe"
  by (simp_all add: pipe_bytes_def pipe_ok_def blank_pipe_def)

lemma sample_pipe_simps:
  "slots_free sample_pipe_state" "lk_free (locks sample_pipe_state lk)" "cpu_proc (cpus sample_pipe_state (hart sample_pipe_state)) = Some 0"
  "p_killed (procs sample_pipe_state 0) = 0" "pipes sample_pipe_state = (\<lambda>_. blank_pipe)" "mem sample_pipe_state = sample_mem"
  "p_pagetable (procs sample_pipe_state 0) = 0x80010000"
  using boot_flst_simps(4) by (simp_all add: sample_pipe_state_def slots_free_def lk_free_def blank_proc_def)

theorem pipewrite_appends_witness:
  "\<exists>t. pipewrite 0 (Ok ()) 0x80020000 0x1000 2 sample_pipe_state = Ok 2 t \<and> pipe_bytes (pipes t 0x80020000) = [104, 105]"
proof -
  have "pi_readopen blank_pipe \<noteq> 0" "0 < NPROC" "2 \<le> PIPESIZE" by (simp_all add: blank_pipe_def NPROC_def PIPESIZE_def)
  then show ?thesis
    using pipewrite_appends [of sample_pipe_state "0x80020000" 0 2 0 "Ok ()" "0x1000"] sample_ubytes
    by (auto simp: sample_pipe_simps)
qed

lemma sample_copyout:
  assumes "mem s = sample_mem"
  shows "copyout 0x80010000 0x1000 [c] s = Ok 0 (s\<lparr>mem := store_bytes sample_mem 0x80013000 [c]\<rparr>)"
proof -
  have "pwalk 2 sample_mem 0x80010000 0x1000 = 0x80012008"
    by (simp add: pwalk_2 sample_px sample_walk PTE2PA_def PA2PTE_def pte_bits)
  moreover have "PGROUNDDOWN 0x1000 = 0x1000" by (simp add: PGROUNDDOWN_def)
  moreover have "load64 sample_mem 0x80012008 AND PTE_COW = 0" by (simp add: sample_walk PA2PTE_def pte_bits)
  ultimately show ?thesis using assms
    by (simp add: copyout.simps [of _ _ "[c]"] copyout.simps [of _ _ "[]"] dup_pg_def walk_def walk_levels_pure walkaddr_read
        sample_phys MAXVA_def Let_def)
qed

text \<open>The counters of this pipe are about to wrap around; it holds two bytes.\<close>

definition wrapped_pipe :: pipe where
  "wrapped_pipe = blank_pipe\<lparr>pi_nread := - 1, pi_nwrite := 1\<rparr>"

lemma wrapped_pipe_simps: "length (pipe_bytes wrapped_pipe) = 2" "pipe_ok wrapped_pipe" "pi_nread wrapped_pipe \<noteq> pi_nwrite wrapped_pipe"
  by (simp_all add: length_pipe_bytes wrapped_pipe_def pipe_ok_def PIPESIZE_def)

lemma wrapped_read:
  "\<exists>t. piperead 0 (Ok ()) pi 0x1000 1 (sample_pipe_state\<lparr>pipes := (\<lambda>_. wrapped_pipe)\<rparr>) = Ok 1 t"
proof -
  let ?s = "sample_pipe_state\<lparr>pipes := (\<lambda>_. wrapped_pipe)\<rparr>"
  let ?c = "pi_data wrapped_pipe (unat (pi_nread wrapped_pipe) mod PIPESIZE)"
  define u where "u = (upd_pipe pi (\<lambda>q. q\<lparr>pi_nread := pi_nread q + 1\<rparr>) (touch ?s))\<lparr>mem := store_bytes sample_mem 0x80013000 [?c]\<rparr>"
  have f: "slots_free ?s" "irqs_ok ?s" "lk_free (locks ?s (L_pipe pi))" "cpu_proc (cpus ?s (hart ?s)) = Some 0"
    "mem (touch ?s) = sample_mem" "p_pagetable (procs (touch ?s) 0) = 0x80010000"
    using sample_pipe_simps by (simp_all add: slots_free_def)
  have hm: "(hold lk s)\<lparr>mem := m\<rparr> = hold lk (s\<lparr>mem := m\<rparr>)" for lk m and s :: flst
    by (simp add: hold_def push_off_def mach_defs Let_def)
  have "piperead_loop 1 pi 0 0x1000 0 (hold (L_pipe pi) (touch ?s)) = Ok 1 (hold (L_pipe pi) u)"
    using f wrapped_pipe_simps(3) by (simp add: Let_def sample_copyout lock_simps u_def hm)
  moreover have u: "slots_free u" "lk_free (locks u (L_pipe pi))" using f(1,3) by (simp_all add: u_def slots_free_def)
  moreover have "piperead_wait 0 (Ok ()) pi 0 (hold (L_pipe pi) (touch ?s)) = Ok True (hold (L_pipe pi) (touch ?s))"
    using wrapped_pipe_simps(3) by simp
  ultimately have "piperead 0 (Ok ()) pi 0x1000 1 ?s =
      bnd (bnd (wakeup (Ch_nwrite pi) (hold (L_pipe pi) u)) (\<lambda>_ s. release (L_pipe pi) s)) (\<lambda>_ s. Ok 1 s)"
    using f by (simp add: piperead_def curproc_eq acquire_free bnd_assoc del: piperead_loop.simps)
  then show ?thesis using u by (simp add: wakeup_hold_release)
qed

text \<open>
  A table made by \<open>mappages\<close> maps the page at \<open>0x1000\<close>; the pipe holds two bytes 42, of which one is read.
\<close>

lemma mapped_page:
  "\<exists>(t :: kst) ys. pt_env t 0x80004000 ys \<and> tables (mem t) 0x80004000 \<subseteq> {0x80002000, 0x80003000, 0x80004000} \<and>
     pte_at (mem t) 0x80004000 0x1000 = PA2PTE 0x80006000 OR (PTE_W OR PTE_R OR PTE_U) OR PTE_V"
proof -
  have n: "PGROUNDDOWN 0x1000 = 0x1000" by (simp add: PGROUNDDOWN_def)
  obtain t ys where t: "pt_env t 0x80004000 ys" "pt_step two_pages t 0x80004000 [0x80002000, 0x80003000] ys"
      "pte_at (mem t) 0x80004000 0x1000 = PA2PTE 0x80006000 OR (PTE_W OR PTE_R OR PTE_U) OR PTE_V"
    using mappages_spec [OF two_pages_env(1), of PGSIZE "0x1000" "0x80006000" "PTE_W OR PTE_R OR PTE_U"] two_pages_env(2)
    by (auto simp: n in_pages_def)
  have "tables (mem t) 0x80004000 \<subseteq> tables (mem two_pages) 0x80004000 \<union> set xs" if "pt_step two_pages t 0x80004000 xs ys" for xs
    using that by (auto simp: pt_step_def)
  from this [OF t(2)] show ?thesis using t(1,3) two_pages_env(3) by (intro exI [of _ t] exI [of _ ys]) auto
qed

definition full_pipe :: pipe where
  "full_pipe = wrapped_pipe\<lparr>pi_data := (\<lambda>_. 42)\<rparr>"

theorem piperead_takes_witness:
  "\<exists>(s :: flst) t. piperead 0 (Ok ()) 0x80020000 0x1000 1 s = Ok 1 t \<and> pipes s 0x80020000 = full_pipe \<and>
     mem t = (mem s)(0x80006000 := 42) \<and> pipe_bytes (pipes t 0x80020000) = [42]"
proof -
  obtain k :: kst and ys where k: "pt_env k 0x80004000 ys" "tables (mem k) 0x80004000 \<subseteq> {0x80002000, 0x80003000, 0x80004000}"
    "pte_at (mem k) 0x80004000 0x1000 = PA2PTE 0x80006000 OR (PTE_W OR PTE_R OR PTE_U) OR PTE_V" using mapped_page by blast
  let ?s = "sample_pipe_state\<lparr>mem := mem k, kend := kend k, pipes := (\<lambda>_. full_pipe), procs := (\<lambda>_. blank_proc\<lparr>p_pagetable := 0x80004000\<rparr>)\<rparr>"
  have pb: "pipe_bytes full_pipe = [42, 42]"
    by (simp add: pipe_bytes_def pipe.contents_def full_pipe_def wrapped_pipe_def upt_conv_Cons)
  have n: "PGROUNDDOWN 0x1000 = 0x1000" by (simp add: PGROUNDDOWN_def)
  have up: "upa (mem k) 0x80004000 0x1000 = Some 0x80006000"
    by (simp add: upa_def n k(3) PA2PTE_def PTE2PA_def pte_bits MAXVA_def)
  have d: "dest_ok (mem k) 0x80004000 0x1000 1"
    using k(2) by (auto simp: dest_ok_def n up k(3) PA2PTE_def pte_bits in_range_def)
  have p: "pipe_ok full_pipe" "pt_wf (kend k) (mem k) 0x80004000" "0 < kend k"
    using wrapped_pipe_simps(2) pt_env_wf [OF k(1)] pt_env_kend [OF k(1)] by (simp_all add: full_pipe_def pipe_ok_def)
  have "slots_free ?s" "lk_free (locks ?s (L_pipe 0x80020000))" "cpu_proc (cpus ?s (hart ?s)) = Some 0" "0 < NPROC"
    "pipe_ok (pipes ?s 0x80020000)" "pipe_bytes (pipes ?s 0x80020000) \<noteq> [] \<or> pi_writeopen (pipes ?s 0x80020000) = 0"
    "pt_wf (kend ?s) (mem ?s) 0x80004000" "0 < kend ?s" "p_pagetable (procs ?s 0) = 0x80004000" "dest_ok (mem ?s) 0x80004000 0x1000 (nat 1)"
    "uputs (upa (mem ?s) 0x80004000) 0x1000 (take (nat 1) (pipe_bytes (pipes ?s 0x80020000))) (mem ?s) = (1, (mem k)(0x80006000 := 42))"
    using sample_pipe_simps(1-3) p d up pb by (simp_all add: NPROC_def slots_free_def)
  from piperead_takes [OF this, of 0 "Ok ()"] obtain t where "piperead 0 (Ok ()) 0x80020000 0x1000 1 ?s = Ok 1 t"
    "mem t = (mem k)(0x80006000 := 42)" "pipe_bytes (pipes t 0x80020000) = [42]"
    by (auto simp: pb consumed_def)
  then show ?thesis by (intro exI [of _ ?s] exI [of _ t]) simp
qed

theorem pipe_capacity_kept_witness:
  "\<exists>t. piperead 0 (Ok ()) 0x80020000 0x1000 1 (sample_pipe_state\<lparr>pipes := (\<lambda>_. wrapped_pipe)\<rparr>) = Ok 1 t \<and> pipes_ok t"
proof -
  have "pipes_ok (sample_pipe_state\<lparr>pipes := (\<lambda>_. wrapped_pipe)\<rparr>)" by (simp add: pipes_ok_def wrapped_pipe_simps)
  from pipe_capacity_kept [of "Ok ()", OF _ this, of 0 "0x80020000" "0x1000" 1]
  have "\<forall>r t. piperead 0 (Ok ()) 0x80020000 0x1000 1 (sample_pipe_state\<lparr>pipes := (\<lambda>_. wrapped_pipe)\<rparr>) = Ok r t \<longrightarrow> pipes_ok t"
    by simp
  with wrapped_read [of "0x80020000"] show ?thesis by blast
qed

end
