(* ===== verification/Sysfile.thy ===== *)
theory Sysfile
  imports Syscall
begin

text \<open>
  The file-system calls (\<open>kernel/sysfile.c\<close>). Path buffers are lists of bytes without the
  terminating NUL; the contents of uninitialised stack buffers (\<open>junk\<close>) are parameters.
\<close>

definition O_RDONLY :: int where "O_RDONLY = 0"
definition O_WRONLY :: int where "O_WRONLY = 1"
definition O_RDWR :: int where "O_RDWR = 2"
definition O_CREATE :: int where "O_CREATE = 0x200"
definition O_TRUNC :: int where "O_TRUNC = 0x400"
definition MAXPATH :: nat where "MAXPATH = 128"

subsection \<open>File descriptors\<close>

definition argfd :: "nat \<Rightarrow> 'z syst_scheme \<Rightarrow> ((int \<times> nat) option, 'z syst_scheme) res" where
  "argfd k s =
     bnd (argint k s) (\<lambda>fd s.
     if fd < 0 \<or> fd \<ge> int NOFILE then Ok None s
     else bnd (curproc s) (\<lambda>p s.
       case p_ofile (procs s p) (nat fd) of None \<Rightarrow> Ok None s | Some f \<Rightarrow> Ok (Some (fd, f)) s))"

definition fdalloc :: "nat \<Rightarrow> 'z syst_scheme \<Rightarrow> (int, 'z syst_scheme) res" where
  "fdalloc f s =
     bnd (curproc s) (\<lambda>p s.
     case List.find (\<lambda>fd. p_ofile (procs s p) fd = None) [0..<NOFILE] of
       None \<Rightarrow> Ok (-1) s
     | Some fd \<Rightarrow> Ok (int fd) (upd_proc p (\<lambda>q. q\<lparr>p_ofile := (p_ofile q)(fd := Some f)\<rparr>) s))"

definition sys_dup :: "'z syst_scheme \<Rightarrow> (uint64, 'z syst_scheme) res" where
  "sys_dup s =
     bnd (argfd 0 s) (\<lambda>r s.
     case r of None \<Rightarrow> Ok (-1) s
     | Some (_, f) \<Rightarrow>
       bnd (fdalloc f s) (\<lambda>fd s.
       if fd < 0 then Ok (-1) s
       else bnd (filedup f s) (\<lambda>_ s. Ok (word_of_int fd) s)))"

definition sys_getreadcount :: "'z syst_scheme \<Rightarrow> (uint64, 'z syst_scheme) res" where
  "sys_getreadcount s = Ok (word_of_int (readCount s)) s"

definition sys_read :: "nat \<Rightarrow> 'z syst_scheme switch \<Rightarrow> 'z syst_scheme \<Rightarrow> (uint64, 'z syst_scheme) res" where
  "sys_read n sw s =
     (let s = s\<lparr>readCount := readCount s + 1\<rparr> in
      bnd (argaddr 1 s) (\<lambda>p s.
      bnd (argint 2 s) (\<lambda>cnt s.
      bnd (argfd 0 s) (\<lambda>r s.
      case r of None \<Rightarrow> Ok (-1) s
      | Some (_, f) \<Rightarrow> bnd (fileread n sw f p cnt s) (\<lambda>r s. Ok (word_of_int r) s)))))"

definition sys_write :: "nat \<Rightarrow> 'z syst_scheme switch \<Rightarrow> 'z syst_scheme \<Rightarrow> (uint64, 'z syst_scheme) res" where
  "sys_write n sw s =
     bnd (argaddr 1 s) (\<lambda>p s.
     bnd (argint 2 s) (\<lambda>cnt s.
     bnd (argfd 0 s) (\<lambda>r s.
     case r of None \<Rightarrow> Ok (-1) s
     | Some (_, f) \<Rightarrow> bnd (filewrite n sw f p cnt s) (\<lambda>r s. Ok (word_of_int r) s))))"

definition sys_close :: "nat \<Rightarrow> 'z syst_scheme switch \<Rightarrow> 'z syst_scheme \<Rightarrow> (uint64, 'z syst_scheme) res" where
  "sys_close n sw s =
     bnd (argfd 0 s) (\<lambda>r s.
     case r of None \<Rightarrow> Ok (-1) s
     | Some (fd, f) \<Rightarrow>
       bnd (curproc s) (\<lambda>p s.
       let s = upd_proc p (\<lambda>q. q\<lparr>p_ofile := (p_ofile q)(nat fd := None)\<rparr>) s in
       bnd (fileclose n sw f s) (\<lambda>_ s. Ok 0 s)))"

definition sys_fstat :: "nat \<Rightarrow> 'z syst_scheme switch \<Rightarrow> uchar list \<Rightarrow> 'z syst_scheme \<Rightarrow> (uint64, 'z syst_scheme) res" where
  "sys_fstat n sw junk s =
     bnd (argaddr 1 s) (\<lambda>st s.
     bnd (argfd 0 s) (\<lambda>r s.
     case r of None \<Rightarrow> Ok (-1) s
     | Some (_, f) \<Rightarrow> bnd (filestat n sw (take 4 junk) f st s) (\<lambda>r s. Ok (word_of_int r) s)))"

subsection \<open>Links\<close>

definition link_bad :: "nat \<Rightarrow> 'z syst_scheme switch \<Rightarrow> nat \<Rightarrow> 'z syst_scheme \<Rightarrow> (uint64, 'z syst_scheme) res" where
  "link_bad n sw ip s =
     bnd (ilock n sw (Some ip) s) (\<lambda>_ s.
     let s = upd_ino ip (\<lambda>q. q\<lparr>i_nlink := i_nlink q - 1\<rparr>) s in
     bnd (iupdate n sw ip s) (\<lambda>_ s.
     bnd (iunlockput n sw ip s) (\<lambda>_ s.
     bnd (end_op n sw s) (\<lambda>_ s. Ok (-1) s))))"

definition sys_link :: "nat \<Rightarrow> 'z syst_scheme switch \<Rightarrow> uchar list \<Rightarrow> 'z syst_scheme \<Rightarrow> (uint64, 'z syst_scheme) res" where
  "sys_link n sw junk s =
     bnd (argstr 0 MAXPATH s) (\<lambda>old s.
     case old of None \<Rightarrow> Ok (-1) s
     | Some old \<Rightarrow>
     bnd (argstr 1 MAXPATH s) (\<lambda>nw s.
     case nw of None \<Rightarrow> Ok (-1) s
     | Some nw \<Rightarrow>
     bnd (begin_op n sw s) (\<lambda>_ s.
     bnd (namei n sw old s) (\<lambda>ipo s.
     case ipo of None \<Rightarrow> bnd (end_op n sw s) (\<lambda>_ s. Ok (-1) s)
     | Some ip \<Rightarrow>
     bnd (ilock n sw (Some ip) s) (\<lambda>_ s.
     if i_type (itable s ip) = T_DIR
     then bnd (iunlockput n sw ip s) (\<lambda>_ s. bnd (end_op n sw s) (\<lambda>_ s. Ok (-1) s))
     else
     let s = upd_ino ip (\<lambda>q. q\<lparr>i_nlink := i_nlink q + 1\<rparr>) s in
     bnd (iupdate n sw ip s) (\<lambda>_ s.
     bnd (iunlock (Some ip) s) (\<lambda>_ s.
     bnd (nameiparent n sw nw (take DIRSIZ junk) s) (\<lambda>(dpo, name) s.
     case dpo of None \<Rightarrow> link_bad n sw ip s
     | Some dp \<Rightarrow>
     bnd (ilock n sw (Some dp) s) (\<lambda>_ s.
     bnd (if i_dev (itable s dp) \<noteq> i_dev (itable s ip) then Ok (-1) s
          else dirlink n sw dp name (i_inum (itable s ip)) s) (\<lambda>r s.
     if r < 0 then bnd (iunlockput n sw dp s) (\<lambda>_ s. link_bad n sw ip s)
     else
     bnd (iunlockput n sw dp s) (\<lambda>_ s.
     bnd (iput n sw ip s) (\<lambda>_ s.
     bnd (end_op n sw s) (\<lambda>_ s. Ok 0 s)))))))))))))"

primrec isdirempty_scan :: "uint list \<Rightarrow> nat \<Rightarrow> 'z syst_scheme switch \<Rightarrow> nat \<Rightarrow> 'z syst_scheme \<Rightarrow> (bool, 'z syst_scheme) res" where
  "isdirempty_scan [] n sw dp s = Ok True s"
| "isdirempty_scan (off # offs) n sw dp s =
     bnd (readi n sw dp Local off 16 s) (\<lambda>(r, de) s.
     if r \<noteq> 16 then Panic ''isdirempty: readi''
     else if de_inum de \<noteq> 0 then Ok False s
     else isdirempty_scan offs n sw dp s)"

definition isdirempty :: "nat \<Rightarrow> 'z syst_scheme switch \<Rightarrow> nat \<Rightarrow> 'z syst_scheme \<Rightarrow> (bool, 'z syst_scheme) res" where
  "isdirempty n sw dp s = isdirempty_scan (drop 2 (de_offsets (i_size (itable s dp)))) n sw dp s"

definition unlink_bad :: "nat \<Rightarrow> 'z syst_scheme switch \<Rightarrow> nat \<Rightarrow> 'z syst_scheme \<Rightarrow> (uint64, 'z syst_scheme) res" where
  "unlink_bad n sw dp s =
     bnd (iunlockput n sw dp s) (\<lambda>_ s. bnd (end_op n sw s) (\<lambda>_ s. Ok (-1) s))"

definition sys_unlink :: "nat \<Rightarrow> 'z syst_scheme switch \<Rightarrow> uchar list \<Rightarrow> 'z syst_scheme \<Rightarrow> (uint64, 'z syst_scheme) res" where
  "sys_unlink n sw junk s =
     bnd (argstr 0 MAXPATH s) (\<lambda>path s.
     case path of None \<Rightarrow> Ok (-1) s
     | Some path \<Rightarrow>
     bnd (begin_op n sw s) (\<lambda>_ s.
     bnd (nameiparent n sw path (take DIRSIZ junk) s) (\<lambda>(dpo, name) s.
     case dpo of None \<Rightarrow> bnd (end_op n sw s) (\<lambda>_ s. Ok (-1) s)
     | Some dp \<Rightarrow>
     bnd (ilock n sw (Some dp) s) (\<lambda>_ s.
     if namecmp name (chars ''.'') = 0 \<or> namecmp name (chars ''..'') = 0 then unlink_bad n sw dp s
     else
     bnd (dirlookup n sw dp name s) (\<lambda>r s.
     case r of None \<Rightarrow> unlink_bad n sw dp s
     | Some (ip, off) \<Rightarrow>
     bnd (ilock n sw (Some ip) s) (\<lambda>_ s.
     if sint (i_nlink (itable s ip)) < 1 then Panic ''unlink: nlink < 1''
     else
     bnd (if i_type (itable s ip) = T_DIR then bnd (isdirempty n sw ip s) (\<lambda>e s. Ok (\<not> e) s) else Ok False s) (\<lambda>full s.
     if full then bnd (iunlockput n sw ip s) (\<lambda>_ s. unlink_bad n sw dp s)
     else
     bnd (writei n sw dp Local (replicate 16 0) off 16 s) (\<lambda>r s.
     if r \<noteq> 16 then Panic ''unlink: writei''
     else
     bnd (if i_type (itable s ip) = T_DIR
          then iupdate n sw dp (upd_ino dp (\<lambda>q. q\<lparr>i_nlink := i_nlink q - 1\<rparr>) s) else Ok () s) (\<lambda>_ s.
     bnd (iunlockput n sw dp s) (\<lambda>_ s.
     bnd (iupdate n sw ip (upd_ino ip (\<lambda>q. q\<lparr>i_nlink := i_nlink q - 1\<rparr>) s)) (\<lambda>_ s.
     bnd (iunlockput n sw ip s) (\<lambda>_ s.
     bnd (end_op n sw s) (\<lambda>_ s. Ok 0 s)))))))))))))"

subsection \<open>Creating and opening files\<close>

definition create_fail :: "nat \<Rightarrow> 'z syst_scheme switch \<Rightarrow> nat \<Rightarrow> nat \<Rightarrow> 'z syst_scheme \<Rightarrow> (nat option, 'z syst_scheme) res" where
  "create_fail n sw dp ip s =
     bnd (iupdate n sw ip (upd_ino ip (\<lambda>q. q\<lparr>i_nlink := 0\<rparr>) s)) (\<lambda>_ s.
     bnd (iunlockput n sw ip s) (\<lambda>_ s.
     bnd (iunlockput n sw dp s) (\<lambda>_ s. Ok None s)))"

definition create :: "nat \<Rightarrow> 'z syst_scheme switch \<Rightarrow> uchar list \<Rightarrow> uchar list \<Rightarrow> short \<Rightarrow> short \<Rightarrow> short \<Rightarrow> 'z syst_scheme
    \<Rightarrow> (nat option, 'z syst_scheme) res" where
  "create n sw junk path type mj mn s =
     bnd (nameiparent n sw path (take DIRSIZ junk) s) (\<lambda>(dpo, name) s.
     case dpo of None \<Rightarrow> Ok None s
     | Some dp \<Rightarrow>
     bnd (ilock n sw (Some dp) s) (\<lambda>_ s.
     bnd (dirlookup n sw dp name s) (\<lambda>r s.
     case r of
       Some (ip, _) \<Rightarrow>
         bnd (iunlockput n sw dp s) (\<lambda>_ s.
         bnd (ilock n sw (Some ip) s) (\<lambda>_ s.
         if type = T_FILE \<and> (i_type (itable s ip) = T_FILE \<or> i_type (itable s ip) = T_DEVICE) then Ok (Some ip) s
         else bnd (iunlockput n sw ip s) (\<lambda>_ s. Ok None s)))
     | None \<Rightarrow>
     bnd (ialloc n sw (i_dev (itable s dp)) type s) (\<lambda>ipo s.
     case ipo of None \<Rightarrow> bnd (iunlockput n sw dp s) (\<lambda>_ s. Ok None s)
     | Some ip \<Rightarrow>
     bnd (ilock n sw (Some ip) s) (\<lambda>_ s.
     let s = upd_ino ip (\<lambda>q. q\<lparr>i_major := mj, i_minor := mn, i_nlink := 1\<rparr>) s in
     bnd (iupdate n sw ip s) (\<lambda>_ s.
     bnd (if type = T_DIR
          then bnd (dirlink n sw ip (chars ''.'') (i_inum (itable s ip)) s) (\<lambda>r s.
               if r < 0 then Ok r s else dirlink n sw ip (chars ''..'') (i_inum (itable s dp)) s)
          else Ok 0 s) (\<lambda>r s.
     if r < 0 then create_fail n sw dp ip s
     else
     bnd (dirlink n sw dp name (i_inum (itable s ip)) s) (\<lambda>r s.
     if r < 0 then create_fail n sw dp ip s
     else
     bnd (if type = T_DIR then iupdate n sw dp (upd_ino dp (\<lambda>q. q\<lparr>i_nlink := i_nlink q + 1\<rparr>) s) else Ok () s) (\<lambda>_ s.
     bnd (iunlockput n sw dp s) (\<lambda>_ s. Ok (Some ip) s))))))))))"

definition sys_open :: "nat \<Rightarrow> 'z syst_scheme switch \<Rightarrow> uchar list \<Rightarrow> 'z syst_scheme \<Rightarrow> (uint64, 'z syst_scheme) res" where
  "sys_open n sw junk s =
     bnd (argint 1 s) (\<lambda>omode s.
     bnd (argstr 0 MAXPATH s) (\<lambda>path s.
     case path of None \<Rightarrow> Ok (-1) s
     | Some path \<Rightarrow>
     bnd (begin_op n sw s) (\<lambda>_ s.
     bnd (if omode AND O_CREATE \<noteq> 0 then create n sw junk path T_FILE 0 0 s
          else bnd (namei n sw path s) (\<lambda>ipo s.
            case ipo of None \<Rightarrow> Ok None s
            | Some ip \<Rightarrow>
              bnd (ilock n sw (Some ip) s) (\<lambda>_ s.
              if i_type (itable s ip) = T_DIR \<and> omode \<noteq> O_RDONLY
              then bnd (iunlockput n sw ip s) (\<lambda>_ s. Ok None s)
              else Ok (Some ip) s))) (\<lambda>ipo s.
     case ipo of None \<Rightarrow> bnd (end_op n sw s) (\<lambda>_ s. Ok (-1) s)
     | Some ip \<Rightarrow>
     if i_type (itable s ip) = T_DEVICE \<and> (sint (i_major (itable s ip)) < 0 \<or> sint (i_major (itable s ip)) \<ge> NDEV)
     then bnd (iunlockput n sw ip s) (\<lambda>_ s. bnd (end_op n sw s) (\<lambda>_ s. Ok (-1) s))
     else
     bnd (filealloc s) (\<lambda>fo s.
     case fo of None \<Rightarrow> bnd (iunlockput n sw ip s) (\<lambda>_ s. bnd (end_op n sw s) (\<lambda>_ s. Ok (-1) s))
     | Some f \<Rightarrow>
     bnd (fdalloc f s) (\<lambda>fd s.
     if fd < 0
     then bnd (fileclose n sw f s) (\<lambda>_ s.
          bnd (iunlockput n sw ip s) (\<lambda>_ s. bnd (end_op n sw s) (\<lambda>_ s. Ok (-1) s)))
     else
     let s = (if i_type (itable s ip) = T_DEVICE
              then upd_file f (\<lambda>q. q\<lparr>f_type := FD_DEVICE, f_major := i_major (itable s ip)\<rparr>) s
              else upd_file f (\<lambda>q. q\<lparr>f_type := FD_INODE, f_off := 0\<rparr>) s);
         s = upd_file f (\<lambda>q. q\<lparr>f_ip := Some ip, f_readable := (omode AND O_WRONLY = 0),
               f_writable := (omode AND O_WRONLY \<noteq> 0 \<or> omode AND O_RDWR \<noteq> 0)\<rparr>) s in
     bnd (if omode AND O_TRUNC \<noteq> 0 \<and> i_type (itable s ip) = T_FILE then itrunc n sw ip s else Ok () s) (\<lambda>_ s.
     bnd (iunlock (Some ip) s) (\<lambda>_ s.
     bnd (end_op n sw s) (\<lambda>_ s. Ok (word_of_int fd) s)))))))))"

definition sys_mkdir :: "nat \<Rightarrow> 'z syst_scheme switch \<Rightarrow> uchar list \<Rightarrow> 'z syst_scheme \<Rightarrow> (uint64, 'z syst_scheme) res" where
  "sys_mkdir n sw junk s =
     bnd (begin_op n sw s) (\<lambda>_ s.
     bnd (argstr 0 MAXPATH s) (\<lambda>path s.
     bnd (case path of None \<Rightarrow> Ok None s | Some path \<Rightarrow> create n sw junk path T_DIR 0 0 s) (\<lambda>ipo s.
     case ipo of None \<Rightarrow> bnd (end_op n sw s) (\<lambda>_ s. Ok (-1) s)
     | Some ip \<Rightarrow> bnd (iunlockput n sw ip s) (\<lambda>_ s. bnd (end_op n sw s) (\<lambda>_ s. Ok 0 s)))))"

definition sys_mknod :: "nat \<Rightarrow> 'z syst_scheme switch \<Rightarrow> uchar list \<Rightarrow> 'z syst_scheme \<Rightarrow> (uint64, 'z syst_scheme) res" where
  "sys_mknod n sw junk s =
     bnd (begin_op n sw s) (\<lambda>_ s.
     bnd (argint 1 s) (\<lambda>mj s.
     bnd (argint 2 s) (\<lambda>mn s.
     bnd (argstr 0 MAXPATH s) (\<lambda>path s.
     bnd (case path of None \<Rightarrow> Ok None s
          | Some path \<Rightarrow> create n sw junk path T_DEVICE (word_of_int mj) (word_of_int mn) s) (\<lambda>ipo s.
     case ipo of None \<Rightarrow> bnd (end_op n sw s) (\<lambda>_ s. Ok (-1) s)
     | Some ip \<Rightarrow> bnd (iunlockput n sw ip s) (\<lambda>_ s. bnd (end_op n sw s) (\<lambda>_ s. Ok 0 s)))))))"

definition sys_chdir :: "nat \<Rightarrow> 'z syst_scheme switch \<Rightarrow> 'z syst_scheme \<Rightarrow> (uint64, 'z syst_scheme) res" where
  "sys_chdir n sw s =
     bnd (curproc s) (\<lambda>p s.
     bnd (begin_op n sw s) (\<lambda>_ s.
     bnd (argstr 0 MAXPATH s) (\<lambda>path s.
     bnd (case path of None \<Rightarrow> Ok None s | Some path \<Rightarrow> namei n sw path s) (\<lambda>ipo s.
     case ipo of None \<Rightarrow> bnd (end_op n sw s) (\<lambda>_ s. Ok (-1) s)
     | Some ip \<Rightarrow>
     bnd (ilock n sw (Some ip) s) (\<lambda>_ s.
     if i_type (itable s ip) \<noteq> T_DIR
     then bnd (iunlockput n sw ip s) (\<lambda>_ s. bnd (end_op n sw s) (\<lambda>_ s. Ok (-1) s))
     else
     bnd (iunlock (Some ip) s) (\<lambda>_ s.
     bnd (deref (p_cwd (procs s p)) s) (\<lambda>cwd s.
     bnd (iput n sw cwd s) (\<lambda>_ s.
     bnd (end_op n sw s) (\<lambda>_ s.
     Ok 0 (upd_proc p (\<lambda>q. q\<lparr>p_cwd := Some ip\<rparr>) s))))))))))"

subsection \<open>exec and pipe\<close>

text \<open>
  The pages of the argument strings, in order, with the strings; \<open>False\<close> after a \<open>goto bad\<close>.
\<close>

primrec exec_args :: "nat \<Rightarrow> nat \<Rightarrow> uint64 \<Rightarrow> (addr \<times> uchar list) list \<Rightarrow> 'z syst_scheme
    \<Rightarrow> (bool \<times> (addr \<times> uchar list) list, 'z syst_scheme) res" where
  "exec_args 0 i uargv acc s = Ok (False, acc) s"
| "exec_args (Suc k) i uargv acc s =
     bnd (fetchaddr (uargv + 8 * of_nat i) s) (\<lambda>r s.
     case r of None \<Rightarrow> Ok (False, acc) s
     | Some uarg \<Rightarrow>
     if uarg = 0 then Ok (True, acc) s
     else
     bnd (kalloc s) (\<lambda>pg s.
     if pg = 0 then Ok (False, acc) s
     else
     bnd (fetchstr uarg 4096 s) (\<lambda>r s.
     case r of None \<Rightarrow> Ok (False, acc @ [(pg, [])]) s
     | Some str \<Rightarrow>
       exec_args k (Suc i) uargv (acc @ [(pg, str)]) (s\<lparr>mem := store_bytes (mem s) pg (str @ [0])\<rparr>))))"

definition sys_exec :: "nat \<Rightarrow> 'z syst_scheme switch \<Rightarrow> 'z syst_scheme \<Rightarrow> (uint64, 'z syst_scheme) res" where
  "sys_exec n sw s =
     bnd (argaddr 1 s) (\<lambda>uargv s.
     bnd (argstr 0 MAXPATH s) (\<lambda>path s.
     case path of None \<Rightarrow> Ok (-1) s
     | Some path \<Rightarrow>
     bnd (exec_args MAXARG 0 uargv [] s) (\<lambda>(ok, argv) s.
     if ok
     then bnd (exec n sw path (map snd argv) s) (\<lambda>ret s.
          bnd (for_each (\<lambda>a s. kfree (fst a) s) argv s) (\<lambda>_ s. Ok (word_of_int ret) s))
     else bnd (for_each (\<lambda>a s. kfree (fst a) s) argv s) (\<lambda>_ s. Ok (-1) s))))"

definition set_ofile :: "nat \<Rightarrow> int \<Rightarrow> nat option \<Rightarrow> 'z syst_scheme \<Rightarrow> 'z syst_scheme" where
  "set_ofile p fd fo s = upd_proc p (\<lambda>q. q\<lparr>p_ofile := (p_ofile q)(nat fd := fo)\<rparr>) s"

definition sys_pipe :: "nat \<Rightarrow> 'z syst_scheme switch \<Rightarrow> 'z syst_scheme \<Rightarrow> (uint64, 'z syst_scheme) res" where
  "sys_pipe n sw s =
     bnd (curproc s) (\<lambda>p s.
     bnd (argaddr 0 s) (\<lambda>fdarray s.
     bnd (pipealloc n sw s) (\<lambda>r s.
     case r of None \<Rightarrow> Ok (-1) s
     | Some (rfile, wfile) \<Rightarrow>
     bnd (fdalloc rfile s) (\<lambda>fd0 s.
     bnd (if fd0 < 0 then Ok (-1) s else fdalloc wfile s) (\<lambda>fd1 s.
     if fd0 < 0 \<or> fd1 < 0
     then let s = (if fd0 \<ge> 0 then set_ofile p fd0 None s else s) in
       bnd (fileclose n sw rfile s) (\<lambda>_ s. bnd (fileclose n sw wfile s) (\<lambda>_ s. Ok (-1) s))
     else
     bnd (copyout (p_pagetable (procs s p)) fdarray (int_bytes fd0) s) (\<lambda>r0 s.
     bnd (if r0 < 0 then Ok (-1) s
          else copyout (p_pagetable (procs s p)) (fdarray + 4) (int_bytes fd1) s) (\<lambda>r1 s.
     if r1 < 0
     then let s = set_ofile p fd1 None (set_ofile p fd0 None s) in
       bnd (fileclose n sw rfile s) (\<lambda>_ s. bnd (fileclose n sw wfile s) (\<lambda>_ s. Ok (-1) s))
     else Ok 0 s)))))))"

end
