(* ===== verification/Trap.thy ===== *)
theory Trap
  imports Sysfile
begin

text \<open>
  Dispatch of system calls (\<open>kernel/syscall.c\<close>), traps and interrupts (\<open>kernel/trap.c\<close>,
  \<open>kernel/plic.c\<close>), the first return to user space (\<open>forkret\<close> of \<open>kernel/proc.c\<close>) and the boot
  sequence (\<open>kernel/main.c\<close>). The supervisor registers that the code reads and writes are fields,
  one value per hart; \<open>plic_pending\<close> has the interrupt numbers the interrupt controller will
  return to the hart's claims, and \<open>plic_done\<close> those it was told are served.
  Returning to user space ends a trap: the result of \<open>usertrapret\<close> is the page-table register value
  handed to the trampoline.
\<close>

record trst = syst +
  stvec :: "nat \<Rightarrow> uint64"
  sepc :: "nat \<Rightarrow> uint64"
  scause :: "nat \<Rightarrow> uint64"
  stval :: "nat \<Rightarrow> uint64"
  sstatus :: "nat \<Rightarrow> uint64"
  ssip :: "nat \<Rightarrow> bool"
  plic_pending :: "nat \<Rightarrow> int list"
  plic_done :: "int list"
  fork_first :: int
  kernelvec :: uint64
  usertrap_addr :: uint64
  uservec :: uint64
  userret :: uint64
  started :: int

definition SSTATUS_SPP :: uint64 where "SSTATUS_SPP = push_bit 8 1"
definition SSTATUS_SPIE :: uint64 where "SSTATUS_SPIE = push_bit 5 1"
definition UART0_IRQ :: int where "UART0_IRQ = 10"
definition VIRTIO0_IRQ :: int where "VIRTIO0_IRQ = 1"

subsection \<open>System call dispatch\<close>

definition syscalls :: "nat \<Rightarrow> 'z syst_scheme switch \<Rightarrow> uchar list \<Rightarrow> uint \<times> uint \<Rightarrow> int \<Rightarrow> ('z syst_scheme \<Rightarrow> (uint64, 'z syst_scheme) res) option" where
  "syscalls n sw junk jt num =
     (if num = 1 then Some sys_fork
      else if num = 2 then Some (sys_exit n sw)
      else if num = 3 then Some (sys_wait n sw)
      else if num = 4 then Some (sys_pipe n sw)
      else if num = 5 then Some (sys_read n sw)
      else if num = 6 then Some sys_kill
      else if num = 7 then Some (sys_exec n sw)
      else if num = 8 then Some (sys_fstat n sw junk)
      else if num = 9 then Some (sys_chdir n sw)
      else if num = 10 then Some sys_dup
      else if num = 11 then Some sys_getpid
      else if num = 12 then Some sys_sbrk
      else if num = 13 then Some (sys_sleep n sw)
      else if num = 14 then Some sys_uptime
      else if num = 15 then Some (sys_open n sw junk)
      else if num = 16 then Some (sys_write n sw)
      else if num = 17 then Some (sys_mknod n sw junk)
      else if num = 18 then Some (sys_unlink n sw junk)
      else if num = 19 then Some (sys_link n sw junk)
      else if num = 20 then Some (sys_mkdir n sw junk)
      else if num = 21 then Some (sys_close n sw)
      else if num = 22 then Some (sys_waitx n sw jt)
      else if num = 23 then Some sys_getreadcount
      else if num = 24 then Some (sys_setpriority sw)
      else None)"

definition syscall :: "nat \<Rightarrow> 'z syst_scheme switch \<Rightarrow> uchar list \<Rightarrow> uint \<times> uint \<Rightarrow> 'z syst_scheme \<Rightarrow> (unit, 'z syst_scheme) res" where
  "syscall n sw junk jt s =
     bnd (curproc s) (\<lambda>p s.
     let num = sint (ucast (get_tf p TF_A7 s) :: uint) in
     case (if num > 0 then syscalls n sw junk jt num else None) of
       Some f \<Rightarrow> bnd (f s) (\<lambda>r s. Ok () (set_tf p TF_A0 r s))
     | None \<Rightarrow>
       bnd (printf (Some (chars ''%d %s: unknown sys call %d'' @ [10]))
              [A_int (p_pid (procs s p)), A_str (Some (takeWhile (\<lambda>c. c \<noteq> 0) (p_name (procs s p)))), A_int num] s) (\<lambda>_ s.
       Ok () (set_tf p TF_A0 (-1) s)))"

subsection \<open>Interrupts\<close>

definition trapinit :: "'z trst_scheme \<Rightarrow> 'z trst_scheme" where
  "trapinit s = initlock L_ticks ''time'' s"

definition trapinithart :: "'z trst_scheme \<Rightarrow> 'z trst_scheme" where
  "trapinithart s = s\<lparr>stvec := (stvec s)(hart s := kernelvec s)\<rparr>"

definition plic_claim :: "'z trst_scheme \<Rightarrow> int \<times> 'z trst_scheme" where
  "plic_claim s =
     (case plic_pending s (cpuid s) of [] \<Rightarrow> (0, s)
      | irq # irqs \<Rightarrow> (irq, s\<lparr>plic_pending := (plic_pending s)(cpuid s := irqs)\<rparr>))"

definition plic_complete :: "int \<Rightarrow> 'z trst_scheme \<Rightarrow> 'z trst_scheme" where
  "plic_complete irq s = s\<lparr>plic_done := plic_done s @ [irq]\<rparr>"

definition clockintr :: "'z trst_scheme \<Rightarrow> (unit, 'z trst_scheme) res" where
  "clockintr s =
     bnd (acquire L_ticks s) (\<lambda>_ s.
     bnd (update_time (s\<lparr>ticks := ticks s + 1\<rparr>)) (\<lambda>_ s.
     bnd (wakeup Ch_ticks s) (\<lambda>_ s.
     release L_ticks s)))"

definition devintr :: "'z trst_scheme \<Rightarrow> (int, 'z trst_scheme) res" where
  "devintr s =
     (let sc = scause s (hart s) in
      if sc AND 0x8000000000000000 \<noteq> 0 \<and> sc AND 0xff = 9
      then case plic_claim s of (irq, s) \<Rightarrow>
        bnd (if irq = UART0_IRQ then uartintr s
             else if irq = VIRTIO0_IRQ then virtio_disk_intr s
             else if irq \<noteq> 0 then printf (Some (chars ''unexpected interrupt irq=%d'' @ [10])) [A_int irq] s
             else Ok () s) (\<lambda>_ s.
        Ok 1 (if irq \<noteq> 0 then plic_complete irq s else s))
      else if sc = 0x8000000000000001
      then bnd (if cpuid s = 0 then clockintr s else Ok () s) (\<lambda>_ s.
           Ok 2 (s\<lparr>ssip := (ssip s)(hart s := False)\<rparr>))
      else Ok 0 s)"

subsection \<open>Traps\<close>

definition usertrapret :: "'z trst_scheme \<Rightarrow> (uint64, 'z trst_scheme) res" where
  "usertrapret s =
     bnd (curproc s) (\<lambda>p s.
     let s = intr_off s;
         s = s\<lparr>stvec := (stvec s)(hart s := TRAMPOLINE + (uservec s - trampoline s))\<rparr>;
         s = set_tf p TF_KERNEL_SATP (satp s (hart s)) s;
         s = set_tf p TF_KERNEL_SP (p_kstack (procs s p) + PGSIZE) s;
         s = set_tf p TF_KERNEL_TRAP (usertrap_addr s) s;
         s = set_tf p TF_KERNEL_HARTID (of_nat (hart s)) s;
         x = (sstatus s (hart s) AND NOT SSTATUS_SPP) OR SSTATUS_SPIE;
         s = s\<lparr>sstatus := (sstatus s)(hart s := x)\<rparr>;
         s = s\<lparr>sepc := (sepc s)(hart s := get_tf p TF_EPC s)\<rparr>
     in Ok (MAKE_SATP (p_pagetable (procs s p))) s)"

definition usertrap :: "nat \<Rightarrow> 'z trst_scheme switch \<Rightarrow> uchar list \<Rightarrow> uint \<times> uint \<Rightarrow> 'z trst_scheme \<Rightarrow> (uint64, 'z trst_scheme) res" where
  "usertrap n sw junk jt s =
     (if sstatus s (hart s) AND SSTATUS_SPP \<noteq> 0 then Panic ''usertrap: not from user mode''
      else
      let s = s\<lparr>stvec := (stvec s)(hart s := kernelvec s)\<rparr> in
      bnd (curproc s) (\<lambda>p s.
      let s = set_tf p TF_EPC (sepc s (hart s)) s in
      bnd (if scause s (hart s) = 8
           then bnd (killed p s) (\<lambda>k s.
                bnd (if k \<noteq> 0 then exit n sw (-1) s else Ok () s) (\<lambda>_ s.
                let s = set_tf p TF_EPC (get_tf p TF_EPC s + 4) s in
                bnd (syscall n sw junk jt (intr_on s)) (\<lambda>_ s. Ok 0 s)))
           else bnd (if scause s (hart s) = 15
                     then bnd (dup_pg (p_pagetable (procs s p)) (stval s (hart s)) s) (\<lambda>r s. Ok (r \<noteq> -1) s)
                     else Ok False s) (\<lambda>handled s.
             if handled then Ok 0 s
             else bnd (devintr s) (\<lambda>which_dev s.
               if which_dev \<noteq> 0 then Ok which_dev s
               else bnd (printf (Some (chars ''usertrap(): unexpected scause %p pid=%d'' @ [10]))
                           [A_ptr (scause s (hart s)), A_int (p_pid (procs s p))] s) (\<lambda>_ s.
                 bnd (printf (Some (chars ''            sepc=%p stval=%p'' @ [10]))
                        [A_ptr (sepc s (hart s)), A_ptr (stval s (hart s))] s) (\<lambda>_ s.
                 bnd (setkilled p s) (\<lambda>_ s. Ok 0 s)))))) (\<lambda>which_dev s.
      bnd (killed p s) (\<lambda>k s.
      bnd (if k \<noteq> 0 then exit n sw (-1) s else Ok () s) (\<lambda>_ s.
      bnd (if which_dev = 2 then yield sw s else Ok () s) (\<lambda>_ s.
      usertrapret s))))))"

definition kerneltrap :: "'z trst_scheme switch \<Rightarrow> 'z trst_scheme \<Rightarrow> (unit, 'z trst_scheme) res" where
  "kerneltrap sw s =
     (let sepc0 = sepc s (hart s); sstatus0 = sstatus s (hart s) in
      if sstatus0 AND SSTATUS_SPP = 0 then Panic ''kerneltrap: not from supervisor mode''
      else if intr_get s then Panic ''kerneltrap: interrupts enabled''
      else
      bnd (devintr s) (\<lambda>which_dev s.
      if which_dev = 0 then Panic ''kerneltrap''
      else
      bnd (if which_dev = 2
           then bnd (myproc s) (\<lambda>p s.
             case p of None \<Rightarrow> Ok () s
             | Some _ \<Rightarrow> bnd (curproc s) (\<lambda>p s. if p_state (procs s p) = RUNNING then yield sw s else Ok () s))
           else Ok () s) (\<lambda>_ s.
      Ok () (s\<lparr>sepc := (sepc s)(hart s := sepc0), sstatus := (sstatus s)(hart s := sstatus0)\<rparr>))))"

definition forkret :: "nat \<Rightarrow> 'z trst_scheme switch \<Rightarrow> 'z trst_scheme \<Rightarrow> (uint64, 'z trst_scheme) res" where
  "forkret n sw s =
     bnd (curproc s) (\<lambda>p s.
     bnd (release (L_proc p) s) (\<lambda>_ s.
     bnd (if fork_first s \<noteq> 0 then fsinit n sw ROOTDEV (s\<lparr>fork_first := 0\<rparr>) else Ok () s) (\<lambda>_ s.
     usertrapret s)))"

subsection \<open>Boot\<close>

text \<open>
  \<open>main\<close> up to its call of \<open>scheduler\<close>. The writes of \<open>plicinit\<close> and \<open>plicinithart\<close> to the interrupt
  controller have no counterpart in the state.
\<close>

definition main :: "nat \<Rightarrow> 'z trst_scheme switch \<Rightarrow> (uint \<Rightarrow> uint) \<Rightarrow> 'z trst_scheme \<Rightarrow> (unit, 'z trst_scheme) res" where
  "main n sw vreg s =
     (if cpuid s = 0
      then let s = consoleinit s; s = printfinit s in
        bnd (printf (Some [10]) [] s) (\<lambda>_ s.
        bnd (printf (Some (chars ''xv6 kernel is booting'' @ [10])) [] s) (\<lambda>_ s.
        bnd (printf (Some [10]) [] s) (\<lambda>_ s.
        bnd (kinit s) (\<lambda>_ s.
        bnd (kvminit s) (\<lambda>_ s.
        let s = kvminithart s; s = procinit s; s = trapinit s; s = trapinithart s;
            s = binit s; s = iinit s; s = fileinit s in
        bnd (virtio_disk_init vreg s) (\<lambda>_ s.
        bnd (userinit n sw s) (\<lambda>_ s.
        Ok () (s\<lparr>started := 1\<rparr>))))))))
      else if started s = 0 then Spin
      else
        bnd (printf (Some (chars ''hart %d starting'' @ [10])) [A_int (int (cpuid s))] s) (\<lambda>_ s.
        Ok () (trapinithart (kvminithart s))))"

end
