(* ===== verification/Ulib.thy ===== *)
theory Ulib
  imports KString
begin

text \<open>
  The library of the user programs: \<open>user/ulib.c\<close> and \<open>user/printf.c\<close>. The memory routines work on
  the memory of the process; strings that are only read are lists of their characters without the
  terminating NUL, and what a function prints is the list of the bytes it writes. The system call
  \<open>read\<close> is represented by the bytes still to be read.
\<close>

subsection \<open>Memory\<close>

definition u_memset :: "addr \<Rightarrow> 32 word \<Rightarrow> uint \<Rightarrow> pmem \<Rightarrow> pmem" where
  "u_memset dst c n m = memset_loop dst (ucast c) 0 (unat n) m"

definition u_memmove :: "addr \<Rightarrow> addr \<Rightarrow> int \<Rightarrow> pmem \<Rightarrow> pmem" where
  "u_memmove vdst vsrc n m =
     (if vsrc > vdst then copy_up (nat n) vdst vsrc m
      else copy_down (nat n) (vdst + word_of_int n) (vsrc + word_of_int n) m)"

primrec u_memcmp :: "nat \<Rightarrow> addr \<Rightarrow> addr \<Rightarrow> pmem \<Rightarrow> int" where
  "u_memcmp 0 p1 p2 m = 0"
| "u_memcmp (Suc n) p1 p2 m =
     (if m p1 \<noteq> m p2 then uint (m p1) - uint (m p2) else u_memcmp n (p1 + 1) (p2 + 1) m)"

definition u_memcpy :: "addr \<Rightarrow> addr \<Rightarrow> uint \<Rightarrow> pmem \<Rightarrow> pmem" where
  "u_memcpy dst src n m = u_memmove dst src (sint n) m"

text \<open>The loop of \<open>strcpy\<close> ends with the NUL of its source; \<open>None\<close> means that it never ends.\<close>

partial_function (option) u_strcpy :: "addr \<Rightarrow> addr \<Rightarrow> pmem \<Rightarrow> pmem option" where
  "u_strcpy s t m =
     (let m' = m(s := m t) in if m' s \<noteq> 0 then u_strcpy (s + 1) (t + 1) m' else Some m')"

subsection \<open>Strings\<close>

fun u_strcmp :: "uchar list \<Rightarrow> uchar list \<Rightarrow> int" where
  "u_strcmp [] [] = 0"
| "u_strcmp [] (d # q) = - uint d"
| "u_strcmp (c # p) [] = uint c"
| "u_strcmp (c # p) (d # q) = (if c = d then u_strcmp p q else uint c - uint d)"

definition u_strlen :: "uchar list \<Rightarrow> uint" where
  "u_strlen s = of_nat (length s)"

text \<open>The index of the first occurrence.\<close>

primrec u_strchr :: "uchar list \<Rightarrow> uchar \<Rightarrow> nat option" where
  "u_strchr [] c = None"
| "u_strchr (d # s) c = (if d = c then Some 0 else map_option Suc (u_strchr s c))"

primrec u_gets_loop :: "nat \<Rightarrow> uchar list \<Rightarrow> uchar list \<times> uchar list" where
  "u_gets_loop 0 input = ([], input)"
| "u_gets_loop (Suc k) input =
     (case input of [] \<Rightarrow> ([], [])
      | c # cs \<Rightarrow> if c = 10 \<or> c = 13 then ([c], cs)
                 else case u_gets_loop k cs of (buf, rest) \<Rightarrow> (c # buf, rest))"

definition u_gets :: "int \<Rightarrow> uchar list \<Rightarrow> uchar list \<times> uchar list" where
  "u_gets mx input = u_gets_loop (nat (mx - 1)) input"

text \<open>
  The sum is kept in 32 bits, as the target's arithmetic does; the conversion back to a signed number is at the end. (For
  the largest numbers the sum overflows a signed \<open>int\<close> before 48 is subtracted, which C leaves undefined.)
\<close>

primrec u_atoi_loop :: "uint \<Rightarrow> uchar list \<Rightarrow> uint" where
  "u_atoi_loop n [] = n"
| "u_atoi_loop n (c # s) = (if 48 \<le> c \<and> c \<le> 57 then u_atoi_loop (n * 10 + ucast c - 48) s else n)"

definition u_atoi :: "uchar list \<Rightarrow> int" where
  "u_atoi s = sint (u_atoi_loop 0 s)"

subsection \<open>Formatted output\<close>

definition u_digits :: "uchar list" where
  "u_digits = map of_char ''0123456789ABCDEF''"

text \<open>The array \<open>buf\<close> of \<open>printint\<close>, lowest digit first.\<close>

function u_digits_rev :: "nat \<Rightarrow> nat \<Rightarrow> uchar list" where
  "u_digits_rev b x =
     (if b > 1 \<and> x div b \<noteq> 0 then u_digits ! (x mod b) # u_digits_rev b (x div b) else [u_digits ! (x mod b)])"
  by pat_completeness auto
termination
  by (relation "measure snd") (auto intro!: div_less_dividend gr0I)

declare u_digits_rev.simps [simp del]

definition u_printint :: "int \<Rightarrow> nat \<Rightarrow> bool \<Rightarrow> uchar list" where
  "u_printint xx base sign =
     (let neg = sign \<and> xx < 0;
          x = (if neg then - word_of_int xx else word_of_int xx) :: uint
      in rev (u_digits_rev base (unat x) @ (if neg then [45] else [])))"

definition u_printptr :: "uint64 \<Rightarrow> uchar list" where
  "u_printptr x = [48, 120] @ map (\<lambda>i. u_digits ! unat (drop_bit 60 (push_bit (4 * i) x))) [0..<16]"

datatype uarg = U_int int | U_long uint64 | U_char uint | U_str "uchar list option"

text \<open>
  The argument list is tagged. A call whose arguments do not fit its format is undefined in C and
  has the result \<open>None\<close>. An argument of type \<open>uint64\<close> is converted to the \<open>int\<close> parameter of
  \<open>printint\<close>.
\<close>

definition u_int_of :: "uint64 \<Rightarrow> int" where
  "u_int_of x = sint (ucast x :: uint)"

definition u_directive :: "uchar \<Rightarrow> uarg list \<Rightarrow> (uchar list \<times> uarg list) option" where
  "u_directive c ap =
     (if c = 0x64 then (case ap of U_int x # ap \<Rightarrow> Some (u_printint x 10 True, ap) | _ \<Rightarrow> None)
      else if c = 0x6c then (case ap of U_long x # ap \<Rightarrow> Some (u_printint (u_int_of x) 10 False, ap) | _ \<Rightarrow> None)
      else if c = 0x78 then (case ap of U_int x # ap \<Rightarrow> Some (u_printint x 16 False, ap) | _ \<Rightarrow> None)
      else if c = 0x70 then (case ap of U_long x # ap \<Rightarrow> Some (u_printptr x, ap) | _ \<Rightarrow> None)
      else if c = 0x73
      then (case ap of U_str s # ap \<Rightarrow> Some (case s of None \<Rightarrow> map of_char ''(null)'' | Some t \<Rightarrow> t, ap) | _ \<Rightarrow> None)
      else if c = 0x63 then (case ap of U_char x # ap \<Rightarrow> Some ([ucast x], ap) | _ \<Rightarrow> None)
      else if c = 0x25 then Some ([c], ap)
      else Some ([0x25, c], ap))"

primrec u_vprintf :: "bool \<Rightarrow> uchar list \<Rightarrow> uarg list \<Rightarrow> uchar list option" where
  "u_vprintf pct [] ap = Some []"
| "u_vprintf pct (c # fmt) ap =
     (if \<not> pct
      then if c = 0x25 then u_vprintf True fmt ap else map_option (Cons c) (u_vprintf False fmt ap)
      else case u_directive c ap of None \<Rightarrow> None
           | Some (out, ap) \<Rightarrow> map_option (append out) (u_vprintf False fmt ap))"

definition u_fprintf :: "uchar list \<Rightarrow> uarg list \<Rightarrow> uchar list option" where
  "u_fprintf fmt ap = u_vprintf False fmt ap"

subsection \<open>Properties\<close>

lemma copy_bytes_0: "copy_bytes m d s 0 = m"
  by (simp add: copy_bytes_def fun_eq_iff)

lemma u_memmove_eq:
  assumes "0 \<le> n" "n < 2 ^ 31" "unat vsrc + nat n < 2 ^ 64" "unat vdst + nat n \<le> 2 ^ 64"
  shows "u_memmove vdst vsrc n m = copy_bytes m vdst vsrc (nat n)"
proof -
  have n: "word_of_int n = (of_nat (nat n) :: uint64)" "nat n \<le> 2 ^ 63" using assms by (simp_all add: of_nat_nat)
  have off: "unat vdst + j = unat vsrc + i" if "vdst + of_nat j = vsrc + (of_nat i :: uint64)" "i < nat n" "j < nat n" for i j
    using offset_inj [OF that(1) assms(3,4) that(2,3)] .
  show ?thesis
  proof (cases "vsrc > vdst")
    case True
    have "vdst + of_nat j \<noteq> vsrc + of_nat i" if "j < i" "i < nat n" for i j
      using off [of j i] that True by (auto simp: word_less_nat_alt)
    with n(2) have "copy_up (nat n) vdst vsrc m = copy_bytes m vdst vsrc (nat n)" by (intro copy_up_eq)
    with True show ?thesis by (simp add: u_memmove_def)
  next
    case False
    have "vdst + of_nat j \<noteq> vsrc + of_nat i" if "i < j" "j < nat n" for i j
      using off [of j i] that False by (auto simp: word_less_nat_alt)
    with n(2) have "copy_down (nat n) (vdst + of_nat (nat n)) (vsrc + of_nat (nat n)) m = copy_bytes m vdst vsrc (nat n)"
      by (intro copy_down_eq)
    with False show ?thesis by (simp add: u_memmove_def n(1))
  qed
qed

text \<open>
  The \<open>memmove\<close> of the user library and that of the kernel, which decide differently whether to copy
  upwards or downwards, have the same effect on every memory, for overlapping areas as well.
\<close>

theorem u_memmove_kernel_memmove:
  assumes "0 \<le> n" "n < 2 ^ 31" "unat vsrc + nat n < 2 ^ 64" "unat vdst + nat n \<le> 2 ^ 64"
  shows "u_memmove vdst vsrc n m = memmove vdst vsrc (word_of_int n) m"
proof -
  have "unat (word_of_int n :: uint) = nat n" using assms(1,2) by (simp add: unat_eq_nat_uint uint_word_of_int)
  then show ?thesis using assms memmove_eq [of vsrc "word_of_int n" vdst m] by (simp add: u_memmove_eq)
qed

theorem u_memmove_kernel_memmove_witness:
  "u_memmove 0x1002 0x1000 4 (\<lambda>x. ucast x) = memmove 0x1002 0x1000 4 (\<lambda>x. ucast x :: uchar)"
  using u_memmove_kernel_memmove [of 4 "0x1000" "0x1002" "\<lambda>x. ucast x"] by simp

lemma u_digit: "d < 10 \<Longrightarrow> u_digits ! d = 48 + of_nat d"
proof -
  have "\<forall>d\<in>{0..<10}. u_digits ! d = 48 + of_nat d"
    by (simp add: u_digits_def atLeastLessThan_nat_numeral of_char_def)
  then show "d < 10 \<Longrightarrow> u_digits ! d = 48 + of_nat d" by simp
qed

lemma u_atoi_digit:
  assumes "d < 10"
  shows "u_atoi_loop n (u_digits ! d # s) = u_atoi_loop (n * 10 + of_nat d) s"
proof -
  have u: "unat (48 + of_nat d :: uchar) = 48 + d" using assms by (simp add: unat_word_ariths unat_of_nat)
  then have "48 \<le> (48 + of_nat d :: uchar)" "(48 + of_nat d :: uchar) \<le> 57"
    using assms by (simp_all add: word_le_nat_alt)
  moreover have "ucast (48 + of_nat d :: uchar) = (48 + of_nat d :: uint)"
  proof -
    have "ucast (48 + of_nat d :: uchar) = (of_nat (unat (48 + of_nat d :: uchar)) :: uint)"
      by (simp only: of_nat_unat)
    then show ?thesis by (simp add: u)
  qed
  ultimately show ?thesis using assms by (simp add: u_digit algebra_simps)
qed

lemma u_atoi_digits: "u_atoi_loop 0 (rev (u_digits_rev 10 x) @ s) = u_atoi_loop (of_nat x) s"
proof (induction x arbitrary: s rule: less_induct)
  case (less x)
  show ?case
  proof (cases "x div 10 = 0")
    case True
    then have "x < 10" by (simp add: div_eq_0_iff)
    then show ?thesis using u_atoi_digit [of x 0 s] by (simp add: u_digits_rev.simps [of 10 x] del: u_atoi_loop.simps(2))
  next
    case False
    then have "x div 10 < x" by simp
    from less [OF this, of "u_digits ! (x mod 10) # s"] False
    have "u_atoi_loop 0 (rev (u_digits_rev 10 x) @ s) = u_atoi_loop (of_nat (x div 10) * 10 + of_nat (x mod 10)) s"
      by (simp add: u_digits_rev.simps [of 10 x] u_atoi_digit del: u_atoi_loop.simps(2))
    moreover have "of_nat (x div 10) * 10 + of_nat (x mod 10) = (of_nat x :: uint)"
      by (metis div_mult_mod_eq of_nat_add of_nat_mult of_nat_numeral)
    ultimately show ?thesis by simp
  qed
qed

text \<open>
  C37: Reading back what \<open>printint\<close> prints: \<open>atoi\<close> applied to the decimal output for a non-negative \<open>int\<close>,
  followed by anything that does not start with a digit, returns the number.
\<close>

theorem u_atoi_printint:
  assumes "0 \<le> x" "x < 2 ^ 31" "s = [] \<or> \<not> (48 \<le> hd s \<and> hd s \<le> 57)"
  shows "u_atoi (u_printint x 10 True @ s) = x"
proof -
  have u: "unat (word_of_int x :: uint) = nat x" using assms(1,2) by (simp add: unat_eq_nat_uint uint_word_of_int)
  have stop: "u_atoi_loop n s = n" for n using assms(3) by (cases s) auto
  have "u_atoi (u_printint x 10 True @ s) = sint (of_nat (nat x) :: uint)"
    using assms(1) by (simp add: u_atoi_def u_printint_def u u_atoi_digits stop)
  also have "\<dots> = x" using assms(1,2) by (simp add: of_nat_nat sint_sbintrunc' signed_take_bit_int_eq_self_iff)
  finally show ?thesis .
qed

theorem u_atoi_printint_witness: "u_atoi (u_printint 2024 10 True @ [32, 55]) = 2024"
  using u_atoi_printint [of 2024 "[32, 55]"] by simp

text \<open>The directive \<open>%l\<close> takes a 64-bit argument and prints its low 32 bits.\<close>

lemma u_printf_long_truncates: "u_fprintf [0x25, 0x6c] [U_long x] = u_fprintf [0x25, 0x6c] [U_long (x AND 0xFFFFFFFF)]"
proof -
  have "ucast (x AND 0xFFFFFFFF) = (ucast x :: uint)"
  proof -
    have "(0xFFFFFFFF :: uint64) = mask 32" by (simp add: mask_eq_exp_minus_1)
    then show ?thesis unfolding \<open>0xFFFFFFFF = mask 32\<close> by (intro bit_word_eqI) (auto simp: bit_ucast_iff bit_and_iff bit_mask_iff)
  qed
  then show ?thesis by (simp add: u_fprintf_def u_directive_def u_int_of_def)
qed

end
