(* ===== verification/Grep.thy ===== *)
theory Grep
  imports Ulib
begin

text \<open>
  \<open>user/grep.c\<close>: the regular expression matcher, proved equivalent to a declarative semantics of the
  patterns, and the loop that reads, splits and filters lines. Characters are compared as bytes; a
  pattern and a line have no NUL.
\<close>

subsection \<open>The matcher\<close>

abbreviation (input) "DOT \<equiv> (46 :: uchar)"
abbreviation (input) "STAR \<equiv> (42 :: uchar)"
abbreviation (input) "DOLLAR \<equiv> (36 :: uchar)"
abbreviation (input) "CARET \<equiv> (94 :: uchar)"
abbreviation (input) "NL \<equiv> (10 :: uchar)"

function matchhere :: "uchar list \<Rightarrow> uchar list \<Rightarrow> bool"
  and matchstar :: "uchar \<Rightarrow> uchar list \<Rightarrow> uchar list \<Rightarrow> bool" where
  "matchhere re s =
     (case re of [] \<Rightarrow> True
      | c # re1 \<Rightarrow>
        if re1 \<noteq> [] \<and> hd re1 = STAR then matchstar c (tl re1) s
        else if c = DOLLAR \<and> re1 = [] then s = []
        else if s \<noteq> [] \<and> (c = DOT \<or> c = hd s) then matchhere re1 (tl s)
        else False)"
| "matchstar c re s =
     (if matchhere re s then True
      else if s \<noteq> [] \<and> (hd s = c \<or> c = DOT) then matchstar c re (tl s)
      else False)"
  by pat_completeness auto
termination
  by (relation "measure (\<lambda>x. case x of Inl (re, s) \<Rightarrow> 2 * (length re + length s)
       | Inr (c, re, s) \<Rightarrow> 2 * (length re + length s) + 1)")
    (auto simp: neq_Nil_conv)

declare matchhere.simps [simp del] matchstar.simps [simp del]

fun match_from :: "uchar list \<Rightarrow> uchar list \<Rightarrow> bool" where
  "match_from re [] = matchhere re []"
| "match_from re (c # s) = (if matchhere re (c # s) then True else match_from re s)"

definition match :: "uchar list \<Rightarrow> uchar list \<Rightarrow> bool" where
  "match re s = (if re \<noteq> [] \<and> hd re = CARET then matchhere (tl re) s else match_from re s)"

subsection \<open>The meaning of a pattern\<close>

datatype atom = Any | Chr uchar
datatype item = One atom | Many atom

fun sat :: "atom \<Rightarrow> uchar \<Rightarrow> bool" where
  "sat Any c = True"
| "sat (Chr d) c = (c = d)"

definition atom_of :: "uchar \<Rightarrow> atom" where
  "atom_of c = (if c = DOT then Any else Chr c)"

text \<open>
  A pattern is a sequence of characters, each possibly starred, and a mark whether it ends in \<open>$\<close>.
\<close>

fun parse_re :: "uchar list \<Rightarrow> item list \<times> bool" where
  "parse_re [] = ([], False)"
| "parse_re [c] = (if c = DOLLAR then ([], True) else ([One (atom_of c)], False))"
| "parse_re (c # d # re) =
     (if d = STAR then (case parse_re re of (js, e) \<Rightarrow> (Many (atom_of c) # js, e))
      else case parse_re (d # re) of (js, e) \<Rightarrow> (One (atom_of c) # js, e))"

primrec lang :: "item list \<Rightarrow> uchar list set" where
  "lang [] = {[]}"
| "lang (i # js) =
     (case i of One a \<Rightarrow> {c # w |c w. sat a c \<and> w \<in> lang js}
      | Many a \<Rightarrow> {u @ w |u w. (\<forall>c\<in>set u. sat a c) \<and> w \<in> lang js})"

definition prefix_match :: "item list \<times> bool \<Rightarrow> uchar list \<Rightarrow> bool" where
  "prefix_match p s \<longleftrightarrow> (\<exists>u v. s = u @ v \<and> u \<in> lang (fst p) \<and> (snd p \<longrightarrow> v = []))"

lemma prefix_match_Nil [simp]: "prefix_match ([], e) s \<longleftrightarrow> (e \<longrightarrow> s = [])"
  by (auto simp: prefix_match_def)

lemma prefix_match_One [simp]:
  "prefix_match (One a # js, e) s \<longleftrightarrow> s \<noteq> [] \<and> sat a (hd s) \<and> prefix_match (js, e) (tl s)"
  by (cases s) (auto simp: prefix_match_def Cons_eq_append_conv)

lemma prefix_match_split:
  "prefix_match (Many a # js, e) s \<longleftrightarrow> (\<exists>u v. s = u @ v \<and> (\<forall>c\<in>set u. sat a c) \<and> prefix_match (js, e) v)"
proof
  assume "prefix_match (Many a # js, e) s"
  then obtain x y where "s = x @ y" "x \<in> lang (Many a # js)" "e \<longrightarrow> y = []"
    unfolding prefix_match_def fst_conv snd_conv by blast
  then obtain u w where "s = (u @ w) @ y" "\<forall>c\<in>set u. sat a c" "w \<in> lang js" "e \<longrightarrow> y = []" by auto
  then have "s = u @ (w @ y) \<and> (\<forall>c\<in>set u. sat a c) \<and> prefix_match (js, e) (w @ y)" by (auto simp: prefix_match_def)
  then show "\<exists>u v. s = u @ v \<and> (\<forall>c\<in>set u. sat a c) \<and> prefix_match (js, e) v" by blast
next
  assume "\<exists>u v. s = u @ v \<and> (\<forall>c\<in>set u. sat a c) \<and> prefix_match (js, e) v"
  then obtain u w y where "s = u @ (w @ y)" "\<forall>c\<in>set u. sat a c" "w \<in> lang js" "e \<longrightarrow> y = []"
    by (auto simp: prefix_match_def)
  then have "s = (u @ w) @ y \<and> u @ w \<in> lang (Many a # js) \<and> (e \<longrightarrow> y = [])" by auto
  then show "prefix_match (Many a # js, e) s" unfolding prefix_match_def fst_conv snd_conv by blast
qed

lemma prefix_match_Many:
  "prefix_match (Many a # js, e) s \<longleftrightarrow>
     prefix_match (js, e) s \<or> s \<noteq> [] \<and> sat a (hd s) \<and> prefix_match (Many a # js, e) (tl s)"
proof (cases s)
  case (Cons c t)
  show ?thesis
  proof
    assume "prefix_match (Many a # js, e) s"
    then obtain u v where u: "s = u @ v" "\<forall>c\<in>set u. sat a c" "prefix_match (js, e) v" by (auto simp: prefix_match_split)
    then show "prefix_match (js, e) s \<or> s \<noteq> [] \<and> sat a (hd s) \<and> prefix_match (Many a # js, e) (tl s)"
      by (cases u) (auto simp: prefix_match_split)
  next
    assume "prefix_match (js, e) s \<or> s \<noteq> [] \<and> sat a (hd s) \<and> prefix_match (Many a # js, e) (tl s)"
    then show "prefix_match (Many a # js, e) s"
    proof
      assume "prefix_match (js, e) s"
      then show ?thesis unfolding prefix_match_split by (intro exI [of _ "[]"] exI [of _ s]) auto
    next
      assume "s \<noteq> [] \<and> sat a (hd s) \<and> prefix_match (Many a # js, e) (tl s)"
      then obtain u v where u: "t = u @ v" "\<forall>c\<in>set u. sat a c" "prefix_match (js, e) v" "sat a c"
        by (auto simp: prefix_match_split Cons)
      then show ?thesis unfolding prefix_match_split by (intro exI [of _ "c # u"] exI [of _ v]) (auto simp: Cons)
    qed
  qed
qed (simp add: prefix_match_split)

lemma sat_atom_of: "sat (atom_of c) d \<longleftrightarrow> c = DOT \<or> c = d"
  by (auto simp: atom_of_def)

lemma matchhere_shapes:
  "matchhere [] s = True"
  "matchhere [c] s = (if c = DOLLAR then s = [] else s \<noteq> [] \<and> (c = DOT \<or> c = hd s))"
  "matchhere (c # d # re) s =
     (if d = STAR then matchstar c re s else s \<noteq> [] \<and> (c = DOT \<or> c = hd s) \<and> matchhere (d # re) (tl s))"
  by (simp_all add: matchhere.simps [of "[]"] matchhere.simps [of "[c]"] matchhere.simps [of "c # d # re"])

lemma match_prefix:
  "matchhere re s \<longleftrightarrow> prefix_match (parse_re re) s"
  "matchstar c re s \<longleftrightarrow> prefix_match (Many (atom_of c) # fst (parse_re re), snd (parse_re re)) s"
proof (induction re s and c re s rule: matchhere_matchstar.induct)
  case (1 re s)
  show ?case
  proof (cases re rule: parse_re.cases)
    case (3 c d r)
    with 1 show ?thesis by (auto simp: matchhere_shapes sat_atom_of case_prod_beta)
  qed (auto simp: matchhere_shapes sat_atom_of)
next
  case (2 c re s)
  then show ?case
    using prefix_match_Many [of "atom_of c" "fst (parse_re re)" "snd (parse_re re)" s]
    by (auto simp: matchstar.simps [of c re s] sat_atom_of)
qed

lemma match_from_iff: "match_from re s \<longleftrightarrow> (\<exists>p t. s = p @ t \<and> matchhere re t)"
  by (induction s) (auto simp: Cons_eq_append_conv)

text \<open>
  C19: \<open>match\<close> decides the patterns by their meaning: a line matches when some part of it, at its start
  if the pattern begins with a caret and up to its end if the pattern ends with a dollar, is in the
  language of the pattern.
\<close>

theorem match_regex:
  "match re s \<longleftrightarrow> (\<exists>p u v. s = p @ u @ v \<and>
     (let anchored = (re \<noteq> [] \<and> hd re = CARET); pat = parse_re (if anchored then tl re else re)
      in u \<in> lang (fst pat) \<and> (anchored \<longrightarrow> p = []) \<and> (snd pat \<longrightarrow> v = [])))"
  by (auto simp: match_def match_from_iff match_prefix prefix_match_def Let_def)

theorem match_regex_witness:
  "match [97, 42, 98, 36] [99, 97, 97, 98] \<and>
   (\<exists>p u. [99, 97, 97, 98] = p @ u \<and> u \<in> lang (fst (parse_re [97, 42, 98, 36])))"
proof -
  have m: "match [97, 42, 98, 36] [99, 97, 97, 98]" "snd (parse_re [97, 42, 98, 36])" by code_simp+
  with match_regex [of "[97, 42, 98, 36]" "[99, 97, 97, 98]"] show ?thesis by (auto simp: Let_def)
qed

subsection \<open>Filtering lines\<close>

text \<open>
  The scan of the buffer: \<open>strchr\<close> stops at a NUL byte of the data. The result is what is written and what is left
  in the buffer.
\<close>

function grep_scan :: "uchar list \<Rightarrow> uchar list \<Rightarrow> uchar list \<times> uchar list" where
  "grep_scan re p =
     (case u_strchr (takeWhile (\<lambda>c. c \<noteq> 0) p) NL of
        None \<Rightarrow> ([], p)
      | Some q \<Rightarrow>
          (case grep_scan re (drop (Suc q) p) of (out, rest) \<Rightarrow>
             ((if match re (take q p) then take (Suc q) p else []) @ out, rest)))"
  by pat_completeness auto
termination
proof (relation "measure (\<lambda>(re, p). length p)", goal_cases)
  case (2 re p q)
  have "u_strchr xs c = Some i \<Longrightarrow> i < length xs" for xs c i
    by (induction xs arbitrary: i) (auto split: if_splits)
  from this [OF 2] have "p \<noteq> []" by auto
  then show ?case by simp
qed simp

declare grep_scan.simps [simp del]

text \<open>
  \<open>av\<close> bounds how many bytes a call of \<open>read\<close> delivers, given what is still to be read: a pipe or the console may
  return less than asked for.
\<close>

definition u_read :: "(uchar list \<Rightarrow> nat) \<Rightarrow> nat \<Rightarrow> uchar list \<Rightarrow> nat" where
  "u_read av n input = min (min (av input) n) (length input)"

function grep :: "(uchar list \<Rightarrow> nat) \<Rightarrow> uchar list \<Rightarrow> uchar list \<Rightarrow> uchar list \<Rightarrow> uchar list" where
  "grep av re held input =
     (let n = u_read av (1024 - length held - 1) input in
      if n > 0
      then (case grep_scan re (held @ take n input) of (out, rest) \<Rightarrow> out @ grep av re rest (drop n input))
      else [])"
  by pat_completeness auto
termination
  by (relation "measure (\<lambda>(av, re, held, input). length input)") (auto simp: u_read_def)

declare grep.simps [simp del]

text \<open>
  The reference: the complete lines of a text, and what follows the last of them.
\<close>

fun lines_aux :: "uchar list \<Rightarrow> uchar list \<Rightarrow> uchar list list \<times> uchar list" where
  "lines_aux l [] = ([], l)"
| "lines_aux l (c # cs) =
     (if c = NL then (case lines_aux [] cs of (ls, r) \<Rightarrow> (l # ls, r)) else lines_aux (l @ [c]) cs)"

definition lines :: "uchar list \<Rightarrow> uchar list list" where
  "lines s = fst (lines_aux [] s)"

definition unfinished :: "uchar list \<Rightarrow> uchar list" where
  "unfinished s = snd (lines_aux [] s)"

definition grep_ref :: "uchar list \<Rightarrow> uchar list list \<Rightarrow> uchar list" where
  "grep_ref re ls = concat (map (\<lambda>l. l @ [NL]) (filter (match re) ls))"

lemma lines_aux_append: "lines_aux l (xs @ ys) =
    (case lines_aux l xs of (ls, r) \<Rightarrow> (ls @ fst (lines_aux r ys), snd (lines_aux r ys)))"
  by (induction xs arbitrary: l) (auto simp: case_prod_beta)

lemma lines_aux_no_nl: "NL \<notin> set xs \<Longrightarrow> lines_aux l xs = ([], l @ xs)"
  by (induction xs arbitrary: l) auto

lemma unfinished_no_nl: "NL \<notin> set l \<Longrightarrow> NL \<notin> set (snd (lines_aux l xs))"
  by (induction xs arbitrary: l) (auto simp: case_prod_beta)

lemma lines_append: "lines (xs @ ys) = lines xs @ lines (unfinished xs @ ys)"
  using lines_aux_no_nl [of "unfinished xs" "[]"] unfinished_no_nl [of "[]" xs]
  by (simp add: lines_def unfinished_def lines_aux_append case_prod_beta)

lemma strchr_Some: "u_strchr xs c = Some i \<Longrightarrow> i < length xs \<and> xs ! i = c \<and> c \<notin> set (take i xs)"
  by (induction xs arbitrary: i) (auto split: if_splits)

lemma strchr_None: "u_strchr xs c = None \<longleftrightarrow> c \<notin> set xs"
  by (induction xs) auto

lemma grep_scan_lines:
  "0 \<notin> set p \<Longrightarrow> grep_scan re p = (grep_ref re (lines p), unfinished p)"
proof (induction "length p" arbitrary: p rule: less_induct)
  case less
  then have cstr: "takeWhile (\<lambda>c. c \<noteq> 0) p = p" by (auto intro: takeWhile_eq_all_conv [THEN iffD2])
  show ?case
  proof (cases "u_strchr p NL")
    case None
    then have "NL \<notin> set p" by (simp add: strchr_None)
    from lines_aux_no_nl [OF this, of "[]"] None show ?thesis
      by (simp add: grep_scan.simps [of re p] cstr lines_def unfinished_def grep_ref_def)
  next
    case (Some q)
    note q = strchr_Some [OF Some]
    let ?r = "drop (Suc q) p"
    have p: "p = take q p @ NL # ?r" using q by (metis id_take_nth_drop)
    have "grep_scan re ?r = (grep_ref re (lines ?r), unfinished ?r)"
      using less q by (intro less.hyps) (auto dest: in_set_dropD)
    moreover have "lines_aux [] p = (take q p # fst (lines_aux [] ?r), snd (lines_aux [] ?r))"
      using lines_aux_append [of "[]" "take q p" "NL # ?r"] lines_aux_no_nl [of "take q p" "[]"] q p
      by (simp add: case_prod_beta)
    moreover have "take (Suc q) p = take q p @ [NL]" using q by (metis take_Suc_conv_app_nth)
    ultimately show ?thesis using Some
      by (simp add: grep_scan.simps [of re p] cstr grep_ref_def lines_def unfinished_def)
  qed
qed

lemma first_line_long: "fst (lines_aux l xs) \<noteq> [] \<Longrightarrow> length l \<le> length (hd (fst (lines_aux l xs)))"
proof (induction xs arbitrary: l)
  case (Cons c cs)
  then show ?case using Cons.IH [of "l @ [c]"] by (auto simp: case_prod_beta split: if_splits)
qed simp

lemma unfinished_length: "length (snd (lines_aux l xs)) \<le> length l + length xs"
proof (induction xs arbitrary: l)
  case (Cons c cs)
  show ?case using Cons.IH [of "l @ [c]"] Cons.IH [of "[]"] by (auto simp: case_prod_beta)
qed simp

lemma unfinished_subset: "set (snd (lines_aux l xs)) \<subseteq> set l \<union> set xs"
proof (induction xs arbitrary: l)
  case (Cons c cs)
  show ?case using Cons.IH [of "l @ [c]"] Cons.IH [of "[]"] by (auto simp: case_prod_beta)
qed simp

lemma grep_lines:
  assumes "\<forall>xs. xs \<noteq> [] \<longrightarrow> 0 < av xs" "0 \<notin> set (held @ input)" "NL \<notin> set held" "length held \<le> 1023"
    and "\<forall>l\<in>set (lines (held @ input)). length l < 1023"
  shows "grep av re held input = grep_ref re (lines (held @ input))"
  using assms(2-)
proof (induction "length input" arbitrary: held input rule: less_induct)
  case less
  let ?n = "u_read av (1024 - length held - 1) input"
  note g = grep.simps [of av re held input]
  have held: "lines_aux [] held = ([], held)" using lines_aux_no_nl [OF less.prems(2), of "[]"] by simp
  show ?case
  proof (cases "?n = 0")
    case True
    have "lines (held @ input) = []"
    proof (rule ccontr)
      assume ne: "lines (held @ input) \<noteq> []"
      then have "input \<noteq> []" using held by (auto simp: lines_def)
      with True assms(1) less.prems(3) have "length held = 1023" by (fastforce simp: u_read_def min_def split: if_splits)
      moreover have "lines (held @ input) = fst (lines_aux held input)"
        by (simp add: lines_def lines_aux_append held)
      ultimately show False using first_line_long [of held input] ne less.prems(4) by (metis hd_in_set not_less)
    qed
    then show ?thesis using True g by (simp add: grep_ref_def)
  next
    case False
    let ?buf = "held @ take ?n input" and ?rest = "drop ?n input"
    have n: "0 < ?n" "?n \<le> length input" "?n \<le> 1023 - length held" using False by (auto simp: u_read_def)
    have all: "held @ input = ?buf @ ?rest" by simp
    have ls: "lines (held @ input) = lines ?buf @ lines (unfinished ?buf @ ?rest)" unfolding all by (rule lines_append)
    have "grep_scan re ?buf = (grep_ref re (lines ?buf), unfinished ?buf)"
      using less.prems(1) by (intro grep_scan_lines) (auto dest: in_set_takeD)
    moreover have "grep av re (unfinished ?buf) ?rest = grep_ref re (lines (unfinished ?buf @ ?rest))"
    proof (rule less.hyps)
      show "length ?rest < length input" using n by simp
      show "0 \<notin> set (unfinished ?buf @ ?rest)" using less.prems(1) unfinished_subset [of "[]" ?buf]
        by (auto simp: unfinished_def dest: in_set_takeD in_set_dropD)
      show "NL \<notin> set (unfinished ?buf)" using unfinished_no_nl [of "[]" ?buf] by (simp add: unfinished_def)
      show "length (unfinished ?buf) \<le> 1023"
        using unfinished_length [of "[]" ?buf] n less.prems(3) by (simp add: unfinished_def)
      show "\<forall>l\<in>set (lines (unfinished ?buf @ ?rest)). length l < 1023" using less.prems(4) unfolding ls by simp
    qed
    ultimately show ?thesis using n(1) unfolding ls by (simp add: g Let_def grep_ref_def)
  qed
qed

text \<open>
  C21: However \<open>read\<close> cuts the input into pieces, \<open>grep\<close> writes exactly the lines that match, in order,
  each with its newline, provided that the data has no NUL byte and no line exceeds the buffer. Text
  after the last newline is not searched.
\<close>

theorem grep_prints_matching_lines:
  assumes "\<forall>xs. xs \<noteq> [] \<longrightarrow> 0 < av xs" "0 \<notin> set input" "\<forall>l\<in>set (lines input). length l < 1023"
  shows "grep av re [] input = concat (map (\<lambda>l. l @ [NL]) (filter (match re) (lines input)))"
  using grep_lines [of av "[]" input re] assms by (simp add: grep_ref_def)

theorem grep_prints_matching_lines_witness:
  "grep (\<lambda>_. 2) [94, 97] [] [97, 98, 10, 98, 97, 10, 97, 10, 97] = [97, 98, 10, 97, 10]"
proof -
  have "lines [97, 98, 10, 98, 97, 10, 97, 10, 97] = [[97, 98], [98, 97], [97]]" by (simp add: lines_def)
  then show ?thesis using grep_prints_matching_lines [of "\<lambda>_. 2" "[97, 98, 10, 98, 97, 10, 97, 10, 97]" "[94, 97]"]
    by (simp add: match_def matchhere_shapes)
qed

end
