(* ===== verification/Shell.thy ===== *)
theory Shell
  imports Ulib Sysfile
begin

text \<open>
  The shell (\<open>user/sh.c\<close>). A pointer into the command line is an offset; the buffer is the list of its
  characters, and reading at its end gives the terminating NUL. The parser's commands record the
  arguments as ranges of the buffer, as \<open>argv\<close> and \<open>eargv\<close> do; \<open>nulterminate\<close> writes the buffer.
\<close>

subsection \<open>Commands\<close>

text \<open>A range is the pair of the first character and the one after the last.\<close>

type_synonym range = "nat \<times> nat"

datatype cmd =
    Execcmd "range list"
  | Redircmd cmd range int int
  | Pipecmd cmd cmd
  | Listcmd cmd cmd
  | Backcmd cmd

definition MAXARGS :: nat where "MAXARGS = 10"

subsection \<open>Tokens\<close>

definition whitespace :: "uchar list" where
  "whitespace = [32, 9, 13, 10, 11]"

definition symbols :: "uchar list" where
  "symbols = [60, 124, 62, 38, 59, 40, 41]"

definition char_at :: "uchar list \<Rightarrow> nat \<Rightarrow> uchar" where
  "char_at b s = (if s < length b then b ! s else 0)"

function skip_ws :: "uchar list \<Rightarrow> nat \<Rightarrow> nat" where
  "skip_ws b s = (if s < length b \<and> b ! s \<in> set whitespace then skip_ws b (Suc s) else s)"
  by pat_completeness auto
termination
  by (relation "measure (\<lambda>(b, s). length b - s)") auto

function skip_word :: "uchar list \<Rightarrow> nat \<Rightarrow> nat" where
  "skip_word b s =
     (if s < length b \<and> b ! s \<notin> set whitespace \<and> b ! s \<notin> set symbols then skip_word b (Suc s) else s)"
  by pat_completeness auto
termination
  by (relation "measure (\<lambda>(b, s). length b - s)") auto

declare skip_ws.simps [simp del] skip_word.simps [simp del]

text \<open>
  The kind of the token, its range and the position after it. The characters are \<open>&\<close> 38, \<open>(\<close> 40, \<open>)\<close> 41, \<open>+\<close> 43,
  \<open>;\<close> 59, \<open><\<close> 60, \<open>>\<close> 62, \<open>a\<close> 97 and \<open>|\<close> 124.
\<close>

definition gettoken :: "uchar list \<Rightarrow> nat \<Rightarrow> uchar \<times> range \<times> nat" where
  "gettoken b s =
     (let q = skip_ws b s; c = char_at b q;
          (ret, eq) =
            (if c = 0 then (0, q)
             else if c \<in> {124, 40, 41, 59, 38, 60} then (c, q + 1)
             else if c = 62
             then (if char_at b (q + 1) = 62 then (43, q + 2) else (c, q + 1))
             else (97, skip_word b q))
      in (ret, (q, eq), skip_ws b eq))"

definition peek :: "uchar list \<Rightarrow> nat \<Rightarrow> uchar list \<Rightarrow> bool \<times> nat" where
  "peek b s toks = (let s = skip_ws b s in (char_at b s \<noteq> 0 \<and> char_at b s \<in> set toks, s))"

lemma skip_ws_ge: "s \<le> skip_ws b s"
proof (induction b s rule: skip_ws.induct)
  case (1 b s)
  then show ?case by (subst skip_ws.simps) auto
qed

lemma skip_word_ge: "s \<le> skip_word b s"
proof (induction b s rule: skip_word.induct)
  case (1 b s)
  then show ?case by (subst skip_word.simps) auto
qed

lemma skip_ws_le: "s \<le> length b \<Longrightarrow> skip_ws b s \<le> length b"
proof (induction b s rule: skip_ws.induct)
  case (1 b s)
  then show ?case by (subst skip_ws.simps) auto
qed

lemma skip_word_le: "s \<le> length b \<Longrightarrow> skip_word b s \<le> length b"
proof (induction b s rule: skip_word.induct)
  case (1 b s)
  then show ?case by (subst skip_word.simps) auto
qed

lemma symbols_iff: "c \<in> set symbols \<longleftrightarrow> c \<in> {124, 40, 41, 59, 38, 60} \<or> c = 62"
  by (auto simp: symbols_def)

lemma skip_ws_stop: "skip_ws b s < length b \<Longrightarrow> b ! skip_ws b s \<notin> set whitespace"
proof (induction b s rule: skip_ws.induct)
  case (1 b s)
  then show ?case by (cases "s < length b \<and> b ! s \<in> set whitespace") (auto simp: skip_ws.simps [of b s])
qed

lemma char_at_nonzero: "char_at b s \<noteq> 0 \<Longrightarrow> s < length b"
  by (auto simp: char_at_def split: if_splits)

lemma gettoken_progress:
  assumes "gettoken b s = (ret, (q, eq), s')"
  shows "s \<le> q" "q \<le> eq" "eq \<le> s'" "char_at b (skip_ws b s) \<noteq> 0 \<Longrightarrow> q < eq"
proof -
  have q: "q = skip_ws b s" and s': "s' = skip_ws b eq" using assms by (auto simp: gettoken_def Let_def split: prod.splits)
  then show "s \<le> q" "eq \<le> s'" by (simp_all add: skip_ws_ge)
  show "q \<le> eq" using assms skip_word_ge [of q b] by (auto simp: gettoken_def Let_def q split: if_splits)
  assume c: "char_at b (skip_ws b s) \<noteq> 0"
  then have "b ! q \<notin> set whitespace" "q < length b" "char_at b q = b ! q"
    using skip_ws_stop [of b s] char_at_nonzero [OF c] by (simp_all add: q char_at_def)
  moreover have "q < skip_word b q" if "b ! q \<notin> set symbols"
    using calculation that skip_word_ge [of "Suc q" b] by (simp add: skip_word.simps [of b q])
  ultimately show "q < eq" using assms c
    by (auto simp: gettoken_def Let_def q [symmetric] symbols_iff split: if_splits)
qed

lemma peek_True: "peek b s toks = (True, s') \<Longrightarrow> s \<le> s' \<and> s' < length b \<and> char_at b (skip_ws b s') \<noteq> 0"
proof -
  assume p: "peek b s toks = (True, s')"
  then have s': "s' = skip_ws b s" "char_at b s' \<noteq> 0" by (auto simp: peek_def Let_def)
  moreover have "skip_ws b s' = s'"
    using skip_ws_stop [of b s] char_at_nonzero [OF s'(2)] s'(1) by (metis skip_ws.simps)
  ultimately show ?thesis using skip_ws_ge [of s b] char_at_nonzero [OF s'(2)] by simp
qed

lemma gettoken_mono: "(tok, r, s') = gettoken b s \<Longrightarrow> s \<le> s'"
  using gettoken_progress(1-3) [of b s tok "fst r" "snd r" s'] by simp

lemma peek_token:
  "(True, s1) = peek b s toks \<Longrightarrow> (tok, r, s2) = gettoken b s1 \<Longrightarrow> s < length b \<and> s < s2"
  using gettoken_progress [of b s1 tok "fst r" "snd r" s2] peek_True [of b s toks s1] by simp

subsection \<open>Parsing\<close>

text \<open>
  \<open>Inl\<close> is a syntax error: \<open>panic\<close> prints the message and exits. \<open>redirs\<close> is the loop of \<open>parseredirs\<close>; it
  returns the redirections in the order of the text, each with its file, mode and descriptor.
\<close>

function redirs :: "uchar list \<Rightarrow> nat \<Rightarrow> string + ((range \<times> int \<times> int) list \<times> nat)" where
  "redirs b s =
     (case peek b s [60, 62] of (again, s) \<Rightarrow>
        if \<not> again then Inr ([], s)
        else case gettoken b s of (tok, _, s) \<Rightarrow>
             (case gettoken b s of (t, file, s) \<Rightarrow>
                if t \<noteq> 97 then Inl ''missing file for redirection''
                else let r = (if tok = 60 then (file, O_RDONLY, 0)
                              else if tok = 62 then (file, O_WRONLY OR O_CREATE OR O_TRUNC, 1)
                              else (file, O_WRONLY OR O_CREATE, 1))
                     in (case redirs b s of Inl e \<Rightarrow> Inl e | Inr (rs, s) \<Rightarrow> Inr (r # rs, s))))"
  by pat_completeness auto
termination
proof (relation "measure (\<lambda>(b, s). length b - s)", goal_cases)
  case (2 b s again s1 tok x r s2 t y f s3 rd)
  then have "(True, s1) = peek b s [60, 62]" "(tok, r, s2) = gettoken b s1" "(t, f, s3) = gettoken b s2" by simp_all
  then show ?case using peek_token [of s1 b s "[60, 62]" tok r s2] gettoken_mono [of t f s3 b s2] by auto
qed simp

declare redirs.simps [simp del]

definition parseredirs :: "cmd \<Rightarrow> (range \<times> int \<times> int) list \<Rightarrow> cmd" where
  "parseredirs c rs = fold (\<lambda>(file, mode, fd) c. Redircmd c file mode fd) rs c"

text \<open>
  The loop of \<open>parseexec\<close>. The redirections wrap the command from outside while the arguments go on
  being added to the \<open>execcmd\<close> inside, so both are collected.
\<close>

function exec_args_loop :: "uchar list \<Rightarrow> nat \<Rightarrow> nat \<Rightarrow> string + (range list \<times> (range \<times> int \<times> int) list \<times> nat)" where
  "exec_args_loop b s argc =
     (case peek b s [124, 41, 38, 59] of (stop, s) \<Rightarrow>
        if stop then Inr ([], [], s)
        else case gettoken b s of (tok, arg, s) \<Rightarrow>
          if tok = 0 then Inr ([], [], s)
          else if tok \<noteq> 97 then Inl ''syntax''
          else if argc + 1 \<ge> MAXARGS then Inl ''too many args''
          else (case redirs b s of Inl e \<Rightarrow> Inl e
                | Inr (rs, s) \<Rightarrow>
                  (case exec_args_loop b s (argc + 1) of Inl e \<Rightarrow> Inl e
                   | Inr (args, rs', s) \<Rightarrow> Inr (arg # args, rs @ rs', s))))"
  by pat_completeness auto
termination
  by (relation "measure (\<lambda>(b, s, argc). MAXARGS - argc)") auto

declare exec_args_loop.simps [simp del]

function back_loop :: "uchar list \<Rightarrow> cmd \<Rightarrow> nat \<Rightarrow> cmd \<times> nat" where
  "back_loop b c s =
     (case peek b s [38] of (again, s) \<Rightarrow>
        if again then (case gettoken b s of (_, _, s) \<Rightarrow> back_loop b (Backcmd c) s) else (c, s))"
  by pat_completeness auto
termination
proof (relation "measure (\<lambda>(b, c, s). length b - s)", goal_cases)
  case 2
  then show ?case by (auto dest!: peek_token)
qed simp

declare back_loop.simps [simp del]

text \<open>
  The mutually recursive parsers carry a bound \<open>n\<close> on the depth of their calls; \<open>None\<close> means that it was
  exceeded.
\<close>

definition pbind :: "(string + 'a) option \<Rightarrow> ('a \<Rightarrow> (string + 'b) option) \<Rightarrow> (string + 'b) option" where
  "pbind m k = (case m of None \<Rightarrow> None | Some (Inl e) \<Rightarrow> Some (Inl e) | Some (Inr x) \<Rightarrow> k x)"

fun parseline :: "nat \<Rightarrow> uchar list \<Rightarrow> nat \<Rightarrow> (string + cmd \<times> nat) option"
  and parsepipe :: "nat \<Rightarrow> uchar list \<Rightarrow> nat \<Rightarrow> (string + cmd \<times> nat) option"
  and parseblock :: "nat \<Rightarrow> uchar list \<Rightarrow> nat \<Rightarrow> (string + cmd \<times> nat) option"
  and parseexec :: "nat \<Rightarrow> uchar list \<Rightarrow> nat \<Rightarrow> (string + cmd \<times> nat) option" where
  "parseline 0 b s = None"
| "parseline (Suc n) b s =
     pbind (parsepipe n b s) (\<lambda>(c, s).
     case back_loop b c s of (c, s) \<Rightarrow>
     case peek b s [59] of (semi, s) \<Rightarrow>
     if semi
     then case gettoken b s of (_, _, s) \<Rightarrow> pbind (parseline n b s) (\<lambda>(d, s). Some (Inr (Listcmd c d, s)))
     else Some (Inr (c, s)))"
| "parsepipe 0 b s = None"
| "parsepipe (Suc n) b s =
     pbind (parseexec n b s) (\<lambda>(c, s).
     case peek b s [124] of (bar, s) \<Rightarrow>
     if bar
     then case gettoken b s of (_, _, s) \<Rightarrow> pbind (parsepipe n b s) (\<lambda>(d, s). Some (Inr (Pipecmd c d, s)))
     else Some (Inr (c, s)))"
| "parseblock 0 b s = None"
| "parseblock (Suc n) b s =
     (case peek b s [40] of (open, s) \<Rightarrow>
      if \<not> open then Some (Inl ''parseblock'')
      else case gettoken b s of (_, _, s) \<Rightarrow>
        pbind (parseline n b s) (\<lambda>(c, s).
        case peek b s [41] of (close, s) \<Rightarrow>
        if \<not> close then Some (Inl ''syntax - missing )'')
        else case gettoken b s of (_, _, s) \<Rightarrow>
          (case redirs b s of Inl e \<Rightarrow> Some (Inl e)
           | Inr (rs, s) \<Rightarrow> Some (Inr (parseredirs c rs, s)))))"
| "parseexec 0 b s = None"
| "parseexec (Suc n) b s =
     (case peek b s [40] of (open, s) \<Rightarrow>
      if open then parseblock n b s
      else case redirs b s of Inl e \<Rightarrow> Some (Inl e)
        | Inr (rs, s) \<Rightarrow>
          (case exec_args_loop b s 0 of Inl e \<Rightarrow> Some (Inl e)
           | Inr (args, rs', s) \<Rightarrow> Some (Inr (parseredirs (Execcmd args) (rs @ rs'), s))))"

primrec nulterminate :: "cmd \<Rightarrow> uchar list \<Rightarrow> uchar list" where
  "nulterminate (Execcmd args) b = fold (\<lambda>(q, eq) b. b[eq := 0]) args b"
| "nulterminate (Redircmd c file mode fd) b = (nulterminate c b)[snd file := 0]"
| "nulterminate (Pipecmd c d) b = nulterminate d (nulterminate c b)"
| "nulterminate (Listcmd c d) b = nulterminate d (nulterminate c b)"
| "nulterminate (Backcmd c) b = nulterminate c b"

text \<open>
  Each unit of depth of \<open>parseline\<close>, \<open>parsepipe\<close>, \<open>parseexec\<close> and \<open>parseblock\<close> together reads at least one character.
\<close>

definition parsecmd :: "uchar list \<Rightarrow> (string + cmd \<times> uchar list) option" where
  "parsecmd b =
     pbind (parseline (4 * length b + 4) b 0) (\<lambda>(c, s).
     case peek b s [] of (_, s) \<Rightarrow>
     if s \<noteq> length b then Some (Inl ''syntax'') else Some (Inr (c, nulterminate c (b @ [0]))))"

declare parseline.simps [simp del] parsepipe.simps [simp del] parseblock.simps [simp del] parseexec.simps [simp del]

subsection \<open>What the parser records\<close>

definition separator :: "uchar \<Rightarrow> bool" where
  "separator c \<longleftrightarrow> c \<in> set whitespace \<or> c \<in> set symbols"

text \<open>A word of the line: a maximal non-empty range without separators.\<close>

definition word_range :: "uchar list \<Rightarrow> range \<Rightarrow> bool" where
  "word_range b r \<longleftrightarrow> fst r < snd r \<and> snd r \<le> length b \<and> (\<forall>i\<in>{fst r..<snd r}. \<not> separator (b ! i)) \<and>
     (snd r < length b \<longrightarrow> separator (b ! snd r))"

primrec cmd_ok :: "uchar list \<Rightarrow> cmd \<Rightarrow> bool" where
  "cmd_ok b (Execcmd args) \<longleftrightarrow> length args < MAXARGS \<and> (\<forall>r\<in>set args. word_range b r)"
| "cmd_ok b (Redircmd c file mode fd) \<longleftrightarrow> cmd_ok b c \<and> word_range b file \<and> fd \<in> {0, 1}"
| "cmd_ok b (Pipecmd c d) \<longleftrightarrow> cmd_ok b c \<and> cmd_ok b d"
| "cmd_ok b (Listcmd c d) \<longleftrightarrow> cmd_ok b c \<and> cmd_ok b d"
| "cmd_ok b (Backcmd c) \<longleftrightarrow> cmd_ok b c"

lemma skip_word_range:
  "(\<forall>i\<in>{s..<skip_word b s}. \<not> separator (b ! i)) \<and>
    (skip_word b s < length b \<longrightarrow> separator (b ! skip_word b s)) \<and> (s \<le> length b \<longrightarrow> skip_word b s \<le> length b)"
proof (induction b s rule: skip_word.induct)
  case (1 b s)
  show ?case
  proof (cases "s < length b \<and> b ! s \<notin> set whitespace \<and> b ! s \<notin> set symbols")
    case True
    then have "skip_word b s = skip_word b (Suc s)" by (simp add: skip_word.simps [of b s])
    moreover have "\<not> separator (b ! s)" using True by (simp add: separator_def)
    ultimately show ?thesis using 1 True by (auto simp: Suc_le_eq nat_less_le)
  next
    case False
    then have "skip_word b s = s" by (auto simp: skip_word.simps [of b s])
    then show ?thesis using False by (auto simp: separator_def)
  qed
qed

lemma gettoken_word:
  assumes "gettoken b s = (97, r, s')"
  shows "word_range b r"
proof -
  obtain q eq where r: "r = (q, eq)" by (metis surj_pair)
  have c: "char_at b (skip_ws b s) \<noteq> 0" and q: "q = skip_ws b s" and eq: "eq = skip_word b q"
    using assms by (auto simp: gettoken_def Let_def r split: if_splits)
  from gettoken_progress(4) [OF assms [unfolded r] c] have "q < eq" .
  with skip_word_range [of q b] char_at_nonzero [OF c] show ?thesis by (simp add: word_range_def r eq q)
qed

lemma redirs_ok: "redirs b s = Inr (rs, s') \<Longrightarrow> s \<le> s' \<and> (\<forall>(f, m, fd)\<in>set rs. word_range b f \<and> fd \<in> {0, 1})"
proof (induction b s arbitrary: rs s' rule: redirs.induct)
  case (1 b s)
  obtain again s1 where p: "peek b s [60, 62] = (again, s1)" by (metis surj_pair)
  obtain tok r s2 where g: "gettoken b s1 = (tok, r, s2)" by (metis surj_pair)
  obtain t f s3 where g': "gettoken b s2 = (t, f, s3)" by (metis surj_pair)
  have s1: "s \<le> s1" using p skip_ws_ge [of s b] by (auto simp: peek_def Let_def)
  show ?case
  proof (cases again)
    case True
    then obtain rs0 where t: "t = 97" and rs: "redirs b s3 = Inr (rs0, s')" and rs0: "\<exists>m fd. rs = (f, m, fd) # rs0 \<and> fd \<in> {0, 1}"
      using "1.prems" p g g' by (auto simp: redirs.simps [of b s] Let_def split: if_splits sum.splits)
    have "s3 \<le> s' \<and> (\<forall>(f, m, fd)\<in>set rs0. word_range b f \<and> fd \<in> {0, 1})"
      using "1.IH" [OF p [symmetric] _ g [symmetric] refl g' [symmetric] refl _ refl rs] True t by fastforce
    moreover have "word_range b f" using gettoken_word g' t by blast
    ultimately show ?thesis using rs0 s1 gettoken_mono [of tok r s2 b s1] gettoken_mono [of t f s3 b s2] g g' by auto
  qed (use "1.prems" p s1 in \<open>simp add: redirs.simps [of b s]\<close>)
qed

lemma peek_mono: "(x, s') = peek b s toks \<Longrightarrow> s \<le> s'"
  using skip_ws_ge [of s b] by (simp add: peek_def Let_def)

lemma exec_args_loop_ok:
  "exec_args_loop b s argc = Inr (args, rs, s') \<Longrightarrow> argc < MAXARGS \<Longrightarrow>
    s \<le> s' \<and> (\<forall>r\<in>set args. word_range b r) \<and> (\<forall>(f, m, fd)\<in>set rs. word_range b f \<and> fd \<in> {0, 1}) \<and> argc + length args < MAXARGS"
proof (induction b s argc arbitrary: args rs s' rule: exec_args_loop.induct)
  case (1 b s argc)
  obtain stop s1 where p: "peek b s [124, 41, 38, 59] = (stop, s1)" by (metis surj_pair)
  obtain tok r s2 where g: "gettoken b s1 = (tok, r, s2)" by (metis surj_pair)
  have s2: "s \<le> s1" "s1 \<le> s2" using p g peek_mono [of stop s1 b s "[124, 41, 38, 59]"] gettoken_mono [of tok r s2 b s1] by simp_all
  show ?case
  proof (cases "stop \<or> tok = 0")
    case True
    with "1.prems" p g s2 show ?thesis by (cases stop) (auto simp: exec_args_loop.simps [of b s])
  next
    case False
    then obtain rs0 s3 where rd: "tok = 97" "\<not> MAXARGS \<le> argc + 1" "redirs b s2 = Inr (rs0, s3)"
      using "1.prems"(1) p g by (auto simp: exec_args_loop.simps [of b s] split: if_splits sum.splits)
    then obtain args' rs' where loop: "exec_args_loop b s3 (argc + 1) = Inr (args', rs', s')"
      and res: "args = r # args'" "rs = rs0 @ rs'"
      using "1.prems"(1) p g False by (auto simp: exec_args_loop.simps [of b s] split: sum.splits)
    have "s3 \<le> s' \<and> (\<forall>r\<in>set args'. word_range b r) \<and> (\<forall>(f, m, fd)\<in>set rs'. word_range b f \<and> fd \<in> {0, 1}) \<and>
        argc + 1 + length args' < MAXARGS"
      using "1.IH" [OF p [symmetric] _ g [symmetric] refl _ _ _ rd(3) refl loop] rd False by fastforce
    moreover have "word_range b r" using gettoken_word g rd(1) by blast
    ultimately show ?thesis using redirs_ok [OF rd(3)] s2 by (auto simp: res)
  qed
qed

lemma back_loop_ok: "back_loop b c s = (c', s') \<Longrightarrow> s \<le> s' \<and> (cmd_ok b c \<longrightarrow> cmd_ok b c')"
proof (induction b c s rule: back_loop.induct)
  case (1 b c s)
  obtain again s1 where p: "peek b s [38] = (again, s1)" by (metis surj_pair)
  obtain tok r s2 where g: "gettoken b s1 = (tok, r, s2)" by (metis surj_pair)
  have s2: "s \<le> s1" "s1 \<le> s2" using p g peek_mono [of again s1 b s "[38]"] gettoken_mono [of tok r s2 b s1] by simp_all
  show ?case
  proof (cases again)
    case True
    then have "back_loop b (Backcmd c) s2 = (c', s')" using "1.prems" p g by (simp add: back_loop.simps [of b c s])
    from "1.IH" [OF p [symmetric] True g [symmetric] refl this] s2 show ?thesis by simp
  qed (use "1.prems" p s2 in \<open>simp add: back_loop.simps [of b c s]\<close>)
qed

lemma parseredirs_ok: "cmd_ok b c \<Longrightarrow> \<forall>(f, m, fd)\<in>set rs. word_range b f \<and> fd \<in> {0, 1} \<Longrightarrow> cmd_ok b (parseredirs c rs)"
  unfolding parseredirs_def by (induction rs arbitrary: c) auto

text \<open>
  \<open>parses m Q\<close>: the parser \<open>m\<close> ends within its bound, and what it returns satisfies \<open>Q\<close> unless it is a syntax error.
\<close>

definition parses :: "(string + 'a) option \<Rightarrow> ('a \<Rightarrow> bool) \<Rightarrow> bool" where
  "parses m Q \<longleftrightarrow> m \<noteq> None \<and> (\<forall>x. m = Some (Inr x) \<longrightarrow> Q x)"

lemma parses_simps [simp]:
  "parses (Some (Inr x)) Q \<longleftrightarrow> Q x"
  "parses (Some (Inl e)) Q"
  "parses (pbind m k) Q \<longleftrightarrow> parses m (\<lambda>x. parses (k x) Q)"
  by (auto simp: parses_def pbind_def split: option.splits sum.splits)

lemma parses_mono: "parses m Q \<Longrightarrow> (\<And>x. Q x \<Longrightarrow> R x) \<Longrightarrow> parses m R"
  by (auto simp: parses_def)

abbreviation advances :: "uchar list \<Rightarrow> nat \<Rightarrow> cmd \<times> nat \<Rightarrow> bool" where
  "advances b s \<equiv> \<lambda>(c, s'). s \<le> s' \<and> cmd_ok b c"

lemmas read_mono = peek_mono [OF sym] gettoken_mono [OF sym]

lemma peek_token_less:
  "peek b s toks = (ok, s1) \<Longrightarrow> ok \<Longrightarrow> gettoken b s1 = (tok, r, s2) \<Longrightarrow> s < length b \<and> s < s2 \<and> length b - s2 < length b - s"
  using peek_token [of s1 b s toks tok r s2] by auto

lemma parseline_step:
  assumes "parses (parsepipe n b s) (advances b s)"
    and "\<And>s'. length b - s' < length b - s \<Longrightarrow> parses (parseline n b s') (advances b s')"
  shows "parses (parseline (Suc n) b s) (advances b s)"
proof -
  have "parses (case back_loop b c s1 of (c, s) \<Rightarrow> case peek b s [59] of (semi, s) \<Rightarrow>
        if semi then case gettoken b s of (_, _, s) \<Rightarrow> pbind (parseline n b s) (\<lambda>(d, s). Some (Inr (Listcmd c d, s)))
        else Some (Inr (c, s))) (advances b s)" if "s \<le> s1" "cmd_ok b c" for c s1
  proof -
    obtain c2 s2 where l: "back_loop b c s1 = (c2, s2)" by (metis surj_pair)
    obtain semi s3 where q: "peek b s2 [59] = (semi, s3)" by (metis surj_pair)
    obtain t r s4 where g: "gettoken b s3 = (t, r, s4)" by (metis surj_pair)
    note le = back_loop_ok [OF l] read_mono(1) [OF q] read_mono(2) [OF g]
    show ?thesis
    proof (cases semi)
      case True
      then have "length b - s4 < length b - s" using peek_token_less [OF q True g] le that by arith
      from assms(2) [OF this] show ?thesis
        using le that True by (auto simp: l q g elim!: parses_mono)
    qed (use le that in \<open>simp add: l q\<close>)
  qed
  with assms(1) show ?thesis unfolding parseline.simps parses_simps by (auto elim!: parses_mono)
qed

lemma parsepipe_step:
  assumes "parses (parseexec n b s) (advances b s)"
    and "\<And>s'. length b - s' < length b - s \<Longrightarrow> parses (parsepipe n b s') (advances b s')"
  shows "parses (parsepipe (Suc n) b s) (advances b s)"
proof -
  have "parses (case peek b s1 [124] of (bar, s) \<Rightarrow>
        if bar then case gettoken b s of (_, _, s) \<Rightarrow> pbind (parsepipe n b s) (\<lambda>(d, s). Some (Inr (Pipecmd c d, s)))
        else Some (Inr (c, s))) (advances b s)" if "s \<le> s1" "cmd_ok b c" for c s1
  proof -
    obtain bar s3 where q: "peek b s1 [124] = (bar, s3)" by (metis surj_pair)
    obtain t r s4 where g: "gettoken b s3 = (t, r, s4)" by (metis surj_pair)
    note le = read_mono(1) [OF q] read_mono(2) [OF g]
    show ?thesis
    proof (cases bar)
      case True
      then have "length b - s4 < length b - s" using peek_token_less [OF q True g] le that by arith
      from assms(2) [OF this] show ?thesis
        using le that True by (auto simp: q g elim!: parses_mono)
    qed (use le that in \<open>simp add: q\<close>)
  qed
  with assms(1) show ?thesis unfolding parsepipe.simps parses_simps by (auto elim!: parses_mono)
qed

lemma parseblock_step:
  assumes "\<And>s'. length b - s' < length b - s \<Longrightarrow> parses (parseline n b s') (advances b s')"
  shows "parses (parseblock (Suc n) b s) (advances b s)"
proof -
  obtain lparen s1 where p: "peek b s [40] = (lparen, s1)" by (metis surj_pair)
  obtain t r s2 where g: "gettoken b s1 = (t, r, s2)" by (metis surj_pair)
  have "parses (case peek b s3 [41] of (close, s) \<Rightarrow>
        if \<not> close then Some (Inl ''syntax - missing )'')
        else case gettoken b s of (_, _, s) \<Rightarrow>
          (case redirs b s of Inl e \<Rightarrow> Some (Inl e)
           | Inr (rs, s) \<Rightarrow> Some (Inr (parseredirs c rs, s)))) (advances b s)" if "s2 \<le> s3" "cmd_ok b c" for c s3
  proof -
    obtain rparen s4 where q: "peek b s3 [41] = (rparen, s4)" by (metis surj_pair)
    obtain t' r' s5 where g': "gettoken b s4 = (t', r', s5)" by (metis surj_pair)
    have "s \<le> s5" using read_mono(1) [OF p] read_mono(2) [OF g] read_mono(1) [OF q] read_mono(2) [OF g'] that by simp
    moreover have "s5 \<le> s' \<and> cmd_ok b (parseredirs c rs)" if "redirs b s5 = Inr (rs, s')" for rs s'
      using redirs_ok [OF that] parseredirs_ok \<open>cmd_ok b c\<close> by blast
    ultimately show ?thesis by (fastforce simp: q g' split: sum.split)
  qed
  moreover have "parses (parseline n b s2) (advances b s2)" if lparen
    using assms [of s2] peek_token_less [OF p that g] by simp
  ultimately show ?thesis by (auto simp: parseblock.simps p g elim!: parses_mono)
qed

lemma parseexec_step:
  assumes "\<And>s'. s \<le> s' \<Longrightarrow> parses (parseblock n b s') (advances b s')"
  shows "parses (parseexec (Suc n) b s) (advances b s)"
proof -
  obtain lparen s1 where p: "peek b s [40] = (lparen, s1)" by (metis surj_pair)
  note s1 = read_mono(1) [OF p]
  show ?thesis
  proof (cases lparen)
    case True
    with s1 parses_mono [OF assms [OF s1], of "advances b s"] show ?thesis by (auto simp: parseexec.simps p)
  next
    case False
    have "s \<le> s' \<and> cmd_ok b (parseredirs (Execcmd args) (rs @ rs'))"
      if "redirs b s1 = Inr (rs, s2)" "exec_args_loop b s2 0 = Inr (args, rs', s')" for rs s2 args rs' s'
      using redirs_ok [OF that(1)] exec_args_loop_ok [OF that(2)] s1
      by (intro conjI parseredirs_ok) (auto simp: MAXARGS_def)
    then show ?thesis using False by (auto simp: parseexec.simps p split: sum.split)
  qed
qed

lemma parsers_total:
  "(4 * (length b - s) + 4 \<le> n \<longrightarrow> parses (parseline n b s) (advances b s)) \<and>
   (4 * (length b - s) + 3 \<le> n \<longrightarrow> parses (parsepipe n b s) (advances b s)) \<and>
   (4 * (length b - s) + 2 \<le> n \<longrightarrow> parses (parseexec n b s) (advances b s)) \<and>
   (4 * (length b - s) + 1 \<le> n \<longrightarrow> parses (parseblock n b s) (advances b s))"
proof (induction n arbitrary: s)
  case (Suc n)
  show ?case
    by (intro conjI impI parseline_step parsepipe_step parseexec_step parseblock_step) (use Suc in auto)
qed simp

text \<open>The ranges a command records: the arguments and the files of the redirections.\<close>

primrec cmd_words :: "cmd \<Rightarrow> range list" where
  "cmd_words (Execcmd args) = args"
| "cmd_words (Redircmd c file mode fd) = cmd_words c @ [file]"
| "cmd_words (Pipecmd c d) = cmd_words c @ cmd_words d"
| "cmd_words (Listcmd c d) = cmd_words c @ cmd_words d"
| "cmd_words (Backcmd c) = cmd_words c"

lemma cmd_ok_words: "cmd_ok b c \<Longrightarrow> r \<in> set (cmd_words c) \<Longrightarrow> word_range b r"
  by (induction c) auto

lemma nulterminate_fold: "nulterminate c b = fold (\<lambda>(q, eq) b. b[eq := 0]) (cmd_words c) b"
  by (induction c arbitrary: b) auto

lemma fold_zero_nth:
  "length (fold (\<lambda>(q, eq) b. b[eq := 0]) rs b) = length b \<and>
   (i < length b \<longrightarrow> fold (\<lambda>(q, eq) b. b[eq := 0]) rs b ! i = (if i \<in> snd ` set rs then 0 else b ! i))"
  for b :: "uchar list"
proof (induction rs arbitrary: b)
  case (Cons r rs)
  then show ?case by (cases "i \<in> snd ` set rs") (auto simp: nth_list_update split: prod.split)
qed simp

text \<open>The C string at offset \<open>q\<close> of a buffer.\<close>

definition str_at :: "uchar list \<Rightarrow> nat \<Rightarrow> uchar list" where
  "str_at b q = takeWhile (\<lambda>c. c \<noteq> 0) (drop q b)"

lemma str_atI:
  assumes "q \<le> e" "e < length b" "b ! e = 0" "\<forall>i\<in>{q..<e}. b ! i \<noteq> 0"
  shows "str_at b q = take (e - q) (drop q b)"
  unfolding str_at_def using assms
  by (intro takeWhile_eq_take_P_nth) (auto simp: min_def)

lemma nulterminate_words:
  assumes c: "cmd_ok b c" and nul: "0 \<notin> set b" and r: "(q, e) \<in> set (cmd_words c)"
  shows "str_at (nulterminate c (b @ [0])) q = take (e - q) (drop q b)"
proof -
  define b' where "b' = nulterminate c (b @ [0])"
  have len: "length b' = Suc (length b)"
    and nth: "i < Suc (length b) \<Longrightarrow> b' ! i = (if i \<in> snd ` set (cmd_words c) then 0 else (b @ [0]) ! i)" for i
    using fold_zero_nth [of "cmd_words c" "b @ [0]" i] fold_zero_nth [of "cmd_words c" "b @ [0]" 0]
    by (auto simp: b'_def nulterminate_fold)
  from cmd_ok_words [OF c r] have w: "q < e" "e \<le> length b" "\<forall>i\<in>{q..<e}. \<not> separator (b ! i)"
    by (auto simp: word_range_def)
  have keep: "b' ! i = b ! i" "b ! i \<noteq> 0" if "i \<in> {q..<e}" for i
  proof -
    have "i \<notin> snd ` set (cmd_words c)"
      using w that cmd_ok_words [OF c] by (force simp: word_range_def)
    with that w show "b' ! i = b ! i" by (simp add: nth nth_append)
    show "b ! i \<noteq> 0" using nul that w nth_mem [of i b] by (metis atLeastLessThan_iff order_less_le_trans)
  qed
  have "b' ! e = 0" using r w by (force simp: nth)
  then have "str_at b' q = take (e - q) (drop q b')" using w len keep by (intro str_atI) auto
  also have "\<dots> = take (e - q) (drop q b)"
    by (rule nth_equalityI) (use w len keep(1) in \<open>auto simp: nth_append\<close>)
  finally show ?thesis by (simp add: b'_def)
qed

text \<open>
  C14: the shell's parser ends on every line, with a command or a syntax error. When it returns a
  command, the command has fewer than \<open>MAXARGS\<close> arguments per \<open>execcmd\<close>, each recorded word is a maximal run
  of characters that are neither white space nor symbols, and the string at its address in the
  buffer \<open>nulterminate\<close> left is exactly that word.
\<close>

theorem parsecmd_words:
  assumes "0 \<notin> set b"
  shows "\<exists>r. parsecmd b = Some r \<and>
    (\<forall>c b'. r = Inr (c, b') \<longrightarrow> cmd_ok b c \<and>
       (\<forall>(q, e)\<in>set (cmd_words c). str_at b' q = take (e - q) (drop q b)))"
proof -
  have "parses (parseline (4 * length b + 4) b 0) (advances b 0)"
    using parsers_total [of b 0 "4 * length b + 4"] by simp
  then have "parses (parsecmd b) (\<lambda>(c, b'). cmd_ok b c \<and> b' = nulterminate c (b @ [0]))"
    unfolding parsecmd_def by (auto elim!: parses_mono simp: peek_def Let_def)
  then show ?thesis using nulterminate_words assms by (fastforce simp: parses_def)
qed

theorem parsecmd_words_witness:
  "\<exists>c b'. parsecmd [97, 32, 98, 62, 99] = Some (Inr (c, b')) \<and> cmd_words c = [(0, 1), (2, 3), (4, 5)] \<and>
    str_at b' 2 = [98]"
proof -
  have "parsecmd [97, 32, 98, 62, 99] = Some (Inr (Redircmd (Execcmd [(0, 1), (2, 3)]) (4, 5) (O_WRONLY OR O_CREATE OR O_TRUNC) 1,
      [97, 0, 98, 0, 99, 0]))"
    by code_simp
  with parsecmd_words [of "[97, 32, 98, 62, 99]"] show ?thesis by auto
qed

subsection \<open>Running commands\<close>

text \<open>
  What a descriptor of a shell process stands for: one the shell was started with, the console, a file opened
  for a redirection, or an end of a pipe (\<open>True\<close> is the write end). A descriptor table is a list; the
  kernel gives out the lowest free descriptor, as \<open>fdalloc\<close> does.
\<close>

datatype fdobj = Inherited nat | Console_dev | Redirected range int | Pipe_end nat bool

type_synonym fdtab = "fdobj option list"

definition fd_alloc :: "fdobj \<Rightarrow> fdtab \<Rightarrow> (nat \<times> fdtab) option" where
  "fd_alloc x t =
     (case List.find (\<lambda>i. t ! i = None) [0..<length t] of None \<Rightarrow> None | Some i \<Rightarrow> Some (i, t[i := Some x]))"

definition fd_close :: "nat \<Rightarrow> fdtab \<Rightarrow> fdtab" where
  "fd_close i t = t[i := None]"

definition fd_dup :: "nat \<Rightarrow> fdtab \<Rightarrow> fdtab" where
  "fd_dup i t =
     (if i < length t
      then case t ! i of None \<Rightarrow> t
        | Some x \<Rightarrow> (case fd_alloc x t of None \<Rightarrow> t | Some (_, t') \<Rightarrow> t')
      else t)"

text \<open>
  The system calls a shell process makes, as a tree: \<open>Sh_exec\<close> carries the arguments, the descriptor table and what
  follows when \<open>exec\<close> returns, \<open>Sh_fork\<close> the child, the parent and what follows when there is no child.
\<close>

datatype sh_act =
    Sh_exit int
  | Sh_exec "range list" fdtab sh_act
  | Sh_fork sh_act sh_act sh_act
  | Sh_wait sh_act

definition sh_panic :: sh_act where
  "sh_panic = Sh_exit 1"

definition fork1 :: "sh_act \<Rightarrow> sh_act \<Rightarrow> sh_act" where
  "fork1 child parent = Sh_fork child parent sh_panic"

text \<open>
  \<open>can_open\<close> and \<open>can_pipe\<close> tell which \<open>open\<close> and \<open>pipe\<close> calls the kernel can serve apart from the lack of a
  descriptor. The messages a process writes to descriptor 2 when \<open>exec\<close>, \<open>open\<close>, \<open>pipe\<close> or \<open>fork\<close> fails are left out.
  The number \<open>k\<close> names the pipe a command makes; both continuations get numbers of their own.
\<close>

primrec runcmd :: "(range \<Rightarrow> int \<Rightarrow> bool) \<Rightarrow> (nat \<Rightarrow> bool) \<Rightarrow> cmd \<Rightarrow> nat \<Rightarrow> fdtab \<Rightarrow> sh_act" where
  "runcmd can_open can_pipe (Execcmd args) k t =
     (if args = [] then Sh_exit 1 else Sh_exec args t (Sh_exit 0))"
| "runcmd can_open can_pipe (Redircmd c file mode fd) k t =
     (let t = fd_close (nat fd) t in
      if \<not> can_open file mode then Sh_exit 1
      else case fd_alloc (Redirected file mode) t of None \<Rightarrow> Sh_exit 1
        | Some (_, t) \<Rightarrow> runcmd can_open can_pipe c k t)"
| "runcmd can_open can_pipe (Listcmd l r) k t =
     fork1 (runcmd can_open can_pipe l (2 * k + 1) t) (Sh_wait (runcmd can_open can_pipe r (2 * k + 2) t))"
| "runcmd can_open can_pipe (Pipecmd l r) k t =
     (if \<not> can_pipe k then sh_panic
      else case fd_alloc (Pipe_end k False) t of None \<Rightarrow> sh_panic
      | Some (p0, t0) \<Rightarrow>
      (case fd_alloc (Pipe_end k True) t0 of None \<Rightarrow> sh_panic
      | Some (p1, t) \<Rightarrow>
        fork1
          (runcmd can_open can_pipe l (2 * k + 1) (fd_close p1 (fd_close p0 (fd_dup p1 (fd_close 1 t)))))
          (fork1
            (runcmd can_open can_pipe r (2 * k + 2) (fd_close p1 (fd_close p0 (fd_dup p0 (fd_close 0 t)))))
            (Sh_wait (Sh_wait (Sh_exit 0))))))"
| "runcmd can_open can_pipe (Backcmd c) k t = fork1 (runcmd can_open can_pipe c k t) (Sh_exit 0)"

text \<open>The \<open>exec\<close> calls of a tree.\<close>

primrec execs :: "sh_act \<Rightarrow> (range list \<times> fdtab) set" where
  "execs (Sh_exit n) = {}"
| "execs (Sh_exec args t k) = {(args, t)} \<union> execs k"
| "execs (Sh_fork c p f) = execs c \<union> execs p \<union> execs f"
| "execs (Sh_wait k) = execs k"

text \<open>A descriptor table with the first three descriptors open and no other.\<close>

definition std_fds :: "fdobj \<Rightarrow> fdobj \<Rightarrow> fdobj \<Rightarrow> fdtab" where
  "std_fds x y z = [Some x, Some y, Some z] @ replicate (NOFILE - 3) None"

lemma std_fds_expand:
  "std_fds x y z = [Some x, Some y, Some z, None, None, None, None, None, None, None, None, None, None, None, None, None]"
  by (simp add: std_fds_def NOFILE_def numeral_eq_Suc)

lemma find_cons: "List.find P (x # xs) = (if P x then Some x else List.find P xs)"
  by simp

lemma fd_alloc_simps:
  "fd_alloc v (None # t) = Some (0, Some v # t)"
  "fd_alloc v (Some x # t) = (case fd_alloc v t of None \<Rightarrow> None | Some (i, t') \<Rightarrow> Some (Suc i, Some x # t'))"
  "fd_alloc v [] = None"
proof -
  have find_Suc: "List.find (\<lambda>i. (y # t) ! i = None) (map Suc xs) = map_option Suc (List.find (\<lambda>i. t ! i = None) xs)" for y xs
    by (induction xs) auto
  show "fd_alloc v (None # t) = Some (0, Some v # t)"
    by (simp add: fd_alloc_def upt_conv_Cons del: upt_Suc)
  show "fd_alloc v (Some x # t) = (case fd_alloc v t of None \<Rightarrow> None | Some (i, t') \<Rightarrow> Some (Suc i, Some x # t'))"
    by (simp add: fd_alloc_def upt_conv_Cons map_Suc_upt [symmetric] find_Suc del: upt_Suc split: option.split)
qed (simp add: fd_alloc_def)

lemma runcmd_pipe:
  "runcmd can_open can_pipe (Pipecmd l r) k (std_fds x y z) =
     (if \<not> can_pipe k then sh_panic
      else fork1 (runcmd can_open can_pipe l (2 * k + 1) (std_fds x (Pipe_end k True) z))
             (fork1 (runcmd can_open can_pipe r (2 * k + 2) (std_fds (Pipe_end k False) y z))
               (Sh_wait (Sh_wait (Sh_exit 0)))))"
  by (simp add: std_fds_expand fd_alloc_simps fd_close_def fd_dup_def)

lemma runcmd_redir:
  "runcmd can_open can_pipe (Redircmd c file mode 0) k (std_fds x y z) =
     (if \<not> can_open file mode then Sh_exit 1 else runcmd can_open can_pipe c k (std_fds (Redirected file mode) y z))"
  "runcmd can_open can_pipe (Redircmd c file mode 1) k (std_fds x y z) =
     (if \<not> can_open file mode then Sh_exit 1 else runcmd can_open can_pipe c k (std_fds x (Redirected file mode) z))"
  by (simp_all add: std_fds_expand fd_alloc_simps fd_close_def)

lemma runcmd_std_fds:
  assumes "cmd_ok b c" "(args, t) \<in> execs (runcmd can_open can_pipe c k (std_fds x y z))"
  shows "\<exists>x y. t = std_fds x y z"
  using assms
proof (induction c arbitrary: k x y)
  case (Redircmd c f mode fd)
  then show ?case by (auto simp: runcmd_redir split: if_splits simp del: runcmd.simps)
next
  case (Pipecmd l r)
  then show ?case by (auto simp: runcmd_pipe fork1_def sh_panic_def split: if_splits simp del: runcmd.simps(4))
qed (auto simp: fork1_def sh_panic_def split: if_splits)

text \<open>
  C17: whatever line the shell parses and runs, every program it starts runs with exactly the
  descriptors 0, 1 and 2 open: no end of a pipe is left open in any of the processes, and
  the standard error is the shell's.
\<close>

theorem runcmd_only_standard_fds:
  assumes "parsecmd b = Some (Inr (c, b'))"
    and "(args, t) \<in> execs (runcmd can_open can_pipe c k (std_fds x y z))"
  shows "\<exists>x' y'. t = std_fds x' y' z"
proof -
  have "parses (parseline (4 * length b + 4) b 0) (advances b 0)"
    using parsers_total [of b 0 "4 * length b + 4"] by simp
  then have "parses (parsecmd b) (\<lambda>(c, b'). cmd_ok b c)"
    unfolding parsecmd_def by (auto elim!: parses_mono simp: peek_def Let_def)
  with assms(1) have "cmd_ok b c" by (auto simp: parses_def)
  from runcmd_std_fds [OF this assms(2)] show ?thesis .
qed

theorem runcmd_only_standard_fds_witness:
  "\<exists>c b' x' y'. parsecmd [97, 124, 98] = Some (Inr (c, b')) \<and>
     ([(2, 3)], std_fds x' y' (Inherited 2)) \<in> execs (runcmd (\<lambda>_ _. True) (\<lambda>_. True) c 0 (std_fds (Inherited 0) (Inherited 1) (Inherited 2)))"
proof -
  let ?c = "Pipecmd (Execcmd [(0, 1)]) (Execcmd [(2, 3)])"
  have p: "parsecmd [97, 124, 98] = Some (Inr (?c, [97, 0, 98, 0]))" by code_simp
  have e: "([(2, 3)], std_fds (Pipe_end 0 False) (Inherited 1) (Inherited 2)) \<in>
      execs (runcmd (\<lambda>_ _. True) (\<lambda>_. True) ?c 0 (std_fds (Inherited 0) (Inherited 1) (Inherited 2)))"
    unfolding runcmd_pipe by (simp add: fork1_def)
  from p e runcmd_only_standard_fds [OF p e] show ?thesis by blast
qed

text \<open>
  a pipeline. The left command runs with the write end of the pipe as its standard output, the
  right one with the read end as its standard input, neither keeps another end of the pipe,
  and the shell waits for both.
\<close>

theorem runcmd_pipe_wiring:
  assumes "can_pipe k"
  shows "runcmd can_open can_pipe (Pipecmd l r) k (std_fds x y z) =
    Sh_fork (runcmd can_open can_pipe l (2 * k + 1) (std_fds x (Pipe_end k True) z))
      (Sh_fork (runcmd can_open can_pipe r (2 * k + 2) (std_fds (Pipe_end k False) y z))
        (Sh_wait (Sh_wait (Sh_exit 0))) (Sh_exit 1)) (Sh_exit 1)"
  unfolding runcmd_pipe using assms by (simp add: fork1_def sh_panic_def)

theorem runcmd_pipe_wiring_witness:
  "execs (runcmd (\<lambda>_ _. True) (\<lambda>_. True) (Pipecmd (Execcmd [(0, 1)]) (Execcmd [(2, 3)])) 0
      (std_fds (Inherited 0) (Inherited 1) (Inherited 2))) =
    {([(0, 1)], std_fds (Inherited 0) (Pipe_end 0 True) (Inherited 2)),
     ([(2, 3)], std_fds (Pipe_end 0 False) (Inherited 1) (Inherited 2))}"
  using runcmd_pipe_wiring [of "\<lambda>_. True" 0 "\<lambda>_ _. True" "Execcmd [(0, 1)]" "Execcmd [(2, 3)]" "Inherited 0" "Inherited 1" "Inherited 2"]
  by (auto simp del: runcmd.simps(4))

subsection \<open>The main loop\<close>

text \<open>
  \<open>getcmd\<close> on what is left of the input: the line, up to the first NUL of the cleared buffer, and the rest; \<open>None\<close>
  when the buffer starts with NUL. The prompt it writes is left out.
\<close>

definition getcmd :: "uchar list \<Rightarrow> (uchar list \<times> uchar list) option" where
  "getcmd input =
     (case u_gets 100 input of (buf, rest) \<Rightarrow>
        if char_at buf 0 = 0 then None else Some (takeWhile (\<lambda>c. c \<noteq> 0) buf, rest))"

text \<open>What the loop of \<open>main\<close> does with a line: change the directory, or run it in a child and wait.\<close>

datatype sh_step = Sh_cd "uchar list" | Sh_line "uchar list"

definition sh_step_of :: "uchar list \<Rightarrow> sh_step" where
  "sh_step_of buf =
     (if char_at buf 0 = 99 \<and> char_at buf 1 = 100 \<and> char_at buf 2 = 32
      then Sh_cd (drop 3 (butlast buf)) else Sh_line buf)"

lemma u_gets_loop_rest: "u_gets_loop k input = (buf, rest) \<Longrightarrow> input = buf @ rest"
  by (induction k arbitrary: input buf rest) (auto split: list.splits if_splits prod.splits)

lemma getcmd_less: "getcmd input = Some (buf, rest) \<Longrightarrow> length rest < length input"
proof -
  assume "getcmd input = Some (buf, rest)"
  then obtain l where l: "u_gets_loop (nat 99) input = (l, rest)" "char_at l 0 \<noteq> 0"
    by (auto simp: getcmd_def u_gets_def split: prod.splits if_splits)
  then show ?thesis using u_gets_loop_rest [OF l(1)] by (auto simp: char_at_def split: if_splits)
qed

function sh_loop :: "uchar list \<Rightarrow> sh_step list" where
  "sh_loop input = (case getcmd input of None \<Rightarrow> [] | Some (buf, rest) \<Rightarrow> sh_step_of buf # sh_loop rest)"
  by pat_completeness auto
termination
  by (relation "measure length") (auto intro: getcmd_less [OF sym])

declare sh_loop.simps [simp del]

text \<open>
  The first loop of \<open>main\<close> opens the console until it gets a descriptor above 2; \<open>ok\<close> tells whether the console
  can be opened.
\<close>

lemma fd_alloc_free:
  assumes "fd_alloc x t = Some (i, t')"
  shows "length (filter (\<lambda>x. x = None) t') < length (filter (\<lambda>x. x = None) t)"
  using assms
proof (induction t arbitrary: i t')
  case (Cons y t)
  then show ?case by (cases y) (auto simp: fd_alloc_simps split: option.splits)
qed (simp add: fd_alloc_simps)

function open_console :: "bool \<Rightarrow> fdtab \<Rightarrow> fdtab" where
  "open_console ok t =
     (if \<not> ok then t
      else case fd_alloc Console_dev t of None \<Rightarrow> t
        | Some (fd, t') \<Rightarrow> if fd \<ge> 3 then fd_close fd t' else open_console ok t')"
  by pat_completeness auto
termination
  by (relation "measure (\<lambda>(ok, t). length (filter (\<lambda>x. x = None) t))") (auto dest: fd_alloc_free)

declare open_console.simps [simp del]

lemma open_console_std:
  assumes "n \<le> 3"
  shows "\<exists>x y z. open_console True (map (Some \<circ> Inherited) [0..<n] @ replicate (NOFILE - n) None) = std_fds x y z"
proof -
  have "n = 0 \<or> n = 1 \<or> n = 2 \<or> n = 3" using assms by auto
  then show ?thesis
    by (auto simp: open_console.simps fd_alloc_simps fd_close_def std_fds_expand NOFILE_def numeral_eq_Suc)
qed

text \<open>The lines of an input: each fits the buffer with its newline and has no NUL, newline or carriage return inside.\<close>

definition input_line :: "uchar list \<Rightarrow> bool" where
  "input_line l \<longleftrightarrow> length l < 99 \<and> (\<forall>c\<in>set l. c \<noteq> 0 \<and> c \<noteq> 10 \<and> c \<noteq> 13)"

lemma u_gets_loop_line:
  "length l < k \<Longrightarrow> \<forall>c\<in>set l. c \<noteq> 0 \<and> c \<noteq> 10 \<and> c \<noteq> 13 \<Longrightarrow> u_gets_loop k (l @ 10 # rest) = (l @ [10], rest)"
proof (induction l arbitrary: k)
  case Nil
  then show ?case by (cases k) auto
next
  case (Cons c l)
  then show ?case by (cases k) auto
qed

lemma getcmd_line: "input_line l \<Longrightarrow> getcmd (l @ 10 # rest) = Some (l @ [10], rest)"
  using u_gets_loop_line [of l 99 rest]
  by (cases l) (auto simp: getcmd_def u_gets_def input_line_def char_at_def)

text \<open>
  the shell carries out every line of its input, in order: \<open>cd\<close> with the rest of the line as the
  directory, without the newline; any other line is handed to the parser as it is.
\<close>

theorem sh_loop_lines:
  assumes "\<forall>l\<in>set ls. input_line l"
  shows "sh_loop (concat (map (\<lambda>l. l @ [10]) ls)) =
    map (\<lambda>l. if take 3 l = [99, 100, 32] then Sh_cd (drop 3 l) else Sh_line (l @ [10])) ls"
  using assms
proof (induction ls)
  case Nil
  show ?case by (simp add: sh_loop.simps getcmd_def u_gets_def char_at_def numeral_eq_Suc)
next
  case (Cons l ls)
  have "sh_step_of (l @ [10]) = (if take 3 l = [99, 100, 32] then Sh_cd (drop 3 l) else Sh_line (l @ [10]))"
  proof (cases "take 3 l = [99, 100, 32]")
    case True
    then have "l = [99, 100, 32] @ drop 3 l" by (metis append_take_drop_id)
    then obtain r where "l = 99 # 100 # 32 # r" by auto
    then show ?thesis by (simp add: sh_step_of_def char_at_def butlast_append)
  next
    case False
    then have "\<not> (char_at (l @ [10]) 0 = 99 \<and> char_at (l @ [10]) 1 = 100 \<and> char_at (l @ [10]) 2 = 32)"
      by (intro notI, cases l, simp add: char_at_def, rename_tac c l1, case_tac l1, simp add: char_at_def, rename_tac d l2, case_tac l2) (auto simp: char_at_def)
    then show ?thesis using False by (auto simp: sh_step_of_def)
  qed
  with Cons show ?case by (simp add: sh_loop.simps [of "l @ 10 # _"] getcmd_line)
qed

theorem sh_loop_lines_witness:
  "sh_loop [99, 100, 32, 97, 10, 108, 115, 10] = [Sh_cd [97], Sh_line [108, 115, 10]]"
  using sh_loop_lines [of "[[99, 100, 32, 97], [108, 115]]"] by (simp add: input_line_def)

end
