(* ===== verification/Cafe.thy ===== *)
theory Cafe
  imports Complex_Main Prelude
begin

text \<open>
  The cafe of \<open>concurrency/1.c\<close>: one thread per customer, one semaphore per barista. \<open>cust_instr\<close> is the
  code of \<open>customer_handler\<close> between two accesses to shared data; the threads' instructions and the passing
  of seconds interleave freely. \<open>wasted_coffee++\<close> and \<open>average_wait_time += ...\<close> are not under the mutex in the
  source, so each is a load and a store here. A time is a whole number of seconds, as \<open>floor(time(NULL))\<close>
  is, and the printed lines are events. The sum of the waiting times is kept as an integer: it is a
  \<open>double\<close> in the source, exact for such sums.
\<close>

subsection \<open>State\<close>

record customer =
  c_id :: int
  arrival_time :: int
  tolerance :: int
  coffee_name :: string
  coffee_prep_time :: int
  abs_start_time :: int

datatype cafe_event =
    Arrives int int
  | Orders int string
  | Begins nat int int
  | Leaves_without int int
  | Completes nat int int
  | Leaves_with int int

record cafe =
  sems :: "nat \<Rightarrow> nat"
  wasted_coffee :: int
  average_wait_time :: int
  now :: int
  printed :: "cafe_event list"

text \<open>
  The program counter of a customer, with the local variables that are live there. \<open>K_sleep w k\<close> sleeps
  until the time \<open>w\<close> and goes on with \<open>k\<close>; the flag of \<open>K_post\<close>, \<open>K_leave\<close> and \<open>K_done\<close> is \<open>served\<close>.
\<close>

datatype kpc =
    K_start | K_sleep int kpc | K_arrived | K_try nat | K_begin nat
  | K_left nat int int | K_load nat int | K_store nat int int | K_finish nat
  | K_made nat | K_post nat bool
  | K_clock | K_timed nat int | K_took nat | K_avg_load nat int | K_avg_store nat int int
  | K_decide nat int | K_second nat int int int | K_begin2 nat
  | K_leave bool | K_load0 int | K_store0 int int | K_bye int | K_done bool

subsection \<open>The code of a customer\<close>

text \<open>\<open>sleep\<close> takes an \<open>unsigned int\<close>.\<close>

definition sleep_secs :: "int \<Rightarrow> int" where
  "sleep_secs n = n mod 2 ^ 32"

definition sleep_for :: "int \<Rightarrow> kpc \<Rightarrow> cafe \<Rightarrow> kpc" where
  "sleep_for n k s = K_sleep (now s + sleep_secs n) k"

definition say :: "cafe_event \<Rightarrow> cafe \<Rightarrow> cafe" where
  "say e s = s\<lparr>printed := printed s @ [e]\<rparr>"

definition sem_set :: "nat \<Rightarrow> nat \<Rightarrow> cafe \<Rightarrow> cafe" where
  "sem_set i v s = s\<lparr>sems := (sems s)(i := v)\<rparr>"

text \<open>\<open>None\<close>: the thread is blocked or has ended.\<close>

fun cust_instr :: "nat \<Rightarrow> kpc \<times> customer \<times> cafe \<Rightarrow> (kpc \<times> customer \<times> cafe) option" where
  "cust_instr B (K_start, c, s) =
     Some (sleep_for (arrival_time c) K_arrived s, c\<lparr>abs_start_time := now s\<rparr>, s)"
| "cust_instr B (K_sleep w k, c, s) = (if w \<le> now s then Some (k, c, s) else None)"
| "cust_instr B (K_arrived, c, s) =
     Some (K_try 0, c, say (Orders (c_id c + 1) (coffee_name c)) (say (Arrives (c_id c + 1) (arrival_time c)) s))"
| "cust_instr B (K_try i, c, s) =
     Some (if i < B
           then if sems s i > 0 then (sleep_for 1 (K_begin i) s, c, sem_set i (sems s i - 1) s)
                else (K_try (i + 1), c, s)
           else (K_clock, c, s))"
| "cust_instr B (K_begin i, c, s) =
     (let order_start_time = now s - abs_start_time c; s = say (Begins (i + 1) (c_id c + 1) order_start_time) s in
      Some (if tolerance c < coffee_prep_time c
            then (sleep_for (tolerance c)
                    (K_left i (tolerance c + order_start_time) (coffee_prep_time c - tolerance c)) s, c, s)
            else (sleep_for (coffee_prep_time c) (K_made i) s, c, s)))"
| "cust_instr B (K_left i t n, c, s) = Some (K_load i n, c, say (Leaves_without (c_id c + 1) t) s)"
| "cust_instr B (K_load i n, c, s) = Some (K_store i n (wasted_coffee s), c, s)"
| "cust_instr B (K_store i n v, c, s) = Some (sleep_for n (K_finish i) s, c, s\<lparr>wasted_coffee := v + 1\<rparr>)"
| "cust_instr B (K_finish i, c, s) =
     Some (K_post i False, c, say (Completes (i + 1) (c_id c + 1) (now s - abs_start_time c)) s)"
| "cust_instr B (K_made i, c, s) =
     Some (K_post i True, c, say (Completes (i + 1) (c_id c + 1) (now s - abs_start_time c)) s)"
| "cust_instr B (K_post i served, c, s) =
     Some (if served then K_leave True else K_done False, c, sem_set i (sems s i + 1) s)"
| "cust_instr B (K_clock, c, s) = Some (K_timed 0 (now s + tolerance c), c, s)"
| "cust_instr B (K_timed i ts, c, s) =
     (if i < B
      then if sems s i > 0 then Some (K_took i, c, sem_set i (sems s i - 1) s)
           else if ts \<le> now s then Some (K_timed (i + 1) ts, c, s)
           else None
      else Some (K_leave False, c, s))"
| "cust_instr B (K_took i, c, s) = Some (K_avg_load i (now s - abs_start_time c - arrival_time c), c, s)"
| "cust_instr B (K_avg_load i delay, c, s) = Some (K_avg_store i delay (average_wait_time s), c, s)"
| "cust_instr B (K_avg_store i delay v, c, s) = Some (K_decide i delay, c, s\<lparr>average_wait_time := v + (delay - 1)\<rparr>)"
| "cust_instr B (K_decide i delay, c, s) =
     (if tolerance c < delay + coffee_prep_time c
      then let order_start_time = now s - abs_start_time c; s = say (Begins (i + 1) (c_id c + 1) order_start_time) s in
           Some (sleep_for 1
             (K_second i (tolerance c - delay) (tolerance c + order_start_time - delay + 1)
               (coffee_prep_time c - tolerance c + delay - 1)) s, c, s)
      else Some (sleep_for 1 (K_begin2 i) s, c, s))"
| "cust_instr B (K_second i m t n, c, s) = Some (sleep_for m (K_left i t n) s, c, s)"
| "cust_instr B (K_begin2 i, c, s) =
     (let s = say (Begins (i + 1) (c_id c + 1) (now s - abs_start_time c)) s in
      Some (sleep_for (coffee_prep_time c) (K_made i) s, c, s))"
| "cust_instr B (K_leave served, c, s) =
     (let customer_leave_time = now s - abs_start_time c in
      if served then Some (K_done True, c, say (Leaves_with (c_id c + 1) customer_leave_time) s)
      else Some (K_load0 customer_leave_time, c, s))"
| "cust_instr B (K_load0 t, c, s) = Some (K_store0 t (wasted_coffee s), c, s)"
| "cust_instr B (K_store0 t v, c, s) = Some (sleep_for 1 (K_bye t) s, c, s\<lparr>wasted_coffee := v + 1\<rparr>)"
| "cust_instr B (K_bye t, c, s) = Some (K_done False, c, say (Leaves_without (c_id c + 1) (t + 1)) s)"
| "cust_instr B (K_done served, c, s) = None"

subsection \<open>The program\<close>

text \<open>
  The customers as \<open>get_input\<close> fills the array, from the coffees and the lines of the customers: the
  preparation time is that of the first coffee of that name, and stays 0 when there is none.
\<close>

record coffee =
  cof_name :: string
  prep_time :: int

definition read_customer :: "coffee list \<Rightarrow> int \<times> string \<times> int \<times> int \<Rightarrow> customer" where
  "read_customer coffees = (\<lambda>(id, name, arr, tol).
     \<lparr>c_id = id - 1, arrival_time = arr, tolerance = tol, coffee_name = name,
      coffee_prep_time = (case List.find (\<lambda>f. name = cof_name f) coffees of None \<Rightarrow> 0 | Some f \<Rightarrow> prep_time f),
      abs_start_time = 0\<rparr>)"

record shop =
  pcs :: "nat \<Rightarrow> kpc"
  custs :: "nat \<Rightarrow> customer"
  cafe :: cafe

text \<open>
  The state when the threads are created, at time \<open>t0\<close>, for \<open>B\<close> baristas. The arrays of the source have room for
  \<open>MAX_BARISTAS\<close> semaphores, 10, and 100 customers, and the input is not checked against that; for larger numbers the model is the program
  with larger arrays.
\<close>

definition initialize_threads_semaphores :: "nat \<Rightarrow> nat \<Rightarrow> nat" where
  "initialize_threads_semaphores B = (\<lambda>i. if i < B then 1 else 0)"

definition shop_init :: "nat \<Rightarrow> customer list \<Rightarrow> int \<Rightarrow> shop" where
  "shop_init B cs t0 =
     \<lparr>pcs = (\<lambda>_. K_start), custs = (\<lambda>i. cs ! i),
      cafe = \<lparr>sems = initialize_threads_semaphores B, wasted_coffee = 0, average_wait_time = 0, now = t0, printed = []\<rparr>\<rparr>"

definition shop_step :: "nat \<Rightarrow> nat \<Rightarrow> shop \<Rightarrow> shop option" where
  "shop_step B i s =
     (case cust_instr B (pcs s i, custs s i, cafe s) of None \<Rightarrow> None
      | Some (pc, c, k) \<Rightarrow> Some \<lparr>pcs = (pcs s)(i := pc), custs = (custs s)(i := c), cafe = k\<rparr>)"

definition tick :: "shop \<Rightarrow> shop" where
  "tick s = s\<lparr>cafe := (cafe s)\<lparr>now := now (cafe s) + 1\<rparr>\<rparr>"

inductive shop_reach :: "nat \<Rightarrow> customer list \<Rightarrow> shop \<Rightarrow> bool" for B cs where
  init: "shop_reach B cs (shop_init B cs t0)"
| thread: "shop_reach B cs s \<Longrightarrow> i < length cs \<Longrightarrow> shop_step B i s = Some s' \<Longrightarrow> shop_reach B cs s'"
| time: "shop_reach B cs s \<Longrightarrow> shop_reach B cs (tick s)"

text \<open>What \<open>main\<close> prints when every thread has been joined.\<close>

definition shop_result :: "customer list \<Rightarrow> shop \<Rightarrow> int \<times> real" where
  "shop_result cs s =
     (wasted_coffee (cafe s), real_of_int (average_wait_time (cafe s)) / real (length cs))"

subsection \<open>Semaphores\<close>

text \<open>The barista a program counter holds.\<close>

primrec holds :: "kpc \<Rightarrow> nat option" where
  "holds K_start = None" | "holds (K_sleep w k) = holds k" | "holds K_arrived = None" | "holds (K_try i) = None"
| "holds (K_begin i) = Some i" | "holds (K_left i t n) = Some i" | "holds (K_load i n) = Some i"
| "holds (K_store i n v) = Some i" | "holds (K_finish i) = Some i" | "holds (K_made i) = Some i"
| "holds (K_post i served) = Some i" | "holds K_clock = None" | "holds (K_timed i ts) = None"
| "holds (K_took i) = Some i" | "holds (K_avg_load i d) = Some i" | "holds (K_avg_store i d v) = Some i"
| "holds (K_decide i d) = Some i" | "holds (K_second i m t n) = Some i" | "holds (K_begin2 i) = Some i"
| "holds (K_leave served) = None" | "holds (K_load0 t) = None" | "holds (K_store0 t v) = None"
| "holds (K_bye t) = None" | "holds (K_done served) = None"

text \<open>What one instruction does to the semaphore and to what the thread holds.\<close>

lemma cust_instr_sems:
  assumes "cust_instr B (pc, c, s) = Some (pc', c', s')"
  shows "(sems s' = sems s \<and> holds pc' = holds pc) \<or>
    (\<exists>i<B. sems s i > 0 \<and> sems s' = (sems s)(i := sems s i - 1) \<and> holds pc = None \<and> holds pc' = Some i) \<or>
    (\<exists>i. sems s' = (sems s)(i := sems s i + 1) \<and> holds pc = Some i \<and> holds pc' = None)"
  using assms
  by (cases pc) (auto simp: sleep_for_def say_def sem_set_def Let_def split: if_splits)

definition customers_of :: "(nat \<Rightarrow> kpc) \<Rightarrow> nat \<Rightarrow> nat \<Rightarrow> nat set" where
  "customers_of p N b = {i. i < N \<and> holds (p i) = Some b}"

lemma customers_of_fin [simp]: "finite (customers_of p N b)"
  by (simp add: customers_of_def)

definition shop_inv :: "nat \<Rightarrow> nat \<Rightarrow> shop \<Rightarrow> bool" where
  "shop_inv B N s \<longleftrightarrow>
     (\<forall>b. sems (cafe s) b + card (customers_of (pcs s) N b) = of_bool (b < B))"

lemma card_holds_upd:
  assumes "i < N"
  shows "card (customers_of (p(i := pc)) N b) + of_bool (holds (p i) = Some b) =
    card (customers_of p N b) + of_bool (holds pc = Some b)"
proof -
  define R where "R = customers_of p N b - {i}"
  have fin: "finite R" "i \<notin> R" by (auto simp: R_def)
  have "customers_of (p(i := pc)) N b = (if holds pc = Some b then insert i R else R)"
    "customers_of p N b = (if holds (p i) = Some b then insert i R else R)"
    using assms by (auto simp: customers_of_def R_def)
  with fin show ?thesis by simp
qed

lemma shop_stepE:
  assumes "shop_step B i s = Some s'"
  obtains pc c k where "cust_instr B (pcs s i, custs s i, cafe s) = Some (pc, c, k)"
    "s' = \<lparr>pcs = (pcs s)(i := pc), custs = (custs s)(i := c), cafe = k\<rparr>"
  using assms by (auto simp: shop_step_def split: option.splits)

lemma shop_inv_reach: "shop_reach B cs s \<Longrightarrow> shop_inv B (length cs) s"
proof (induction rule: shop_reach.induct)
  case (thread s i s')
  from thread.hyps(3) obtain pc c k where c: "cust_instr B (pcs s i, custs s i, cafe s) = Some (pc, c, k)"
    and s': "s' = \<lparr>pcs = (pcs s)(i := pc), custs = (custs s)(i := c), cafe = k\<rparr>" by (rule shop_stepE)
  have "sems k b + card (customers_of ((pcs s)(i := pc)) (length cs) b) = of_bool (b < B)" for b
    using thread.IH [unfolded shop_inv_def, rule_format, of b] card_holds_upd [OF thread.hyps(2), of "pcs s" pc b]
      cust_instr_sems [OF c]
    by (cases "b < B") (auto simp del: card_0_eq)
  then show ?case by (simp add: shop_inv_def s')
qed (simp_all add: shop_inv_def customers_of_def shop_init_def initialize_threads_semaphores_def tick_def)

text \<open>
  C25: in every state the cafe can reach, a barista is busy with at most one customer; and when no
  customer is with a barista any more, every barista is available again.
\<close>

theorem barista_serves_one:
  assumes "shop_reach B cs s"
  shows "(\<forall>i j b. i < length cs \<and> j < length cs \<and> holds (pcs s i) = Some b \<and> holds (pcs s j) = Some b \<longrightarrow> i = j) \<and>
    ((\<forall>i<length cs. holds (pcs s i) = None) \<longrightarrow> (\<forall>b. sems (cafe s) b = of_bool (b < B)))"
proof (intro conjI allI impI)
  fix i j b assume a: "i < length cs \<and> j < length cs \<and> holds (pcs s i) = Some b \<and> holds (pcs s j) = Some b"
  have "card (customers_of (pcs s) (length cs) b) \<le> Suc 0"
    using shop_inv_reach [OF assms, unfolded shop_inv_def, rule_format, of b] by (cases "b < B") auto
  with a show "i = j" by (simp add: card_le_Suc0_iff_eq) (simp add: customers_of_def)
next
  fix b assume "\<forall>i<length cs. holds (pcs s i) = None"
  then have "customers_of (pcs s) (length cs) b = {}" by (auto simp: customers_of_def)
  with shop_inv_reach [OF assms, unfolded shop_inv_def, rule_format, of b] show "sems (cafe s) b = of_bool (b < B)"
    by simp
qed

subsection \<open>Runs\<close>

text \<open>A schedule names the thread that runs next, or \<open>None\<close> when a second passes.\<close>

primrec run_shop :: "nat \<Rightarrow> nat option list \<Rightarrow> shop \<Rightarrow> shop option" where
  "run_shop B [] s = Some s"
| "run_shop B (x # xs) s =
     (case x of None \<Rightarrow> run_shop B xs (tick s)
      | Some i \<Rightarrow> (case shop_step B i s of None \<Rightarrow> None | Some s \<Rightarrow> run_shop B xs s))"

lemma run_shop_reach:
  "shop_reach B cs s \<Longrightarrow> \<forall>i. Some i \<in> set xs \<longrightarrow> i < length cs \<Longrightarrow> run_shop B xs s = Some s' \<Longrightarrow> shop_reach B cs s'"
  by (induction xs arbitrary: s) (auto intro: shop_reach.intros split: option.splits)

definition order_of :: "string \<Rightarrow> int \<Rightarrow> int \<Rightarrow> int \<Rightarrow> customer" where
  "order_of name n arr tol =
     read_customer [\<lparr>cof_name = ''Espresso'', prep_time = 3\<rparr>, \<lparr>cof_name = ''Cappuccino'', prep_time = 10\<rparr>] (n, name, arr, tol)"

abbreviation "espresso \<equiv> order_of ''Espresso''"

lemma run_shopI:
  assumes "case run_shop B xs (shop_init B cs t0) of None \<Rightarrow> False | Some s \<Rightarrow> P s" "\<forall>x\<in>set xs. case x of None \<Rightarrow> True | Some i \<Rightarrow> i < length cs"
  shows "\<exists>s. shop_reach B cs s \<and> P s"
proof -
  obtain s where "run_shop B xs (shop_init B cs t0) = Some s" "P s" using assms(1) by (auto split: option.splits)
  moreover have "\<forall>i. Some i \<in> set xs \<longrightarrow> i < length cs" using assms(2) by fastforce
  ultimately show ?thesis using run_shop_reach [OF shop_reach.init] by blast
qed

theorem barista_serves_one_witness:
  "\<exists>s. shop_reach 1 [espresso 1 0 6, espresso 2 0 6] s \<and> holds (pcs s 0) = Some 0 \<and> holds (pcs s 1) \<noteq> Some 0"
proof -
  have "\<exists>s. shop_reach 1 [espresso 1 0 6, espresso 2 0 6] s \<and> holds (pcs s 0) = Some 0"
    by (rule run_shopI [where xs = "[Some 0, Some 0, Some 0, Some 0, Some 1, Some 1, Some 1, Some 1]" and ?t0.0 = 0]) code_simp+
  then obtain s where s: "shop_reach 1 [espresso 1 0 6, espresso 2 0 6] s" "holds (pcs s 0) = Some 0" by blast
  with barista_serves_one [OF s(1)] show ?thesis by (intro exI [of _ s]) auto
qed

subsection \<open>Enough baristas\<close>

text \<open>The program counters of a customer that has not taken a barista yet.\<close>

fun fresh :: "kpc \<Rightarrow> bool" where
  "fresh K_start = True"
| "fresh K_arrived = True"
| "fresh (K_try i) = True"
| "fresh (K_sleep w k) = fresh k"
| "fresh _ = False"

text \<open>Those only reached through the timed wait.\<close>

fun waited :: "kpc \<Rightarrow> bool" where
  "waited (K_sleep w k) = waited k"
| "waited K_clock = True"
| "waited (K_timed i ts) = True"
| "waited (K_took i) = True"
| "waited (K_avg_load i d) = True"
| "waited (K_avg_store i d v) = True"
| "waited (K_decide i d) = True"
| "waited (K_second i m t n) = True"
| "waited (K_begin2 i) = True"
| "waited (K_leave served) = (\<not> served)"
| "waited (K_load0 t) = True"
| "waited (K_store0 t v) = True"
| "waited (K_bye t) = True"
| "waited _ = False"

text \<open>The barista a customer in the first loop is at.\<close>

fun try_level :: "kpc \<Rightarrow> nat" where
  "try_level (K_sleep w k) = try_level k"
| "try_level (K_try i) = i"
| "try_level _ = 0"

text \<open>
  \<open>took\<close> records the barista a customer took: none while it is fresh, and always the same one after. A customer
  at the \<open>i\<close>-th barista of the first loop has found the ones before taken.
\<close>

definition took_inv :: "nat \<Rightarrow> (nat \<Rightarrow> nat option) \<Rightarrow> shop \<Rightarrow> bool" where
  "took_inv N took s \<longleftrightarrow> average_wait_time (cafe s) = 0 \<and>
     (\<forall>i<N. \<not> waited (pcs s i) \<and> (fresh (pcs s i) \<longrightarrow> took i = None) \<and>
       (\<forall>b. holds (pcs s i) = Some b \<longrightarrow> took i = Some b) \<and>
       (\<forall>b<try_level (pcs s i). \<exists>j<N. took j = Some b))"

lemma took_all:
  fixes N :: nat
  assumes "\<forall>b<N. \<exists>j<N. took j = Some b" "i < N" "took i = None"
  shows False
proof -
  have "Some ` {..<N} \<subseteq> took ` ({..<N} - {i})" using assms by (force simp: image_iff)
  from card_mono [OF _ this] have "N \<le> card ({..<N} - {i})"
    using card_image_le [of "{..<N} - {i}" took] by (simp add: card_image)
  with assms(2) show False by simp
qed

lemma cust_instr_took:
  assumes "cust_instr B (pc, c, s) = Some (pc', c', s')" "\<not> waited pc"
  shows "average_wait_time s' = average_wait_time s \<and>
    (if fresh pc
     then (\<exists>b. holds pc' = Some b \<and> \<not> fresh pc' \<and> \<not> waited pc' \<and> try_level pc' = 0) \<or>
       (pc' = K_clock \<and> B \<le> try_level pc) \<or>
       (fresh pc' \<and> holds pc' = None \<and> \<not> waited pc' \<and>
         (try_level pc' \<le> try_level pc \<or> try_level pc' = Suc (try_level pc) \<and> sems s (try_level pc) = 0 \<and> try_level pc < B))
     else \<not> waited pc' \<and> \<not> fresh pc' \<and> (holds pc' = holds pc \<or> holds pc' = None) \<and> try_level pc' = 0)"
proof -
  have "\<not> fresh pc \<Longrightarrow> try_level pc = 0" "fresh pc \<Longrightarrow> holds pc = None" for pc by (induction pc) auto
  with assms show ?thesis
    by (cases pc) (auto simp: sleep_for_def say_def sem_set_def Let_def split: if_splits)
qed

lemma took_step:
  assumes inv: "took_inv N took s" and i: "i < N" "N \<le> B" and shop: "shop_inv B N s"
    and c: "cust_instr B (pcs s i, custs s i, cafe s) = Some (pc, c, k)"
    and s': "s' = \<lparr>pcs = (pcs s)(i := pc), custs = (custs s)(i := c), cafe = k\<rparr>"
  shows "\<exists>took'. took_inv N took' s'"
proof -
  let ?p = "pcs s i"
  have w: "\<not> waited ?p" and lvl: "\<forall>b<try_level ?p. \<exists>j<N. took j = Some b" and held: "\<forall>j<N. \<forall>b. holds (pcs s j) = Some b \<longrightarrow> took j = Some b"
    and fr: "fresh ?p \<Longrightarrow> took i = None" and avg: "average_wait_time (cafe s) = 0"
    using inv i by (auto simp: took_inv_def)
  note step = cust_instr_took [OF c w]
  consider (take) b where "fresh ?p" "holds pc = Some b" "\<not> fresh pc" "\<not> waited pc" "try_level pc = 0"
    | (full) "fresh ?p" "B \<le> try_level ?p"
    | (scan) "fresh ?p" "fresh pc" "holds pc = None" "\<not> waited pc" "\<forall>b<try_level pc. \<exists>j<N. took j = Some b"
    | (later) "\<not> fresh ?p" "\<not> waited pc" "\<not> fresh pc" "holds pc = holds ?p \<or> holds pc = None" "try_level pc = 0"
  proof (cases "fresh ?p")
    case True
    have "\<exists>j<N. took j = Some m" if "sems (cafe s) m = 0" "m < B" for m
    proof -
      have "card (customers_of (pcs s) N m) = 1" using shop [unfolded shop_inv_def, rule_format, of m] that by simp
      then obtain j where "customers_of (pcs s) N m = {j}" by (auto simp: card_1_singleton_iff)
      then have "j \<in> customers_of (pcs s) N m" by simp
      with held show ?thesis by (auto simp: customers_of_def)
    qed
    with True step lvl that show ?thesis by (auto simp: less_Suc_eq)
  qed (use step that in auto)
  then show ?thesis
  proof cases
    case take
    then have "took_inv N (took(i := Some b)) s'"
      using inv i fr step by (auto simp: took_inv_def s' split: if_splits) (metis option.distinct(1))+
    then show ?thesis by blast
  next
    case full
    then show ?thesis using took_all [of N took i] lvl i fr by auto
  next
    case scan
    then have "took_inv N took s'" using inv i fr step by (auto simp: took_inv_def s')
    then show ?thesis by blast
  next
    case later
    then have "took_inv N took s'" using inv i step by (auto simp: took_inv_def s')
    then show ?thesis by blast
  qed
qed

text \<open>
  C23: with at least as many baristas as customers, no customer ever waits for a barista, and the total
  waiting time stays 0. (The repository's README states this of the program for unboundedly many baristas.)
\<close>

theorem enough_baristas_no_wait:
  assumes "shop_reach B cs s" "length cs \<le> B"
  shows "average_wait_time (cafe s) = 0 \<and> (\<forall>i<length cs. \<not> waited (pcs s i))"
proof -
  from assms(1) have "\<exists>took. took_inv (length cs) took s"
  proof (induction rule: shop_reach.induct)
    case (init t0)
    have "took_inv (length cs) (\<lambda>_. None) (shop_init B cs t0)" by (simp add: took_inv_def shop_init_def)
    then show ?case by blast
  next
    case (thread s i s')
    then show ?case using took_step assms(2) shop_inv_reach by (metis shop_stepE)
  next
    case (time s)
    then show ?case by (simp add: took_inv_def tick_def)
  qed
  then show ?thesis by (auto simp: took_inv_def)
qed

theorem enough_baristas_no_wait_witness:
  "\<exists>s. shop_reach 2 [espresso 1 0 6, espresso 2 0 6] s \<and> pcs s 0 = K_done True \<and> pcs s 1 = K_done True \<and>
    shop_result [espresso 1 0 6, espresso 2 0 6] s = (0, 0)"
proof -
  have "\<exists>s. shop_reach 2 [espresso 1 0 6, espresso 2 0 6] s \<and> (pcs s 0 = K_done True \<and> pcs s 1 = K_done True \<and> wasted_coffee (cafe s) = 0)"
    by (rule run_shopI [where xs = "[Some 0, Some 0, Some 0, Some 0, Some 1, Some 1, Some 1, Some 1, Some 1, None, Some 0, Some 0, Some 1, Some 1,
        None, None, None, Some 0, Some 0, Some 0, Some 0, Some 1, Some 1, Some 1, Some 1]" and ?t0.0 = 0]) code_simp+
  then obtain s where s: "shop_reach 2 [espresso 1 0 6, espresso 2 0 6] s" "pcs s 0 = K_done True" "pcs s 1 = K_done True"
    "wasted_coffee (cafe s) = 0" by blast
  with enough_baristas_no_wait [OF s(1)] show ?thesis by (intro exI [of _ s]) (simp add: shop_result_def)
qed

subsection \<open>The count of wasted coffees\<close>

text \<open>A customer that has counted itself as leaving without an order.\<close>

fun counted :: "kpc \<Rightarrow> bool" where
  "counted (K_sleep w k) = counted k"
| "counted (K_finish i) = True"
| "counted (K_post i served) = (\<not> served)"
| "counted (K_bye t) = True"
| "counted (K_done served) = (\<not> served)"
| "counted _ = False"

text \<open>The value a customer has loaded and is about to write back.\<close>

fun loaded :: "kpc \<Rightarrow> int option" where
  "loaded (K_sleep w k) = loaded k"
| "loaded (K_store i n v) = Some v"
| "loaded (K_store0 t v) = Some v"
| "loaded _ = None"

lemma cust_instr_counted:
  assumes "cust_instr B (pc, c, s) = Some (pc', c', s')"
  shows "(wasted_coffee s' = wasted_coffee s \<and> counted pc' = counted pc \<and> (loaded pc' = loaded pc \<or> loaded pc' = Some (wasted_coffee s))) \<or>
    (\<exists>v. loaded pc = Some v \<and> \<not> counted pc \<and> counted pc' \<and> loaded pc' = None \<and> wasted_coffee s' = v + 1)"
  using assms
  by (cases pc) (auto simp: sleep_for_def say_def sem_set_def Let_def split: if_splits)

definition left_count :: "(nat \<Rightarrow> kpc) \<Rightarrow> nat \<Rightarrow> int" where
  "left_count p N = int (card {i. i < N \<and> counted (p i)})"

definition count_inv :: "nat \<Rightarrow> shop \<Rightarrow> bool" where
  "count_inv N s \<longleftrightarrow> wasted_coffee (cafe s) \<le> left_count (pcs s) N \<and>
     (\<forall>i<N. \<forall>v. loaded (pcs s i) = Some v \<longrightarrow> v \<le> left_count (pcs s) N)"

lemma left_count_upd:
  assumes "i < N" "\<not> counted (p i)" "counted pc"
  shows "left_count (p(i := pc)) N = left_count p N + 1"
proof -
  have "{j. j < N \<and> counted ((p(i := pc)) j)} = insert i {j. j < N \<and> counted (p j)}" using assms by auto
  then show ?thesis using assms by (simp add: left_count_def)
qed

lemma left_count_same:
  assumes "counted pc = counted (p i)"
  shows "left_count (p(i := pc)) N = left_count p N"
proof -
  have "{j. j < N \<and> counted ((p(i := pc)) j)} = {j. j < N \<and> counted (p j)}" using assms by auto
  then show ?thesis by (simp add: left_count_def)
qed

lemma count_inv_reach: "shop_reach B cs s \<Longrightarrow> count_inv (length cs) s"
proof (induction rule: shop_reach.induct)
  case (thread s i s')
  from thread.hyps(3) obtain pc c k where c: "cust_instr B (pcs s i, custs s i, cafe s) = Some (pc, c, k)"
    and s': "s' = \<lparr>pcs = (pcs s)(i := pc), custs = (custs s)(i := c), cafe = k\<rparr>" by (rule shop_stepE)
  from cust_instr_counted [OF c] show ?case
  proof (elim disjE exE conjE)
    fix v assume v: "loaded (pcs s i) = Some v" "\<not> counted (pcs s i)" "counted pc" "loaded pc = None" "wasted_coffee k = v + 1"
    then show ?thesis using thread.IH thread.hyps(2) by (fastforce simp: count_inv_def s' left_count_upd)
  qed (use thread.IH thread.hyps(2) in \<open>auto simp: count_inv_def s' left_count_same\<close>)
qed (auto simp: count_inv_def shop_init_def left_count_def tick_def)

text \<open>
  the number of wasted coffees the program prints never exceeds the number of customers that left
  without their order.
\<close>

theorem wasted_coffee_bound:
  assumes "shop_reach B cs s" "\<forall>i<length cs. \<exists>served. pcs s i = K_done served"
  shows "fst (shop_result cs s) \<le> int (card {i. i < length cs \<and> pcs s i = K_done False})"
proof -
  have "{i. i < length cs \<and> counted (pcs s i)} = {i. i < length cs \<and> pcs s i = K_done False}"
    using assms(2) by force
  with count_inv_reach [OF assms(1)] show ?thesis by (simp add: count_inv_def left_count_def shop_result_def)
qed

text \<open>
  Two customers whose tolerance is below the preparation time: both load the counter before either stores it.
\<close>

lemma wasted_coffee_lost_update:
  "\<exists>s. shop_reach 2 [espresso 1 0 1, espresso 2 0 1] s \<and>
    (pcs s 0 = K_done False \<and> pcs s 1 = K_done False \<and> wasted_coffee (cafe s) = 1)"
  by (rule run_shopI [where xs = "[Some 0, Some 0, Some 0, Some 0, Some 1, Some 1, Some 1, Some 1, Some 1, None,
     Some 0, Some 0, Some 1, Some 1, None, Some 0, Some 1, Some 0, Some 1, Some 0, Some 1, Some 0, Some 1, None, None,
     Some 0, Some 0, Some 0, Some 1, Some 1, Some 1]" and ?t0.0 = 0]) code_simp+

theorem wasted_coffee_bound_witness:
  "\<exists>s. shop_reach 2 [espresso 1 0 1, espresso 2 0 1] s \<and> pcs s 0 = K_done False \<and> pcs s 1 = K_done False \<and>
    fst (shop_result [espresso 1 0 1, espresso 2 0 1] s) \<le> int (card {i. i < 2 \<and> pcs s i = K_done False})"
proof -
  obtain s where s: "shop_reach 2 [espresso 1 0 1, espresso 2 0 1] s" "pcs s 0 = K_done False" "pcs s 1 = K_done False"
    using wasted_coffee_lost_update by blast
  have "\<forall>i<length [espresso 1 0 1, espresso 2 0 1]. \<exists>served. pcs s i = K_done served"
    using s by (auto simp: less_Suc_eq numeral_2_eq_2)
  from wasted_coffee_bound [OF s(1) this] s show ?thesis by (intro exI [of _ s]) (simp add: numeral_2_eq_2)
qed

text \<open>
  Two baristas; the third customer has a tolerance of 3 seconds and reads the clock in the second after its arrival. It gives up
  on the first barista when its time is over, finds the second one free and takes it, 4 seconds
  after its arrival. \<open>sleep(c->tolerance - delay)\<close> is then called with -1, which is read as an unsigned number.
\<close>

lemma late_customer_sleeps_forever:
  "\<exists>s. shop_reach 2 [order_of ''Cappuccino'' 1 0 15, espresso 2 0 6, espresso 3 0 3] s \<and>
    (pcs s 2 = K_sleep (now (cafe s) + (2 ^ 32 - 1)) (K_left 1 4 3) \<and> sems (cafe s) 1 = 0)"
  by (rule run_shopI [where xs = "[Some 0, Some 0, Some 0, Some 0, Some 1, Some 1, Some 1, Some 1, Some 1,
     Some 2, Some 2, Some 2, Some 2, Some 2, None, Some 2, Some 2, Some 1, Some 1, None, None, None,
     Some 1, Some 1, Some 1, Some 2, Some 2, Some 2, Some 2, Some 2, Some 2, None, Some 2, Some 2]" and ?t0.0 = 0]) code_simp+

subsection \<open>Termination\<close>

text \<open>A bound on the instructions a customer has left.\<close>

primrec steps_left :: "nat \<Rightarrow> kpc \<Rightarrow> nat" where
  "steps_left B K_start = 20 + 2 * B"
| "steps_left B (K_sleep w k) = Suc (steps_left B k)"
| "steps_left B K_arrived = 18 + 2 * B"
| "steps_left B (K_try i) = 17 + B + (B - i)"
| "steps_left B (K_begin i) = 9"
| "steps_left B (K_left i t n) = 6"
| "steps_left B (K_load i n) = 5"
| "steps_left B (K_store i n v) = 4"
| "steps_left B (K_finish i) = 2"
| "steps_left B (K_made i) = 7"
| "steps_left B (K_post i served) = (if served then 6 else 1)"
| "steps_left B K_clock = 16 + B"
| "steps_left B (K_timed i ts) = 15 + (B - i)"
| "steps_left B (K_took i) = 14"
| "steps_left B (K_avg_load i d) = 13"
| "steps_left B (K_avg_store i d v) = 12"
| "steps_left B (K_decide i d) = 11"
| "steps_left B (K_second i m t n) = 8"
| "steps_left B (K_begin2 i) = 9"
| "steps_left B (K_leave served) = 5"
| "steps_left B (K_load0 t) = 4"
| "steps_left B (K_store0 t v) = 3"
| "steps_left B (K_bye t) = 1"
| "steps_left B (K_done served) = 0"

lemma cust_instr_steps:
  "cust_instr B (pc, c, s) = Some (pc', c', s') \<Longrightarrow> steps_left B pc' < steps_left B pc"
  by (cases pc) (auto simp: sleep_for_def Let_def split: if_splits)

text \<open>A thread that has not ended can run once enough seconds have passed.\<close>

lemma cust_instr_unblocks:
  assumes "\<forall>served. pc \<noteq> K_done served"
  shows "\<exists>n. \<forall>s'. s' = s\<lparr>now := now s + int n\<rparr> \<longrightarrow> cust_instr B (pc, c, s') \<noteq> None"
proof (cases pc)
  case (K_sleep w k)
  then show ?thesis by (intro exI [of _ "nat (w - now s)"]) auto
next
  case (K_timed i ts)
  then show ?thesis by (intro exI [of _ "nat (ts - now s)"]) auto
qed (use assms in \<open>auto simp: Let_def intro!: exI [of _ 0]\<close>)

definition total_steps :: "nat \<Rightarrow> nat \<Rightarrow> shop \<Rightarrow> nat" where
  "total_steps B N s = (\<Sum>i<N. steps_left B (pcs s i))"

lemma shop_step_total:
  assumes "shop_step B i s = Some s'" "i < N"
  shows "total_steps B N s' < total_steps B N s"
proof -
  from assms(1) obtain pc c k where c: "cust_instr B (pcs s i, custs s i, cafe s) = Some (pc, c, k)"
    and s': "s' = \<lparr>pcs = (pcs s)(i := pc), custs = (custs s)(i := c), cafe = k\<rparr>" by (rule shop_stepE)
  show ?thesis unfolding total_steps_def s'
    by (rule sum_strict_mono_ex1) (use cust_instr_steps [OF c] assms(2) in \<open>auto intro!: bexI [of _ i]\<close>)
qed

lemma tick_funpow: "(tick ^^ n) s = s\<lparr>cafe := (cafe s)\<lparr>now := now (cafe s) + int n\<rparr>\<rparr>"
  by (induction n) (simp_all add: tick_def)

lemma run_shop_ticks: "run_shop B (replicate n None @ xs) s = run_shop B xs ((tick ^^ n) s)"
  by (induction n arbitrary: s) (simp_all add: funpow_swap1)

lemma run_shop_append: "run_shop B xs s = Some s' \<Longrightarrow> run_shop B (xs @ ys) s = run_shop B ys s'"
  by (induction xs arbitrary: s) (auto split: option.splits)

abbreviation threads_only :: "nat \<Rightarrow> nat option list \<Rightarrow> bool" where
  "threads_only N xs \<equiv> \<forall>x\<in>set xs. case x of None \<Rightarrow> True | Some i \<Rightarrow> i < N"

lemma run_shop_bound:
  "run_shop B xs s = Some s' \<Longrightarrow> threads_only N xs \<Longrightarrow>
    length (filter (\<lambda>x. x \<noteq> None) xs) + total_steps B N s' \<le> total_steps B N s"
proof (induction xs arbitrary: s)
  case (Cons x xs)
  show ?case
  proof (cases x)
    case None
    with Cons show ?thesis by (fastforce simp: total_steps_def tick_def)
  next
    case (Some i)
    then obtain t where t: "shop_step B i s = Some t" "run_shop B xs t = Some s'" using Cons.prems by (auto split: option.splits)
    with shop_step_total [OF t(1), of N] Cons.IH [OF t(2)] Cons.prems Some show ?thesis by auto
  qed
qed simp

lemma shop_finishes:
  "\<exists>ys s'. run_shop B ys s = Some s' \<and> threads_only N ys \<and> (\<forall>i<N. \<exists>served. pcs s' i = K_done served)"
proof (induction "total_steps B N s" arbitrary: s rule: less_induct)
  case less
  show ?case
  proof (cases "\<forall>i<N. \<exists>served. pcs s i = K_done served")
    case True
    then show ?thesis by (intro exI [of _ "[]"]) auto
  next
    case False
    then obtain i where i: "i < N" "\<forall>served. pcs s i \<noteq> K_done served" by auto
    from cust_instr_unblocks [OF i(2), of "cafe s" B "custs s i"] obtain n
      where n: "cust_instr B (pcs s i, custs s i, (cafe s)\<lparr>now := now (cafe s) + int n\<rparr>) \<noteq> None" by blast
    define t where "t = (tick ^^ n) s"
    have "shop_step B i t \<noteq> None" using n by (auto simp: shop_step_def t_def tick_funpow)
    then obtain u where u: "shop_step B i t = Some u" by auto
    have "total_steps B N u < total_steps B N s"
      using shop_step_total [OF u i(1)] by (simp add: t_def tick_funpow total_steps_def)
    from less [OF this] obtain ys s' where ys: "run_shop B ys u = Some s'" "threads_only N ys"
      "\<forall>i<N. \<exists>served. pcs s' i = K_done served" by blast
    have "run_shop B (replicate n None @ Some i # ys) s = Some s'" using u ys(1) by (simp add: run_shop_ticks t_def)
    with ys i show ?thesis by (intro exI [of _ "replicate n None @ Some i # ys"] exI [of _ s']) auto
  qed
qed

text \<open>
  C27: the cafe closes. However the threads and the clock interleave, the customers' threads together run at most
  \<open>20 + 2 * B\<close> instructions per customer, and from every state reached so all of them can still run to their end: no customer
  waits for ever.
\<close>

theorem customers_finish:
  assumes "run_shop B xs (shop_init B cs t0) = Some s" "threads_only (length cs) xs"
  shows "length (filter (\<lambda>x. x \<noteq> None) xs) \<le> length cs * (20 + 2 * B) \<and>
    (\<exists>ys s'. run_shop B (xs @ ys) (shop_init B cs t0) = Some s' \<and> (\<forall>i<length cs. \<exists>served. pcs s' i = K_done served))"
proof -
  have "total_steps B (length cs) (shop_init B cs t0) = length cs * (20 + 2 * B)"
    by (simp add: total_steps_def shop_init_def)
  then show ?thesis
    using run_shop_bound [OF assms] shop_finishes [of B s "length cs"] by (auto simp: run_shop_append [OF assms(1)])
qed

theorem customers_finish_witness:
  "\<exists>ys s'. run_shop 1 ([Some 0, None, Some 1] @ ys) (shop_init 1 [espresso 1 0 6, espresso 2 0 6] 0) = Some s' \<and>
    (\<exists>served. pcs s' 0 = K_done served) \<and> (\<exists>served. pcs s' 1 = K_done served)"
proof -
  have "run_shop 1 [Some 0, None, Some 1] (shop_init 1 [espresso 1 0 6, espresso 2 0 6] 0) \<noteq> None" by code_simp
  then obtain s where s: "run_shop 1 [Some 0, None, Some 1] (shop_init 1 [espresso 1 0 6, espresso 2 0 6] 0) = Some s" by auto
  have "threads_only (length [espresso 1 0 6, espresso 2 0 6]) [Some 0, None, Some 1]" by simp
  from customers_finish [OF s this] obtain ys s' where
    r: "run_shop 1 ([Some 0, None, Some 1] @ ys) (shop_init 1 [espresso 1 0 6, espresso 2 0 6] 0) = Some s'" and
    d: "\<forall>i<length [espresso 1 0 6, espresso 2 0 6]. \<exists>served. pcs s' i = K_done served" by blast
  from d [rule_format, of 0] d [rule_format, of 1] r show ?thesis by (intro exI [of _ ys] exI [of _ s']) (simp del: run_shop.simps)
qed

end
