(* ===== verification/DiskLayout.thy ===== *)
theory DiskLayout
  imports FsDir
begin

text \<open>
  The layout of blocks: reading back the fields and the on-disk inodes that were stored in a block, and leaving the
  others alone. The kernel and \<open>mkfs\<close> share it.
\<close>

definition slice :: "nat \<Rightarrow> nat \<Rightarrow> uchar list \<Rightarrow> uchar list" where
  "slice n i bs = take n (drop i bs)"

lemma length_put [simp]: "i + length vs \<le> length bs \<Longrightarrow> length (put bs i vs) = length bs"
  by (simp add: put_def)

lemma nth_put:
  "i + length vs \<le> length bs \<Longrightarrow> k < length bs \<Longrightarrow>
    put bs i vs ! k = (if i \<le> k \<and> k < i + length vs then vs ! (k - i) else bs ! k)"
  by (auto simp: put_def nth_append min_def)

lemma slice_put_same: "i + length vs \<le> length bs \<Longrightarrow> n = length vs \<Longrightarrow> slice n i (put bs i vs) = vs"
  by (simp add: slice_def put_def)

lemma slice_put_other:
  assumes "i + length vs \<le> length bs" "j + n \<le> i \<or> i + length vs \<le> j" "j + n \<le> length bs"
  shows "slice n j (put bs i vs) = slice n j bs"
  by (rule nth_equalityI) (use assms in \<open>auto simp: slice_def nth_put\<close>)

lemma get32_slice: "get32 bs i = ucast (of_bytes (slice 4 i bs))"
  by (simp add: get32_def slice_def)

lemma get16_slice: "get16 bs i = ucast (of_bytes (slice 2 i bs))"
  by (simp add: get16_def slice_def)

lemma ucast_bytes_le_4: "ucast (of_bytes (bytes_le 4 (ucast v))) = v" for v :: uint
  by (rule bit_word_eqI) (auto simp: of_bytes_le bit_simps)

lemma ucast_bytes_le_2: "ucast (of_bytes (bytes_le 2 (ucast v))) = v" for v :: "16 word"
  by (rule bit_word_eqI) (auto simp: of_bytes_le bit_simps)

lemma length_put32 [simp]: "i + 4 \<le> length bs \<Longrightarrow> length (put32 bs i v) = length bs"
  by (simp add: put32_def)

lemma length_put16 [simp]: "i + 2 \<le> length bs \<Longrightarrow> length (put16 bs i v) = length bs"
  by (simp add: put16_def)

lemma slice_put32: "i + 4 \<le> length bs \<Longrightarrow> j + n \<le> i \<or> i + 4 \<le> j \<Longrightarrow> j + n \<le> length bs \<Longrightarrow> slice n j (put32 bs i v) = slice n j bs"
  by (simp add: put32_def slice_put_other)

lemma slice_put16: "i + 2 \<le> length bs \<Longrightarrow> j + n \<le> i \<or> i + 2 \<le> j \<Longrightarrow> j + n \<le> length bs \<Longrightarrow> slice n j (put16 bs i v) = slice n j bs"
  by (simp add: put16_def slice_put_other)

lemma get32_put32_same [simp]: "i + 4 \<le> length bs \<Longrightarrow> get32 (put32 bs i v) i = v"
  by (simp add: get32_slice put32_def slice_put_same ucast_bytes_le_4)

lemma get16_put16_same [simp]: "i + 2 \<le> length bs \<Longrightarrow> get16 (put16 bs i v) i = v"
  by (simp add: get16_slice put16_def slice_put_same ucast_bytes_le_2)

lemma get32_put32_other: "i + 4 \<le> length bs \<Longrightarrow> j + 4 \<le> i \<or> i + 4 \<le> j \<Longrightarrow> j + 4 \<le> length bs \<Longrightarrow> get32 (put32 bs i v) j = get32 bs j"
  by (simp add: get32_slice slice_put32)

lemma get_put_other:
  "i + length vs \<le> length bs \<Longrightarrow> j + 4 \<le> i \<Longrightarrow> get32 (put bs i vs) j = get32 bs j"
  "i + length vs \<le> length bs \<Longrightarrow> j + 2 \<le> i \<Longrightarrow> get16 (put bs i vs) j = get16 bs j"
  "i + 4 \<le> length bs \<Longrightarrow> j + 2 \<le> i \<Longrightarrow> get16 (put32 bs i v) j = get16 bs j"
  "i + 2 \<le> length bs \<Longrightarrow> j + 2 \<le> i \<Longrightarrow> get16 (put16 bs i w) j = get16 bs j"
  by (simp_all add: get32_slice get16_slice slice_put_other slice_put32 slice_put16)

text \<open>The addresses of an inode, one after the other.\<close>

lemma slice_concat_words:
  "k < length as \<Longrightarrow> slice 4 (4 * k) (concat (map (\<lambda>a. bytes_le 4 (ucast a)) as)) = bytes_le 4 (ucast (as ! k))"
  for as :: "uint list"
proof (induction as arbitrary: k)
  case (Cons a as)
  then show ?case by (cases k) (auto simp: slice_def)
qed simp

lemma length_concat_words: "length (concat (map (\<lambda>a. bytes_le 4 (ucast a)) as)) = 4 * length as" for as :: "uint list"
  by (induction as) auto

lemma slice_put_in:
  assumes "i + length vs \<le> length bs" "k + n \<le> length vs"
  shows "slice n (i + k) (put bs i vs) = slice n k vs"
  by (rule nth_equalityI) (use assms in \<open>auto simp: slice_def nth_put\<close>)

definition dinode_of :: "inode \<Rightarrow> short \<times> short \<times> short \<times> short \<times> uint \<times> uint list" where
  "dinode_of q = (i_type q, i_major q, i_minor q, i_nlink q, i_size q, i_addrs q)"

lemma put_dinode_length:
  "off + 64 \<le> length d \<Longrightarrow> length (i_addrs q) = NDIRECT + 1 \<Longrightarrow> length (put_dinode q off d) = length d"
  by (simp add: put_dinode_def Let_def length_concat_words NDIRECT_def)

lemma slice_put_dinode:
  assumes "off + 64 \<le> length d" "length (i_addrs q) = NDIRECT + 1" "j + n \<le> off \<or> off + 64 \<le> j" "j + n \<le> length d"
  shows "slice n j (put_dinode q off d) = slice n j d"
proof -
  have "12 + length (concat (map (\<lambda>a. bytes_le 4 (ucast a)) (i_addrs q))) = 64"
    using assms(2) by (simp add: length_concat_words NDIRECT_def)
  then show ?thesis using assms unfolding put_dinode_def Let_def
    by (subst slice_put_other) (auto simp: slice_put32 slice_put16)
qed

lemma get_put_dinode_same:
  assumes "off + 64 \<le> length d" "length (i_addrs q) = NDIRECT + 1"
  shows "dinode_of (get_dinode (put_dinode q off d) off r) = dinode_of q"
proof -
  let ?as = "concat (map (\<lambda>a. bytes_le 4 (ucast a)) (i_addrs q))"
  have len: "12 + length ?as = 64" using assms(2) by (simp add: length_concat_words NDIRECT_def)
  have addr: "get32 (put_dinode q off d) (off + 12 + 4 * k) = i_addrs q ! k" if "k < NDIRECT + 1" for k
    using that assms len unfolding put_dinode_def Let_def get32_slice
    by (subst slice_put_in) (auto simp: slice_concat_words ucast_bytes_le_4 NDIRECT_def)
  have "i_addrs q = map (\<lambda>k. get32 (put_dinode q off d) (off + 12 + 4 * k)) [0..<NDIRECT + 1]"
    by (rule nth_equalityI) (use assms(2) addr in \<open>auto simp del: upt_Suc\<close>)
  moreover have "get16 (put_dinode q off d) off = i_type q" "get16 (put_dinode q off d) (off + 2) = i_major q"
    "get16 (put_dinode q off d) (off + 4) = i_minor q" "get16 (put_dinode q off d) (off + 6) = i_nlink q"
    "get32 (put_dinode q off d) (off + 8) = i_size q"
    using assms(1) len by (simp_all add: put_dinode_def Let_def get_put_other)
  ultimately show ?thesis by (simp add: dinode_of_def get_dinode_def del: upt_Suc)
qed

lemma get_put_dinode_other:
  assumes "off + 64 \<le> length d" "length (i_addrs q) = NDIRECT + 1" "off' + 64 \<le> off \<or> off + 64 \<le> off'" "off' + 64 \<le> length d"
  shows "get_dinode (put_dinode q off d) off' r = get_dinode d off' r"
proof -
  have g32: "get32 (put_dinode q off d) (off' + i) = get32 d (off' + i)" if "i + 4 \<le> 64" for i
    unfolding get32_slice by (subst slice_put_dinode) (use assms that in auto)
  have g16: "get16 (put_dinode q off d) (off' + i) = get16 d (off' + i)" if "i + 2 \<le> 64" for i
    unfolding get16_slice by (subst slice_put_dinode) (use assms that in auto)
  have "map (\<lambda>k. get32 (put_dinode q off d) (off' + 12 + 4 * k)) [0..<NDIRECT + 1] = map (\<lambda>k. get32 d (off' + 12 + 4 * k)) [0..<NDIRECT + 1]"
    by (rule map_cong) (use g32 [of "12 + 4 * _"] in \<open>auto simp: NDIRECT_def add.assoc\<close>)
  then show ?thesis using g32 [of 8] g16 [of 0] g16 [of 2] g16 [of 4] g16 [of 6] by (simp add: get_dinode_def)
qed

text \<open>
  C36: an inode that is stored in its block and read again has the same type, device numbers, link count, size and
  addresses, and the other inodes of the block are not touched.
\<close>

theorem dinode_roundtrip:
  assumes "length d = BSIZE" "length (i_addrs q) = NDIRECT + 1"
  shows "dinode_of (get_dinode (put_dinode q (dinode_off inum) d) (dinode_off inum) r) = dinode_of q \<and>
    length (put_dinode q (dinode_off inum) d) = BSIZE \<and>
    (unat j mod IPB \<noteq> unat inum mod IPB \<longrightarrow>
      get_dinode (put_dinode q (dinode_off inum) d) (dinode_off j) r = get_dinode d (dinode_off j) r)"
proof -
  have off: "dinode_off i + 64 \<le> length d" for i
    using assms(1) mod_less_divisor [of 16 "unat i"] by (simp add: dinode_off_def IPB_def BSIZE_def)
  have "dinode_off j + 64 \<le> dinode_off inum \<or> dinode_off inum + 64 \<le> dinode_off j" if "unat j mod IPB \<noteq> unat inum mod IPB"
    using that by (auto simp: dinode_off_def)
  then show ?thesis
    using get_put_dinode_same [OF off assms(2)] get_put_dinode_other [OF off assms(2) _ off] put_dinode_length [OF off assms(2)] assms(1)
    by auto
qed

theorem dinode_roundtrip_witness:
  "\<exists>q r. length (i_addrs q) = NDIRECT + 1 \<and> i_size q = 7 \<and>
    i_size (get_dinode (put_dinode q (dinode_off 3) (replicate BSIZE 0)) (dinode_off 3) r) = 7"
proof -
  define q where "q = \<lparr>i_dev = 1, i_inum = 3, i_ref = 1, i_valid = 1, i_type = T_FILE, i_major = 0, i_minor = 0, i_nlink = 1, i_size = 7,
    i_addrs = replicate (NDIRECT + 1) 0\<rparr>"
  have "length (i_addrs q) = NDIRECT + 1" "i_size q = 7" by (simp_all add: q_def)
  with dinode_roundtrip [of "replicate BSIZE 0" q 3 q] show ?thesis
    by (intro exI [of _ q]) (auto simp: dinode_of_def)
qed

end
