(* ===== verification/Mkfs.thy ===== *)
theory Mkfs
  imports DiskLayout
begin

text \<open>
  \<open>mkfs/mkfs.c\<close>, the program that writes the initial file system image. The image is a map from sector
  numbers to blocks of \<open>BSIZE\<close> bytes; a failed \<open>assert\<close> and \<open>die\<close> are \<open>Panic\<close>. The image file has \<open>FSSIZE\<close>
  sectors from the start; reading a sector behind them dies, and no other operation on it fails.
  The host is little-endian. An on-disk inode is the on-disk part
  of the kernel's \<open>inode\<close> record, read and written with the kernel's layout functions.
\<close>

subsection \<open>Layout\<close>

definition FSSIZE :: nat where "FSSIZE = 2000"
definition NINODES :: nat where "NINODES = 200"
definition nbitmap :: nat where "nbitmap = FSSIZE div (BSIZE * 8) + 1"
definition ninodeblocks :: nat where "ninodeblocks = NINODES div IPB + 1"
definition nlog :: nat where "nlog = nat LOGSIZE"
definition nmeta :: nat where "nmeta = 2 + nlog + ninodeblocks + nbitmap"
definition nblocks :: nat where "nblocks = FSSIZE - nmeta"

definition xshort :: "16 word \<Rightarrow> 16 word" where
  "xshort x = ucast (of_bytes [ucast x, ucast (drop_bit 8 x)])"

definition xint :: "uint \<Rightarrow> uint" where
  "xint x = ucast (of_bytes [ucast x, ucast (drop_bit 8 x), ucast (drop_bit 16 x), ucast (drop_bit 24 x)])"

lemma xshort_id [simp]: "xshort x = x"
proof -
  have "[ucast x, ucast (drop_bit 8 x)] = bytes_le 2 (ucast x :: uint64)"
    by (simp add: numeral_2_eq_2) (auto intro!: bit_word_eqI simp: bit_simps)
  then show ?thesis by (simp add: xshort_def ucast_bytes_le_2)
qed

lemma xint_id [simp]: "xint x = x"
proof -
  have "[ucast x, ucast (drop_bit 8 x), ucast (drop_bit 16 x), ucast (drop_bit 24 x)] = bytes_le 4 (ucast x :: uint64)"
    by (simp add: numeral_eq_Suc) (auto intro!: bit_word_eqI simp: bit_simps)
  then show ?thesis by (simp add: xint_def ucast_bytes_le_4)
qed

definition mk_sb :: superblock where
  "mk_sb = \<lparr>sb_magic = FSMAGIC, sb_size = xint (of_nat FSSIZE), sb_nblocks = xint (of_nat nblocks),
     sb_ninodes = xint (of_nat NINODES), sb_nlog = xint (of_nat nlog), sb_logstart = xint 2,
     sb_inodestart = xint (of_nat (2 + nlog)), sb_bmapstart = xint (of_nat (2 + nlog + ninodeblocks))\<rparr>"

definition sb_bytes :: "superblock \<Rightarrow> uchar list" where
  "sb_bytes b = concat (map (\<lambda>v. bytes_le 4 (ucast v))
     [sb_magic b, sb_size b, sb_nblocks b, sb_ninodes b, sb_nlog b, sb_logstart b, sb_inodestart b, sb_bmapstart b])"

record mkfs =
  img :: "nat \<Rightarrow> uchar list"
  freeinode :: uint
  freeblock :: uint

subsection \<open>Sectors and inodes\<close>

definition wsect :: "uint \<Rightarrow> uchar list \<Rightarrow> mkfs \<Rightarrow> mkfs" where
  "wsect sec buf s = s\<lparr>img := (img s)(unat sec := buf)\<rparr>"

definition rsect :: "uint \<Rightarrow> mkfs \<Rightarrow> (uchar list, mkfs) res" where
  "rsect sec s = (if unat sec < FSSIZE then Ok (img s (unat sec)) s else Panic ''read'')"

definition zero_inode :: inode where
  "zero_inode = \<lparr>i_dev = 0, i_inum = 0, i_ref = 0, i_valid = 0, i_type = 0, i_major = 0, i_minor = 0, i_nlink = 0,
     i_size = 0, i_addrs = replicate (NDIRECT + 1) 0\<rparr>"

definition winode :: "uint \<Rightarrow> inode \<Rightarrow> mkfs \<Rightarrow> (unit, mkfs) res" where
  "winode inum din s =
     (let bn = IBLOCK inum mk_sb in
      bnd (rsect bn s) (\<lambda>buf s. Ok () (wsect bn (put_dinode din (dinode_off inum) buf) s)))"

definition rinode :: "uint \<Rightarrow> mkfs \<Rightarrow> (inode, mkfs) res" where
  "rinode inum s =
     (let bn = IBLOCK inum mk_sb in
      bnd (rsect bn s) (\<lambda>buf s. Ok (get_dinode buf (dinode_off inum) zero_inode) s))"

definition mk_ialloc :: "short \<Rightarrow> mkfs \<Rightarrow> (uint, mkfs) res" where
  "mk_ialloc type s =
     (let inum = freeinode s; s = s\<lparr>freeinode := freeinode s + 1\<rparr>;
          din = zero_inode\<lparr>i_type := xshort type, i_nlink := xshort 1, i_size := xint 0\<rparr>
      in bnd (winode inum din s) (\<lambda>_ s. Ok inum s))"

definition mk_balloc :: "nat \<Rightarrow> mkfs \<Rightarrow> (unit, mkfs) res" where
  "mk_balloc used s =
     (if \<not> used < BSIZE * 8 then Panic ''assert''
      else let buf = fold (\<lambda>i buf. buf[i div 8 := buf ! (i div 8) OR push_bit (i mod 8) 1]) [0..<used] (replicate BSIZE 0)
           in Ok () (wsect (sb_bmapstart mk_sb) buf s))"

subsection \<open>Appending to a file\<close>

text \<open>
  One round of the loop of \<open>iappend\<close> first finds the sector of the file block, allocating it and the indirect
  block when they are missing.
\<close>

definition iappend_block :: "nat \<Rightarrow> inode \<Rightarrow> mkfs \<Rightarrow> (uint \<times> inode, mkfs) res" where
  "iappend_block fbn din s =
     (if fbn < NDIRECT
      then let (din, s) =
             (if xint (i_addrs din ! fbn) = 0
              then (din\<lparr>i_addrs := (i_addrs din)[fbn := xint (freeblock s)]\<rparr>, s\<lparr>freeblock := freeblock s + 1\<rparr>)
              else (din, s))
           in Ok (xint (i_addrs din ! fbn), din) s
      else let (din, s) =
             (if xint (i_addrs din ! NDIRECT) = 0
              then (din\<lparr>i_addrs := (i_addrs din)[NDIRECT := xint (freeblock s)]\<rparr>, s\<lparr>freeblock := freeblock s + 1\<rparr>)
              else (din, s))
           in bnd (rsect (xint (i_addrs din ! NDIRECT)) s) (\<lambda>indirect s.
              let (indirect, s) =
                (if get32 indirect (4 * (fbn - NDIRECT)) = 0
                 then let indirect = put32 indirect (4 * (fbn - NDIRECT)) (xint (freeblock s));
                          s = s\<lparr>freeblock := freeblock s + 1\<rparr>
                      in (indirect, wsect (xint (i_addrs din ! NDIRECT)) indirect s)
                 else (indirect, s))
              in Ok (xint (get32 indirect (4 * (fbn - NDIRECT))), din) s))"

function iappend_loop :: "uchar list \<Rightarrow> nat \<Rightarrow> inode \<Rightarrow> mkfs \<Rightarrow> (nat \<times> inode, mkfs) res" where
  "iappend_loop p off din s =
     (if p = [] then Ok (off, din) s
      else let fbn = off div BSIZE in
        if \<not> fbn < MAXFILE then Panic ''assert''
        else bnd (iappend_block fbn din s) (\<lambda>(x, din) s.
          let n1 = min (length p) ((fbn + 1) * BSIZE - off) in
          bnd (rsect x s) (\<lambda>buf s.
          let buf = put buf (off - fbn * BSIZE) (take n1 p)
          in iappend_loop (drop n1 p) (off + n1) din (wsect x buf s))))"
  by pat_completeness auto
termination
proof (relation "measure (\<lambda>(p, off, din, s). length p)", goal_cases)
  case (2 p off din s)
  have "off < (off div BSIZE + 1) * BSIZE"
    using div_mult_mod_eq [of off BSIZE] mod_less_divisor [of BSIZE off] by (simp add: BSIZE_def)
  with 2 show ?case by auto
qed simp

declare iappend_loop.simps [simp del]

definition iappend :: "uint \<Rightarrow> uchar list \<Rightarrow> mkfs \<Rightarrow> (unit, mkfs) res" where
  "iappend inum xp s =
     bnd (rinode inum s) (\<lambda>din s.
     bnd (iappend_loop xp (unat (xint (i_size din))) din s) (\<lambda>(off, din) s.
     winode inum (din\<lparr>i_size := xint (of_nat off)\<rparr>) s))"

subsection \<open>The program\<close>

text \<open>
  A file to be copied is its name on the command line and what the successive \<open>read\<close> calls return.
  \<open>dirent\<close> has the bytes of a directory entry; \<open>/\<close> is 47 and \<open>_\<close> is 95.
\<close>

definition mk_dirent :: "uint \<Rightarrow> uchar list \<Rightarrow> uchar list" where
  "mk_dirent inum name = bytes_le 2 (ucast (xshort (ucast inum))) @ strncpy_list DIRSIZ name"

definition shortname :: "uchar list \<Rightarrow> uchar list option" where
  "shortname name =
     (let name = (if take 5 name = [117, 115, 101, 114, 47] then drop 5 name else name)
      in if 47 \<in> set name then None
         else Some (if name \<noteq> [] \<and> hd name = 95 then tl name else name))"

definition add_file :: "uint \<Rightarrow> uchar list \<times> uchar list list \<Rightarrow> mkfs \<Rightarrow> (unit, mkfs) res" where
  "add_file rootino = (\<lambda>(name, chunks) s.
     case shortname name of None \<Rightarrow> Panic ''assert''
     | Some name \<Rightarrow>
       bnd (mk_ialloc T_FILE s) (\<lambda>inum s.
       bnd (iappend rootino (mk_dirent inum name) s) (\<lambda>_ s.
       for_each (iappend inum) chunks s)))"

definition mkfs_main :: "(uchar list \<times> uchar list list) list \<Rightarrow> (unit, mkfs) res" where
  "mkfs_main files =
     (let s = \<lparr>img = (\<lambda>_. replicate BSIZE 0), freeinode = 1, freeblock = of_nat nmeta\<rparr>;
          s = wsect 1 (put (replicate BSIZE 0) 0 (sb_bytes mk_sb)) s
      in bnd (mk_ialloc T_DIR s) (\<lambda>rootino s.
      if rootino \<noteq> ROOTINO then Panic ''assert''
      else bnd (iappend rootino (mk_dirent rootino [46]) s) (\<lambda>_ s.
           bnd (iappend rootino (mk_dirent rootino [46, 46]) s) (\<lambda>_ s.
           bnd (for_each (add_file rootino) files s) (\<lambda>_ s.
           bnd (rinode rootino s) (\<lambda>din s.
           let off = unat (xint (i_size din)); off = (off div BSIZE + 1) * BSIZE in
           bnd (winode rootino (din\<lparr>i_size := xint (of_nat off)\<rparr>) s) (\<lambda>_ s.
           mk_balloc (unat (freeblock s)) s)))))))"

end
