(* ===== verification/MkfsImage.thy ===== *)
theory MkfsImage
  imports Mkfs
begin

text \<open>
  The image that \<open>mkfs\<close> writes: the invariant of the image under construction (every file has its own sectors, all
  handed out exactly once), that each operation keeps it, and what the finished image contains.
\<close>

subsection \<open>The blocks of a file\<close>

text \<open>
  The sector of the \<open>k\<close>-th block of a file, as the kernel's \<open>bmap\<close> finds it, the bytes of a file of size \<open>n\<close>,
  and the sectors a file of \<open>nb\<close> blocks occupies.
\<close>

definition ind_sector :: "inode \<Rightarrow> nat" where
  "ind_sector din = unat (i_addrs din ! NDIRECT)"

definition sector :: "inode \<Rightarrow> (nat \<Rightarrow> uchar list) \<Rightarrow> nat \<Rightarrow> nat" where
  "sector din im k = (if k < NDIRECT then unat (i_addrs din ! k) else unat (get32 (im (ind_sector din)) (4 * (k - NDIRECT))))"

definition contents :: "inode \<Rightarrow> (nat \<Rightarrow> uchar list) \<Rightarrow> nat \<Rightarrow> uchar list" where
  "contents din im n =
     concat (map (\<lambda>k. im (sector din im k)) [0..<n div BSIZE]) @ take (n mod BSIZE) (im (sector din im (n div BSIZE)))"

definition owned :: "inode \<Rightarrow> (nat \<Rightarrow> uchar list) \<Rightarrow> nat \<Rightarrow> nat set" where
  "owned din im nb = sector din im ` {..<nb} \<union> (if NDIRECT < nb then {ind_sector din} else {})"

definition nblk :: "nat \<Rightarrow> nat" where
  "nblk n = (n + (BSIZE - 1)) div BSIZE"

text \<open>The number of sectors of a file of \<open>nb\<close> blocks.\<close>

definition need :: "nat \<Rightarrow> nat" where
  "need nb = nb + of_bool (NDIRECT < nb)"

definition din_ok :: "inode \<Rightarrow> (nat \<Rightarrow> uchar list) \<Rightarrow> nat \<Rightarrow> nat \<Rightarrow> bool" where
  "din_ok din im nb fb \<longleftrightarrow> length (i_addrs din) = NDIRECT + 1 \<and> nb \<le> MAXFILE \<and>
     (\<forall>k<NDIRECT. i_addrs din ! k \<noteq> 0 \<longleftrightarrow> k < nb) \<and> (i_addrs din ! NDIRECT \<noteq> 0 \<longleftrightarrow> NDIRECT < nb) \<and>
     (NDIRECT < nb \<longrightarrow> (\<forall>k<NINDIRECT. get32 (im (ind_sector din)) (4 * k) \<noteq> 0 \<longleftrightarrow> NDIRECT + k < nb)) \<and>
     owned din im nb \<subseteq> {nmeta..<fb} \<and> inj_on (sector din im) {..<nb} \<and> (NDIRECT < nb \<longrightarrow> ind_sector din \<notin> sector din im ` {..<nb})"

text \<open>Sectors are whole blocks, and those not handed out yet are zero.\<close>

definition img_ok :: "(nat \<Rightarrow> uchar list) \<Rightarrow> nat \<Rightarrow> bool" where
  "img_ok im fb \<longleftrightarrow> nmeta \<le> fb \<and> (\<forall>b. length (im b) = BSIZE) \<and> (\<forall>b\<ge>fb. im b = replicate BSIZE 0)"

lemma nmeta_eq: "nmeta = 46"
  by (simp add: nmeta_def nlog_def LOGSIZE_def ninodeblocks_def nbitmap_def FSSIZE_def NINODES_def IPB_def BSIZE_def)

lemma get32_zeroes [simp]: "i + 4 \<le> n \<Longrightarrow> get32 (replicate n 0) i = 0"
  by (simp add: get32_def)

lemma MAXFILE_eq: "MAXFILE = NDIRECT + NINDIRECT"
  by (simp add: MAXFILE_def)

text \<open>A file with one block more.\<close>

lemma din_ok_extend:
  assumes ok: "din_ok din im nb fb" and nb: "nb < MAXFILE" and fb: "nmeta \<le> fb" "fb \<le> fb'"
    and old: "\<And>k. k < nb \<Longrightarrow> sector din' im' k = sector din im k"
    and new: "fb \<le> sector din' im' nb" "sector din' im' nb < fb'"
    and ind: "NDIRECT < nb \<Longrightarrow> ind_sector din' = ind_sector din"
      "nb = NDIRECT \<Longrightarrow> fb \<le> ind_sector din' \<and> ind_sector din' < fb' \<and> ind_sector din' \<noteq> sector din' im' nb"
    and addrs: "length (i_addrs din') = NDIRECT + 1" "\<forall>k<NDIRECT. i_addrs din' ! k \<noteq> 0 \<longleftrightarrow> k < Suc nb"
      "i_addrs din' ! NDIRECT \<noteq> 0 \<longleftrightarrow> NDIRECT < Suc nb"
      "NDIRECT < Suc nb \<longrightarrow> (\<forall>k<NINDIRECT. get32 (im' (ind_sector din')) (4 * k) \<noteq> 0 \<longleftrightarrow> NDIRECT + k < Suc nb)"
  shows "din_ok din' im' (Suc nb) fb' \<and> owned din' im' (Suc nb) \<subseteq> owned din im nb \<union> {fb..<fb'}"
proof -
  have img: "sector din' im' ` {..<Suc nb} = insert (sector din' im' nb) (sector din im ` {..<nb})"
    using old by (auto simp: lessThan_Suc)
  have own: "sector din im ` {..<nb} \<subseteq> {nmeta..<fb}" "inj_on (sector din im) {..<nb}"
    "NDIRECT < nb \<Longrightarrow> nmeta \<le> ind_sector din \<and> ind_sector din < fb \<and> ind_sector din \<notin> sector din im ` {..<nb}"
    using ok by (auto simp: din_ok_def owned_def)
  have less: "sector din im k < fb" if "k < nb" for k using own(1) that by auto
  have inj: "inj_on (sector din' im') {..<Suc nb}"
  proof (rule linorder_inj_onI)
    fix i j assume "i < j" "i \<in> {..<Suc nb}" "j \<in> {..<Suc nb}"
    then show "sector din' im' i \<noteq> sector din' im' j"
      using old less [of i] new own(2) by (cases "j = nb") (auto dest: inj_onD)
  qed auto
  have ind': "NDIRECT < Suc nb \<Longrightarrow> nmeta \<le> ind_sector din' \<and> ind_sector din' < fb' \<and> ind_sector din' \<notin> sector din' im' ` {..<Suc nb}"
  proof (cases "nb = NDIRECT")
    case True
    then show "nmeta \<le> ind_sector din' \<and> ind_sector din' < fb' \<and> ind_sector din' \<notin> sector din' im' ` {..<Suc nb}"
      unfolding img using ind(2) less fb by (fastforce simp: image_iff)
  next
    case False
    assume "NDIRECT < Suc nb"
    with False show "nmeta \<le> ind_sector din' \<and> ind_sector din' < fb' \<and> ind_sector din' \<notin> sector din' im' ` {..<Suc nb}"
      unfolding img using own(3) ind(1) new fb by auto
  qed
  have "owned din' im' (Suc nb) \<subseteq> {nmeta..<fb'}"
    unfolding owned_def img using own(1) new fb ind' by (auto simp: subset_iff)
  then have "din_ok din' im' (Suc nb) fb'" unfolding din_ok_def using addrs nb ind' inj by simp
  moreover have "owned din' im' (Suc nb) \<subseteq> owned din im nb \<union> {fb..<fb'}"
    unfolding owned_def img using new ind less_antisym by (auto split: if_splits)
  ultimately show ?thesis ..
qed

definition block_step :: "nat \<Rightarrow> nat \<Rightarrow> inode \<Rightarrow> mkfs \<Rightarrow> uint \<Rightarrow> inode \<Rightarrow> mkfs \<Rightarrow> bool" where
  "block_step nb fbn din s x din' s' \<longleftrightarrow>
     (\<exists>as. din' = din\<lparr>i_addrs := as\<rparr>) \<and> din_ok din' (img s') (Suc fbn) (unat (freeblock s')) \<and>
     unat x = sector din' (img s') fbn \<and> (\<forall>k<nb. sector din' (img s') k = sector din (img s) k) \<and>
     (\<forall>b<unat (freeblock s). (NDIRECT < nb \<longrightarrow> b \<noteq> ind_sector din) \<longrightarrow> img s' b = img s b) \<and>
     img_ok (img s') (unat (freeblock s')) \<and>
     owned din' (img s') (Suc fbn) \<subseteq> owned din (img s) nb \<union> {unat (freeblock s)..<unat (freeblock s')} \<and>
     unat (freeblock s') + need nb = unat (freeblock s) + need (Suc fbn) \<and> freeinode s' = freeinode s"

lemma din_ok_entry:
  assumes "din_ok din im nb fb" "NDIRECT < nb" "NDIRECT \<le> fbn" "fbn < MAXFILE"
  shows "get32 (im (ind_sector din)) (4 * (fbn - NDIRECT)) \<noteq> 0 \<longleftrightarrow> fbn < nb"
proof -
  have "fbn - NDIRECT < NINDIRECT" using assms by (simp add: MAXFILE_eq)
  with assms(1,2) have "get32 (im (ind_sector din)) (4 * (fbn - NDIRECT)) \<noteq> 0 \<longleftrightarrow> NDIRECT + (fbn - NDIRECT) < nb"
    unfolding din_ok_def by blast
  with assms(3) show ?thesis by simp
qed

lemma block_step_present:
  assumes ok: "din_ok din (img s) nb (unat (freeblock s))" and im: "img_ok (img s) (unat (freeblock s))"
    and nb: "nb = Suc fbn" and fb: "unat (freeblock s) \<le> FSSIZE"
  shows "\<exists>x. iappend_block fbn din s = Ok (x, din) s \<and> block_step nb fbn din s x din s"
proof -
  have "\<exists>x. iappend_block fbn din s = Ok (x, din) s \<and> unat x = sector din (img s) fbn"
  proof (cases "fbn < NDIRECT")
    case True
    then have "i_addrs din ! fbn \<noteq> 0" using ok nb by (simp add: din_ok_def)
    with True show ?thesis by (simp add: iappend_block_def sector_def)
  next
    case False
    then have "i_addrs din ! NDIRECT \<noteq> 0" "fbn < MAXFILE" "ind_sector din < FSSIZE"
      using ok nb fb by (auto simp: din_ok_def owned_def)
    moreover have "get32 (img s (ind_sector din)) (4 * (fbn - NDIRECT)) \<noteq> 0"
      using din_ok_entry [OF ok, of fbn] False nb calculation(2) by simp
    ultimately show ?thesis using False by (simp add: iappend_block_def sector_def rsect_def ind_sector_def)
  qed
  moreover have "din = din\<lparr>i_addrs := i_addrs din\<rparr>" by simp
  ultimately show ?thesis unfolding block_step_def using ok im nb by blast
qed

lemma freeblock_Suc: "unat (freeblock s) < FSSIZE \<Longrightarrow> unat (freeblock s + 1) = Suc (unat (freeblock s))"
  by (simp add: unat_word_ariths FSSIZE_def)

lemma block_step_direct:
  assumes ok: "din_ok din (img s) fbn (unat (freeblock s))" and im: "img_ok (img s) (unat (freeblock s))"
    and fbn: "fbn < NDIRECT" and fb: "unat (freeblock s) < FSSIZE"
  shows "\<exists>x din' s'. iappend_block fbn din s = Ok (x, din') s' \<and> block_step fbn fbn din s x din' s'"
proof -
  define din' where "din' = din\<lparr>i_addrs := (i_addrs din)[fbn := freeblock s]\<rparr>"
  define s' where "s' = s\<lparr>freeblock := freeblock s + 1\<rparr>"
  have z: "i_addrs din ! fbn = 0" and len: "length (i_addrs din) = NDIRECT + 1" using ok fbn by (auto simp: din_ok_def)
  have nz: "freeblock s \<noteq> 0" using im nmeta_eq by (auto simp: img_ok_def)
  have run: "iappend_block fbn din s = Ok (freeblock s, din') s'"
    using z fbn len by (simp add: iappend_block_def din'_def s'_def)
  have sec: "sector din' (img s) k = (if k = fbn then unat (freeblock s) else sector din (img s) k)" if "k \<le> fbn" for k
    using that fbn len by (simp add: sector_def din'_def)
  have "din_ok din' (img s) (Suc fbn) (Suc (unat (freeblock s))) \<and>
      owned din' (img s) (Suc fbn) \<subseteq> owned din (img s) fbn \<union> {unat (freeblock s)..<Suc (unat (freeblock s))}"
  proof (rule din_ok_extend [OF ok])
    show "\<forall>k<NDIRECT. i_addrs din' ! k \<noteq> 0 \<longleftrightarrow> k < Suc fbn"
      using ok len nz fbn by (auto simp: din_ok_def din'_def nth_list_update less_Suc_eq)
    show "i_addrs din' ! NDIRECT \<noteq> 0 \<longleftrightarrow> NDIRECT < Suc fbn"
      using ok fbn by (auto simp: din_ok_def din'_def)
  qed (use im fbn sec len in \<open>auto simp: img_ok_def MAXFILE_eq din'_def\<close>)
  then have "block_step fbn fbn din s (freeblock s) din' s'"
    unfolding block_step_def using sec im fb fbn freeblock_Suc [of s]
    by (auto simp: s'_def din'_def img_ok_def need_def)
  with run show ?thesis by blast
qed

text \<open>The first block behind the direct ones needs the indirect block as well.\<close>

lemma block_step_first_indirect:
  assumes ok: "din_ok din (img s) NDIRECT (unat (freeblock s))" and im: "img_ok (img s) (unat (freeblock s))"
    and fb: "Suc (unat (freeblock s)) < FSSIZE"
  shows "\<exists>x din' s'. iappend_block NDIRECT din s = Ok (x, din') s' \<and> block_step NDIRECT NDIRECT din s x din' s'"
proof -
  define f where "f = freeblock s"
  define din' where "din' = din\<lparr>i_addrs := (i_addrs din)[NDIRECT := f]\<rparr>"
  define ib where "ib = put32 (replicate BSIZE 0) 0 (f + 1)"
  define s' where "s' = s\<lparr>freeblock := f + 1 + 1, img := (img s)(unat f := ib)\<rparr>"
  have z: "i_addrs din ! NDIRECT = 0" and len: "length (i_addrs din) = NDIRECT + 1" using ok by (auto simp: din_ok_def)
  have nz: "f \<noteq> 0" using im nmeta_eq by (auto simp: img_ok_def f_def)
  have f1: "unat (f + 1) = Suc (unat f)" "unat (f + 1 + 1) = Suc (Suc (unat f))" using fb by (simp_all add: unat_word_ariths FSSIZE_def f_def)
  then have nz1: "f + 1 \<noteq> 0" by auto
  have zero: "img s (unat f) = replicate BSIZE 0" using im by (simp add: img_ok_def f_def)
  have ib0: "get32 ib 0 = f + 1" by (simp add: ib_def BSIZE_def)
  have run: "iappend_block NDIRECT din s = Ok (f + 1, din') s'"
    using z len fb zero ib0 get32_zeroes [of 0 BSIZE]
    by (simp add: iappend_block_def Let_def din'_def s'_def rsect_def wsect_def f_def [symmetric] ib_def [symmetric]) (simp add: BSIZE_def)
  have sec: "sector din' (img s') k = (if k = NDIRECT then unat (f + 1) else sector din (img s) k)" if "k \<le> NDIRECT" for k
    using that len ib0 by (auto simp: sector_def din'_def s'_def ind_sector_def)
  have ent: "get32 ib (4 * k) \<noteq> 0 \<longleftrightarrow> k = 0" if "k < NINDIRECT" for k
  proof (cases "k = 0")
    case False
    then have "get32 ib (4 * k) = get32 (replicate BSIZE 0) (4 * k)"
      using that unfolding ib_def by (intro get32_put32_other) (auto simp: NINDIRECT_def BSIZE_def)
    with that show ?thesis using False by (simp add: NINDIRECT_def BSIZE_def)
  qed (use ib0 nz1 in simp)
  have "din_ok din' (img s') (Suc NDIRECT) (unat (f + 1 + 1)) \<and>
      owned din' (img s') (Suc NDIRECT) \<subseteq> owned din (img s) NDIRECT \<union> {unat f..<unat (f + 1 + 1)}"
  proof (rule din_ok_extend [OF ok [folded f_def]])
    show "\<forall>k<NDIRECT. i_addrs din' ! k \<noteq> 0 \<longleftrightarrow> k < Suc NDIRECT"
      using ok len by (auto simp: din_ok_def din'_def nth_list_update)
    show "NDIRECT < Suc NDIRECT \<longrightarrow> (\<forall>k<NINDIRECT. (get32 (img s' (ind_sector din')) (4 * k) \<noteq> 0) = (NDIRECT + k < Suc NDIRECT))"
      using ent len by (simp add: ind_sector_def din'_def s'_def)
  qed (use im sec len nz f1 in \<open>auto simp: img_ok_def MAXFILE_eq NINDIRECT_def BSIZE_def din'_def ind_sector_def f_def [symmetric]\<close>)
  moreover have "length ib = BSIZE" by (simp add: ib_def BSIZE_def)
  ultimately have "block_step NDIRECT NDIRECT din s (f + 1) din' s'"
    unfolding block_step_def using sec im f1
    by (auto simp: s'_def din'_def img_ok_def need_def f_def [symmetric])
  with run show ?thesis by blast
qed

lemma block_step_indirect:
  assumes ok: "din_ok din (img s) fbn (unat (freeblock s))" and im: "img_ok (img s) (unat (freeblock s))"
    and fbn: "NDIRECT < fbn" "fbn < MAXFILE" and fb: "unat (freeblock s) < FSSIZE"
  shows "\<exists>x din' s'. iappend_block fbn din s = Ok (x, din') s' \<and> block_step fbn fbn din s x din' s'"
proof -
  define f where "f = freeblock s"
  define m where "m = fbn - NDIRECT"
  define ib where "ib = put32 (img s (ind_sector din)) (4 * m) f"
  define s' where "s' = s\<lparr>freeblock := f + 1, img := (img s)(ind_sector din := ib)\<rparr>"
  have m: "m < NINDIRECT" "fbn = NDIRECT + m" "0 < m" using fbn by (simp_all add: m_def MAXFILE_eq)
  have f1: "unat (f + 1) = Suc (unat f)" using freeblock_Suc fb by (simp add: f_def)
  have nz: "f \<noteq> 0" using im nmeta_eq by (auto simp: img_ok_def f_def)
  have ia: "i_addrs din ! NDIRECT \<noteq> 0" "ind_sector din < unat f" using ok fbn by (auto simp: din_ok_def owned_def f_def)
  have len: "length (img s (ind_sector din)) = BSIZE" using im by (simp add: img_ok_def)
  have z: "get32 (img s (ind_sector din)) (4 * m) = 0" using din_ok_entry [OF ok fbn(1), of fbn] fbn by (simp add: m_def)
  have b4: "4 * k + 4 \<le> BSIZE" if "k < NINDIRECT" for k using that by (simp add: NINDIRECT_def BSIZE_def)
  have ibm: "get32 ib (4 * m) = f" using len b4 [OF m(1)] by (simp add: ib_def)
  have ibk: "get32 ib (4 * k) = get32 (img s (ind_sector din)) (4 * k)" if "k < NINDIRECT" "k \<noteq> m" for k
    unfolding ib_def using that len b4 m by (intro get32_put32_other) auto
  have run: "iappend_block fbn din s = Ok (f, din) s'"
    using fbn ia z ibm fb by (simp add: iappend_block_def s'_def rsect_def wsect_def f_def [symmetric] m_def [symmetric]
      ind_sector_def [symmetric] ib_def [symmetric])
  have sec: "sector din (img s') k = (if k = fbn then unat f else sector din (img s) k)" if "k \<le> fbn" for k
  proof -
    have "k - NDIRECT < NINDIRECT" "k - NDIRECT = m \<longleftrightarrow> k = fbn" if "\<not> k < NDIRECT"
      using \<open>k \<le> fbn\<close> that m by auto
    then show ?thesis using ibm ibk m by (auto simp: sector_def s'_def)
  qed
  have "din_ok din (img s') (Suc fbn) (unat (f + 1)) \<and>
      owned din (img s') (Suc fbn) \<subseteq> owned din (img s) fbn \<union> {unat f..<unat (f + 1)}"
  proof (rule din_ok_extend [OF ok [folded f_def]])
    show "NDIRECT < Suc fbn \<longrightarrow> (\<forall>k<NINDIRECT. (get32 (img s' (ind_sector din)) (4 * k) \<noteq> 0) = (NDIRECT + k < Suc fbn))"
    proof (intro impI allI)
      fix k assume "k < NINDIRECT"
      then show "(get32 (img s' (ind_sector din)) (4 * k) \<noteq> 0) = (NDIRECT + k < Suc fbn)"
        using ok ibk [of k] ibm nz m by (cases "k = m") (auto simp: s'_def din_ok_def)
    qed
    show "\<forall>k<NDIRECT. i_addrs din ! k \<noteq> 0 \<longleftrightarrow> k < Suc fbn" using ok fbn by (auto simp: din_ok_def)
    show "length (i_addrs din) = NDIRECT + 1" using ok by (simp add: din_ok_def)
  qed (use im sec f1 fbn ia in \<open>auto simp: img_ok_def f_def [symmetric]\<close>)
  moreover have "length ib = BSIZE" using len b4 [OF m(1)] by (simp add: ib_def)
  moreover have "\<exists>as. din = din\<lparr>i_addrs := as\<rparr>" by (intro exI [of _ "i_addrs din"]) simp
  ultimately have "block_step fbn fbn din s f din s'"
    unfolding block_step_def using sec im f1 fbn ia
    by (auto simp: s'_def img_ok_def need_def f_def [symmetric])
  with run show ?thesis by blast
qed

lemma iappend_block_ok:
  assumes ok: "din_ok din (img s) nb (unat (freeblock s))" and im: "img_ok (img s) (unat (freeblock s))"
    and fbn: "nb = Suc fbn \<or> nb = fbn" "fbn < MAXFILE" and fb: "unat (freeblock s) + need (Suc fbn) \<le> FSSIZE + need nb"
  shows "\<exists>x din' s'. iappend_block fbn din s = Ok (x, din') s' \<and> block_step nb fbn din s x din' s'"
proof (cases "nb = Suc fbn")
  case True
  then show ?thesis using block_step_present [OF ok im] fb by auto
next
  case False
  then have nb: "nb = fbn" using fbn by simp
  consider "fbn < NDIRECT" | "fbn = NDIRECT" | "NDIRECT < fbn" by linarith
  then show ?thesis
  proof cases
    case 1
    then show ?thesis using block_step_direct [of din s fbn] ok im nb fb by (simp add: need_def)
  next
    case 2
    then show ?thesis using block_step_first_indirect [of din s] ok im nb fb by (simp add: need_def)
  next
    case 3
    then show ?thesis using block_step_indirect [of din s fbn] ok im nb fb fbn by (simp add: need_def)
  qed
qed

subsection \<open>What a file contains\<close>

lemma contents_upto:
  assumes "q * BSIZE \<le> n" "n \<le> Suc q * BSIZE" "length (im (sector din im q)) = BSIZE"
  shows "contents din im n = concat (map (\<lambda>k. im (sector din im k)) [0..<q]) @ take (n - q * BSIZE) (im (sector din im q))"
proof (cases "n = Suc q * BSIZE")
  case True
  then show ?thesis using assms(3) by (simp add: contents_def BSIZE_def)
next
  case False
  then have "n div BSIZE = q" using assms by (auto simp: BSIZE_def intro!: div_nat_eqI)
  then show ?thesis by (auto simp: contents_def minus_div_mult_eq_mod)
qed

lemma take_put: "r + length c \<le> length bs \<Longrightarrow> take (r + length c) (put bs r c) = take r bs @ c"
  by (simp add: put_def)

lemma din_ok_data:
  assumes ok: "din_ok din im nb fb" and x: "x \<in> sector din im ` {..<nb}"
  shows "sector din (im(x := v)) = sector din im" "din_ok din (im(x := v)) nb fb" "owned din (im(x := v)) nb = owned din im nb"
proof -
  have "ind_sector din \<noteq> x"
  proof (cases "NDIRECT < nb")
    case True
    then show ?thesis using ok x by (auto simp: din_ok_def)
  next
    case False
    then have "ind_sector din = 0" using ok by (simp add: din_ok_def ind_sector_def)
    moreover have "nmeta \<le> x" using ok x by (auto simp: din_ok_def owned_def)
    ultimately show ?thesis using nmeta_eq by simp
  qed
  then show s: "sector din (im(x := v)) = sector din im" and "owned din (im(x := v)) nb = owned din im nb"
    by (auto simp: sector_def owned_def fun_eq_iff)
  with ok \<open>ind_sector din \<noteq> x\<close> show "din_ok din (im(x := v)) nb fb" by (simp add: din_ok_def)
qed

text \<open>\<open>c\<close> has been appended to a file of \<open>off\<close> bytes, and nothing else has changed.\<close>

definition appended :: "nat \<Rightarrow> uchar list \<Rightarrow> inode \<Rightarrow> mkfs \<Rightarrow> inode \<Rightarrow> mkfs \<Rightarrow> bool" where
  "appended off c din s din' s' \<longleftrightarrow>
     (\<exists>as. din' = din\<lparr>i_addrs := as\<rparr>) \<and> din_ok din' (img s') (nblk (off + length c)) (unat (freeblock s')) \<and>
     img_ok (img s') (unat (freeblock s')) \<and>
     contents din' (img s') (off + length c) = contents din (img s) off @ c \<and>
     (\<forall>b<unat (freeblock s). b \<notin> owned din (img s) (nblk off) \<longrightarrow> img s' b = img s b) \<and>
     owned din' (img s') (nblk (off + length c)) \<subseteq> owned din (img s) (nblk off) \<union> {unat (freeblock s)..<unat (freeblock s')} \<and>
     unat (freeblock s') + need (nblk off) = unat (freeblock s) + need (nblk (off + length c)) \<and> freeinode s' = freeinode s"

lemma nblk_mono: "m \<le> n \<Longrightarrow> nblk m \<le> nblk n"
  by (simp add: nblk_def div_le_mono)

lemma need_mono: "m \<le> n \<Longrightarrow> need m \<le> need n"
  by (simp add: need_def)

lemma nblk_eq:
  assumes "q = off div BSIZE" "0 < c" "off + c \<le> Suc q * BSIZE"
  shows "nblk (off + c) = Suc q" "nblk off = Suc q \<or> nblk off = q \<and> off = q * BSIZE"
proof -
  have off: "off = q * BSIZE + off mod BSIZE" using assms(1) by simp
  show "nblk (off + c) = Suc q" unfolding nblk_def
    by (rule div_nat_eqI) (use assms off in \<open>auto simp: BSIZE_def\<close>)
  show "nblk off = Suc q \<or> nblk off = q \<and> off = q * BSIZE"
  proof (cases "off mod BSIZE = 0")
    case True
    then have "nblk off = q" unfolding nblk_def by (intro div_nat_eqI) (use off in \<open>auto simp: BSIZE_def\<close>)
    with True off show ?thesis by simp
  next
    case False
    have "off mod BSIZE < BSIZE" by (simp add: BSIZE_def)
    with False have "nblk off = Suc q" unfolding nblk_def by (intro div_nat_eqI) (use off in \<open>auto simp: BSIZE_def\<close>)
    then show ?thesis ..
  qed
qed

lemma appended_trans:
  assumes 1: "appended off c din s din1 s1" and 2: "appended (off + length c) d din1 s1 din2 s2"
  shows "appended off (c @ d) din s din2 s2"
proof -
  have "need (nblk off) \<le> need (nblk (off + length c))" by (intro need_mono nblk_mono) simp
  with 1 have fb: "unat (freeblock s) \<le> unat (freeblock s1)" by (simp add: appended_def)
  have "need (nblk (off + length c)) \<le> need (nblk (off + length c + length d))" by (intro need_mono nblk_mono) simp
  with 2 have fb2: "unat (freeblock s1) \<le> unat (freeblock s2)" by (simp add: appended_def)
  obtain as1 as2 where "din1 = din\<lparr>i_addrs := as1\<rparr>" "din2 = din1\<lparr>i_addrs := as2\<rparr>" using 1 2 by (auto simp: appended_def)
  then have "\<exists>as. din2 = din\<lparr>i_addrs := as\<rparr>" by auto
  moreover have "img s2 b = img s b" if "b < unat (freeblock s)" "b \<notin> owned din (img s) (nblk off)" for b
  proof -
    have "b \<notin> owned din1 (img s1) (nblk (off + length c))" using 1 that by (auto simp: appended_def)
    then show ?thesis using 1 2 that fb by (simp add: appended_def)
  qed
  moreover have "owned din2 (img s2) (nblk (off + length (c @ d))) \<subseteq> owned din (img s) (nblk off) \<union> {unat (freeblock s)..<unat (freeblock s2)}"
    using 1 2 fb fb2 unfolding appended_def by (simp add: add.assoc) fastforce
  ultimately show ?thesis using 1 2 by (simp add: appended_def add.assoc)
qed

lemma din_ok_sector:
  assumes "din_ok din im nb fb" "k < nb"
  shows "sector din im k < fb" "NDIRECT < nb \<longrightarrow> sector din im k \<noteq> ind_sector din"
proof -
  have "sector din im k \<in> sector din im ` {..<nb}" using assms(2) by simp
  then show "sector din im k < fb" "NDIRECT < nb \<longrightarrow> sector din im k \<noteq> ind_sector din"
    using assms(1) by (auto simp: din_ok_def owned_def)
qed

lemma iappend_round:
  assumes ok: "din_ok din (img s) (nblk off) (unat (freeblock s))" and im: "img_ok (img s) (unat (freeblock s))"
    and q: "q = off div BSIZE" "q < MAXFILE" and c: "c \<noteq> []" "off + length c \<le> Suc q * BSIZE"
    and fb: "unat (freeblock s) + need (Suc q) \<le> FSSIZE + need (nblk off)"
  shows "\<exists>x din' s1 b. iappend_block q din s = Ok (x, din') s1 \<and> rsect x s1 = Ok b s1 \<and>
    appended off c din s din' (wsect x (put b (off - q * BSIZE) c) s1)"
proof -
  define r where "r = off - q * BSIZE"
  have off: "off = q * BSIZE + r" using q(1) by (simp add: r_def)
  have rc: "r + length c \<le> BSIZE" using c off by simp
  have nb: "nblk (off + length c) = Suc q" "nblk off = Suc q \<or> nblk off = q \<and> off = q * BSIZE"
    using nblk_eq [OF q(1) _ c(2)] c(1) by auto
  obtain x din' s1 where run: "iappend_block q din s = Ok (x, din') s1" and st: "block_step (nblk off) q din s x din' s1"
    using iappend_block_ok [OF ok im _ q(2) fb] nb(2) by blast
  define y where "y = unat x"
  define B where "B = img s1 y"
  define im2 where "im2 = (img s1)(y := put B r c)"
  have ok1: "din_ok din' (img s1) (Suc q) (unat (freeblock s1))" and y: "y = sector din' (img s1) q"
    and sec: "\<forall>k<nblk off. sector din' (img s1) k = sector din (img s) k" and im1: "img_ok (img s1) (unat (freeblock s1))"
    and same: "\<forall>b<unat (freeblock s). (NDIRECT < nblk off \<longrightarrow> b \<noteq> ind_sector din) \<longrightarrow> img s1 b = img s b"
    and own: "owned din' (img s1) (Suc q) \<subseteq> owned din (img s) (nblk off) \<union> {unat (freeblock s)..<unat (freeblock s1)}"
    and fb1: "unat (freeblock s1) + need (nblk off) = unat (freeblock s) + need (Suc q)"
    using st by (auto simp: block_step_def y_def)
  have yin: "y \<in> sector din' (img s1) ` {..<Suc q}" using y by simp
  then have yown: "y \<in> owned din' (img s1) (Suc q)" by (simp add: owned_def)
  then have ylt: "y < unat (freeblock s1)" "nmeta \<le> y" using ok1 by (auto simp: din_ok_def)
  have len: "length B = BSIZE" using im1 by (simp add: img_ok_def B_def)
  note data = din_ok_data [OF ok1 yin, of "put B r c", folded im2_def]
  have rs: "rsect x s1 = Ok B s1" using ylt fb fb1 by (simp add: rsect_def B_def y_def)
  have blk: "im2 (sector din' im2 k) = img s (sector din (img s) k)" if "k < q" for k
  proof -
    have k: "k < nblk off" using nb(2) that by auto
    moreover have "sector din' (img s1) k \<noteq> y" using ok1 that y by (auto simp: din_ok_def inj_on_def)
    ultimately show ?thesis using sec same k din_ok_sector [OF ok k] by (simp add: data(1)) (simp add: im2_def)
  qed
  have head: "take r B = take r (img s (sector din (img s) q))"
  proof (cases "r = 0")
    case False
    then have k: "q < nblk off" using nb(2) off by auto
    then show ?thesis using sec same y din_ok_sector [OF ok k] by (simp add: B_def)
  qed simp
  have blks: "map (\<lambda>k. im2 (sector din' im2 k)) [0..<q] = map (\<lambda>k. img s (sector din (img s) k)) [0..<q]"
    using blk by simp
  have im2y: "im2 (sector din' im2 q) = put B r c" using y by (simp add: data(1)) (simp add: im2_def)
  have len2: "length (put B r c) = BSIZE" using rc len by simp
  have "contents din' im2 (off + length c) = concat (map (\<lambda>k. im2 (sector din' im2 k)) [0..<q]) @ take (r + length c) (put B r c)"
    using contents_upto [of q "off + length c" im2 din'] off c len2 im2y by simp
  also have "\<dots> = concat (map (\<lambda>k. img s (sector din (img s) k)) [0..<q]) @ take r (img s (sector din (img s) q)) @ c"
    unfolding blks using take_put [of r c B] rc len head by simp
  also have "\<dots> = contents din (img s) off @ c"
    using contents_upto [of q off "img s" din] off rc im by (simp add: img_ok_def)
  finally have cont: "contents din' im2 (off + length c) = contents din (img s) off @ c" .
  have keep: "im2 b = img s b" if "b < unat (freeblock s)" "b \<notin> owned din (img s) (nblk off)" for b
  proof -
    have "b \<noteq> y" using yown own that by auto
    moreover have "NDIRECT < nblk off \<longrightarrow> b \<noteq> ind_sector din" using that by (auto simp: owned_def)
    ultimately show ?thesis using same that by (simp add: im2_def)
  qed
  have "img_ok im2 (unat (freeblock s1))" using im1 ylt len2 by (auto simp: img_ok_def im2_def)
  moreover have "\<exists>as. din' = din\<lparr>i_addrs := as\<rparr>" "freeinode s1 = freeinode s" using st by (simp_all add: block_step_def)
  moreover define s2 where "s2 = wsect x (put B r c) s1"
  then have "img s2 = im2" "freeblock s2 = freeblock s1" "freeinode s2 = freeinode s1"
    by (simp_all add: wsect_def im2_def y_def)
  ultimately have "appended off c din s din' s2"
    unfolding appended_def using data(2,3) own fb1 cont keep nb(1) by simp
  then have "appended off c din s din' (wsect x (put B r c) s1)" by (simp add: s2_def)
  with run rs show ?thesis by (auto simp: r_def)
qed

lemma appended_nil:
  assumes "din_ok din (img s) (nblk off) (unat (freeblock s))" "img_ok (img s) (unat (freeblock s))"
  shows "appended off [] din s din s"
proof -
  have "din = din\<lparr>i_addrs := i_addrs din\<rparr>" by simp
  with assms show ?thesis unfolding appended_def by (auto intro: exI [of _ "i_addrs din"])
qed

lemma iappend_loop_ok:
  "din_ok din (img s) (nblk off) (unat (freeblock s)) \<Longrightarrow> img_ok (img s) (unat (freeblock s)) \<Longrightarrow>
   off + length p \<le> MAXFILE * BSIZE \<Longrightarrow> unat (freeblock s) + need (nblk (off + length p)) \<le> FSSIZE + need (nblk off) \<Longrightarrow>
   \<exists>din' s'. iappend_loop p off din s = Ok (off + length p, din') s' \<and> appended off p din s din' s'"
proof (induction "length p" arbitrary: p off din s rule: less_induct)
  case less
  show ?case
  proof (cases "p = []")
    case True
    then show ?thesis using appended_nil [OF less.prems(1,2)] by (simp add: iappend_loop.simps)
  next
    case False
    define q where "q = off div BSIZE"
    define n1 where "n1 = min (length p) (Suc q * BSIZE - off)"
    have "off < Suc q * BSIZE" unfolding q_def by (simp add: BSIZE_def dividend_less_div_times)
    then have n1: "0 < n1" "n1 \<le> length p" "off + n1 \<le> Suc q * BSIZE" using False by (auto simp: n1_def)
    have q: "q < MAXFILE"
      using less.prems(3) n1 unfolding q_def by (simp add: less_mult_imp_div_less)
    have nb: "nblk (off + n1) = Suc q" using nblk_eq(1) [OF q_def n1(1)] n1(3) by simp
    have "need (nblk (off + n1)) \<le> need (nblk (off + length p))" using n1 by (intro need_mono nblk_mono) simp
    then have sp: "unat (freeblock s) + need (Suc q) \<le> FSSIZE + need (nblk off)" using less.prems(4) nb by simp
    have c: "take n1 p \<noteq> []" "off + length (take n1 p) \<le> Suc q * BSIZE" "length (take n1 p) = n1" using n1 False by auto
    obtain x din1 s1 b where run: "iappend_block q din s = Ok (x, din1) s1" "rsect x s1 = Ok b s1"
      and ap: "appended off (take n1 p) din s din1 (wsect x (put b (off - q * BSIZE) (take n1 p)) s1)"
      using iappend_round [OF less.prems(1,2) q_def q c(1,2) sp] by blast
    define s2 where "s2 = wsect x (put b (off - q * BSIZE) (take n1 p)) s1"
    have s2: "din_ok din1 (img s2) (nblk (off + n1)) (unat (freeblock s2))" "img_ok (img s2) (unat (freeblock s2))"
      "unat (freeblock s2) + need (nblk off) = unat (freeblock s) + need (nblk (off + n1))"
      using ap c(3) by (simp_all add: appended_def s2_def)
    have "\<exists>din' s'. iappend_loop (drop n1 p) (off + n1) din1 s2 = Ok (off + n1 + length (drop n1 p), din') s' \<and>
        appended (off + n1) (drop n1 p) din1 s2 din' s'"
      using less.prems n1 s2 by (intro less.hyps) auto
    then obtain din' s' where rest: "iappend_loop (drop n1 p) (off + n1) din1 s2 = Ok (off + n1 + length (drop n1 p), din') s'"
      "appended (off + n1) (drop n1 p) din1 s2 din' s'" by blast
    have "appended off (take n1 p @ drop n1 p) din s din' s'"
      using ap rest(2) c(3) by (intro appended_trans [of _ _ _ _ din1 s2]) (simp_all add: s2_def)
    moreover have "iappend_loop p off din s = iappend_loop (drop n1 p) (off + n1) din1 s2"
      using False q run by (simp add: iappend_loop.simps [of p off din s] Let_def q_def [symmetric] n1_def s2_def)
    ultimately show ?thesis using rest(1) n1 by simp
  qed
qed

subsection \<open>The image\<close>

text \<open>The inode with number \<open>k\<close>, its size and its bytes; there is room for \<open>MAXINO\<close> inodes in the inode blocks.\<close>

definition MAXINO :: nat where "MAXINO = ninodeblocks * IPB"

definition nd :: "mkfs \<Rightarrow> nat \<Rightarrow> inode" where
  "nd s k = get_dinode (img s (unat (IBLOCK (of_nat k) mk_sb))) (dinode_off (of_nat k)) zero_inode"

definition fsize :: "mkfs \<Rightarrow> nat \<Rightarrow> nat" where
  "fsize s k = unat (i_size (nd s k))"

definition file_bytes :: "mkfs \<Rightarrow> nat \<Rightarrow> uchar list" where
  "file_bytes s k = contents (nd s k) (img s) (fsize s k)"

definition owns :: "mkfs \<Rightarrow> nat \<Rightarrow> nat set" where
  "owns s k = owned (nd s k) (img s) (nblk (fsize s k))"

definition mk_ok :: "mkfs \<Rightarrow> bool" where
  "mk_ok s \<longleftrightarrow> img_ok (img s) (unat (freeblock s)) \<and> 1 \<le> unat (freeinode s) \<and> unat (freeinode s) \<le> MAXINO \<and>
     (\<forall>k\<in>{1..<unat (freeinode s)}. fsize s k \<le> MAXFILE * BSIZE \<and> din_ok (nd s k) (img s) (nblk (fsize s k)) (unat (freeblock s))) \<and>
     (\<forall>j\<in>{1..<unat (freeinode s)}. \<forall>k\<in>{1..<unat (freeinode s)}. j \<noteq> k \<longrightarrow> owns s j \<inter> owns s k = {}) \<and>
     unat (freeblock s) = nmeta + (\<Sum>k\<in>{1..<unat (freeinode s)}. need (nblk (fsize s k)))"

lemma MAXINO_eq: "MAXINO = 208"
  by (simp add: MAXINO_def ninodeblocks_def NINODES_def IPB_def BSIZE_def)

lemma inode_block:
  assumes "k < MAXINO"
  shows "unat (IBLOCK (of_nat k) mk_sb) = k div 16 + 32" "unat (IBLOCK (of_nat k) mk_sb) < 45" "dinode_off (of_nat k) = 64 * (k mod 16)"
proof -
  have k: "unat (of_nat k :: uint) = k" using assms by (simp add: MAXINO_eq unat_of_nat)
  have "unat (of_nat k div 16 :: uint) = k div 16" by (simp add: unat_div k)
  moreover have "k div 16 < 13" using assms by (simp add: MAXINO_eq less_mult_imp_div_less)
  ultimately show "unat (IBLOCK (of_nat k) mk_sb) = k div 16 + 32"
    by (simp add: IBLOCK_def mk_sb_def IPB_def BSIZE_def nlog_def LOGSIZE_def unat_word_ariths)
  then show "unat (IBLOCK (of_nat k) mk_sb) < 45" using \<open>k div 16 < 13\<close> by simp
  show "dinode_off (of_nat k) = 64 * (k mod 16)" by (simp add: dinode_off_def IPB_def BSIZE_def k)
qed

text \<open>The fields of the kernel's record that are not on the disk.\<close>

definition plain :: "inode \<Rightarrow> bool" where
  "plain q \<longleftrightarrow> i_dev q = 0 \<and> i_inum q = 0 \<and> i_ref q = 0 \<and> i_valid q = 0"

lemma plain_nd [simp]: "plain (nd s k)"
  by (simp add: plain_def nd_def get_dinode_def zero_inode_def)

lemma plain_eqI: "plain a \<Longrightarrow> plain b \<Longrightarrow> dinode_of a = dinode_of b \<Longrightarrow> a = b"
  by (simp add: plain_def dinode_of_def)

lemma rinode_ok: "k < MAXINO \<Longrightarrow> rinode (of_nat k) s = Ok (nd s k) s"
  using inode_block [of k] by (simp add: rinode_def rsect_def nd_def FSSIZE_def)

lemma winode_ok:
  assumes k: "k < MAXINO" and len: "\<forall>b. length (img s b) = BSIZE" and din: "length (i_addrs din) = NDIRECT + 1" "plain din"
  shows "\<exists>s'. winode (of_nat k) din s = Ok () s' \<and> nd s' k = din \<and> (\<forall>j<MAXINO. j \<noteq> k \<longrightarrow> nd s' j = nd s j) \<and>
    (\<forall>b. b < 32 \<or> 45 \<le> b \<longrightarrow> img s' b = img s b) \<and> (\<forall>b. length (img s' b) = BSIZE) \<and> freeblock s' = freeblock s \<and> freeinode s' = freeinode s"
proof -
  define bn where "bn = unat (IBLOCK (of_nat k) mk_sb)"
  define s' where "s' = s\<lparr>img := (img s)(bn := put_dinode din (dinode_off (of_nat k)) (img s bn))\<rparr>"
  note ib = inode_block [OF k]
  have run: "winode (of_nat k) din s = Ok () s'"
    using ib by (simp add: winode_def rsect_def wsect_def s'_def bn_def FSSIZE_def)
  have off: "dinode_off (of_nat j) + 64 \<le> length (img s bn)" if "j < MAXINO" for j
    using inode_block(3) [OF that] len mod_less_divisor [of 16 j] by (simp add: BSIZE_def)
  have "dinode_of (nd s' k) = dinode_of din"
    unfolding nd_def s'_def using get_put_dinode_same [OF off [OF k] din(1)] by (simp add: bn_def)
  then have "nd s' k = din" by (rule plain_eqI [OF plain_nd din(2)])
  moreover have "nd s' j = nd s j" if "j < MAXINO" "j \<noteq> k" for j
  proof (cases "unat (IBLOCK (of_nat j) mk_sb) = bn")
    case True
    have "j div 16 = k div 16" using True ib inode_block [OF that(1)] by (simp add: bn_def)
    then have "j mod 16 \<noteq> k mod 16" using that(2) by (metis div_mult_mod_eq)
    then have "dinode_off (of_nat j) + 64 \<le> dinode_off (of_nat k) \<or> dinode_off (of_nat k) + 64 \<le> dinode_off (of_nat j)"
      using ib(3) inode_block(3) [OF that(1)] by auto
    from get_put_dinode_other [OF off [OF k] din(1) this off [OF that(1)]] True show ?thesis
      by (simp add: nd_def s'_def)
  next
    case False
    then show ?thesis by (simp add: nd_def s'_def)
  qed
  moreover have "length (put_dinode din (dinode_off (of_nat k)) (img s bn)) = BSIZE"
    using put_dinode_length [OF off [OF k] din(1)] len by simp
  ultimately show ?thesis using run len ib(1,2) by (intro exI [of _ s']) (auto simp: s'_def bn_def)
qed

text \<open>A file that keeps its sectors keeps its contents.\<close>

lemma sectors_keep:
  assumes "\<forall>b\<in>owned din im nb. im' b = im b" "k < nb"
  shows "sector din im' k = sector din im k" "im' (sector din im k) = im (sector din im k)"
  using assms by (auto simp: sector_def owned_def)

lemma file_keep:
  assumes keep: "\<forall>b\<in>owned din im nb. im' b = im b" and ok: "din_ok din im nb fb" and fb: "fb \<le> fb'"
  shows "owned din im' nb = owned din im nb" "din_ok din im' nb fb'" "nblk n = nb \<Longrightarrow> contents din im' n = contents din im n"
proof -
  note sk = sectors_keep [OF keep]
  show own: "owned din im' nb = owned din im nb" using sk(1) by (auto simp: owned_def)
  have "inj_on (sector din im') {..<nb}" using ok sk(1) by (simp add: din_ok_def inj_on_def)
  moreover have "sector din im' ` {..<nb} = sector din im ` {..<nb}" using sk(1) by auto
  moreover have "NDIRECT < nb \<longrightarrow> im' (ind_sector din) = im (ind_sector din)" using keep by (simp add: owned_def)
  ultimately show "din_ok din im' nb fb'" using ok fb own by (auto simp: din_ok_def)
  assume n: "nblk n = nb"
  have le: "n div BSIZE \<le> nb" using n by (auto simp: nblk_def BSIZE_def intro!: div_le_mono)
  have "n + 1 \<le> Suc (n div BSIZE) * BSIZE" by (simp add: BSIZE_def Suc_le_eq dividend_less_div_times)
  then have last: "n div BSIZE < nb" if "n mod BSIZE \<noteq> 0"
    using nblk_eq(2) [of "n div BSIZE" n 1] that n by (metis less_Suc_eq mod_mult_self2_is_0 zero_less_one)
  show "contents din im' n = contents din im n"
    using sk le last unfolding contents_def by (cases "n mod BSIZE = 0") (auto intro!: arg_cong [where f = concat])
qed

lemma space_word: "n \<le> MAXFILE * BSIZE \<Longrightarrow> unat (of_nat n :: uint) = n"
  by (simp add: unat_of_nat MAXFILE_def NDIRECT_def NINDIRECT_def BSIZE_def)

text \<open>What an operation that lets file \<open>k\<close> grow does to the image.\<close>

definition updated :: "nat \<Rightarrow> mkfs \<Rightarrow> mkfs \<Rightarrow> bool" where
  "updated k s s' \<longleftrightarrow> freeinode s' = freeinode s \<and> unat (freeblock s) \<le> unat (freeblock s') \<and>
     (\<forall>j<MAXINO. j \<noteq> k \<longrightarrow> nd s' j = nd s j) \<and> (\<forall>b<32. img s' b = img s b) \<and>
     (\<forall>b<unat (freeblock s). nmeta \<le> b \<longrightarrow> b \<notin> owns s k \<longrightarrow> img s' b = img s b) \<and>
     img_ok (img s') (unat (freeblock s')) \<and> fsize s' k \<le> MAXFILE * BSIZE \<and>
     din_ok (nd s' k) (img s') (nblk (fsize s' k)) (unat (freeblock s')) \<and>
     owns s' k \<subseteq> owns s k \<union> {unat (freeblock s)..<unat (freeblock s')} \<and>
     unat (freeblock s') + need (nblk (fsize s k)) = unat (freeblock s) + need (nblk (fsize s' k))"

text \<open>The other files and the blocks before the inodes are kept.\<close>

definition others_kept :: "nat \<Rightarrow> mkfs \<Rightarrow> mkfs \<Rightarrow> bool" where
  "others_kept k s s' \<longleftrightarrow>
     (\<forall>j\<in>{1..<unat (freeinode s)}. j \<noteq> k \<longrightarrow> file_bytes s' j = file_bytes s j \<and> fsize s' j = fsize s j) \<and> (\<forall>b<32. img s' b = img s b)"

lemma mk_ok_file:
  assumes "mk_ok s" "j \<in> {1..<unat (freeinode s)}"
  shows "j < MAXINO" "din_ok (nd s j) (img s) (nblk (fsize s j)) (unat (freeblock s))" "owns s j \<subseteq> {nmeta..<unat (freeblock s)}"
    "fsize s j \<le> MAXFILE * BSIZE"
proof -
  have "fsize s j \<le> MAXFILE * BSIZE \<and> din_ok (nd s j) (img s) (nblk (fsize s j)) (unat (freeblock s))" "unat (freeinode s) \<le> MAXINO"
    using assms unfolding mk_ok_def by blast+
  then show "j < MAXINO" "din_ok (nd s j) (img s) (nblk (fsize s j)) (unat (freeblock s))" "owns s j \<subseteq> {nmeta..<unat (freeblock s)}"
    "fsize s j \<le> MAXFILE * BSIZE"
    using assms(2) by (auto simp: din_ok_def owns_def)
qed

lemma mk_ok_disjoint:
  assumes "mk_ok s" "i \<in> {1..<unat (freeinode s)}" "j \<in> {1..<unat (freeinode s)}" "i \<noteq> j"
  shows "owns s i \<inter> owns s j = {}"
  using assms unfolding mk_ok_def by blast

lemma updated_other:
  assumes ok: "mk_ok s" and k: "k \<in> {1..<unat (freeinode s)}" and up: "updated k s s'" and j: "j \<in> {1..<unat (freeinode s)}" "j \<noteq> k"
  shows "fsize s' j = fsize s j" "file_bytes s' j = file_bytes s j" "owns s' j = owns s j"
    "din_ok (nd s' j) (img s') (nblk (fsize s' j)) (unat (freeblock s'))"
proof -
  note fj = mk_ok_file [OF ok j(1)]
  have nd: "nd s' j = nd s j" using up fj(1) j by (simp add: updated_def)
  then show fs: "fsize s' j = fsize s j" by (simp add: fsize_def)
  have "owns s j \<inter> owns s k = {}" by (rule mk_ok_disjoint [OF ok j(1) k j(2)])
  moreover have "\<forall>b<unat (freeblock s). nmeta \<le> b \<longrightarrow> b \<notin> owns s k \<longrightarrow> img s' b = img s b" using up by (simp add: updated_def)
  ultimately have "\<forall>b\<in>owns s j. img s' b = img s b" using fj(3) by (auto simp: subset_iff)
  note keep = file_keep [OF this [unfolded owns_def] fj(2), of "unat (freeblock s')"]
  show "file_bytes s' j = file_bytes s j" "owns s' j = owns s j" "din_ok (nd s' j) (img s') (nblk (fsize s' j)) (unat (freeblock s'))"
    using nd fs keep(1) keep(2) keep(3) [OF _ refl] up by (simp_all add: updated_def file_bytes_def owns_def)
qed

lemma updated_mk_ok:
  assumes ok: "mk_ok s" and k: "k \<in> {1..<unat (freeinode s)}" and up: "updated k s s'"
  shows "mk_ok s' \<and> others_kept k s s'"
proof -
  define F where "F = unat (freeinode s)"
  note other = updated_other [OF ok k up, folded F_def]
  note old = mk_ok_disjoint [OF ok, folded F_def]
  have new: "owns s' k \<inter> owns s j = {}" if "j \<in> {1..<F}" "j \<noteq> k" for j
  proof -
    have "owns s k \<inter> owns s j = {}" "owns s j \<subseteq> {nmeta..<unat (freeblock s)}"
      using old [of k j] mk_ok_file(3) [OF ok, of j] that k by (auto simp: F_def)
    moreover have "owns s' k \<subseteq> owns s k \<union> {unat (freeblock s)..<unat (freeblock s')}" using up by (simp add: updated_def)
    moreover have "{nmeta..<unat (freeblock s)} \<inter> {unat (freeblock s)..<unat (freeblock s')} = {}" by auto
    ultimately show ?thesis by blast
  qed
  have disj: "owns s' i \<inter> owns s' j = {}" if "i \<in> {1..<F}" "j \<in> {1..<F}" "i \<noteq> j" for i j
  proof -
    consider "i = k" | "j = k" | "i \<noteq> k" "j \<noteq> k" by blast
    then show ?thesis
      using that old [of i j] new [of i] new [of j] other(3) [of i] other(3) [of j] by cases (simp_all add: Int_commute)
  qed
  have "(\<Sum>j\<in>{1..<F} - {k}. need (nblk (fsize s' j))) = (\<Sum>j\<in>{1..<F} - {k}. need (nblk (fsize s j)))"
    by (rule sum.cong) (use other in auto)
  then have "(\<Sum>j\<in>{1..<F}. need (nblk (fsize s' j))) + need (nblk (fsize s k)) = (\<Sum>j\<in>{1..<F}. need (nblk (fsize s j))) + need (nblk (fsize s' k))"
    using k sum.remove [of "{1..<F}" k "\<lambda>j. need (nblk (fsize s' j))"] sum.remove [of "{1..<F}" k "\<lambda>j. need (nblk (fsize s j))"]
    by (simp add: F_def)
  then have fb: "unat (freeblock s') = nmeta + (\<Sum>j\<in>{1..<F}. need (nblk (fsize s' j)))"
    using ok up by (simp add: mk_ok_def updated_def F_def)
  have "fsize s' j \<le> MAXFILE * BSIZE \<and> din_ok (nd s' j) (img s') (nblk (fsize s' j)) (unat (freeblock s'))" if "j \<in> {1..<F}" for j
    using that other(1) [of j] other(4) [of j] mk_ok_file(4) [OF ok, of j] up by (cases "j = k") (simp_all add: updated_def F_def)
  moreover have "img_ok (img s') (unat (freeblock s'))" "freeinode s' = freeinode s" using up by (simp_all add: updated_def)
  ultimately have "mk_ok s'" using fb disj ok unfolding mk_ok_def F_def by simp
  then show ?thesis using other up by (simp add: others_kept_def F_def updated_def)
qed

lemma layout_size:
  "ind_sector (d\<lparr>i_size := v\<rparr>) = ind_sector d" "sector (d\<lparr>i_size := v\<rparr>) = sector d"
  "owned (d\<lparr>i_size := v\<rparr>) = owned d" "contents (d\<lparr>i_size := v\<rparr>) = contents d"
proof -
  show ind: "ind_sector (d\<lparr>i_size := v\<rparr>) = ind_sector d" by (simp add: ind_sector_def)
  show sec: "sector (d\<lparr>i_size := v\<rparr>) = sector d" by (simp add: fun_eq_iff sector_def ind)
  show "owned (d\<lparr>i_size := v\<rparr>) = owned d" "contents (d\<lparr>i_size := v\<rparr>) = contents d"
    by (simp_all add: fun_eq_iff owned_def contents_def sec ind)
qed

lemma iappend_updates:
  assumes ok: "mk_ok s" and k: "k \<in> {1..<unat (freeinode s)}" and size: "fsize s k + length p \<le> MAXFILE * BSIZE"
    and space: "unat (freeblock s) + need (nblk (fsize s k + length p)) \<le> FSSIZE + need (nblk (fsize s k))"
  shows "\<exists>s'. iappend (of_nat k) p s = Ok () s' \<and> updated k s s' \<and> file_bytes s' k = file_bytes s k @ p \<and> fsize s' k = fsize s k + length p"
proof -
  define n where "n = fsize s k"
  define m where "m = n + length p"
  note fk = mk_ok_file [OF ok k]
  have im: "img_ok (img s) (unat (freeblock s))" using ok unfolding mk_ok_def by blast
  obtain din1 s1 where run: "iappend_loop p n (nd s k) s = Ok (m, din1) s1" and ap: "appended n p (nd s k) s din1 s1"
    using iappend_loop_ok [OF fk(2) im size space] by (auto simp: n_def m_def)
  define din2 where "din2 = din1\<lparr>i_size := of_nat m\<rparr>"
  have ok1: "din_ok din1 (img s1) (nblk m) (unat (freeblock s1))" and im1: "img_ok (img s1) (unat (freeblock s1))"
    using ap by (auto simp: appended_def m_def)
  have len2: "length (i_addrs din2) = NDIRECT + 1" "plain din2"
    using ok1 ap plain_nd [of s k] by (auto simp: din2_def din_ok_def plain_def appended_def)
  obtain s' where run': "winode (of_nat k) din2 s1 = Ok () s'" and ndk: "nd s' k = din2" and ndj: "\<forall>j<MAXINO. j \<noteq> k \<longrightarrow> nd s' j = nd s1 j"
    and img': "\<forall>b. b < 32 \<or> 45 \<le> b \<longrightarrow> img s' b = img s1 b" and len': "\<forall>b. length (img s' b) = BSIZE"
    and fb': "freeblock s' = freeblock s1" "freeinode s' = freeinode s1"
    using winode_ok [OF fk(1) _ len2, of s1] im1 by (auto simp: img_ok_def)
  have fsk: "fsize s' k = m" unfolding fsize_def ndk using size space_word by (simp add: din2_def n_def m_def del: of_nat_add)
  have eq2: "sector din2 = sector din1" "owned din2 = owned din1" "contents din2 = contents din1" "i_addrs din2 = i_addrs din1" "ind_sector din2 = ind_sector din1"
    by (simp_all add: din2_def layout_size)
  have "\<forall>b\<in>owned din1 (img s1) (nblk m). img s' b = img s1 b" using ok1 img' nmeta_eq by (force simp: din_ok_def)
  note keep = file_keep [OF this ok1 order_refl]
  have same: "\<forall>b<unat (freeblock s). b \<notin> owns s k \<longrightarrow> img s1 b = img s b" using ap by (simp add: appended_def owns_def n_def)
  moreover have "b \<notin> owns s k \<and> b < unat (freeblock s)" if "b < nmeta" for b using that fk(3) im by (auto simp: img_ok_def)
  ultimately have low: "img s1 b = img s b" if "b < nmeta" for b using that by blast
  have "nd s1 j = nd s j" if "j < MAXINO" for j using low inode_block(2) [OF that] nmeta_eq by (simp add: nd_def)
  moreover have "img_ok (img s') (unat (freeblock s'))" using im1 img' len' fb' nmeta_eq by (auto simp: img_ok_def)
  moreover have "din_ok (nd s' k) (img s') (nblk m) (unat (freeblock s'))" using keep(2) unfolding ndk din_ok_def eq2 fb' by simp
  moreover have "unat (freeblock s) \<le> unat (freeblock s')"
    using ap fb' need_mono [OF nblk_mono [of n m]] by (simp add: appended_def m_def)
  moreover have "owns s' k \<subseteq> owns s k \<union> {unat (freeblock s)..<unat (freeblock s')}"
    using ap keep(1) fb' by (simp add: owns_def fsk ndk eq2 appended_def n_def m_def)
  moreover have "unat (freeblock s') + need (nblk (fsize s k)) = unat (freeblock s) + need (nblk m)" "freeinode s' = freeinode s"
    using ap fb' by (simp_all add: appended_def n_def m_def)
  ultimately have "updated k s s'"
    unfolding updated_def fsk using ndj img' low same nmeta_eq size by (simp add: n_def m_def)
  moreover have "file_bytes s' k = file_bytes s k @ p"
    using keep(3) [OF refl] ap by (simp add: file_bytes_def fsk ndk eq2 n_def m_def appended_def)
  moreover have "iappend (of_nat k) p s = Ok () s'"
    using run run' by (simp add: iappend_def rinode_ok [OF fk(1)] n_def fsize_def din2_def)
  ultimately show ?thesis using fsk by (auto simp: n_def m_def)
qed

text \<open>\<open>p\<close> has been appended to file \<open>k\<close>.\<close>

definition grown :: "nat \<Rightarrow> uchar list \<Rightarrow> mkfs \<Rightarrow> mkfs \<Rightarrow> bool" where
  "grown k p s s' \<longleftrightarrow> mk_ok s' \<and> freeinode s' = freeinode s \<and> file_bytes s' k = file_bytes s k @ p \<and>
     fsize s' k = fsize s k + length p \<and> others_kept k s s' \<and>
     unat (freeblock s') + need (nblk (fsize s k)) = unat (freeblock s) + need (nblk (fsize s k + length p))"

lemma iappend_grows:
  assumes "mk_ok s" "k \<in> {1..<unat (freeinode s)}" "fsize s k + length p \<le> MAXFILE * BSIZE"
    "unat (freeblock s) + need (nblk (fsize s k + length p)) \<le> FSSIZE + need (nblk (fsize s k))"
  shows "\<exists>s'. iappend (of_nat k) p s = Ok () s' \<and> grown k p s s'"
proof -
  obtain s' where s': "iappend (of_nat k) p s = Ok () s'" "updated k s s'" "file_bytes s' k = file_bytes s k @ p" "fsize s' k = fsize s k + length p"
    using iappend_updates [OF assms] by blast
  with updated_mk_ok [OF assms(1,2) s'(2)] show ?thesis by (auto simp: grown_def updated_def)
qed

lemma grown_trans: "grown k p s t \<Longrightarrow> grown k q t u \<Longrightarrow> grown k (p @ q) s u"
  by (simp add: grown_def others_kept_def add.assoc)

lemma iappend_chunks:
  "mk_ok s \<Longrightarrow> k \<in> {1..<unat (freeinode s)} \<Longrightarrow> fsize s k + length (concat cs) \<le> MAXFILE * BSIZE \<Longrightarrow>
   unat (freeblock s) + need (nblk (fsize s k + length (concat cs))) \<le> FSSIZE + need (nblk (fsize s k)) \<Longrightarrow>
   \<exists>s'. for_each (iappend (of_nat k)) cs s = Ok () s' \<and> grown k (concat cs) s s'"
proof (induction cs arbitrary: s)
  case Nil
  then show ?case by (simp add: grown_def others_kept_def)
next
  case (Cons c cs)
  have "need (nblk (fsize s k + length c)) \<le> need (nblk (fsize s k + length (concat (c # cs))))"
    by (intro need_mono nblk_mono) simp
  with iappend_grows [OF Cons.prems(1,2), of c] Cons.prems(3,4) obtain t
    where t: "iappend (of_nat k) c s = Ok () t" "grown k c s t" by auto
  moreover have "\<exists>u. for_each (iappend (of_nat k)) cs t = Ok () u \<and> grown k (concat cs) t u"
    using Cons.prems t(2) by (intro Cons.IH) (auto simp: grown_def add.assoc)
  ultimately show ?case using grown_trans by fastforce
qed

lemma din_ok_empty: "din_ok (zero_inode\<lparr>i_type := t, i_nlink := l, i_size := v\<rparr>) im 0 fb"
  by (auto simp: din_ok_def zero_inode_def owned_def nth_append nth_Cons')

lemma ialloc_ok:
  assumes ok: "mk_ok s" and fi: "unat (freeinode s) < MAXINO"
  shows "\<exists>s'. mk_ialloc type s = Ok (freeinode s) s' \<and> mk_ok s' \<and> unat (freeinode s') = Suc (unat (freeinode s)) \<and>
    file_bytes s' (unat (freeinode s)) = [] \<and> fsize s' (unat (freeinode s)) = 0 \<and> others_kept (unat (freeinode s)) s s' \<and>
    freeblock s' = freeblock s"
proof -
  define k where "k = unat (freeinode s)"
  define s1 where "s1 = s\<lparr>freeinode := freeinode s + 1\<rparr>"
  define din where "din = zero_inode\<lparr>i_type := type, i_nlink := 1, i_size := 0\<rparr>"
  have kM: "k < MAXINO" and kw: "freeinode s = of_nat k" using fi by (simp_all add: k_def)
  have im: "img_ok (img s) (unat (freeblock s))" using ok unfolding mk_ok_def by blast
  have len: "length (i_addrs din) = NDIRECT + 1" "plain din" by (simp_all add: din_def zero_inode_def plain_def)
  obtain s' where run: "winode (of_nat k) din s1 = Ok () s'" and ndk: "nd s' k = din" and ndj: "\<forall>j<MAXINO. j \<noteq> k \<longrightarrow> nd s' j = nd s1 j"
    and img': "\<forall>b. b < 32 \<or> 45 \<le> b \<longrightarrow> img s' b = img s b" and len': "\<forall>b. length (img s' b) = BSIZE"
    and fr: "freeblock s' = freeblock s" "freeinode s' = freeinode s + 1"
    using winode_ok [OF kM _ len, of s1] im by (auto simp: img_ok_def s1_def)
  have fk: "unat (freeinode s') = Suc k" using fr fi by (simp add: unat_word_ariths k_def MAXINO_eq)
  have nd: "nd s' j = nd s j" if "j < k" for j using ndj that kM by (simp add: s1_def nd_def)
  have size: "fsize s' k = 0" "owns s' k = {}" "file_bytes s' k = []" and dk: "din_ok (nd s' k) (img s') (nblk (fsize s' k)) (unat (freeblock s'))"
    using ndk din_ok_empty [where t = type and l = 1 and v = 0 and im = "img s'"]
    by (simp_all add: fsize_def owns_def owned_def file_bytes_def contents_def din_def nblk_def BSIZE_def)
  have old: "fsize s' j = fsize s j \<and> file_bytes s' j = file_bytes s j \<and> owns s' j = owns s j \<and>
      din_ok (nd s' j) (img s') (nblk (fsize s' j)) (unat (freeblock s'))" if "j \<in> {1..<k}" for j
  proof -
    note fj = mk_ok_file [OF ok that [unfolded k_def]]
    have n: "nd s' j = nd s j" using nd that by simp
    have "\<forall>b\<in>owned (nd s j) (img s) (nblk (fsize s j)). img s' b = img s b"
      using fj(3) img' nmeta_eq by (auto simp: owns_def subset_iff)
    note keep = file_keep [OF this fj(2) order_refl]
    show ?thesis using keep(1) keep(2) keep(3) [OF refl] n fr by (simp add: fsize_def file_bytes_def owns_def)
  qed
  have "(\<Sum>j\<in>{1..<k}. need (nblk (fsize s' j))) = (\<Sum>j\<in>{1..<k}. need (nblk (fsize s j)))" by (rule sum.cong) (use old in auto)
  moreover have "{1..<Suc k} = insert k {1..<k}" using ok by (auto simp: mk_ok_def k_def)
  ultimately have fb: "unat (freeblock s') = nmeta + (\<Sum>j\<in>{1..<Suc k}. need (nblk (fsize s' j)))"
    using ok fr size by (simp add: mk_ok_def k_def need_def nblk_def BSIZE_def)
  have "img_ok (img s') (unat (freeblock s'))" using im img' len' fr nmeta_eq by (auto simp: img_ok_def)
  moreover have "owns s' i \<inter> owns s' j = {}" if "i \<in> {1..<Suc k}" "j \<in> {1..<Suc k}" "i \<noteq> j" for i j
    using that old [of i] old [of j] size mk_ok_disjoint [OF ok, of i j] by (cases "i = k"; cases "j = k") (auto simp: k_def)
  moreover have "fsize s' j \<le> MAXFILE * BSIZE \<and> din_ok (nd s' j) (img s') (nblk (fsize s' j)) (unat (freeblock s'))" if "j \<in> {1..<Suc k}" for j
    using that old [of j] size dk mk_ok_file(4) [OF ok, of j] by (cases "j = k") (auto simp: k_def)
  ultimately have "mk_ok s'" using fb kM unfolding mk_ok_def fk by simp
  moreover have "mk_ialloc type s = Ok (freeinode s) s'"
    using run by (simp add: mk_ialloc_def s1_def din_def kw)
  ultimately show ?thesis using fk size old img' fr by (auto simp: others_kept_def k_def)
qed

subsection \<open>The bitmap and the superblock\<close>

lemma block_bit_bit: "block_bit d bi \<longleftrightarrow> bit (d ! (bi div 8)) (bi mod 8)"
  by (simp add: block_bit_def bit_iff_and_push_bit_not_eq_0)

lemma length_set_block_bit [simp]: "length (set_block_bit i d) = length d"
  by (simp add: set_block_bit_def)

lemma block_bit_set:
  assumes "i < 8 * length d" "j < 8 * length d"
  shows "block_bit (set_block_bit i d) j \<longleftrightarrow> j = i \<or> block_bit d j"
proof -
  have "j = i \<longleftrightarrow> j div 8 = i div 8 \<and> j mod 8 = i mod 8" by (metis div_mult_mod_eq)
  moreover have "i div 8 < length d" "j div 8 < length d" using assms by auto
  ultimately show ?thesis
    by (cases "j div 8 = i div 8") (auto simp: block_bit_bit set_block_bit_def bit_simps)
qed

lemma bitmap_fold:
  "used \<le> 8 * length d \<Longrightarrow> j < 8 * length d \<Longrightarrow>
    length (fold set_block_bit [0..<used] d) = length d \<and>
    (block_bit (fold set_block_bit [0..<used] d) j \<longleftrightarrow> j < used \<or> block_bit d j)"
proof (induction used)
  case (Suc n)
  let ?d = "fold set_block_bit [0..<n] d"
  have "length ?d = length d" "block_bit ?d j \<longleftrightarrow> j < n \<or> block_bit d j" using Suc by auto
  with Suc.prems show ?case using block_bit_set [of n ?d j] by auto
qed simp

lemma bmapstart_eq: "unat (sb_bmapstart mk_sb) = 45"
  by (simp add: mk_sb_def nlog_def LOGSIZE_def ninodeblocks_def NINODES_def IPB_def BSIZE_def)

lemma balloc_ok:
  assumes "used < BPB"
  shows "\<exists>s'. mk_balloc used s = Ok () s' \<and> (\<forall>b<BPB. block_bit (img s' 45) b \<longleftrightarrow> b < used) \<and>
    (\<forall>b. b \<noteq> 45 \<longrightarrow> img s' b = img s b) \<and> freeblock s' = freeblock s \<and> freeinode s' = freeinode s"
proof -
  define buf where "buf = fold set_block_bit [0..<used] (replicate BSIZE 0)"
  have "block_bit buf b \<longleftrightarrow> b < used" if "b < BPB" for b
    using bitmap_fold [of used "replicate BSIZE 0" b] that assms by (simp add: buf_def BPB_def block_bit_bit)
  moreover have "mk_balloc used s = Ok () (wsect (sb_bmapstart mk_sb) buf s)"
    using assms by (simp add: mk_balloc_def buf_def set_block_bit_def [abs_def] BPB_def)
  ultimately show ?thesis by (simp add: wsect_def bmapstart_eq)
qed

definition sb_block :: "uchar list" where
  "sb_block = put (replicate BSIZE 0) 0 (sb_bytes mk_sb)"

lemma superblock_read: "superblock_of sb_block = mk_sb" "length sb_block = BSIZE"
proof -
  define ws where "ws = [sb_magic mk_sb, sb_size mk_sb, sb_nblocks mk_sb, sb_ninodes mk_sb, sb_nlog mk_sb, sb_logstart mk_sb,
    sb_inodestart mk_sb, sb_bmapstart mk_sb]"
  have bytes: "sb_bytes mk_sb = concat (map (\<lambda>v. bytes_le 4 (ucast v)) ws)" by (simp add: sb_bytes_def ws_def)
  have len: "length (sb_bytes mk_sb) = 32" unfolding bytes length_concat_words by (simp add: ws_def)
  have "get32 sb_block (0 + 4 * k) = ws ! k" if "k < 8" for k
    unfolding sb_block_def get32_slice
    by (subst slice_put_in) (use that len slice_concat_words [of k ws] in \<open>simp_all add: BSIZE_def bytes ucast_bytes_le_4 ws_def\<close>)
  from this [of 0] this [of 1] this [of 2] this [of 3] this [of 4] this [of 5] this [of 6] this [of 7]
  show "superblock_of sb_block = mk_sb" by (simp add: superblock_of_def ws_def)
  show "length sb_block = BSIZE" using len by (simp add: sb_block_def BSIZE_def)
qed

subsection \<open>The whole image\<close>

definition root_dir :: "(uchar list \<times> uchar list list) list \<Rightarrow> uchar list" where
  "root_dir files = mk_dirent 1 [46] @ mk_dirent 1 [46, 46] @
     concat (map (\<lambda>i. mk_dirent (of_nat (i + 2)) (the (shortname (fst (files ! i))))) [0..<length files])"

definition file_len :: "uchar list \<times> uchar list list \<Rightarrow> nat" where
  "file_len f = length (concat (snd f))"

text \<open>The sectors the root directory and the files take.\<close>

definition total_need :: "(uchar list \<times> uchar list list) list \<Rightarrow> nat" where
  "total_need files = need (nblk (16 * (length files + 2))) + (\<Sum>f\<leftarrow>files. need (nblk (file_len f)))"

definition files_inv :: "(uchar list \<times> uchar list list) list \<Rightarrow> mkfs \<Rightarrow> bool" where
  "files_inv ds s \<longleftrightarrow> mk_ok s \<and> unat (freeinode s) = length ds + 2 \<and> img s 1 = sb_block \<and>
     fsize s 1 = 16 * (length ds + 2) \<and> file_bytes s 1 = root_dir ds \<and>
     (\<forall>i<length ds. fsize s (i + 2) = file_len (ds ! i) \<and> file_bytes s (i + 2) = concat (snd (ds ! i)))"

lemma length_dirent [simp]: "length (mk_dirent i n) = 16"
proof -
  have "length (strncpy_list m t) = m" for m t by (induction m arbitrary: t) auto
  then show ?thesis by (simp add: mk_dirent_def DIRSIZ_def)
qed

lemma files_inv_freeblock:
  assumes "files_inv ds s"
  shows "unat (freeblock s) = nmeta + total_need ds"
proof -
  have "unat (freeblock s) = nmeta + (\<Sum>k\<in>{1..<length ds + 2}. need (nblk (fsize s k)))"
    using assms by (simp add: files_inv_def mk_ok_def)
  also have "{1..<length ds + 2} = insert 1 ((\<lambda>i. i + 2) ` {..<length ds})"
  proof (intro equalityI subsetI)
    fix x assume "x \<in> {1..<length ds + 2}"
    then have "x = 1 \<or> x = x - 2 + 2 \<and> x - 2 < length ds" by auto
    then show "x \<in> insert 1 ((\<lambda>i. i + 2) ` {..<length ds})" by blast
  qed auto
  also have "(\<Sum>k\<in>insert 1 ((\<lambda>i. i + 2) ` {..<length ds}). need (nblk (fsize s k))) =
      need (nblk (fsize s 1)) + (\<Sum>i<length ds. need (nblk (fsize s (i + 2))))"
    by (subst sum.insert) (auto simp: sum.reindex [of _ _ "\<lambda>k. need (nblk (fsize s k))"] inj_on_def o_def)
  also have "(\<Sum>i<length ds. need (nblk (fsize s (i + 2)))) = (\<Sum>i<length ds. need (nblk (file_len (ds ! i))))"
    by (rule sum.cong) (use assms in \<open>auto simp: files_inv_def\<close>)
  finally show ?thesis using assms
    by (simp add: files_inv_def total_need_def sum_list_sum_nth atLeast0LessThan)
qed

lemma root_dir_snoc:
  assumes "shortname (fst f) = Some nm"
  shows "root_dir (ds @ [f]) = root_dir ds @ mk_dirent (of_nat (length ds + 2)) nm"
  by (auto simp: root_dir_def nth_append assms intro!: arg_cong [where f = concat])

lemma others_keptD:
  assumes "others_kept k s s'" "j \<in> {1..<unat (freeinode s)}" "j \<noteq> k"
  shows "file_bytes s' j = file_bytes s j" "fsize s' j = fsize s j"
  using assms unfolding others_kept_def by blast+

lemma add_file_ok:
  assumes inv: "files_inv ds s" and nm: "shortname (fst f) = Some nm" and ino: "length ds + 3 \<le> MAXINO"
    and len: "file_len f \<le> MAXFILE * BSIZE" and sp: "nmeta + total_need (ds @ [f]) \<le> FSSIZE"
  shows "\<exists>s'. add_file 1 f s = Ok () s' \<and> files_inv (ds @ [f]) s'"
proof -
  define k where "k = length ds + 2"
  have k: "unat (freeinode s) = k" using inv by (simp add: files_inv_def k_def)
  then have kw: "freeinode s = of_nat k" by auto
  have ok: "mk_ok s" using inv by (simp add: files_inv_def)
  have fb: "unat (freeblock s) = nmeta + total_need ds" by (rule files_inv_freeblock [OF inv])
  obtain s1 where s1: "mk_ialloc T_FILE s = Ok (of_nat k) s1" "mk_ok s1" "unat (freeinode s1) = Suc k" "file_bytes s1 k = []" "fsize s1 k = 0"
    "others_kept k s s1" "freeblock s1 = freeblock s"
    using ialloc_ok [OF ok, of T_FILE, unfolded k] ino unfolding kw [symmetric] by (auto simp: k_def)
  have one: "fsize s1 1 = 16 * k" "file_bytes s1 1 = root_dir ds"
    using s1(6) inv k by (auto simp: others_kept_def files_inv_def k_def)
  have "16 * (k + 1) \<le> MAXFILE * BSIZE" using ino by (simp add: MAXINO_eq k_def MAXFILE_def NDIRECT_def NINDIRECT_def BSIZE_def)
  then obtain s2 where s2: "iappend (of_nat 1) (mk_dirent (of_nat k) nm) s1 = Ok () s2" "grown 1 (mk_dirent (of_nat k) nm) s1 s2"
    using iappend_grows [OF s1(2), of 1 "mk_dirent (of_nat k) nm"] one s1(3,7) fb sp by (auto simp: k_def total_need_def)
  have kk: "fsize s2 k = 0" "file_bytes s2 k = []" "unat (freeinode s2) = Suc k" "mk_ok s2"
    using s2(2) s1 by (auto simp: grown_def others_kept_def k_def)
  have "need (nblk 0) = 0" by (simp add: need_def nblk_def BSIZE_def)
  then obtain s3 where s3: "for_each (iappend (of_nat k)) (snd f) s2 = Ok () s3" "grown k (concat (snd f)) s2 s3"
    using iappend_chunks [OF kk(4), of k "snd f"] kk(1,3) s2(2) one s1(7) fb sp len
    by (auto simp: k_def total_need_def grown_def file_len_def add.commute)
  have g2: "freeinode s2 = freeinode s1" "others_kept 1 s1 s2" "fsize s2 1 = 16 * k + 16" "file_bytes s2 1 = root_dir ds @ mk_dirent (of_nat k) nm"
    using s2(2) one by (simp_all add: grown_def)
  have g3: "mk_ok s3" "freeinode s3 = freeinode s2" "others_kept k s2 s3" "fsize s3 k = file_len f" "file_bytes s3 k = concat (snd f)"
    using s3(2) kk by (simp_all add: grown_def file_len_def)
  have r: "fsize s3 1 = 16 * (k + 1)" "file_bytes s3 1 = root_dir (ds @ [f])"
    using others_keptD [OF g3(3), of 1] g2 kk(3) root_dir_snoc [OF nm] by (auto simp: k_def)
  have "fsize s3 (i + 2) = file_len (ds ! i) \<and> file_bytes s3 (i + 2) = concat (snd (ds ! i))" if "i < length ds" for i
    using that inv k s1(3) kk(3) others_keptD [OF s1(6), of "i + 2"] others_keptD [OF g2(2), of "i + 2"] others_keptD [OF g3(3), of "i + 2"]
    by (simp add: files_inv_def k_def)
  moreover have "img s3 1 = sb_block" using inv s1(6) g2(2) g3(3) by (simp add: files_inv_def others_kept_def)
  ultimately have "files_inv (ds @ [f]) s3"
    unfolding files_inv_def using r g3 g2(1) s1(3) by (auto simp: k_def nth_append less_Suc_eq)
  moreover have "add_file 1 f s = Ok () s3" using s1(1) s2(1) s3(1) nm by (simp add: add_file_def split_beta)
  ultimately show ?thesis by blast
qed

lemma total_need_mono: "total_need (xs @ [f]) \<le> total_need (xs @ f # fs)"
  unfolding total_need_def by (intro add_mono need_mono nblk_mono) auto

lemma add_files_ok:
  "files_inv ds s \<Longrightarrow> \<forall>f\<in>set fs. shortname (fst f) \<noteq> None \<and> file_len f \<le> MAXFILE * BSIZE \<Longrightarrow>
   length ds + length fs + 2 \<le> MAXINO \<Longrightarrow> nmeta + total_need (ds @ fs) \<le> FSSIZE \<Longrightarrow>
   \<exists>s'. for_each (add_file 1) fs s = Ok () s' \<and> files_inv (ds @ fs) s'"
proof (induction fs arbitrary: ds s)
  case (Cons f fs)
  obtain nm where nm: "shortname (fst f) = Some nm" using Cons.prems(2) by auto
  obtain t where t: "add_file 1 f s = Ok () t" "files_inv (ds @ [f]) t"
    using add_file_ok [OF Cons.prems(1) nm] Cons.prems total_need_mono [of ds f fs] by auto
  then show ?case using Cons.IH [OF t(2)] Cons.prems by auto
qed simp

lemma mk_start:
  "\<exists>s. bnd (mk_ialloc T_DIR (wsect 1 sb_block \<lparr>img = \<lambda>_. replicate BSIZE 0, freeinode = 1, freeblock = of_nat nmeta\<rparr>)) (\<lambda>r s.
      if r \<noteq> ROOTINO then Panic ''assert''
      else bnd (iappend r (mk_dirent r [46]) s) (\<lambda>_ s. iappend r (mk_dirent r [46, 46]) s)) = Ok () s \<and> files_inv [] s"
proof -
  define s0 where "s0 = wsect 1 sb_block \<lparr>img = \<lambda>_. replicate BSIZE 0, freeinode = 1, freeblock = of_nat nmeta\<rparr>"
  have s0: "unat (freeinode s0) = 1" "freeinode s0 = 1" "unat (freeblock s0) = 46" "img s0 1 = sb_block"
    by (simp_all add: s0_def wsect_def nmeta_eq)
  have "mk_ok s0" using superblock_read(2) nmeta_eq s0
    by (auto simp: mk_ok_def img_ok_def MAXINO_eq s0_def wsect_def)
  then obtain s1 where s1: "mk_ialloc T_DIR s0 = Ok 1 s1" "mk_ok s1" "unat (freeinode s1) = 2" "file_bytes s1 1 = []" "fsize s1 1 = 0"
    "others_kept 1 s0 s1" "freeblock s1 = freeblock s0"
    using ialloc_ok [of s0 T_DIR] s0 by (auto simp: MAXINO_eq)
  have small: "need (nblk 0) = 0" "need (nblk 16) = 1" "need (nblk 32) = 1" "32 \<le> MAXFILE * BSIZE"
    by (simp_all add: need_def nblk_def BSIZE_def NDIRECT_def MAXFILE_def NINDIRECT_def)
  obtain s2 where s2: "iappend (of_nat 1) (mk_dirent 1 [46]) s1 = Ok () s2" "grown 1 (mk_dirent 1 [46]) s1 s2"
    using iappend_grows [OF s1(2), of 1 "mk_dirent 1 [46]"] s1 s0 small by (auto simp: FSSIZE_def)
  have k2: "mk_ok s2" "unat (freeinode s2) = 2" "fsize s2 1 = 16" "file_bytes s2 1 = mk_dirent 1 [46]" "unat (freeblock s2) = 47" "img s2 1 = sb_block"
    using s2(2) s1 s0 small by (auto simp: grown_def others_kept_def)
  obtain s3 where s3: "iappend (of_nat 1) (mk_dirent 1 [46, 46]) s2 = Ok () s3" "grown 1 (mk_dirent 1 [46, 46]) s2 s3"
    using iappend_grows [OF k2(1), of 1 "mk_dirent 1 [46, 46]"] k2 small by (auto simp: FSSIZE_def)
  have "files_inv [] s3" using s3(2) k2 by (auto simp: files_inv_def grown_def others_kept_def root_dir_def)
  moreover have "iappend 1 (mk_dirent 1 [46]) s1 = Ok () s2" "iappend 1 (mk_dirent 1 [46, 46]) s2 = Ok () s3" using s2(1) s3(1) by simp_all
  ultimately show ?thesis using s1(1) unfolding s0_def [symmetric] by (simp add: ROOTINO_def)
qed

text \<open>The end of \<open>main\<close>: the size of the root directory is rounded up and the bitmap is written.\<close>

lemma mk_finish:
  assumes inv: "files_inv files s" and fb: "nmeta + total_need files \<le> FSSIZE" and ino: "length files + 2 \<le> MAXINO"
  shows "\<exists>t. bnd (rinode 1 s) (\<lambda>din s. bnd (winode 1 (din\<lparr>i_size := v din\<rparr>) s) (\<lambda>_ s. mk_balloc (unat (freeblock s)) s)) = Ok () t \<and>
    img t 1 = sb_block \<and> (\<forall>i<length files. file_bytes t (i + 2) = concat (snd (files ! i))) \<and>
    contents (nd t 1) (img t) (16 * (length files + 2)) = root_dir files \<and>
    unat (freeblock t) = nmeta + total_need files \<and> (\<forall>b<BPB. block_bit (img t 45) b \<longleftrightarrow> b < unat (freeblock t))"
proof -
  have ok: "mk_ok s" and fi: "unat (freeinode s) = length files + 2" using inv by (simp_all add: files_inv_def)
  have im: "img_ok (img s) (unat (freeblock s))" using ok unfolding mk_ok_def by blast
  define din where "din = (nd s 1)\<lparr>i_size := v (nd s 1)\<rparr>"
  have one: "1 \<in> {1..<unat (freeinode s)}" using fi by simp
  note f1 = mk_ok_file [OF ok one]
  have len: "length (i_addrs din) = NDIRECT + 1" "plain din" using f1(2) plain_nd [of s 1] by (simp_all add: din_def din_ok_def plain_def)
  obtain u where u: "winode (of_nat 1) din s = Ok () u" "nd u 1 = din" "\<forall>j<MAXINO. j \<noteq> 1 \<longrightarrow> nd u j = nd s j"
    "\<forall>b. b < 32 \<or> 45 \<le> b \<longrightarrow> img u b = img s b" "freeblock u = freeblock s"
    using winode_ok [OF f1(1) _ len, of s] im by (auto simp: img_ok_def)
  have fbs: "unat (freeblock s) = nmeta + total_need files" by (rule files_inv_freeblock [OF inv])
  then have "unat (freeblock s) < BPB" using fb by (simp add: BPB_def BSIZE_def FSSIZE_def)
  from balloc_ok [OF this, of u] obtain t where t: "mk_balloc (unat (freeblock s)) u = Ok () t"
    "\<forall>b<BPB. block_bit (img t 45) b \<longleftrightarrow> b < unat (freeblock s)" "\<forall>b. b \<noteq> 45 \<longrightarrow> img t b = img u b" "freeblock t = freeblock u" by blast
  have same: "img t b = img s b" if "b < 32 \<or> nmeta \<le> b" for b using that t(3) u(4) nmeta_eq by auto
  have nd: "nd t j = nd u j" if "j < MAXINO" for j using t(3) inode_block(2) [OF that] by (simp add: nd_def)
  have keep: "\<forall>b\<in>owned (nd s j) (img s) (nblk (fsize s j)). img t b = img s b" if "j \<in> {1..<unat (freeinode s)}" for j
    using mk_ok_file(3) [OF ok that] same by (auto simp: owns_def)
  have "file_bytes t (i + 2) = concat (snd (files ! i))" if "i < length files" for i
  proof -
    have j: "i + 2 \<in> {1..<unat (freeinode s)}" using that fi by simp
    note fj = mk_ok_file [OF ok j]
    have n: "nd t (i + 2) = nd s (i + 2)" using nd [OF fj(1)] u(3) fj(1) by simp
    have "file_bytes t (i + 2) = file_bytes s (i + 2)"
      using file_keep(3) [OF keep [OF j] fj(2) order_refl refl] n by (simp add: file_bytes_def fsize_def)
    then show ?thesis using inv that by (simp add: files_inv_def)
  qed
  moreover have "fsize s 1 = 16 * (length files + 2)" "file_bytes s 1 = root_dir files" using inv by (simp_all add: files_inv_def)
  then have "contents (nd t 1) (img t) (16 * (length files + 2)) = root_dir files"
    using file_keep(3) [OF keep [OF one] f1(2) order_refl refl] nd [OF f1(1)] u(2)
    by (metis file_bytes_def din_def layout_size(4))
  moreover have "img t 1 = sb_block" using same inv by (simp add: files_inv_def)
  moreover have "rinode 1 s = Ok (nd s 1) s" "winode 1 din s = Ok () u" using rinode_ok [OF f1(1)] u(1) by simp_all
  ultimately show ?thesis using t(1,2,4) u(5) fbs unfolding din_def by (intro exI [of _ t]) simp
qed

text \<open>
  C15: the image that \<open>mkfs\<close> writes, when the files fit. The kernel reads the superblock that was meant; the root
  directory has the entries for itself and for every file, with the inode numbers of the files;
  every file has exactly the bytes that were read from the host; and the bitmap marks exactly the
  blocks below the first free one, which are as many as the files need.
\<close>

theorem mkfs_image:
  assumes "\<forall>f\<in>set files. shortname (fst f) \<noteq> None \<and> file_len f \<le> MAXFILE * BSIZE"
    and "length files + 2 \<le> MAXINO" "nmeta + total_need files \<le> FSSIZE"
  shows "\<exists>s. mkfs_main files = Ok () s \<and> superblock_of (img s 1) = mk_sb \<and>
    contents (nd s 1) (img s) (16 * (length files + 2)) = root_dir files \<and>
    (\<forall>i<length files. file_bytes s (i + 2) = concat (snd (files ! i))) \<and>
    unat (freeblock s) = nmeta + total_need files \<and>
    (\<forall>b<BPB. block_bit (img s (unat (sb_bmapstart mk_sb))) b \<longleftrightarrow> b < unat (freeblock s))"
proof -
  obtain s where s: "bnd (mk_ialloc T_DIR (wsect 1 sb_block \<lparr>img = \<lambda>_. replicate BSIZE 0, freeinode = 1, freeblock = of_nat nmeta\<rparr>)) (\<lambda>r s.
      if r \<noteq> ROOTINO then Panic ''assert''
      else bnd (iappend r (mk_dirent r [46]) s) (\<lambda>_ s. iappend r (mk_dirent r [46, 46]) s)) = Ok () s" "files_inv [] s"
    using mk_start by blast
  then obtain a b where a: "mk_ialloc T_DIR (wsect 1 sb_block \<lparr>img = \<lambda>_. replicate BSIZE 0, freeinode = 1, freeblock = of_nat nmeta\<rparr>) = Ok 1 a"
    "iappend 1 (mk_dirent 1 [46]) a = Ok () b" "iappend 1 (mk_dirent 1 [46, 46]) b = Ok () s"
    by (auto simp: bnd_eq_Ok ROOTINO_def split: if_splits)
  obtain t where t: "for_each (add_file 1) files s = Ok () t" "files_inv files t"
    using add_files_ok [OF s(2), of files] assms by auto
  from mk_finish [OF t(2) assms(3,2), of "\<lambda>din. xint (of_nat ((unat (xint (i_size din)) div BSIZE + 1) * BSIZE))"]
  obtain u where u: "bnd (rinode 1 t) (\<lambda>din s. bnd (winode 1 (din\<lparr>i_size := xint (of_nat ((unat (xint (i_size din)) div BSIZE + 1) * BSIZE))\<rparr>) s)
      (\<lambda>_ s. mk_balloc (unat (freeblock s)) s)) = Ok () u" "img u 1 = sb_block" "\<forall>i<length files. file_bytes u (i + 2) = concat (snd (files ! i))"
    "contents (nd u 1) (img u) (16 * (length files + 2)) = root_dir files" "unat (freeblock u) = nmeta + total_need files"
    "\<forall>b<BPB. block_bit (img u 45) b \<longleftrightarrow> b < unat (freeblock u)" by blast
  have "mkfs_main files = Ok () u"
    using a t(1) u(1) by (simp add: mkfs_main_def sb_block_def [symmetric] ROOTINO_def Let_def)
  then show ?thesis using u(2-6) superblock_read(1) bmapstart_eq by auto
qed

theorem mkfs_image_witness:
  "\<exists>s. mkfs_main [([117, 115, 101, 114, 47, 95, 97], [[1, 2], [3]])] = Ok () s \<and> file_bytes s 2 = [1, 2, 3]"
proof -
  let ?f = "([117, 115, 101, 114, 47, 95, 97], [[1, 2], [3]]) :: uchar list \<times> uchar list list"
  have "shortname (fst ?f) \<noteq> None \<and> file_len ?f \<le> MAXFILE * BSIZE"
    by (simp add: shortname_def file_len_def MAXFILE_def NDIRECT_def NINDIRECT_def BSIZE_def)
  moreover have "nmeta + total_need [?f] \<le> FSSIZE"
    by (simp add: nmeta_eq total_need_def need_def nblk_def file_len_def BSIZE_def NDIRECT_def FSSIZE_def)
  ultimately obtain s where "mkfs_main [?f] = Ok () s" "\<forall>i<length [?f]. file_bytes s (i + 2) = concat (snd ([?f] ! i))"
    using mkfs_image [of "[?f]"] by (auto simp: MAXINO_eq)
  then show ?thesis by (intro exI [of _ s]) (auto simp: numeral_2_eq_2)
qed

end
