(* ===== verification/DiskService.thy ===== *)
theory DiskService
  imports BioList DiskLayout
begin

text \<open>
  What the driver of the disk does when the device serves its requests (\<open>kernel/virtio_disk.c\<close>). The device and the
  interrupt that wakes the driver are not code of the kernel: they are part of the parameter \<open>sw\<close>, what happens while
  the process is asleep, and \<open>disk_serves\<close> says what is expected of them, for a process that is alone with the
  disk. The field \<open>dev_writes\<close> has the writes that have reached the disk, in order.
\<close>

subsection \<open>Total correctness\<close>

definition twp :: "('a, 's) res \<Rightarrow> ('a \<Rightarrow> 's \<Rightarrow> bool) \<Rightarrow> bool" where
  "twp m Q \<longleftrightarrow> (\<exists>r t. m = Ok r t \<and> Q r t)"

lemma twp_simps [simp]:
  "twp (Ok r t) Q = Q r t" "\<not> twp (Panic e) Q" "\<not> twp Spin Q" "\<not> twp Diverge Q"
  "twp (bnd m k) Q = twp m (\<lambda>r t. twp (k r t) Q)"
  by (cases m; auto simp: twp_def)+

lemma twp_mono: "twp m Q \<Longrightarrow> (\<And>r t. Q r t \<Longrightarrow> R r t) \<Longrightarrow> twp m R"
  by (auto simp: twp_def)

subsection \<open>The device\<close>

type_synonym image = "nat \<Rightarrow> uchar list"

record dvst = lgst +
  dev_writes :: "(nat \<times> uchar list) list"

definition apply_writes :: "image \<Rightarrow> (nat \<times> uchar list) list \<Rightarrow> image" where
  "apply_writes m ws = fold (\<lambda>(b, d) m. m(b := d)) ws m"

lemma apply_writes_simps [simp]:
  "apply_writes m [] = m" "apply_writes m (ws @ [(b, d)]) = (apply_writes m ws)(b := d)"
  by (simp_all add: apply_writes_def)

text \<open>
  The newest entry of the available ring is the head \<open>i\<close> of a chain of three descriptors: the request, the data of
  buffer \<open>b\<close> and the status. The request is a transfer of block \<open>bno\<close>, of two sectors, to the disk if \<open>wr\<close>, from it
  otherwise.
\<close>

definition requested :: "nat \<Rightarrow> nat \<Rightarrow> nat \<Rightarrow> bool \<Rightarrow> 'z vdst_scheme \<Rightarrow> bool" where
  "requested i b bno wr s \<longleftrightarrow>
     (let d = disk s; j = unat (d_next (desc d i)); k = unat (d_next (desc d j)) in
      i = unat (avail_ring d (unat (avail_idx d - 1) mod NUM)) \<and>
      d_addr (desc d i) = D_op i \<and> d_flags (desc d i) = VRING_DESC_F_NEXT \<and>
      d_addr (desc d j) = D_data b \<and> d_flags (desc d j) = (if wr then 0 else VRING_DESC_F_WRITE) OR VRING_DESC_F_NEXT \<and>
      d_addr (desc d k) = D_status i \<and> d_flags (desc d k) = VRING_DESC_F_WRITE \<and>
      r_type (ops d i) = (if wr then VIRTIO_BLK_T_OUT else VIRTIO_BLK_T_IN) \<and> unat (r_sector (ops d i)) = 2 * bno \<and>
      info_b d i = Some b \<and> b_disk (bufs s b) = 1)"

text \<open>
  \<open>disk_serves m sw\<close>: for a disk that held \<open>m\<close> before the writes of \<open>dev_writes\<close>, a process that sleeps for its
  request finds the transfer done, its buffer given back by the interrupt handler and itself
  running, when it is resumed; the descriptors are as it left them.
\<close>

definition disk_serves :: "image \<Rightarrow> 'z dvst_scheme switch \<Rightarrow> bool" where
  "disk_serves m sw \<longleftrightarrow>
     (\<forall>s p i b bno wr. requested i b bno wr s \<and> cpu_proc (cpus s (hart s)) = Some p \<and>
        p_state (procs s p) = SLEEPING \<and> p_chan (procs s p) = Ch_buf b \<longrightarrow>
        (\<exists>d. desc d = desc (disk s) \<and> dfree d = dfree (disk s) \<and>
          sw s = Ok () (s\<lparr>disk := d, procs := (procs s)(p := (procs s p)\<lparr>p_state := RUNNING\<rparr>),
            bufs := (bufs s)(b := (bufs s b)\<lparr>b_disk := 0,
              b_data := (if wr then b_data (bufs s b) else apply_writes m (dev_writes s) bno)\<rparr>),
            dev_writes := dev_writes s @ (if wr then [(bno, b_data (bufs s b))] else [])\<rparr>)))"

lemma disk_servesD:
  "disk_serves m sw \<Longrightarrow> requested i b bno wr s \<Longrightarrow> cpu_proc (cpus s (hart s)) = Some p \<Longrightarrow> p_state (procs s p) = SLEEPING \<Longrightarrow>
    p_chan (procs s p) = Ch_buf b \<Longrightarrow> \<exists>d. desc d = desc (disk s) \<and> dfree d = dfree (disk s) \<and>
      sw s = Ok () (s\<lparr>disk := d, procs := (procs s)(p := (procs s p)\<lparr>p_state := RUNNING\<rparr>),
        bufs := (bufs s)(b := (bufs s b)\<lparr>b_disk := 0,
          b_data := (if wr then b_data (bufs s b) else apply_writes m (dev_writes s) bno)\<rparr>),
        dev_writes := dev_writes s @ (if wr then [(bno, b_data (bufs s b))] else [])\<rparr>)"
  unfolding disk_serves_def by blast

subsection \<open>The driver\<close>

text \<open>Process \<open>p\<close> runs on its hart, no lock is held, nobody sleeps, and all descriptors are free.\<close>

definition calm :: "nat \<Rightarrow> 'z dvst_scheme \<Rightarrow> bool" where
  "calm p s \<longleftrightarrow> p < NPROC \<and> slots_free s \<and> cpu_proc (cpus s (hart s)) = Some p \<and> noff (cpus s (hart s)) = 0 \<and>
     p_state (procs s p) = RUNNING \<and> p_chan (procs s p) = Ch_null \<and> (\<forall>q<NPROC. p_state (procs s q) \<noteq> SLEEPING) \<and>
     lk_free (locks s L_vdisk) \<and> lk_free (locks s L_bcache) \<and> lk_free (locks s L_log) \<and>
     (\<forall>b<NBUF. lk_free (locks s (L_bufsleep b))) \<and> (\<forall>i<NUM. dfree (disk s) i)"

lemma hold_commute: "lk \<noteq> lk' \<Longrightarrow> irqs_ok s \<Longrightarrow> hold lk (hold lk' s) = hold lk' (hold lk s)"
  by (cases s) (auto simp: hold_def push_off_def mach_defs Let_def irq_ok_def fun_eq_iff)

lemma wakeup_nobody:
  assumes "slots_free s" "\<forall>q<NPROC. p_state (procs s q) \<noteq> SLEEPING"
  shows "wakeup ch s = Ok () (touch s)"
proof -
  have "(\<lambda>p. if p < NPROC \<and> cpu_proc (cpus s (hart s)) \<noteq> Some p then woken ch (procs s p) else procs s p) = procs s"
    using assms(2) by (auto simp: fun_eq_iff woken_def)
  then show ?thesis by (simp add: wakeup_eq [OF assms(1)])
qed

lemma hold_touch [simp]: "irqs_ok s \<Longrightarrow> hold lk (touch s) = hold lk s"
  by (cases s) (auto simp: hold_def touch_def push_off_def mach_defs Let_def irq_ok_def fun_eq_iff)

lemma hold_dvst [simp]: "log (hold lk s) = log s" "dev_writes (hold lk t) = dev_writes t"
  by (simp_all add: hold_def push_off_def mach_defs Let_def)

lemma touch_dvst [simp]: "log (touch s) = log s" "dev_writes (touch t) = dev_writes t"
  by (simp_all add: touch_def)

lemma upd_proc_dvst [simp]: "log (upd_proc p f s) = log s" "dev_writes (upd_proc p f t) = dev_writes t"
  by (simp_all add: upd_proc_def)

lemma hold_dvst_upd [lock_simps]:
  "(hold lk s)\<lparr>procs := a\<rparr> = hold lk (s\<lparr>procs := a\<rparr>)" "(hold lk t)\<lparr>dev_writes := w\<rparr> = hold lk (t\<lparr>dev_writes := w\<rparr>)"
  by (simp_all add: hold_def push_off_def mach_defs Let_def)

lemma intena_hold: "noff (cpus s (hart s)) = 0 \<Longrightarrow> intena (cpus (hold lk s) (hart s)) = sie s (hart s)"
  by (simp add: hold_def push_off_def mach_defs Let_def)

lemma set_intena_hold:
  "noff (cpus s (hart s)) = 0 \<Longrightarrow> upd_mycpu (\<lambda>c. c\<lparr>intena := sie s (hart s)\<rparr>) (hold lk s) = hold lk s"
  by (cases s) (auto simp: hold_def push_off_def mach_defs Let_def fun_eq_iff)

text \<open>Sleeping, for a process that is alone: \<open>sw\<close> changes the state by \<open>g\<close>, which keeps the locks and the hart.\<close>

lemma sleep_alone:
  fixes s t :: "'z pst_scheme"
  assumes s: "slots_free s" "noff (cpus s (hart s)) = 0" "cpu_proc (cpus s (hart s)) = Some p" "p < NPROC" "lk_free (locks s lk)" "\<forall>q. lk \<noteq> L_proc q"
    and sw: "sw (hold (L_proc p) (upd_proc p (\<lambda>q. q\<lparr>p_chan := ch, p_state := SLEEPING\<rparr>) s)) = Ok () (hold (L_proc p) t)"
    and t: "cpus t = cpus s" "hart t = hart s" "sie t = sie s" "locks t = locks s"
  shows "sleep sw ch lk (hold lk s) = Ok () (hold lk (upd_proc p (\<lambda>q. q\<lparr>p_chan := Ch_null\<rparr>) t))"
proof -
  have irq: "irqs_ok s" "irqs_ok t" "lk_free (locks s (L_proc p))" "lk_free (locks t (L_proc p))"
    using s t by (auto simp: slots_free_def)
  have cur: "curproc (hold lk s) = Ok p (hold lk s)" using s irq by (simp add: curproc_eq)
  have acq: "acquire (L_proc p) (hold lk s) = Ok () (hold lk (hold (L_proc p) s))"
    using irq s(6) hold_commute [of "L_proc p" lk s] by (subst acquire_free) auto
  have rel: "release lk (hold lk (hold (L_proc p) s)) = Ok () (hold (L_proc p) s)"
    using irq s by (subst release_hold) auto
  have hp: "upd_proc p f (hold lk' u) = hold lk' (upd_proc p f u)" for f lk' and u :: "'z pst_scheme"
    by (simp add: upd_proc_def lock_simps)
  let ?s = "upd_proc p (\<lambda>q. q\<lparr>p_chan := ch, p_state := SLEEPING\<rparr>) s"
  have sch: "sched sw (hold (L_proc p) ?s) = Ok () (hold (L_proc p) t)"
    using irq s t sw set_intena_hold [of t "L_proc p"] hold_simps(4) [of "L_proc p" ?s] intena_hold [of ?s "L_proc p"]
    by (simp add: sched_def curproc_eq holding_def cpuid_def mycpu_def intr_get_def)
  show ?thesis
    using irq s t unfolding sleep_def cur by (simp add: acq rel hp sch release_hold acquire_free)
qed

lemma slots_free_dvst [simp]:
  "slots_free (s\<lparr>procs := a\<rparr>) = slots_free s" "slots_free (t\<lparr>bufs := f\<rparr>) = slots_free t"
  "slots_free (t\<lparr>disk := d\<rparr>) = slots_free t" "slots_free (u\<lparr>dev_writes := w\<rparr>) = slots_free u"
  by (simp_all add: slots_free_def)

lemma submit_hold: "submit b wr idx sec (hold lk s) = hold lk (submit b wr idx sec s)"
  by (simp add: submit_def upd_desc_def upd_buf_def Let_def lock_simps split: prod.splits)

lemma NUM_upt: "[0..<NUM] = [0, 1, 2, 3, 4, 5, 6, 7]"
  by (simp add: NUM_def upt_rec)

lemma alloc3_wait_free:
  assumes "\<forall>i<NUM. dfree (disk s) i"
  shows "alloc3_wait n sw s = Ok (0, 1, 2) (s\<lparr>disk := (disk s)\<lparr>dfree := (dfree (disk s))(0 := False, 1 := False, 2 := False)\<rparr>\<rparr>)"
proof -
  have "dfree (disk s) 0" "dfree (disk s) 1" "dfree (disk s) 2" using assms by (auto simp: NUM_def)
  then show ?thesis by (cases n) (simp_all add: alloc3_desc_def alloc_desc_def NUM_upt)
qed

text \<open>Freeing the chain of three descriptors gives them back, and wakes nobody.\<close>

lemma free_desc_alone:
  assumes "slots_free s" "\<forall>q<NPROC. p_state (procs s q) \<noteq> SLEEPING" "i < NUM" "\<not> dfree (disk s) i"
  shows "free_desc i s = Ok () (touch (s\<lparr>disk := (disk s)\<lparr>
    desc := (desc (disk s))(i := \<lparr>d_addr = D_null, d_len = 0, d_flags = 0, d_next = 0\<rparr>),
    dfree := (dfree (disk s))(i := True)\<rparr>\<rparr>))"
  using assms by (simp add: free_desc_def upd_desc_def Let_def wakeup_nobody)

lemma free_chain_alone:
  assumes s: "slots_free s" "\<forall>q<NPROC. p_state (procs s q) \<noteq> SLEEPING"
    and d: "\<not> dfree (disk s) 0" "\<not> dfree (disk s) 1" "\<not> dfree (disk s) 2" "\<forall>i<NUM. i \<notin> {0, 1, 2} \<longrightarrow> dfree (disk s) i"
      "d_flags (desc (disk s) 0) AND VRING_DESC_F_NEXT \<noteq> 0" "d_next (desc (disk s) 0) = 1"
      "d_flags (desc (disk s) 1) AND VRING_DESC_F_NEXT \<noteq> 0" "d_next (desc (disk s) 1) = 2"
      "d_flags (desc (disk s) 2) AND VRING_DESC_F_NEXT = 0"
  shows "\<exists>d. (\<forall>i<NUM. dfree d i) \<and> free_chain 0 s = Ok () (touch (s\<lparr>disk := d\<rparr>))"
proof -
  define e where "e = \<lparr>d_addr = D_null, d_len = 0, d_flags = 0, d_next = (0 :: ushort)\<rparr>"
  define g where "g i d = d\<lparr>desc := (desc d)(i := e), dfree := (dfree d)(i := True)\<rparr>" for i and d :: vdisk
  have f: "free_desc i (touch (s\<lparr>disk := d\<rparr>)) = Ok () (touch (s\<lparr>disk := g i d\<rparr>))" if "i < NUM" "\<not> dfree d i" for i d
    using that s by (subst free_desc_alone) (simp_all add: g_def e_def lock_simps)
  have f0: "free_desc 0 s = Ok () (touch (s\<lparr>disk := g 0 (disk s)\<rparr>))"
    using s d by (subst free_desc_alone) (simp_all add: g_def e_def NUM_def)
  have "free_chain 0 s = Ok () (touch (s\<lparr>disk := g 2 (g 1 (g 0 (disk s)))\<rparr>))"
  proof -
    obtain k where k: "Suc NUM = Suc (Suc (Suc k))" by (simp add: NUM_def)
    have "Suc 0 < NUM" "2 < NUM" by (simp_all add: NUM_def)
    with d f f0 show ?thesis unfolding free_chain_def k by (simp add: g_def)
  qed
  moreover have "\<forall>i<NUM. dfree (g 2 (g 1 (g 0 (disk s)))) i" using d(4) by (auto simp: g_def)
  ultimately show ?thesis by blast
qed

text \<open>
  The driver in a calm system: the transfer is done when it returns, the descriptors are free again, and
  nothing else has changed.
\<close>

lemma requested_submit:
  assumes "unat (b_blockno (bufs s b)) < 2 ^ 31"
  shows "requested 0 b (unat (b_blockno (bufs s b))) wr (submit b wr (0, 1, 2) (ucast (b_blockno (bufs s b) * 2)) s)"
proof -
  have "unat (ucast (b_blockno (bufs s b) * 2) :: uint64) = 2 * unat (b_blockno (bufs s b))"
    using assms by (simp add: unsigned_ucast_eq take_bit_nat_eq_self unat_word_ariths)
  then show ?thesis
    by (simp add: requested_def submit_def upd_desc_def upd_buf_def Let_def unat_of_nat)
qed

lemma virtio_disk_rw_served:
  fixes s :: "'z dvst_scheme"
  assumes c: "calm p s" and sw: "disk_serves m sw" and n: "0 < n" and bn: "unat (b_blockno (bufs s b)) < 2 ^ 31"
  shows "\<exists>d. (\<forall>i<NUM. dfree d i) \<and> virtio_disk_rw n sw b wr s = Ok () (touch (s\<lparr>disk := d,
    bufs := (bufs s)(b := (bufs s b)\<lparr>b_disk := 0, b_data := (if wr then b_data (bufs s b)
      else apply_writes m (dev_writes s) (unat (b_blockno (bufs s b))))\<rparr>),
    dev_writes := dev_writes s @ (if wr then [(unat (b_blockno (bufs s b)), b_data (bufs s b))] else [])\<rparr>))"
proof -
  define bno where "bno = unat (b_blockno (bufs s b))"
  define s0 where "s0 = s\<lparr>disk := (disk s)\<lparr>dfree := (dfree (disk s))(0 := False, 1 := False, 2 := False)\<rparr>\<rparr>"
  define s1 where "s1 = submit b wr (0, 1, 2) (ucast (b_blockno (bufs s b) * 2)) s0"
  have al: "alloc3_wait n sw (hold L_vdisk s) = Ok (0, 1, 2) (hold L_vdisk s0)"
    using c by (subst alloc3_wait_free) (simp_all add: s0_def calm_def lock_simps)
  have s1: "cpus s1 = cpus s" "hart s1 = hart s" "sie s1 = sie s" "locks s1 = locks s" "procs s1 = procs s" 
    "slots_free s1 = slots_free s" "b_disk (bufs s1 b) = 1"
    by (simp_all add: s1_def s0_def submit_def Let_def upd_desc_def upd_buf_def)
  let ?u = "upd_proc p (\<lambda>q. q\<lparr>p_chan := Ch_buf b, p_state := SLEEPING\<rparr>) s1"
  have "requested 0 b bno wr s1" using requested_submit [of s0 b wr] bn by (simp add: bno_def s1_def s0_def)
  then have "requested 0 b bno wr (hold (L_proc p) ?u)" by (simp add: requested_def)
  then obtain d where d: "desc d = desc (disk s1)" "dfree d = dfree (disk s1)"
    "sw (hold (L_proc p) ?u) = Ok () (hold (L_proc p) (?u\<lparr>disk := d, procs := (procs ?u)(p := (procs ?u p)\<lparr>p_state := RUNNING\<rparr>),
            bufs := (bufs s1)(b := (bufs s1 b)\<lparr>b_disk := 0,
              b_data := (if wr then b_data (bufs s1 b) else apply_writes m (dev_writes s1) bno)\<rparr>),
            dev_writes := dev_writes s1 @ (if wr then [(bno, b_data (bufs s1 b))] else [])\<rparr>))"
    using disk_servesD [OF sw, of 0 b bno wr "hold (L_proc p) ?u" p] c s1
    by (auto simp: calm_def lock_simps cong: if_cong)
  let ?t = "?u\<lparr>disk := d, procs := (procs ?u)(p := (procs ?u p)\<lparr>p_state := RUNNING\<rparr>),
            bufs := (bufs s1)(b := (bufs s1 b)\<lparr>b_disk := 0,
              b_data := (if wr then b_data (bufs s1 b) else apply_writes m (dev_writes s1) bno)\<rparr>),
            dev_writes := dev_writes s1 @ (if wr then [(bno, b_data (bufs s1 b))] else [])\<rparr>"
  define t where "t = upd_proc p (\<lambda>q. q\<lparr>p_chan := Ch_null\<rparr>) ?t"
  have sl: "sleep sw (Ch_buf b) L_vdisk (hold L_vdisk s1) = Ok () (hold L_vdisk t)"
    unfolding t_def using c s1 by (intro sleep_alone d(3)) (simp_all add: calm_def)
  have t: "t = s\<lparr>disk := d, bufs := (bufs s)(b := (bufs s b)\<lparr>b_disk := 0, b_data := (if wr then b_data (bufs s b)
      else apply_writes m (dev_writes s) bno)\<rparr>),
    dev_writes := dev_writes s @ (if wr then [(bno, b_data (bufs s b))] else [])\<rparr>"
    using c by (cases s) (auto simp: calm_def t_def s1_def s0_def submit_def Let_def upd_desc_def upd_buf_def upd_proc_def fun_eq_iff)
  have w: "disk_wait n sw b (hold L_vdisk s1) = Ok () (hold L_vdisk t)"
  proof -
    obtain k where "n = Suc k" using n by (cases n) simp_all
    moreover have "disk_wait k sw b (hold L_vdisk t) = Ok () (hold L_vdisk t)" by (cases k) (simp_all add: t)
    ultimately show ?thesis using s1 sl by simp
  qed
  let ?f = "t\<lparr>disk := d\<lparr>info_b := (info_b d)(0 := None)\<rparr>\<rparr>"
  have f: "(hold L_vdisk t)\<lparr>disk := d\<lparr>info_b := (info_b d)(0 := None)\<rparr>\<rparr> = hold L_vdisk ?f" "disk t = d" by (simp_all add: lock_simps t)
  have de: "desc d 0 = \<lparr>d_addr = D_op 0, d_len = 16, d_flags = VRING_DESC_F_NEXT, d_next = 1\<rparr>"
    "desc d 1 = \<lparr>d_addr = D_data b, d_len = of_nat BSIZE, d_flags = (if wr then 0 else VRING_DESC_F_WRITE) OR VRING_DESC_F_NEXT, d_next = 2\<rparr>"
    "desc d 2 = \<lparr>d_addr = D_status 0, d_len = 1, d_flags = VRING_DESC_F_WRITE, d_next = 0\<rparr>"
    "dfree d = (dfree (disk s))(0 := False, 1 := False, 2 := False)"
    using d by (simp_all add: s1_def s0_def submit_def Let_def upd_desc_def upd_buf_def)
  have "\<exists>e. (\<forall>i<NUM. dfree e i) \<and> free_chain 0 (hold L_vdisk ?f) = Ok () (touch ((hold L_vdisk ?f)\<lparr>disk := e\<rparr>))"
    using c de by (intro free_chain_alone) (auto simp: calm_def t VRING_DESC_F_NEXT_def VRING_DESC_F_WRITE_def)
  then obtain e where e: "\<forall>i<NUM. dfree e i" "free_chain 0 (hold L_vdisk ?f) = Ok () (hold L_vdisk (t\<lparr>disk := e\<rparr>))"
    using c by (auto simp: lock_simps calm_def t slots_free_irqs)
  have "virtio_disk_rw n sw b wr s = Ok () (touch (t\<lparr>disk := e\<rparr>))"
  proof -
    have "acquire L_vdisk s = Ok () (hold L_vdisk s)" using c by (simp add: acquire_free calm_def)
    moreover have "submit b wr (0, 1, 2) (ucast (b_blockno (bufs s b) * 2)) (hold L_vdisk s0) = hold L_vdisk s1"
      unfolding s1_def by (rule submit_hold)
    moreover have "release L_vdisk (hold L_vdisk (t\<lparr>disk := e\<rparr>)) = Ok () (touch (t\<lparr>disk := e\<rparr>))"
      using c by (intro release_hold) (simp_all add: calm_def t slots_free_irqs)
    ultimately show ?thesis
      by (simp only: virtio_disk_rw_def Let_def bnd.simps al w f e(2) prod.sel hold_vdst)
  qed
  moreover have "t\<lparr>disk := e\<rparr> = s\<lparr>disk := e, bufs := (bufs s)(b := (bufs s b)\<lparr>b_disk := 0, b_data := (if wr then b_data (bufs s b)
      else apply_writes m (dev_writes s) bno)\<rparr>), dev_writes := dev_writes s @ (if wr then [(bno, b_data (bufs s b))] else [])\<rparr>"
    by (cases s) (simp add: t)
  ultimately show ?thesis using e(1) unfolding bno_def by auto
qed

text \<open>The same as a postcondition.\<close>

definition same_rest :: "'z dvst_scheme \<Rightarrow> 'z dvst_scheme \<Rightarrow> bool" where
  "same_rest s t \<longleftrightarrow> procs t = procs s \<and> log t = log s"

lemma twp_virtio_disk_rw:
  assumes "calm p s" "disk_serves m sw" "0 < n" "unat (b_blockno (bufs s b)) < 2 ^ 31"
  shows "twp (virtio_disk_rw n sw b wr s) (\<lambda>_ t. calm p t \<and> same_rest s t \<and> sleeplocks t = sleeplocks s \<and>
    bufs t = (bufs s)(b := (bufs s b)\<lparr>b_disk := 0, b_data := (if wr then b_data (bufs s b)
      else apply_writes m (dev_writes s) (unat (b_blockno (bufs s b))))\<rparr>) \<and>
    dev_writes t = dev_writes s @ (if wr then [(unat (b_blockno (bufs s b)), b_data (bufs s b))] else []))"
proof -
  obtain d where "\<forall>i<NUM. dfree d i" "virtio_disk_rw n sw b wr s = Ok () (touch (s\<lparr>disk := d,
    bufs := (bufs s)(b := (bufs s b)\<lparr>b_disk := 0, b_data := (if wr then b_data (bufs s b)
      else apply_writes m (dev_writes s) (unat (b_blockno (bufs s b))))\<rparr>),
    dev_writes := dev_writes s @ (if wr then [(unat (b_blockno (bufs s b)), b_data (bufs s b))] else [])\<rparr>))"
    using virtio_disk_rw_served [OF assms] by blast
  then show ?thesis using assms(1) by (simp add: calm_def same_rest_def)
qed

end
