(* ===== verification/CacheService.thy ===== *)
theory CacheService
  imports DiskService
begin

text \<open>
  The buffer cache over a disk that serves its requests (\<open>kernel/bio.c\<close>), seen by its client: a process reads a
  block, holds its buffer, changes it, writes it, pins it and releases it. \<open>cached p dev m pin h ws\<close> describes the
  cache for a process \<open>p\<close> that is alone with it: the disk held \<open>m\<close> before the writes \<open>ws\<close>, \<open>pin\<close> has the
  blocks that are pinned in memory with their contents, and \<open>h\<close> the buffers that \<open>p\<close> holds, with block number
  and contents. Every other buffer has what a client should read.
\<close>

type_synonym pins = "uint \<rightharpoonup> uchar list"
type_synonym held = "nat \<rightharpoonup> uint \<times> uchar list"

definition content :: "image \<Rightarrow> pins \<Rightarrow> uint \<Rightarrow> uchar list" where
  "content m pin bno = (case pin bno of Some d \<Rightarrow> d | None \<Rightarrow> m (unat bno))"

definition caches :: "uint \<Rightarrow> uint \<Rightarrow> buf \<Rightarrow> bool" where
  "caches dev bno q \<longleftrightarrow> b_dev q = dev \<and> b_blockno q = bno"

definition bufs_ok :: "uint \<Rightarrow> image \<Rightarrow> pins \<Rightarrow> held \<Rightarrow> (nat \<Rightarrow> buf) \<Rightarrow> bool" where
  "bufs_ok dev m pin h f \<longleftrightarrow> finite (dom pin) \<and>
     (\<forall>a<NBUF. \<forall>b<NBUF. \<forall>bno. caches dev bno (f a) \<longrightarrow> caches dev bno (f b) \<longrightarrow> a = b) \<and>
     (\<forall>b bno d. h b = Some (bno, d) \<longrightarrow> b < NBUF \<and> caches dev bno (f b) \<and> b_data (f b) = d \<and> b_valid (f b) \<noteq> 0) \<and>
     (\<forall>b<NBUF. unat (b_refcnt (f b)) = of_bool (\<exists>bno\<in>dom pin. caches dev bno (f b)) + of_bool (b \<in> dom h)) \<and>
     (\<forall>bno\<in>dom pin. \<exists>b<NBUF. caches dev bno (f b) \<and> b_valid (f b) \<noteq> 0) \<and>
     (\<forall>b<NBUF. \<forall>bno. b \<notin> dom h \<longrightarrow> caches dev bno (f b) \<longrightarrow> b_valid (f b) \<noteq> 0 \<longrightarrow> b_data (f b) = content m pin bno)"

lemma bufs_okD:
  assumes "bufs_ok dev m pin h f"
  shows bufs_ok_fin: "finite (dom pin)"
    and bufs_ok_uniq: "\<And>a b bno. a < NBUF \<Longrightarrow> b < NBUF \<Longrightarrow> caches dev bno (f a) \<Longrightarrow> caches dev bno (f b) \<Longrightarrow> a = b"
    and bufs_ok_held: "\<And>b bno d. h b = Some (bno, d) \<Longrightarrow> b < NBUF \<and> caches dev bno (f b) \<and> b_data (f b) = d \<and> b_valid (f b) \<noteq> 0"
    and bufs_ok_ref: "\<And>b. b < NBUF \<Longrightarrow> unat (b_refcnt (f b)) = of_bool (\<exists>bno\<in>dom pin. caches dev bno (f b)) + of_bool (b \<in> dom h)"
    and bufs_ok_pinned: "\<And>bno. bno \<in> dom pin \<Longrightarrow> \<exists>b<NBUF. caches dev bno (f b) \<and> b_valid (f b) \<noteq> 0"
    and bufs_ok_clean: "\<And>b bno. b < NBUF \<Longrightarrow> b \<notin> dom h \<Longrightarrow> caches dev bno (f b) \<Longrightarrow> b_valid (f b) \<noteq> 0 \<Longrightarrow> b_data (f b) = content m pin bno"
  using assms unfolding bufs_ok_def by blast+

lemma caches_inj: "caches dev bno q \<Longrightarrow> caches dev bno' q \<Longrightarrow> bno = bno'"
  by (simp add: caches_def)

text \<open>Links and the driver's mark do not matter.\<close>

definition same_use :: "buf \<Rightarrow> buf \<Rightarrow> bool" where
  "same_use q r \<longleftrightarrow> b_dev q = b_dev r \<and> b_blockno q = b_blockno r \<and> b_valid q = b_valid r \<and> b_data q = b_data r"

lemma bufs_ok_cong:
  assumes "\<And>b. same_use (f b) (g b) \<and> b_refcnt (f b) = b_refcnt (g b)"
  shows "bufs_ok dev m pin h f = bufs_ok dev m pin h g"
  using assms unfolding bufs_ok_def same_use_def caches_def by simp

lemma bufs_ok_take:
  assumes f: "bufs_ok dev m pin h f" and b: "b < NBUF" "b \<notin> dom h"
    and g: "\<And>c. c \<noteq> b \<Longrightarrow> g c = f c" "caches dev bno (g b)" "b_valid (g b) \<noteq> 0" "b_data (g b) = content m pin bno"
      "b_refcnt (g b) = b_refcnt (f b) + 1"
    and hit: "caches dev bno (f b) \<or> b_refcnt (f b) = 0 \<and> (\<forall>a<NBUF. \<not> caches dev bno (f a))"
  shows "bufs_ok dev m pin (h(b \<mapsto> (bno, content m pin bno))) g"
proof -
  note F = bufs_okD [OF f]
  have nopin: "\<not> (\<exists>x\<in>dom pin. caches dev x (f b))" if "b_refcnt (f b) = 0"
    using F(4) [OF b(1)] that by (auto split: if_splits)
  have pin: "(\<exists>x\<in>dom pin. caches dev x (g b)) = (\<exists>x\<in>dom pin. caches dev x (f b))"
    using hit nopin g(2) F(5) caches_inj by (metis (lifting))
  have ref: "unat (b_refcnt (g b)) = of_bool (\<exists>x\<in>dom pin. caches dev x (g b)) + 1"
  proof -
    have "unat (b_refcnt (f b)) = of_bool (\<exists>x\<in>dom pin. caches dev x (f b))" using F(4) [OF b(1)] b(2) by simp
    then show ?thesis unfolding g(5) pin by (simp add: unat_word_ariths)
  qed
  show ?thesis
    unfolding bufs_ok_def
  proof (intro conjI allI impI ballI)
    show "finite (dom pin)" by (rule F(1))
  next
    fix a c x assume "a < NBUF" "c < NBUF" "caches dev x (g a)" "caches dev x (g c)"
    then show "a = c" using F(2) g(1,2) hit caches_inj by (metis (lifting))
  next
    fix c x d assume "(h(b \<mapsto> (bno, content m pin bno))) c = Some (x, d)"
    then show "c < NBUF" "caches dev x (g c)" "b_data (g c) = d" "b_valid (g c) \<noteq> 0"
      using F(3) [of c x d] b g by (auto split: if_splits)
  next
    fix c assume "c < NBUF"
    then show "unat (b_refcnt (g c)) = of_bool (\<exists>x\<in>dom pin. caches dev x (g c)) + of_bool (c \<in> dom (h(b \<mapsto> (bno, content m pin bno))))"
      using ref F(4) [of c] g(1) by (cases "c = b") auto
  next
    fix x assume "x \<in> dom pin"
    then obtain c where c: "c < NBUF" "caches dev x (f c)" "b_valid (f c) \<noteq> 0" using F(5) by blast
    show "\<exists>c<NBUF. caches dev x (g c) \<and> b_valid (g c) \<noteq> 0"
    proof (cases "c = b")
      case True
      then have "caches dev bno (f b)" using hit nopin c(2) \<open>x \<in> dom pin\<close> by blast
      then have "x = bno" using c(2) True caches_inj by blast
      then show ?thesis using g b by blast
    next
      case False
      then show ?thesis using c g(1) by auto
    qed
  next
    fix c x assume "c < NBUF" "c \<notin> dom (h(b \<mapsto> (bno, content m pin bno)))" "caches dev x (g c)" "b_valid (g c) \<noteq> 0"
    then show "b_data (g c) = content m pin x" using F(6) [of c x] g(1) by (auto split: if_splits)
  qed
qed

lemma bufs_ok_set:
  assumes f: "bufs_ok dev m pin h f" and h: "h b = Some (bno, d)"
  shows "bufs_ok dev m pin (h(b \<mapsto> (bno, e))) (f(b := (f b)\<lparr>b_data := e\<rparr>))"
proof -
  note F = bufs_okD [OF f]
  have c: "caches dev x ((f(b := (f b)\<lparr>b_data := e\<rparr>)) a) = caches dev x (f a)" for x a
    by (simp add: caches_def)
  have v: "b_valid ((f(b := (f b)\<lparr>b_data := e\<rparr>)) a) = b_valid (f a)" "b_refcnt ((f(b := (f b)\<lparr>b_data := e\<rparr>)) a) = b_refcnt (f a)" for a
    by simp_all
  have "dom (h(b \<mapsto> (bno, e))) = dom h" using h by auto
  then show ?thesis
    unfolding bufs_ok_def c v using F h by (auto split: if_splits)
qed

lemma bufs_ok_written:
  assumes f: "bufs_ok dev m pin h f" and h: "h b = Some (bno, d)"
  shows "bufs_ok dev (m(unat bno := d)) pin h f"
proof -
  note F = bufs_okD [OF f]
  have "content (m(unat bno := d)) pin x = content m pin x" if "c < NBUF" "c \<notin> dom h" "caches dev x (f c)" for c x
  proof -
    have "x \<noteq> bno" using that F(2) [of c b x] F(3) [OF h] h by (auto simp: dom_def)
    then have "unat x \<noteq> unat bno" by (simp add: word_unat_eq_iff)
    then show ?thesis by (simp add: content_def split: option.split)
  qed
  then show ?thesis using f unfolding bufs_ok_def by simp
qed

text \<open>A reference less on a buffer: it is released, or its block is not pinned any more.\<close>

lemma bufs_ok_drop:
  assumes f: "bufs_ok dev m pin h f" and h: "h b = Some (bno, d)" "d = content m pin bno"
    and g: "\<And>c. same_use (g c) (f c)" "\<And>c. b_refcnt (g c) = b_refcnt (f c) - of_bool (c = b)"
  shows "bufs_ok dev m pin (h(b := None)) g"
proof -
  note F = bufs_okD [OF f]
  have c: "caches dev x (g a) = caches dev x (f a)" "b_valid (g a) = b_valid (f a)" "b_data (g a) = b_data (f a)" for x a
    using g(1) [of a] by (simp_all add: same_use_def caches_def)
  have r: "unat (b_refcnt (g b)) = unat (b_refcnt (f b)) - 1"
  proof -
    have "0 < unat (b_refcnt (f b))" using F(3) [OF h(1)] F(4) [of b] h by auto
    then show ?thesis by (simp add: g(2) unat_minus_one unat_gt_0)
  qed
  have "unat (b_refcnt (g a)) = of_bool (\<exists>x\<in>dom pin. caches dev x (f a)) + of_bool (a \<in> dom (h(b := None)))" if "a < NBUF" for a
    using F(4) [OF that] r h by (cases "a = b") (auto simp: g(2))
  moreover have "b_data (f a) = content m pin x" if "a < NBUF" "a \<notin> dom (h(b := None))" "caches dev x (f a)" "b_valid (f a) \<noteq> 0" for a x
  proof (cases "a = b")
    case True
    then have "x = bno" using F(3) [OF h(1)] that(3) caches_inj by blast
    then show ?thesis using F(3) [OF h(1)] h(2) True by simp
  next
    case False
    then show ?thesis using F(6) that by auto
  qed
  ultimately show ?thesis
    using F(1-3,5) unfolding bufs_ok_def c by (auto split: if_splits)
qed

lemma bufs_ok_unpin:
  assumes f: "bufs_ok dev m pin h f" and h: "h b = Some (bno, d)" "bno \<in> dom pin"
    and g: "\<And>c. same_use (g c) (f c)" "\<And>c. b_refcnt (g c) = b_refcnt (f c) - of_bool (c = b)"
  shows "bufs_ok dev m (pin(bno := None)) h g"
proof -
  note F = bufs_okD [OF f]
  have c: "caches dev x (g a) = caches dev x (f a)" "b_valid (g a) = b_valid (f a)" "b_data (g a) = b_data (f a)" for x a
    using g(1) [of a] by (simp_all add: same_use_def caches_def)
  have r: "unat (b_refcnt (g b)) = 1"
  proof -
    have "unat (b_refcnt (f b)) = 2" using F(3) [OF h(1)] F(4) [of b] h by auto
    moreover then have "b_refcnt (f b) \<noteq> 0" by auto
    ultimately show ?thesis by (simp add: g(2) unat_minus_one)
  qed
  have other: "a = b" if "caches dev bno (f a)" "a < NBUF" for a
    using that F(2,3) h by blast
  have "unat (b_refcnt (g a)) = of_bool (\<exists>x\<in>dom (pin(bno := None)). caches dev x (f a)) + of_bool (a \<in> dom h)" if "a < NBUF" for a
  proof (cases "a = b")
    case True
    then have "\<not> (\<exists>x\<in>dom (pin(bno := None)). caches dev x (f a))" using F(3) [OF h(1)] caches_inj by fastforce
    then show ?thesis using True r h by auto
  next
    case False
    then have "(\<exists>x\<in>dom (pin(bno := None)). caches dev x (f a)) = (\<exists>x\<in>dom pin. caches dev x (f a))"
      using other that by (metis (no_types, lifting) domIff fun_upd_apply)
    then show ?thesis using F(4) [OF that] False by (simp add: g(2))
  qed
  moreover have "content m (pin(bno := None)) x = content m pin x" if "a < NBUF" "a \<notin> dom h" "caches dev x (f a)" for a x
    using that other h by (auto simp: content_def)
  ultimately show ?thesis
    using F unfolding bufs_ok_def c by (auto split: if_splits)
qed

lemma bufs_ok_pin:
  assumes f: "bufs_ok dev m pin h f" and h: "h b = Some (bno, d)"
    and g: "\<And>c. same_use (g c) (f c)" "\<And>c. b_refcnt (g c) = b_refcnt (f c) + of_bool (c = b \<and> bno \<notin> dom pin)"
  shows "bufs_ok dev m (pin(bno \<mapsto> d)) h g"
proof -
  note F = bufs_okD [OF f]
  have c: "caches dev x (g a) = caches dev x (f a)" "b_valid (g a) = b_valid (f a)" "b_data (g a) = b_data (f a)" for x a
    using g(1) [of a] by (simp_all add: same_use_def caches_def)
  note hb = F(3) [OF h]
  have other: "a = b" if "caches dev bno (f a)" "a < NBUF" for a
    using that F(2) hb by blast
  have "unat (b_refcnt (g a)) = of_bool (\<exists>x\<in>dom (pin(bno \<mapsto> d)). caches dev x (f a)) + of_bool (a \<in> dom h)" if "a < NBUF" for a
  proof (cases "a = b")
    case True
    have "(\<exists>x\<in>dom pin. caches dev x (f b)) = (bno \<in> dom pin)" using hb caches_inj by blast
    then have "unat (b_refcnt (f b)) = of_bool (bno \<in> dom pin) + 1" using F(4) [of b] hb h by auto
    then have "unat (b_refcnt (g b)) = 2" unfolding g(2) by (cases "bno \<in> dom pin") (simp_all add: unat_word_ariths)
    moreover have "\<exists>x\<in>dom (pin(bno \<mapsto> d)). caches dev x (f b)" using hb by auto
    ultimately show ?thesis using True h by auto
  next
    case False
    then have "(\<exists>x\<in>dom (pin(bno \<mapsto> d)). caches dev x (f a)) = (\<exists>x\<in>dom pin. caches dev x (f a))"
      using other that by auto
    then show ?thesis using F(4) [OF that] False by (simp add: g(2))
  qed
  moreover have "content m (pin(bno \<mapsto> d)) x = content m pin x" if "a < NBUF" "a \<notin> dom h" "caches dev x (f a)" for a x
    using that other h by (auto simp: content_def)
  ultimately show ?thesis
    using F hb unfolding bufs_ok_def c by (auto split: if_splits)
qed

lemma bufs_ok_free:
  assumes f: "bufs_ok dev m pin h f" and c: "card (dom h) + card (dom pin) < NBUF"
  shows "\<exists>b<NBUF. b_refcnt (f b) = 0"
proof -
  note F = bufs_okD [OF f]
  let ?P = "{b. b < NBUF \<and> (\<exists>bno\<in>dom pin. caches dev bno (f b))}"
  have "card ?P \<le> card (dom pin)"
  proof (rule card_inj_on_le)
    show "inj_on (\<lambda>b. b_blockno (f b)) ?P" using F(2) by (fastforce simp: inj_on_def caches_def)
    show "(\<lambda>b. b_blockno (f b)) ` ?P \<subseteq> dom pin" by (auto simp: caches_def)
  qed (rule F(1))
  moreover have "card (dom h \<union> ?P) \<le> card (dom h) + card ?P" by (rule card_Un_le)
  ultimately have le: "card (dom h \<union> ?P) < card {..<NBUF}" using c by (simp only: card_lessThan)
  have "finite (dom h)"
  proof (rule finite_subset)
    show "dom h \<subseteq> {..<NBUF}" using F(3) by (metis domIff lessThan_iff not_None_eq subsetI surj_pair)
  qed simp
  with le have "\<not> {..<NBUF} \<subseteq> dom h \<union> ?P"
    using card_mono [of "dom h \<union> ?P" "{..<NBUF}"] by fastforce
  then obtain b where "b < NBUF" "b \<notin> dom h \<union> ?P" by blast
  then have "unat (b_refcnt (f b)) = 0" using F(4) [of b] by auto
  then show ?thesis using \<open>b < NBUF\<close> by (auto simp: unat_eq_zero)
qed

text \<open>The cache with its locks and its list.\<close>

definition cached :: "nat \<Rightarrow> uint \<Rightarrow> image \<Rightarrow> pins \<Rightarrow> held \<Rightarrow> (nat \<times> uchar list) list \<Rightarrow> 'z dvst_scheme \<Rightarrow> bool" where
  "cached p dev m pin h ws s \<longleftrightarrow> calm p s \<and> (\<exists>xs. ring (bufs s) xs \<and> set xs = {..<NBUF}) \<and>
     bufs_ok dev (apply_writes m ws) pin h (bufs s) \<and> dev_writes s = ws \<and>
     (\<forall>b<NBUF. if b \<in> dom h then sl_locked (sleeplocks s (L_bufsleep b)) \<noteq> 0 \<and> sl_pid (sleeplocks s (L_bufsleep b)) = p_pid (procs s p)
        else sl_locked (sleeplocks s (L_bufsleep b)) = 0)"

lemma calm_idle: "calm p s \<Longrightarrow> bio_idle p s"
  unfolding calm_def bio_idle_def by blast

lemma ring_cong:
  "(\<And>b. b_next (f b) = b_next (g b)) \<Longrightarrow> (\<And>b. b_prev (f b) = b_prev (g b)) \<Longrightarrow> ring f xs = ring g xs"
  using linked_cong [of NBUF xs f g NBUF] by (simp add: ring_def)

lemma choice_found:
  assumes "set xs = {..<NBUF}" "(\<exists>b<NBUF. b_refcnt (f b) = 0) \<or> (\<exists>b<NBUF. caches dev bno (f b))"
  shows "\<exists>b<NBUF. bget_choice f xs dev bno = Some b \<and>
    (caches dev bno (f b) \<or> b_refcnt (f b) = 0 \<and> (\<forall>a<NBUF. \<not> caches dev bno (f a)))"
proof (cases "List.find (\<lambda>b. b_dev (f b) = dev \<and> b_blockno (f b) = bno) xs")
  case (Some b)
  then have "b \<in> set xs" "caches dev bno (f b)" by (auto simp: find_Some_iff caches_def)
  then show ?thesis using Some assms(1) by (auto simp: bget_choice_def)
next
  case None
  then have n: "\<forall>a<NBUF. \<not> caches dev bno (f a)" using assms(1) by (auto simp: find_None_iff caches_def)
  obtain b where b: "List.find (\<lambda>b. b_refcnt (f b) = 0) (rev xs) = Some b"
    using assms n by (cases "List.find (\<lambda>b. b_refcnt (f b) = 0) (rev xs)") (auto simp: find_None_iff)
  then have "b \<in> set xs" "b_refcnt (f b) = 0" by (auto simp: find_Some_iff) (metis nth_mem set_rev length_rev)
  then show ?thesis using b n None assms(1) by (auto simp: bget_choice_def)
qed

lemma calm_frame:
  assumes "calm p s" "locks t = locks s" "hart t = hart s" "cpus t = cpus s" "sie t = sie s" "procs t = procs s" "disk t = disk s"
  shows "calm p (touch t)" "calm p t"
  using assms by (simp_all add: calm_def slots_free_def)

lemma cachedD:
  assumes "cached p dev m pin h ws s"
  shows "calm p s" "bufs_ok dev (apply_writes m ws) pin h (bufs s)" "dev_writes s = ws"
    "b \<in> dom h \<Longrightarrow> sl_locked (sleeplocks s (L_bufsleep b)) \<noteq> 0 \<and> sl_pid (sleeplocks s (L_bufsleep b)) = p_pid (procs s p)"
    "b < NBUF \<Longrightarrow> b \<notin> dom h \<Longrightarrow> sl_locked (sleeplocks s (L_bufsleep b)) = 0"
  using assms unfolding cached_def bufs_ok_def by (blast, blast, blast, metis domD surj_pair, metis)

lemma twp_bget:
  assumes C: "cached p dev m pin h ws s" and bno: "\<And>b d. h b \<noteq> Some (bno, d)" and c: "bno \<in> dom pin \<or> card (dom h) + card (dom pin) < NBUF"
    and Q: "\<And>b q t. b < NBUF \<Longrightarrow> b \<notin> dom h \<Longrightarrow> calm p t \<Longrightarrow> same_rest s t \<Longrightarrow> dev_writes t = ws \<Longrightarrow>
      bufs t = (bufs s)(b := q) \<Longrightarrow> caches dev bno q \<Longrightarrow> b_next q = b_next (bufs s b) \<Longrightarrow> b_prev q = b_prev (bufs s b) \<Longrightarrow>
      b_refcnt q = b_refcnt (bufs s b) + 1 \<Longrightarrow>
      sleeplocks t = (sleeplocks s)(L_bufsleep b := (sleeplocks s (L_bufsleep b))\<lparr>sl_locked := 1, sl_pid := p_pid (procs s p)\<rparr>) \<Longrightarrow>
      caches dev bno (bufs s b) \<and> b_valid q = b_valid (bufs s b) \<and> b_data q = b_data (bufs s b) \<or>
        b_refcnt (bufs s b) = 0 \<and> (\<forall>a<NBUF. \<not> caches dev bno (bufs s a)) \<and> b_valid q = 0 \<Longrightarrow> Q b t"
  shows "twp (bget n sw dev bno s) Q"
proof -
  note D = cachedD [OF C]
  note F = bufs_okD [OF D(2)]
  obtain xs where xs: "ring (bufs s) xs" "set xs = {..<NBUF}" using C by (auto simp: cached_def)
  obtain b where b: "b < NBUF" "bget_choice (bufs s) xs dev bno = Some b"
    "caches dev bno (bufs s b) \<or> b_refcnt (bufs s b) = 0 \<and> (\<forall>a<NBUF. \<not> caches dev bno (bufs s a))"
    using choice_found [OF xs(2), of "bufs s" dev bno] bufs_ok_free [OF D(2)] F(5) [of bno] c by blast
  have free: "a \<notin> dom h" if "a < NBUF" "b_refcnt (bufs s a) = 0" for a
    using F(4) [OF that(1)] that(2) by (auto split: if_splits)
  have bh: "b \<notin> dom h"
  proof
    assume "b \<in> dom h"
    then obtain x d where h: "h b = Some (x, d)" by auto
    then have "caches dev bno (bufs s b)" using b(1,3) free \<open>b \<in> dom h\<close> by blast
    then have "x = bno" using F(3) [OF h] caches_inj by blast
    then show False using h bno by blast
  qed
  let ?q = "if b_dev (bufs s b) = dev \<and> b_blockno (bufs s b) = bno
          then (bufs s b)\<lparr>b_refcnt := b_refcnt (bufs s b) + 1\<rparr>
          else (bufs s b)\<lparr>b_dev := dev, b_blockno := bno, b_valid := 0, b_refcnt := 1\<rparr>"
  let ?t = "s\<lparr>bufs := (bufs s)(b := ?q),
      sleeplocks := (sleeplocks s)(L_bufsleep b := (sleeplocks s (L_bufsleep b))\<lparr>sl_locked := 1, sl_pid := p_pid (procs s p)\<rparr>)\<rparr>"
  have "bget n sw dev bno s = Ok b (touch ?t)"
    using bget_idle_eq [OF calm_idle [OF D(1)] xs, of dev bno n sw] b bh free D(5) by auto
  moreover have "Q b (touch ?t)"
  proof (rule Q [OF b(1) bh, where q = ?q])
    show "calm p (touch ?t)" using D(1) by (rule calm_frame) simp_all
    show "caches dev bno (bufs s b) \<and> b_valid ?q = b_valid (bufs s b) \<and> b_data ?q = b_data (bufs s b) \<or>
        b_refcnt (bufs s b) = 0 \<and> (\<forall>a<NBUF. \<not> caches dev bno (bufs s a)) \<and> b_valid ?q = 0"
      using b(3) b(1) by (auto simp: caches_def)
  qed (use b(3) b(1) D(3) in \<open>auto simp: same_rest_def caches_def\<close>)
  ultimately show ?thesis by simp
qed

lemma cachedI:
  assumes "calm p t" "ring (bufs t) xs" "set xs = {..<NBUF}" "bufs_ok dev (apply_writes m ws) pin h (bufs t)" "dev_writes t = ws"
    and "\<And>b. b < NBUF \<Longrightarrow> if b \<in> dom h then sl_locked (sleeplocks t (L_bufsleep b)) \<noteq> 0 \<and> sl_pid (sleeplocks t (L_bufsleep b)) = p_pid (procs t p)
        else sl_locked (sleeplocks t (L_bufsleep b)) = 0"
  shows "cached p dev m pin h ws t"
  using assms unfolding cached_def by blast

lemma cached_ring: "cached p dev m pin h ws s \<Longrightarrow> \<exists>xs. ring (bufs s) xs \<and> set xs = {..<NBUF}"
  by (simp add: cached_def)

text \<open>Taking one more buffer.\<close>

lemma cached_take:
  assumes C: "cached p dev m pin h ws s" and b: "b < NBUF" "b \<notin> dom h"
    and t: "calm p t" "same_rest s t" "dev_writes t = ws" "bufs t = (bufs s)(b := q)"
      "sleeplocks t = (sleeplocks s)(L_bufsleep b := (sleeplocks s (L_bufsleep b))\<lparr>sl_locked := 1, sl_pid := p_pid (procs s p)\<rparr>)"
    and q: "caches dev bno q" "b_valid q \<noteq> 0" "b_data q = content (apply_writes m ws) pin bno" "b_refcnt q = b_refcnt (bufs s b) + 1"
      "b_next q = b_next (bufs s b)" "b_prev q = b_prev (bufs s b)"
      "caches dev bno (bufs s b) \<or> b_refcnt (bufs s b) = 0 \<and> (\<forall>a<NBUF. \<not> caches dev bno (bufs s a))"
  shows "cached p dev m pin (h(b \<mapsto> (bno, content (apply_writes m ws) pin bno))) ws t"
proof -
  note D = cachedD [OF C]
  obtain xs where xs: "ring (bufs s) xs" "set xs = {..<NBUF}" using cached_ring [OF C] by blast
  have "ring (bufs t) xs = ring (bufs s) xs" by (rule ring_cong) (simp_all add: t q)
  moreover have "bufs_ok dev (apply_writes m ws) pin (h(b \<mapsto> (bno, content (apply_writes m ws) pin bno))) (bufs t)"
    using D(2) b by (rule bufs_ok_take) (simp_all add: t q)
  ultimately show ?thesis
    using xs t D(4,5) by (intro cachedI) (auto simp: same_rest_def)
qed

lemma twp_bread:
  assumes C: "cached p dev m pin h ws s" and sw: "disk_serves m sw" "0 < n"
    and bno: "\<And>b d. h b \<noteq> Some (bno, d)" "unat bno < 2 ^ 31" and c: "bno \<in> dom pin \<or> card (dom h) + card (dom pin) < NBUF"
    and Q: "\<And>b t. b \<notin> dom h \<Longrightarrow> cached p dev m pin (h(b \<mapsto> (bno, content (apply_writes m ws) pin bno))) ws t \<Longrightarrow> same_rest s t \<Longrightarrow> Q b t"
  shows "twp (bread n sw dev bno s) Q"
  unfolding bread_def twp_simps
proof (rule twp_bget [OF C bno(1) c])
  fix b q and t :: "'a dvst_scheme"
  note D = cachedD [OF C]
  note F = bufs_okD [OF D(2)]
  assume b: "b < NBUF" "b \<notin> dom h" and t: "calm p t" "same_rest s t" "dev_writes t = ws" "bufs t = (bufs s)(b := q)"
    "sleeplocks t = (sleeplocks s)(L_bufsleep b := (sleeplocks s (L_bufsleep b))\<lparr>sl_locked := 1, sl_pid := p_pid (procs s p)\<rparr>)"
    and q: "caches dev bno q" "b_next q = b_next (bufs s b)" "b_prev q = b_prev (bufs s b)" "b_refcnt q = b_refcnt (bufs s b) + 1"
    and hit: "caches dev bno (bufs s b) \<and> b_valid q = b_valid (bufs s b) \<and> b_data q = b_data (bufs s b) \<or>
        b_refcnt (bufs s b) = 0 \<and> (\<forall>a<NBUF. \<not> caches dev bno (bufs s a)) \<and> b_valid q = 0"
  show "twp (if b_valid (bufs t b) = 0
      then bnd (virtio_disk_rw n sw b False t) (\<lambda>_ s. Ok b (upd_buf b (\<lambda>q. q\<lparr>b_valid := 1\<rparr>) s))
      else Ok b t) Q"
  proof (cases "b_valid q = 0")
    case True
    have np: "pin bno = None"
    proof (rule ccontr)
      assume "pin bno \<noteq> None"
      then obtain c where c: "c < NBUF" "caches dev bno (bufs s c)" "b_valid (bufs s c) \<noteq> 0" using F(5) [of bno] by auto
      then have "c \<noteq> b" using hit True by metis
      then show False using c F(2) [OF c(1) b(1) c(2)] hit by blast
    qed
    have "twp (virtio_disk_rw n sw b False t) (\<lambda>_ u. calm p u \<and> same_rest t u \<and> sleeplocks u = sleeplocks t \<and>
        bufs u = (bufs t)(b := q\<lparr>b_disk := 0, b_data := apply_writes m ws (unat bno)\<rparr>) \<and> dev_writes u = ws)"
    proof -
      have e: "bufs t b = q" "b_blockno q = bno" using q(1) by (simp_all add: t(4) caches_def)
      then have "unat (b_blockno (bufs t b)) < 2 ^ 31" using bno(2) by (simp only:)
      from twp_virtio_disk_rw [OF t(1) sw this, of False] show ?thesis by (simp only: e if_False append_Nil2 t(3))
    qed
    then have "twp (virtio_disk_rw n sw b False t) (\<lambda>_ u. Q b (upd_buf b (\<lambda>q. q\<lparr>b_valid := 1\<rparr>) u))"
    proof (rule twp_mono)
      fix r and u :: "'a dvst_scheme"
      assume u: "calm p u \<and> same_rest t u \<and> sleeplocks u = sleeplocks t \<and>
        bufs u = (bufs t)(b := q\<lparr>b_disk := 0, b_data := apply_writes m ws (unat bno)\<rparr>) \<and> dev_writes u = ws"
      let ?u = "upd_buf b (\<lambda>q. q\<lparr>b_valid := 1\<rparr>) u"
      have "cached p dev m pin (h(b \<mapsto> (bno, content (apply_writes m ws) pin bno))) ws ?u"
      proof (rule cached_take [OF C b])
        show "calm p ?u" by (rule calm_frame(2) [of p u]) (simp_all add: u upd_buf_def)
        show "same_rest s ?u" using t(2) u by (simp add: same_rest_def upd_buf_def)
        show "bufs ?u = (bufs s)(b := q\<lparr>b_disk := 0, b_data := apply_writes m ws (unat bno), b_valid := 1\<rparr>)"
          using u t(4) by (simp add: upd_buf_def)
        show "b_data (q\<lparr>b_disk := 0, b_data := apply_writes m ws (unat bno), b_valid := 1\<rparr>) = content (apply_writes m ws) pin bno"
          using np by (simp add: content_def)
        show "caches dev bno (bufs s b) \<or> b_refcnt (bufs s b) = 0 \<and> (\<forall>a<NBUF. \<not> caches dev bno (bufs s a))"
          using hit by blast
        show "caches dev bno (q\<lparr>b_disk := 0, b_data := apply_writes m ws (unat bno), b_valid := 1\<rparr>)"
          using q(1) by (simp add: caches_def)
      qed (simp_all add: u t q upd_buf_def)
      then show "Q b ?u" using Q [OF b(2)] t(2) u by (simp add: same_rest_def upd_buf_def)
    qed
    then show ?thesis using True by (simp add: t(4))
  next
    case False
    then have h: "caches dev bno (bufs s b)" "b_data q = b_data (bufs s b)" "b_valid (bufs s b) \<noteq> 0" using hit by auto
    then have "b_data q = content (apply_writes m ws) pin bno" using F(6) [OF b] by simp
    then have "cached p dev m pin (h(b \<mapsto> (bno, content (apply_writes m ws) pin bno))) ws t"
      using h(1) False q by (intro cached_take [OF C b t]) auto
    then show ?thesis using False Q [OF b(2)] t(2) by (simp add: t(4))
  qed
qed

lemma cached_touch [simp]: "cached p dev m pin h ws (touch s) = cached p dev m pin h ws s"
  by (simp add: cached_def calm_def)

text \<open>Changing the contents of a held buffer.\<close>

lemma cached_set:
  assumes C: "cached p dev m pin h ws s" and h: "h b = Some (bno, d)"
  shows "cached p dev m pin (h(b \<mapsto> (bno, e))) ws (upd_buf b (\<lambda>q. q\<lparr>b_data := e\<rparr>) s)" (is "cached _ _ _ _ _ _ ?t")
proof -
  note D = cachedD [OF C]
  obtain xs where xs: "ring (bufs s) xs" "set xs = {..<NBUF}" using cached_ring [OF C] by blast
  have dom: "dom (h(b \<mapsto> (bno, e))) = dom h" using h by auto
  show ?thesis
  proof (rule cachedI)
    show "calm p ?t" by (rule calm_frame(2) [OF D(1)]) (simp_all add: upd_buf_def)
    show "ring (bufs ?t) xs" using xs(1) by (subst ring_upd_buf) simp_all
    show "bufs_ok dev (apply_writes m ws) pin (h(b \<mapsto> (bno, e))) (bufs ?t)"
      using bufs_ok_set [OF D(2) h] by (simp add: upd_buf_def)
    show "if a \<in> dom (h(b \<mapsto> (bno, e))) then sl_locked (sleeplocks ?t (L_bufsleep a)) \<noteq> 0 \<and> sl_pid (sleeplocks ?t (L_bufsleep a)) = p_pid (procs ?t p)
        else sl_locked (sleeplocks ?t (L_bufsleep a)) = 0" if "a < NBUF" for a
      using D(4,5) [of a] that unfolding dom by (simp add: upd_buf_def)
  qed (use xs D(3) in \<open>simp_all add: upd_buf_def\<close>)
qed

lemma holdingsleep_cached:
  assumes C: "cached p dev m pin h ws s" and h: "h b = Some (bno, d)"
  shows "holdingsleep (L_bufsleep b) s = Ok True (touch s)"
proof -
  note D = cachedD [OF C]
  have "b < NBUF" using bufs_ok_held [OF D(2) h] by simp
  then have "lk_free (locks s (L_bufsleep b))" "irqs_ok s" "cpu_proc (cpus s (hart s)) = Some p"
    using D(1) by (auto simp: calm_def slots_free_irqs)
  then show ?thesis using D(4) [of b] h by (subst holdingsleep_eq [where p = p]) auto
qed

lemma twp_bwrite:
  assumes C: "cached p dev m pin h ws s" and sw: "disk_serves m sw" "0 < n" and h: "h b = Some (bno, d)" "unat bno < 2 ^ 31"
    and Q: "\<And>t. cached p dev m pin h (ws @ [(unat bno, d)]) t \<Longrightarrow> same_rest s t \<Longrightarrow> Q () t"
  shows "twp (bwrite n sw b s) Q"
proof -
  note D = cachedD [OF C]
  note hb = bufs_ok_held [OF D(2) h(1)]
  have e: "b_blockno (bufs (touch s) b) = bno" "b_data (bufs (touch s) b) = d" using hb by (simp_all add: caches_def)
  have "calm p (touch s)" by (rule calm_frame(1) [OF D(1)]) simp_all
  moreover have "unat (b_blockno (bufs (touch s) b)) < 2 ^ 31" using h(2) by (simp only: e)
  ultimately have "twp (virtio_disk_rw n sw b True (touch s)) (\<lambda>_ t. calm p t \<and> same_rest (touch s) t \<and> sleeplocks t = sleeplocks (touch s) \<and>
      bufs t = (bufs (touch s))(b := (bufs (touch s) b)\<lparr>b_disk := 0, b_data := d\<rparr>) \<and> dev_writes t = dev_writes (touch s) @ [(unat bno, d)])"
    using twp_virtio_disk_rw [OF _ sw, of p "touch s" b True] by (simp only: e if_True)
  then have "twp (virtio_disk_rw n sw b True (touch s)) Q"
  proof (rule twp_mono)
    fix r :: unit and t :: "'a dvst_scheme"
    assume t: "calm p t \<and> same_rest (touch s) t \<and> sleeplocks t = sleeplocks (touch s) \<and>
      bufs t = (bufs (touch s))(b := (bufs (touch s) b)\<lparr>b_disk := 0, b_data := d\<rparr>) \<and> dev_writes t = dev_writes (touch s) @ [(unat bno, d)]"
    then have s: "same_rest s t" by (simp add: same_rest_def touch_def)
    obtain xs where xs: "ring (bufs s) xs" "set xs = {..<NBUF}" using cached_ring [OF C] by blast
    have "cached p dev m pin h (ws @ [(unat bno, d)]) t"
    proof (rule cachedI)
      have "ring (bufs t) xs = ring (bufs s) xs" by (rule ring_cong) (simp_all add: t)
      then show "ring (bufs t) xs" using xs by simp
      have "bufs_ok dev (apply_writes m (ws @ [(unat bno, d)])) pin h (bufs s)"
        unfolding apply_writes_simps using D(2) h(1) by (rule bufs_ok_written)
      moreover have "bufs_ok dev (apply_writes m (ws @ [(unat bno, d)])) pin h (bufs t) =
        bufs_ok dev (apply_writes m (ws @ [(unat bno, d)])) pin h (bufs s)"
        by (rule bufs_ok_cong) (use hb in \<open>auto simp: t same_use_def\<close>)
      ultimately show "bufs_ok dev (apply_writes m (ws @ [(unat bno, d)])) pin h (bufs t)" by simp
      show "if a \<in> dom h then sl_locked (sleeplocks t (L_bufsleep a)) \<noteq> 0 \<and> sl_pid (sleeplocks t (L_bufsleep a)) = p_pid (procs t p)
        else sl_locked (sleeplocks t (L_bufsleep a)) = 0" if "a < NBUF" for a
        using D(4,5) [of a] that s by (simp add: t same_rest_def touch_def)
    qed (use t xs D(3) in simp_all)
    then show "Q r t" using Q s by simp
  qed
  then show ?thesis by (simp add: bwrite_def holdingsleep_cached [OF C h(1)])
qed

lemma relink_dvst [simp]:
  "procs (unlink_buf b s) = procs s" "procs (push_front b s) = procs s" "disk (unlink_buf b s) = disk s" "disk (push_front b s) = disk s"
  "log (unlink_buf b t) = log t" "log (push_front b t) = log t"
  "dev_writes (unlink_buf b u) = dev_writes u" "dev_writes (push_front b u) = dev_writes u"
  by (simp_all add: unlink_buf_def push_front_def upd_buf_def Let_def)

lemma nobody_woken:
  "calm p s \<Longrightarrow> (\<lambda>q. if q < NPROC \<and> cpu_proc (cpus s (hart s)) \<noteq> Some q then woken ch (procs s q) else procs s q) = procs s"
  by (auto simp: fun_eq_iff woken_def calm_def)

lemma twp_brelse:
  assumes C: "cached p dev m pin h ws s" and h: "h b = Some (bno, content (apply_writes m ws) pin bno)"
    and Q: "\<And>t. cached p dev m pin (h(b := None)) ws t \<Longrightarrow> same_rest s t \<Longrightarrow> Q () t"
  shows "twp (brelse b s) Q"
proof -
  note D = cachedD [OF C]
  note hb = bufs_ok_held [OF D(2) h]
  obtain xs where xs: "ring (bufs s) xs" "set xs = {..<NBUF}" using cached_ring [OF C] by blast
  define u where "u = s\<lparr>sleeplocks := (sleeplocks s)(L_bufsleep b := (sleeplocks s (L_bufsleep b))\<lparr>sl_locked := 0, sl_pid := 0\<rparr>)\<rparr>"
  define d where "d = upd_buf b (\<lambda>q. q\<lparr>b_refcnt := b_refcnt q - 1\<rparr>) u"
  define t where "t = (if b_refcnt (bufs s b) = 1 then push_front b (unlink_buf b d) else d)"
  have dt: "locks t = locks s" "hart t = hart s" "cpus t = cpus s" "sie t = sie s" "procs t = procs s" "disk t = disk s"
    "log t = log s" "dev_writes t = dev_writes s" "sleeplocks t = sleeplocks u"
    by (simp_all add: t_def d_def u_def upd_buf_def)
  have "s\<lparr>sleeplocks := (sleeplocks s)(L_bufsleep b := (sleeplocks s (L_bufsleep b))\<lparr>sl_locked := 0, sl_pid := 0\<rparr>), procs := procs s\<rparr> = u"
    unfolding u_def by (cases s) simp
  note pu = this
  have "b < NBUF" "sl_locked (sleeplocks s (L_bufsleep b)) \<noteq> 0" "sl_pid (sleeplocks s (L_bufsleep b)) = p_pid (procs s p)"
    using hb D(4) [of b] h by auto
  from brelse_idle_eq [OF calm_idle [OF D(1)] this] have eq: "brelse b s = Ok () (touch t)"
    unfolding nobody_woken [OF D(1)] t_def d_def Let_def pu .
  have "cached p dev m pin (h(b := None)) ws t"
  proof (rule cachedI)
    show "calm p t" by (rule calm_frame(2) [OF D(1)]) (simp_all add: dt)
    have rd: "ring (bufs d) xs" using xs(1) unfolding d_def by (subst ring_upd_buf) (simp_all add: u_def)
    show "ring (bufs t) (if b_refcnt (bufs s b) = 1 then b # remove1 b xs else xs)"
      using rd xs(2) hb ring_move_front [of d xs b] by (simp add: t_def)
    show "set (if b_refcnt (bufs s b) = 1 then b # remove1 b xs else xs) = {..<NBUF}"
      using xs hb by (auto simp: ring_def)
    show "bufs_ok dev (apply_writes m ws) pin (h(b := None)) (bufs t)"
      by (rule bufs_ok_drop [OF D(2) h]) (simp_all add: same_use_def relink_ident t_def d_def u_def upd_buf_def)
    show "if a \<in> dom (h(b := None)) then sl_locked (sleeplocks t (L_bufsleep a)) \<noteq> 0 \<and> sl_pid (sleeplocks t (L_bufsleep a)) = p_pid (procs t p)
        else sl_locked (sleeplocks t (L_bufsleep a)) = 0" if "a < NBUF" for a
      using D(4,5) [of a] that by (auto simp: dt u_def)
  qed (simp add: dt D(3))
  then have "Q () (touch t)" using Q by (simp add: same_rest_def dt)
  then show ?thesis by (simp add: eq)
qed

text \<open>Pinning and unpinning a held buffer.\<close>

lemma cached_count:
  assumes C: "cached p dev m pin h ws s" and t: "t = upd_buf b (\<lambda>q. q\<lparr>b_refcnt := r\<rparr>) s"
    and ok: "bufs_ok dev (apply_writes m ws) pin' h (bufs t)"
  shows "cached p dev m pin' h ws t"
proof -
  note D = cachedD [OF C]
  obtain xs where xs: "ring (bufs s) xs" "set xs = {..<NBUF}" using cached_ring [OF C] by blast
  show ?thesis
  proof (rule cachedI)
    show "calm p t" by (rule calm_frame(2) [OF D(1)]) (simp_all add: t upd_buf_def)
    show "ring (bufs t) xs" using xs(1) unfolding t by (subst ring_upd_buf) simp_all
    show "if a \<in> dom h then sl_locked (sleeplocks t (L_bufsleep a)) \<noteq> 0 \<and> sl_pid (sleeplocks t (L_bufsleep a)) = p_pid (procs t p)
        else sl_locked (sleeplocks t (L_bufsleep a)) = 0" if "a < NBUF" for a
      using D(4,5) [of a] that by (simp add: t upd_buf_def)
  qed (use xs D(3) ok in \<open>simp_all add: t upd_buf_def\<close>)
qed

lemma bpin_eq:
  assumes "calm p s"
  shows "bpin b s = Ok () (touch (upd_buf b (\<lambda>q. q\<lparr>b_refcnt := b_refcnt q + 1\<rparr>) s))"
    "bunpin b s = Ok () (touch (upd_buf b (\<lambda>q. q\<lparr>b_refcnt := b_refcnt q - 1\<rparr>) s))"
  using assms unfolding calm_def bpin_def bunpin_def
  by (simp_all add: acquire_free lock_simps release_hold slots_free_irqs)

lemma twp_bunpin:
  assumes C: "cached p dev m pin h ws s" and h: "h b = Some (bno, d)" "bno \<in> dom pin"
    and Q: "\<And>t. cached p dev m (pin(bno := None)) h ws t \<Longrightarrow> same_rest s t \<Longrightarrow> Q () t"
  shows "twp (bunpin b s) Q"
proof -
  note D = cachedD [OF C]
  let ?t = "upd_buf b (\<lambda>q. q\<lparr>b_refcnt := b_refcnt q - 1\<rparr>) s"
  have "cached p dev m (pin(bno := None)) h ws ?t"
    using C by (rule cached_count [where r = "b_refcnt (bufs s b) - 1"])
      (simp_all add: upd_buf_def, rule bufs_ok_unpin [OF D(2) h], simp_all add: same_use_def)
  then show ?thesis using Q by (simp add: bpin_eq [OF D(1)] same_rest_def upd_buf_def)
qed

lemma cached_bpin:
  assumes C: "cached p dev m pin h ws s" and h: "h b = Some (bno, d)" "bno \<notin> dom pin"
  shows "cached p dev m (pin(bno \<mapsto> d)) h ws (upd_buf b (\<lambda>q. q\<lparr>b_refcnt := b_refcnt q + 1\<rparr>) s)"
  using C by (rule cached_count [where r = "b_refcnt (bufs s b) + 1"])
    (simp_all add: upd_buf_def, rule bufs_ok_pin [OF cachedD(2) [OF C] h(1)], use h(2) in \<open>simp_all add: same_use_def\<close>)

text \<open>A pinned block that is held gets the contents of its buffer.\<close>

lemma cached_repin:
  assumes C: "cached p dev m pin h ws s" and h: "h b = Some (bno, d)" "bno \<in> dom pin"
  shows "cached p dev m (pin(bno \<mapsto> d)) h ws s"
proof -
  have "bufs_ok dev (apply_writes m ws) (pin(bno \<mapsto> d)) h (bufs s)"
    by (rule bufs_ok_pin [OF cachedD(2) [OF C] h(1)]) (use h(2) in \<open>simp_all add: same_use_def\<close>)
  then show ?thesis using C unfolding cached_def by blast
qed

end
