(* ===== verification/LogImage.thy ===== *)
theory LogImage
  imports CacheService
begin

text \<open>
  The log on disk (\<open>kernel/log.c\<close>): what the contents of the disk mean. The header block \<open>ls\<close> of the log has a
  count and block numbers; the blocks after it have the contents these blocks are to get. \<open>recovered ls m\<close> is
  the disk after all of them have been installed, and \<open>logical ls sz m\<close> what a file system that recovers
  from the image \<open>m\<close> sees outside the log area of \<open>sz\<close> blocks.
\<close>

subsection \<open>Images\<close>

definition log_n :: "uchar list \<Rightarrow> nat" where
  "log_n hb = nat (sint (get32 hb 0))"

definition log_blk :: "uchar list \<Rightarrow> nat \<Rightarrow> uint" where
  "log_blk hb i = get32 hb (4 + 4 * i)"

definition installs :: "nat \<Rightarrow> image \<Rightarrow> (nat \<times> uchar list) list" where
  "installs ls m = map (\<lambda>i. (unat (log_blk (m ls) i), m (ls + 1 + i))) [0..<log_n (m ls)]"

definition recovered :: "nat \<Rightarrow> image \<Rightarrow> image" where
  "recovered ls m = apply_writes m (installs ls m)"

definition logical :: "nat \<Rightarrow> nat \<Rightarrow> image \<Rightarrow> image" where
  "logical ls sz m = (\<lambda>b. if b \<in> {ls..<ls + sz} then [] else recovered ls m b)"

text \<open>A header that a commit may have written: its blocks fit into the log, and lie outside it.\<close>

definition log_wf :: "nat \<Rightarrow> nat \<Rightarrow> image \<Rightarrow> bool" where
  "log_wf ls sz m \<longleftrightarrow> length (m ls) = BSIZE \<and> log_n (m ls) < sz \<and>
     (\<forall>i<log_n (m ls). unat (log_blk (m ls) i) \<notin> {ls..<ls + sz} \<and> unat (log_blk (m ls) i) < 2 ^ 31)"

lemma apply_writes_append: "apply_writes m (xs @ ys) = apply_writes (apply_writes m xs) ys"
  by (simp add: apply_writes_def)

lemma apply_writes_Cons [simp]: "apply_writes m ((b, d) # xs) = apply_writes (m(b := d)) xs"
  by (simp add: apply_writes_def)

text \<open>Only the last write to a block counts.\<close>

lemma apply_writes_at: "apply_writes m ws b = (case map_of (rev ws) b of Some d \<Rightarrow> d | None \<Rightarrow> m b)"
  by (induction ws rule: rev_induct) (auto simp: apply_writes_append)

lemma apply_writes_outside: "b \<notin> fst ` set ws \<Longrightarrow> apply_writes m ws b = m b"
  by (auto simp: apply_writes_at map_of_eq_None_iff [THEN iffD2] split: option.split)

lemma apply_writes_again:
  assumes "set vs \<subseteq> set ws" "\<And>b. b \<in> fst ` set vs \<Longrightarrow> b \<in> fst ` set ws"
  shows "apply_writes (apply_writes m vs) ws = apply_writes m ws"
proof
  fix b
  show "apply_writes (apply_writes m vs) ws b = apply_writes m ws b"
  proof (cases "map_of (rev ws) b")
    case None
    then have "b \<notin> fst ` set ws" by (simp add: map_of_eq_None_iff)
    then have "b \<notin> fst ` set vs" using assms(2) by blast
    then show ?thesis using None by (simp add: apply_writes_at [of _ ws] apply_writes_outside)
  next
    case (Some d)
    then show ?thesis by (simp add: apply_writes_at)
  qed
qed

lemma installs_cong:
  assumes "\<And>b. b \<in> {ls..<ls + sz} \<Longrightarrow> m' b = m b" "log_n (m ls) < sz"
  shows "installs ls m' = installs ls m" "log_wf ls sz m' = log_wf ls sz m"
  using assms by (auto simp: installs_def log_wf_def)

lemma installs_outside: "log_wf ls sz m \<Longrightarrow> b \<in> {ls..<ls + sz} \<Longrightarrow> b \<notin> fst ` set (installs ls m)"
  by (auto simp: log_wf_def installs_def)

text \<open>While the log is being installed, the logical contents stay the same.\<close>

lemma logical_installing:
  assumes wf: "log_wf ls sz m"
  shows "logical ls sz (apply_writes m (take k (installs ls m))) = logical ls sz m"
    "log_wf ls sz (apply_writes m (take k (installs ls m)))"
proof -
  let ?v = "take k (installs ls m)"
  have v: "set ?v \<subseteq> set (installs ls m)" by (rule set_take_subset)
  have out: "apply_writes m ?v b = m b" if "b \<in> {ls..<ls + sz}" for b
    using installs_outside [OF wf that] v by (intro apply_writes_outside) blast
  have i: "installs ls (apply_writes m ?v) = installs ls m"
    using wf out by (intro installs_cong) (auto simp: log_wf_def)
  have "apply_writes (apply_writes m ?v) (installs ls m) = apply_writes m (installs ls m)"
    using v by (intro apply_writes_again) auto
  then show "logical ls sz (apply_writes m ?v) = logical ls sz m"
    by (simp add: logical_def recovered_def i fun_eq_iff)
  show "log_wf ls sz (apply_writes m ?v)"
    using wf out by (subst installs_cong(2)) (auto simp: log_wf_def)
qed

lemma logical_empty:
  assumes "log_n (m ls) = 0"
  shows "logical ls sz m = (\<lambda>b. if b \<in> {ls..<ls + sz} then [] else m b)"
  using assms by (simp add: logical_def recovered_def installs_def fun_eq_iff)

text \<open>Erasing the header after everything has been installed.\<close>

lemma logical_erase:
  assumes wf: "log_wf ls sz m" and hd: "log_n hb = 0" "0 < sz"
  shows "logical ls sz ((recovered ls m)(ls := hb)) = logical ls sz m"
  using hd by (subst logical_empty) (auto simp: logical_def fun_eq_iff)

subsection \<open>A commit on the image\<close>

text \<open>The header block as \<open>write_head\<close> fills it.\<close>

definition head_data :: "nat \<Rightarrow> (nat \<Rightarrow> uint) \<Rightarrow> uchar list \<Rightarrow> uchar list" where
  "head_data n blk d = fold (\<lambda>i d. put32 d (4 + 4 * i) (blk i)) [0..<n] (put32 d 0 (of_nat n))"

lemma fold_put32:
  "4 + 4 * n \<le> length d \<Longrightarrow> (let f = fold (\<lambda>i d. put32 d (4 + 4 * i) (blk i)) [0..<n] d in
     length f = length d \<and> get32 f 0 = get32 d 0 \<and> (\<forall>i<n. get32 f (4 + 4 * i) = blk i))"
  by (induction n) (auto simp: Let_def get32_put32_other less_Suc_eq)

lemma head_data:
  assumes "length d = BSIZE" "n \<le> nat LOGSIZE"
  shows "length (head_data n blk d) = BSIZE" "log_n (head_data n blk d) = n" "i < n \<Longrightarrow> log_blk (head_data n blk d) i = blk i"
proof -
  have b: "4 + 4 * n \<le> length (put32 d 0 (of_nat n))" "length (put32 d 0 (of_nat n)) = BSIZE"
    using assms by (simp_all add: BSIZE_def LOGSIZE_def)
  note f = fold_put32 [OF b(1), of blk, folded head_data_def, unfolded Let_def]
  show "length (head_data n blk d) = BSIZE" using f b(2) by simp
  have "sint (of_nat n :: uint) = int n"
    using assms(2) by (simp add: LOGSIZE_def signed_of_nat signed_take_bit_int_eq_self)
  then show "log_n (head_data n blk d) = n"
    using f assms(1) by (simp add: log_n_def BSIZE_def)
  show "i < n \<Longrightarrow> log_blk (head_data n blk d) i = blk i"
    using f by (simp add: log_blk_def)
qed

text \<open>
  The writes of a commit of \<open>n\<close> blocks \<open>blk\<close> with contents \<open>val\<close>: the contents to the log, the header, the contents
  to their places, and the header with the count zero. \<open>d\<close> is what was in the header.
\<close>

definition commit_writes :: "nat \<Rightarrow> nat \<Rightarrow> (nat \<Rightarrow> uint) \<Rightarrow> (nat \<Rightarrow> uchar list) \<Rightarrow> uchar list \<Rightarrow> (nat \<times> uchar list) list" where
  "commit_writes ls n blk val d =
     map (\<lambda>i. (ls + 1 + i, val i)) [0..<n] @ [(ls, head_data n blk d)] @
     map (\<lambda>i. (unat (blk i), val i)) [0..<n] @ [(ls, head_data 0 blk (head_data n blk d))]"

lemma apply_writes_run:
  "apply_writes m (map (\<lambda>i. (c + i, v i)) [0..<n]) = (\<lambda>b. if b \<in> {c..<c + n} then v (b - c) else m b)"
  by (induction n) (auto simp: fun_eq_iff)

lemma apply_writes_agree: "m b = m' b \<Longrightarrow> apply_writes m ws b = apply_writes m' ws b"
  by (simp add: apply_writes_at split: option.split)

text \<open>
  After \<open>k\<close> writes of a commit to a disk with an empty log, the logical contents are the old ones or those with all
  the new blocks; they change with the write of the header.
\<close>

lemma commit_writes_logical:
  assumes m: "length (m ls) = BSIZE" "log_n (m ls) = 0" and n: "n < sz" "sz \<le> nat LOGSIZE"
    and blk: "\<And>i. i < n \<Longrightarrow> unat (blk i) \<notin> {ls..<ls + sz} \<and> unat (blk i) < 2 ^ 31"
  shows "log_wf ls sz (apply_writes m (take k (commit_writes ls n blk val (m ls)))) \<and>
    logical ls sz (apply_writes m (take k (commit_writes ls n blk val (m ls)))) =
      logical ls sz (if k \<le> n then m else apply_writes m (map (\<lambda>i. (unat (blk i), val i)) [0..<n]))"
proof -
  define A where "A = map (\<lambda>i. (ls + 1 + i, val i)) [0..<n]"
  define B where "B = map (\<lambda>i. (unat (blk i), val i)) [0..<n]"
  define H where "H = head_data n blk (m ls)"
  define M where "M = (apply_writes m A)(ls := H)"
  let ?W = "commit_writes ls n blk val (m ls)"
  have W: "?W = A @ (ls, H) # B @ [(ls, head_data 0 blk H)]"
    by (simp add: commit_writes_def A_def B_def H_def)
  have len: "length A = n" "length B = n" by (simp_all add: A_def B_def)
  have H: "length H = BSIZE" "log_n H = n" "\<And>i. i < n \<Longrightarrow> log_blk H i = blk i"
    using head_data [OF m(1), where n = n and blk = blk] n by (simp_all add: H_def)
  have H0: "length (head_data 0 blk H) = BSIZE" "log_n (head_data 0 blk H) = 0"
    using head_data(1,2) [OF H(1), where n = 0 and blk = blk] by simp_all
  have Aw: "apply_writes m A = (\<lambda>b. if b \<in> {ls + 1..<ls + 1 + n} then val (b - (ls + 1)) else m b)"
    unfolding A_def by (rule apply_writes_run)
  have inst: "installs ls M = B"
    using H by (auto simp: installs_def M_def B_def Aw)
  have wf: "log_wf ls sz M" using H n blk by (simp add: log_wf_def M_def)
  have "b \<notin> fst ` set B" if "b \<in> {ls..<ls + sz}" for b using blk that by (auto simp: B_def)
  then have Bls: "apply_writes m B ls = m ls" using n by (intro apply_writes_outside) auto
  have new: "logical ls sz M = logical ls sz (apply_writes m B)"
  proof -
    have "apply_writes M B b = apply_writes m B b" if "b \<notin> {ls..<ls + sz}" for b
      using that n by (intro apply_writes_agree) (auto simp: M_def Aw)
    then show ?thesis
      using m(2) Bls by (subst logical_empty [of "apply_writes m B"]) (auto simp: logical_def recovered_def inst fun_eq_iff)
  qed
  consider "k \<le> n" | "n < k" "k \<le> 2 * n + 1" | "2 * n + 1 < k" by linarith
  then have "log_wf ls sz (apply_writes m (take k ?W)) \<and>
    logical ls sz (apply_writes m (take k ?W)) = logical ls sz (if k \<le> n then m else apply_writes m B)"
  proof cases
    case 1
    then have "take k ?W = map (\<lambda>i. (ls + 1 + i, val i)) [0..<k]" by (simp add: W len) (simp add: A_def take_map)
    then have t: "apply_writes m (take k ?W) = (\<lambda>b. if b \<in> {ls + 1..<ls + 1 + k} then val (b - (ls + 1)) else m b)"
      by (simp only: apply_writes_run)
    then have "log_n (apply_writes m (take k ?W) ls) = 0" using m by simp
    from logical_empty [of "apply_writes m (take k ?W)" ls sz, OF this]
    show ?thesis using 1 m n t by (auto simp: log_wf_def logical_empty fun_eq_iff)
  next
    case 2
    then have "apply_writes m (take k ?W) = apply_writes M (take (k - Suc n) (installs ls M))"
      by (simp add: W len take_Cons' apply_writes_append M_def [symmetric] inst)
    then show ?thesis using 2 logical_installing [OF wf, of "k - Suc n"] new by simp
  next
    case 3
    then have t: "apply_writes m (take k ?W) = (recovered ls M)(ls := head_data 0 blk H)"
      by (simp add: W len take_Cons' apply_writes_append M_def [symmetric] recovered_def inst)
    have "log_wf ls sz ((recovered ls M)(ls := head_data 0 blk H))" using H0 n by (simp add: log_wf_def)
    moreover have "logical ls sz ((recovered ls M)(ls := head_data 0 blk H)) = logical ls sz M"
      using logical_erase [OF wf H0(2)] n by simp
    ultimately show ?thesis using 3 new by (simp add: t)
  qed
  then show ?thesis unfolding B_def .
qed

end
