(* ===== verification/LogCrash.thy ===== *)
theory LogCrash
  imports LogImage
begin

text \<open>
  The commit and the recovery of the write-ahead log (\<open>kernel/log.c\<close>), on a disk that serves its requests: the
  writes they make, in order, and what is left on disk when the machine stops after any of them.
\<close>

subsection \<open>Loops\<close>

lemma twp_for_each:
  assumes "\<And>i s. i < n \<Longrightarrow> I i s \<Longrightarrow> twp (f i s) (\<lambda>_ t. I (Suc i) t)" "I 0 s"
  shows "twp (for_each f [0..<n] s) (\<lambda>_ t. I n t)"
proof -
  have "I (n - k) s \<Longrightarrow> k \<le> n \<Longrightarrow> twp (for_each f [n - k..<n] s) (\<lambda>_ t. I n t)" for k s
  proof (induction k arbitrary: s)
    case (Suc k)
    then have i: "n - Suc k < n" "Suc (n - Suc k) = n - k" by auto
    have "twp (f (n - Suc k) s) (\<lambda>_ t. twp (for_each f [n - k..<n] t) (\<lambda>_ t. I n t))"
      using assms(1) [OF i(1) Suc.prems(1)] Suc.IH Suc.prems(2) by (auto elim!: twp_mono simp: i(2))
    then show ?case using i by (simp add: upt_conv_Cons)
  qed simp
  from this [of n s] assms(2) show ?thesis by simp
qed

lemma same_rest_trans [trans]: "same_rest s t \<Longrightarrow> same_rest t u \<Longrightarrow> same_rest s u"
  by (simp add: same_rest_def)

lemma same_rest_refl [simp]: "same_rest s s"
  by (simp add: same_rest_def)

lemma same_rest_upd_buf [simp]: "same_rest s (upd_buf b f t) = same_rest s t"
  by (simp add: same_rest_def upd_buf_def)

lemma cached_data:
  "cached p dev m pin h ws s \<Longrightarrow> h b = Some (bno, d) \<Longrightarrow> b_data (bufs s b) = d"
  using bufs_ok_held cachedD(2) by blast

lemma content_pin [simp]: "pin bno = Some d \<Longrightarrow> content m pin bno = d"
  by (simp add: content_def)

lemma content_written [simp]:
  "pin bno = None \<Longrightarrow> content (m(unat bno := d)) pin bno = d"
  by (simp add: content_def)

subsection \<open>Writing the log\<close>

lemma log_write_step:
  assumes C: "cached p dev m pin Map.empty ws s" and sw: "disk_serves m sw" "0 < n"
    and lb: "pin lb = None" "unat lb < 2 ^ 31" and bl: "pin bl = Some d" "unat bl < 2 ^ 31" and c: "card (dom pin) < NBUF"
    and dev: "lg_dev (log s) = dev" "lg_start (log s) + of_nat i + 1 = lb" "lh_block (lg_lh (log s)) i = bl"
  shows "twp (bnd (bread n sw (lg_dev (log s)) (lg_start (log s) + of_nat i + 1) s) (\<lambda>to_b s.
       bnd (bread n sw (lg_dev (log s)) (lh_block (lg_lh (log s)) i) s) (\<lambda>from_b s.
       let s = upd_buf to_b (\<lambda>q. q\<lparr>b_data := b_data (bufs s from_b)\<rparr>) s in
       bnd (bwrite n sw to_b s) (\<lambda>_ s.
       bnd (brelse from_b s) (\<lambda>_ s.
       brelse to_b s))))) (\<lambda>_ t. cached p dev m pin Map.empty (ws @ [(unat lb, d)]) t \<and> same_rest s t)"
  unfolding twp_simps dev
proof (rule twp_bread [OF C sw])
  fix b1 :: nat and s1 :: "'a dvst_scheme"
  let ?h1 = "Map.empty(b1 \<mapsto> (lb, content (apply_writes m ws) pin lb))"
  assume C1: "cached p dev m pin ?h1 ws s1" and r1: "same_rest s s1"
  then have l1: "lg_dev (log s1) = dev" "lh_block (lg_lh (log s1)) i = bl" using dev by (simp_all add: same_rest_def)
  let ?Q = "\<lambda>_ t. cached p dev m pin Map.empty (ws @ [(unat lb, d)]) t \<and> same_rest s t"
  have ne: "lb \<noteq> bl" using lb bl by auto
  show "twp (bread n sw (lg_dev (log s1)) (lh_block (lg_lh (log s1)) i) s1) (\<lambda>from_b s.
       twp (let s = upd_buf b1 (\<lambda>q. q\<lparr>b_data := b_data (bufs s from_b)\<rparr>) s in
       bnd (bwrite n sw b1 s) (\<lambda>_ s. bnd (brelse from_b s) (\<lambda>_ s. brelse b1 s)))
       ?Q)"
    unfolding l1
  proof (rule twp_bread [OF C1 sw])
    fix b2 :: nat and s2 :: "'a dvst_scheme"
    let ?h2 = "?h1(b2 \<mapsto> (bl, content (apply_writes m ws) pin bl))"
    assume b2: "b2 \<notin> dom ?h1" and C2: "cached p dev m pin ?h2 ws s2" and r2: "same_rest s1 s2"
    from b2 have b12: "b2 \<noteq> b1" by simp
    have d: "b_data (bufs s2 b2) = d" using cached_data [OF C2] bl by simp
    let ?h3 = "?h2(b1 \<mapsto> (lb, d))"
    have C3: "cached p dev m pin ?h3 ws (upd_buf b1 (\<lambda>q. q\<lparr>b_data := d\<rparr>) s2)"
      using b12 by (intro cached_set [OF C2]) simp
    show "twp (let s = upd_buf b1 (\<lambda>q. q\<lparr>b_data := b_data (bufs s2 b2)\<rparr>) s2 in
       bnd (bwrite n sw b1 s) (\<lambda>_ s. bnd (brelse b2 s) (\<lambda>_ s. brelse b1 s)))
       ?Q"
      unfolding Let_def d twp_simps
    proof (rule twp_bwrite [OF C3 sw])
      fix s3 :: "'a dvst_scheme"
      assume C4: "cached p dev m pin ?h3 (ws @ [(unat lb, d)]) s3" and r3: "same_rest (upd_buf b1 (\<lambda>q. q\<lparr>b_data := d\<rparr>) s2) s3"
      show "twp (brelse b2 s3) (\<lambda>_ s4. twp (brelse b1 s4)
         ?Q)"
      proof (rule twp_brelse [OF C4])
        show "?h3 b2 = Some (bl, content (apply_writes m (ws @ [(unat lb, d)])) pin bl)" using b12 bl by simp
        fix s4 :: "'a dvst_scheme"
        assume C5: "cached p dev m pin (?h3(b2 := None)) (ws @ [(unat lb, d)]) s4" and r4: "same_rest s3 s4"
        show "twp (brelse b1 s4) ?Q"
        proof (rule twp_brelse [OF C5])
          show "(?h3(b2 := None)) b1 = Some (lb, content (apply_writes m (ws @ [(unat lb, d)])) pin lb)"
            using b12 lb by simp
          fix t :: "'a dvst_scheme"
          assume C6: "cached p dev m pin (?h3(b2 := None, b1 := None)) (ws @ [(unat lb, d)]) t" and r5: "same_rest s4 t"
          have "?h3(b2 := None, b1 := None) = Map.empty" by auto
          then show "cached p dev m pin Map.empty (ws @ [(unat lb, d)]) t \<and> same_rest s t"
            using C6 r1 r2 r3 r4 r5 by (simp add: same_rest_def upd_buf_def)
        qed
      qed
    qed (use b12 lb in auto)
  qed (use bl ne in auto)
qed (use lb c in auto)

subsection \<open>Installing the log\<close>

lemma install_step:
  assumes C: "cached p dev m pin Map.empty ws s" and sw: "disk_serves m sw" "0 < n"
    and lb: "pin lb = None" "unat lb < 2 ^ 31" and bl: "recovering = (pin bl = None)" "unat bl < 2 ^ 31" "bl \<noteq> lb"
    and c: "card (dom pin) + of_bool recovering < NBUF"
    and d: "d = apply_writes m ws (unat lb)"
    and dev: "lg_dev (log s) = dev" "lg_start (log s) + of_nat i + 1 = lb" "lh_block (lg_lh (log s)) i = bl"
  shows "twp (bnd (bread n sw (lg_dev (log s)) (lg_start (log s) + of_nat i + 1) s) (\<lambda>lbuf s.
       bnd (bread n sw (lg_dev (log s)) (lh_block (lg_lh (log s)) i) s) (\<lambda>dbuf s.
       let s = upd_buf dbuf (\<lambda>q. q\<lparr>b_data := b_data (bufs s lbuf)\<rparr>) s in
       bnd (bwrite n sw dbuf s) (\<lambda>_ s.
       bnd (if \<not> recovering then bunpin dbuf s else Ok () s) (\<lambda>_ s.
       bnd (brelse lbuf s) (\<lambda>_ s.
       brelse dbuf s))))))
    (\<lambda>_ t. cached p dev m (pin(bl := None)) Map.empty (ws @ [(unat bl, d)]) t \<and> same_rest s t)"
  unfolding twp_simps dev
proof (rule twp_bread [OF C sw])
  fix b1 :: nat and s1 :: "'a dvst_scheme"
  let ?h1 = "Map.empty(b1 \<mapsto> (lb, content (apply_writes m ws) pin lb))"
  assume C1: "cached p dev m pin ?h1 ws s1" and r1: "same_rest s s1"
  then have l1: "lg_dev (log s1) = dev" "lh_block (lg_lh (log s1)) i = bl" using dev by (simp_all add: same_rest_def)
  let ?Q = "\<lambda>_ t. cached p dev m (pin(bl := None)) Map.empty (ws @ [(unat bl, d)]) t \<and> same_rest s t"
  show "twp (bread n sw (lg_dev (log s1)) (lh_block (lg_lh (log s1)) i) s1) (\<lambda>dbuf s.
       twp (let s = upd_buf dbuf (\<lambda>q. q\<lparr>b_data := b_data (bufs s b1)\<rparr>) s in
       bnd (bwrite n sw dbuf s) (\<lambda>_ s. bnd (if \<not> recovering then bunpin dbuf s else Ok () s) (\<lambda>_ s.
         bnd (brelse b1 s) (\<lambda>_ s. brelse dbuf s)))) ?Q)"
    unfolding l1
  proof (rule twp_bread [OF C1 sw])
    fix b2 :: nat and s2 :: "'a dvst_scheme"
    let ?h2 = "?h1(b2 \<mapsto> (bl, content (apply_writes m ws) pin bl))"
    assume b2: "b2 \<notin> dom ?h1" and C2: "cached p dev m pin ?h2 ws s2" and r2: "same_rest s1 s2"
    from b2 have b12: "b2 \<noteq> b1" by simp
    have dl: "content (apply_writes m ws) pin lb = d" using lb d by (simp add: content_def)
    have d2: "b_data (bufs s2 b1) = d" using cached_data [OF C2, of b1] b12 dl by simp
    let ?h3 = "Map.empty(b1 \<mapsto> (lb, d), b2 \<mapsto> (bl, d))" and ?ws = "ws @ [(unat bl, d)]" and ?pin = "pin(bl := None)"
    have "cached p dev m pin (?h2(b2 \<mapsto> (bl, d))) ws (upd_buf b2 (\<lambda>q. q\<lparr>b_data := d\<rparr>) s2)"
      by (intro cached_set [OF C2]) simp
    then have C3: "cached p dev m pin ?h3 ws (upd_buf b2 (\<lambda>q. q\<lparr>b_data := d\<rparr>) s2)" by (simp add: dl)
    show "twp (let s = upd_buf b2 (\<lambda>q. q\<lparr>b_data := b_data (bufs s2 b1)\<rparr>) s2 in
       bnd (bwrite n sw b2 s) (\<lambda>_ s. bnd (if \<not> recovering then bunpin b2 s else Ok () s) (\<lambda>_ s.
         bnd (brelse b1 s) (\<lambda>_ s. brelse b2 s)))) ?Q"
      unfolding Let_def d2 twp_simps
    proof (rule twp_bwrite [OF C3 sw])
      fix s3 :: "'a dvst_scheme"
      assume C4: "cached p dev m pin ?h3 ?ws s3" and r3: "same_rest (upd_buf b2 (\<lambda>q. q\<lparr>b_data := d\<rparr>) s2) s3"
      have "twp (if \<not> recovering then bunpin b2 s3 else Ok () s3) (\<lambda>_ s4. cached p dev m ?pin ?h3 ?ws s4 \<and> same_rest s3 s4)"
      proof (cases recovering)
        case True
        then have "pin(bl := None) = pin" using bl(1) by auto
        then show ?thesis using True C4 by simp
      next
        case False
        then show ?thesis using bl(1) C4 by (auto intro!: twp_bunpin [OF C4, where d = d])
      qed
      then show "twp (if \<not> recovering then bunpin b2 s3 else Ok () s3) (\<lambda>_ s4. twp (brelse b1 s4) (\<lambda>_ s5. twp (brelse b2 s5) ?Q))"
      proof (rule twp_mono)
        fix s4 :: "'a dvst_scheme"
        assume "cached p dev m ?pin ?h3 ?ws s4 \<and> same_rest s3 s4"
        then have C5: "cached p dev m ?pin ?h3 ?ws s4" and r4: "same_rest s3 s4" by auto
        have "unat lb \<noteq> unat bl" using bl(3) by (simp add: word_unat_eq_iff)
        then have hl: "content (apply_writes m ?ws) ?pin lb = d" using lb bl(3) d by (simp add: content_def)
        show "twp (brelse b1 s4) (\<lambda>_ s5. twp (brelse b2 s5) ?Q)"
        proof (rule twp_brelse [OF C5])
          show "?h3 b1 = Some (lb, content (apply_writes m ?ws) ?pin lb)" using b12 hl by simp
          fix s5 :: "'a dvst_scheme"
          assume C6: "cached p dev m ?pin (?h3(b1 := None)) ?ws s5" and r5: "same_rest s4 s5"
          show "twp (brelse b2 s5) ?Q"
          proof (rule twp_brelse [OF C6])
            show "(?h3(b1 := None)) b2 = Some (bl, content (apply_writes m ?ws) ?pin bl)" using b12 by simp
            fix t :: "'a dvst_scheme"
            assume C7: "cached p dev m ?pin (?h3(b1 := None, b2 := None)) ?ws t" and r6: "same_rest s5 t"
            have "?h3(b1 := None, b2 := None) = Map.empty" by auto
            then show "cached p dev m ?pin Map.empty ?ws t \<and> same_rest s t"
              using C7 r1 r2 r3 r4 r5 r6 by (simp add: same_rest_def upd_buf_def)
          qed
        qed
      qed
    qed (use bl in auto)
  next
    show "bl \<in> dom pin \<or> card (dom ?h1) + card (dom pin) < NBUF"
      using bl(1) c by (cases recovering) auto
  qed (use bl in auto)
qed (use lb c in auto)

subsection \<open>The phases of a commit\<close>

text \<open>The \<open>i\<close>-th block of the log.\<close>

lemma unat_log_block:
  assumes "unat st + sz < 2 ^ 31" "i < sz"
  shows "unat (st + of_nat i + 1 :: uint) = unat st + 1 + i"
proof -
  have i: "unat (of_nat i :: uint) = i" using assms by (simp add: unat_of_nat)
  then have "unat (st + of_nat i) = unat st + i" using assms by (subst unat_add_lem [THEN iffD1]) simp_all
  then show ?thesis using assms by (subst unat_add_lem [THEN iffD1]) simp_all
qed

lemma twp_write_log:
  assumes C: "cached p dev m pin Map.empty ws s" and sw: "disk_serves m sw" "0 < n"
    and lg: "log s = lg" "lg_dev lg = dev" "lh_n (lg_lh lg) = int k" and sz: "unat (lg_start lg) + sz < 2 ^ 31" "k < sz"
    and blk: "\<And>i. i < k \<Longrightarrow> pin (lh_block (lg_lh lg) i) = Some (val i) \<and> unat (lh_block (lg_lh lg) i) < 2 ^ 31"
    and pin: "\<And>b. b \<in> dom pin \<Longrightarrow> unat b \<notin> {unat (lg_start lg)..<unat (lg_start lg) + sz}" "card (dom pin) < NBUF"
  shows "twp (write_log n sw s) (\<lambda>_ t. cached p dev m pin Map.empty (ws @ map (\<lambda>i. (unat (lg_start lg) + 1 + i, val i)) [0..<k]) t \<and> same_rest s t)"
proof -
  let ?I = "\<lambda>j t. cached p dev m pin Map.empty (ws @ map (\<lambda>i. (unat (lg_start lg) + 1 + i, val i)) [0..<j]) t \<and> same_rest s t"
  have "twp (write_log n sw s) (\<lambda>_ t. ?I k t)"
    unfolding write_log_def lg(1,3) nat_int
  proof (rule twp_for_each)
    show "?I 0 s" using C by simp
    fix i and u :: "'a dvst_scheme" assume i: "i < k" and I: "?I i u"
    let ?lb = "lg_start lg + of_nat i + 1"
    have log: "log u = lg" using I lg by (simp add: same_rest_def)
    have ul: "unat ?lb = unat (lg_start lg) + 1 + i" using sz i by (intro unat_log_block [where sz = sz]) auto
    have "?lb \<notin> dom pin" using pin(1) [of ?lb] ul i sz by auto
    then have "pin ?lb = None" by auto
    moreover have "unat ?lb < 2 ^ 31" using ul i sz by linarith
    moreover have "pin (lh_block (lg_lh lg) i) = Some (val i)" "unat (lh_block (lg_lh lg) i) < 2 ^ 31" using blk [OF i] by auto
    ultimately have "twp (bnd (bread n sw (lg_dev (log u)) (lg_start (log u) + of_nat i + 1) u) (\<lambda>to_b s.
       bnd (bread n sw (lg_dev (log s)) (lh_block (lg_lh (log s)) i) s) (\<lambda>from_b s.
       let s = upd_buf to_b (\<lambda>q. q\<lparr>b_data := b_data (bufs s from_b)\<rparr>) s in
       bnd (bwrite n sw to_b s) (\<lambda>_ s. bnd (brelse from_b s) (\<lambda>_ s. brelse to_b s)))))
      (\<lambda>_ t. cached p dev m pin Map.empty ((ws @ map (\<lambda>i. (unat (lg_start lg) + 1 + i, val i)) [0..<i]) @ [(unat ?lb, val i)]) t \<and> same_rest u t)"
      using I pin(2) log lg(2) by (intro log_write_step [OF _ sw]) auto
    then show "twp (bnd (bread n sw (lg_dev (log u)) (lg_start (log u) + of_nat i + 1) u) (\<lambda>to_b s.
       bnd (bread n sw (lg_dev (log s)) (lh_block (lg_lh (log s)) i) s) (\<lambda>from_b s.
       let s = upd_buf to_b (\<lambda>q. q\<lparr>b_data := b_data (bufs s from_b)\<rparr>) s in
       bnd (bwrite n sw to_b s) (\<lambda>_ s. bnd (brelse from_b s) (\<lambda>_ s. brelse to_b s))))) (\<lambda>_ t. ?I (Suc i) t)"
      by (rule twp_mono) (use I ul in \<open>auto simp: same_rest_def\<close>)
  qed
  then show ?thesis .
qed

lemma restrict_out: "(pin |` (- A))(b := None) = pin |` (- insert b A)"
  by (auto simp: restrict_map_def fun_eq_iff)

lemma twp_install_trans:
  assumes C: "cached p dev m pin Map.empty ws s" and sw: "disk_serves m sw" "0 < n"
    and lg: "log s = lg" "lg_dev lg = dev" "nat (lh_n (lg_lh lg)) = k" and sz: "unat (lg_start lg) + sz < 2 ^ 31" "k < sz"
    and blk: "\<And>i. i < k \<Longrightarrow> unat (lh_block (lg_lh lg) i) \<notin> {unat (lg_start lg)..<unat (lg_start lg) + sz} \<and> unat (lh_block (lg_lh lg) i) < 2 ^ 31"
    and pin: "if recovering then pin = Map.empty else dom pin = lh_block (lg_lh lg) ` {..<k} \<and> inj_on (lh_block (lg_lh lg)) {..<k}"
    and k: "k < NBUF"
    and val: "\<And>i. i < k \<Longrightarrow> val i = apply_writes m ws (unat (lg_start lg) + 1 + i)"
  shows "twp (install_trans n sw recovering s) (\<lambda>_ t. cached p dev m Map.empty Map.empty
    (ws @ map (\<lambda>i. (unat (lh_block (lg_lh lg) i), val i)) [0..<k]) t \<and> same_rest s t)"
proof -
  let ?blk = "lh_block (lg_lh lg)" and ?ls = "unat (lg_start lg)"
  let ?pin = "\<lambda>j. pin |` (- ?blk ` {..<j})" and ?ws = "\<lambda>j. ws @ map (\<lambda>i. (unat (?blk i), val i)) [0..<j]"
  let ?I = "\<lambda>j t. cached p dev m (?pin j) Map.empty (?ws j) t \<and> same_rest s t"
  have fin: "finite (dom pin)" "card (dom pin) \<le> k"
    using pin card_image_le [of "{..<k}" ?blk] by (auto split: if_splits)
  have pd: "unat b \<notin> {?ls..<?ls + sz}" if "b \<in> dom pin" for b using that pin blk by (auto split: if_splits)
  have "twp (install_trans n sw recovering s) (\<lambda>_ t. ?I k t)"
    unfolding install_trans_def lg(1,3)
  proof (rule twp_for_each)
    show "?I 0 s" using C by (simp add: restrict_map_def)
    fix i and u :: "'a dvst_scheme" assume i: "i < k" and I: "?I i u"
    let ?lb = "lg_start lg + of_nat i + 1" and ?b = "?blk i"
    have log: "log u = lg" using I lg by (simp add: same_rest_def)
    have ul: "unat ?lb = ?ls + 1 + i" using sz i by (intro unat_log_block [where sz = sz]) auto
    have "?lb \<notin> dom pin" using pd [of ?lb] ul i sz by auto
    then have "?pin i ?lb = None" by (auto simp: restrict_map_def)
    moreover have "unat ?lb < 2 ^ 31" using ul i sz by linarith
    moreover have "recovering = (?pin i ?b = None)"
    proof (cases recovering)
      case True
      then show ?thesis using pin by simp
    next
      case False
      then have "?b \<in> dom pin" "inj_on ?blk {..<k}" using pin i by auto
      moreover have "?b \<notin> ?blk ` {..<i}" using \<open>inj_on ?blk {..<k}\<close> i by (auto dest!: inj_onD)
      ultimately show ?thesis using False by (auto simp: restrict_map_def)
    qed
    moreover have "unat ?b < 2 ^ 31" using blk [OF i] by simp
    moreover have "?b \<noteq> ?lb" using blk [OF i] ul i sz by auto
    moreover have "card (dom (?pin i)) + of_bool recovering < NBUF"
    proof -
      have "card (dom (?pin i)) \<le> card (dom pin)" using fin(1) by (intro card_mono) auto
      then show ?thesis using fin(2) k pin by (cases recovering) (auto simp: NBUF_def)
    qed
    moreover have "val i = apply_writes m (?ws i) (unat ?lb)"
    proof -
      have "unat (?blk j) \<noteq> ?ls + 1 + i" if "j < i" for j using blk [of j] that i sz(2) by auto
      then have "?ls + 1 + i \<notin> fst ` set (map (\<lambda>i. (unat (?blk i), val i)) [0..<i])" by fastforce
      then show ?thesis using val [OF i] ul by (simp add: apply_writes_append apply_writes_outside)
    qed
    ultimately have "twp (bnd (bread n sw (lg_dev (log u)) (lg_start (log u) + of_nat i + 1) u) (\<lambda>lbuf s.
       bnd (bread n sw (lg_dev (log s)) (lh_block (lg_lh (log s)) i) s) (\<lambda>dbuf s.
       let s = upd_buf dbuf (\<lambda>q. q\<lparr>b_data := b_data (bufs s lbuf)\<rparr>) s in
       bnd (bwrite n sw dbuf s) (\<lambda>_ s.
       bnd (if \<not> recovering then bunpin dbuf s else Ok () s) (\<lambda>_ s.
       bnd (brelse lbuf s) (\<lambda>_ s. brelse dbuf s))))))
      (\<lambda>_ t. cached p dev m ((?pin i)(?b := None)) Map.empty (?ws i @ [(unat ?b, val i)]) t \<and> same_rest u t)"
      using I log lg(2) by (intro install_step [OF _ sw]) auto
    then show "twp (bnd (bread n sw (lg_dev (log u)) (lg_start (log u) + of_nat i + 1) u) (\<lambda>lbuf s.
       bnd (bread n sw (lg_dev (log s)) (lh_block (lg_lh (log s)) i) s) (\<lambda>dbuf s.
       let s = upd_buf dbuf (\<lambda>q. q\<lparr>b_data := b_data (bufs s lbuf)\<rparr>) s in
       bnd (bwrite n sw dbuf s) (\<lambda>_ s.
       bnd (if \<not> recovering then bunpin dbuf s else Ok () s) (\<lambda>_ s.
       bnd (brelse lbuf s) (\<lambda>_ s. brelse dbuf s)))))) (\<lambda>_ t. ?I (Suc i) t)"
      unfolding restrict_out by (rule twp_mono) (use I in \<open>auto simp: same_rest_def lessThan_Suc\<close>)
  qed
  moreover have "?pin k = Map.empty" using pin by (auto simp: restrict_map_def fun_eq_iff split: if_splits)
  ultimately show ?thesis by simp
qed

subsection \<open>The header\<close>

lemma fold_upd_data:
  "fold (\<lambda>i s. upd_buf b (\<lambda>q. q\<lparr>b_data := F i (b_data q)\<rparr>) s) xs s =
    upd_buf b (\<lambda>q. q\<lparr>b_data := fold F xs (b_data q)\<rparr>) s"
proof (induction xs arbitrary: s)
  case Nil
  show ?case by (simp add: upd_buf_def)
next
  case (Cons x xs)
  then show ?case by (simp add: upd_buf_def)
qed

lemma twp_write_head:
  assumes C: "cached p dev m pin Map.empty ws s" and sw: "disk_serves m sw" "0 < n"
    and lg: "log s = lg" "lg_dev lg = dev" "lh_n (lg_lh lg) = int k" "unat (lg_start lg) < 2 ^ 31"
    and pin: "pin (lg_start lg) = None" "card (dom pin) < NBUF"
    and Q: "\<And>t. cached p dev m pin Map.empty (ws @ [(unat (lg_start lg),
        head_data k (lh_block (lg_lh lg)) (apply_writes m ws (unat (lg_start lg))))]) t \<Longrightarrow> same_rest s t \<Longrightarrow> Q () t"
  shows "twp (write_head n sw s) Q"
  unfolding write_head_def twp_simps lg
proof (rule twp_bread [OF C sw])
  fix b :: nat and s1 :: "'a dvst_scheme"
  let ?st = "lg_start lg" and ?d = "apply_writes m ws (unat (lg_start lg))"
  let ?hd = "head_data k (lh_block (lg_lh lg)) ?d"
  have cont: "content (apply_writes m ws) pin ?st = ?d" using pin by (simp add: content_def)
  assume C1: "cached p dev m pin (Map.empty(b \<mapsto> (?st, content (apply_writes m ws) pin ?st))) ws s1" and r1: "same_rest s s1"
  have log: "log s1 = lg" using r1 lg by (simp add: same_rest_def)
  have d: "b_data (bufs s1 b) = ?d" using cached_data [OF C1, of b] cont by simp
  have upd: "fold (\<lambda>i s. upd_buf b (\<lambda>q. q\<lparr>b_data := put32 (b_data q) (4 + 4 * i) (lh_block (lg_lh lg) i)\<rparr>) s) [0..<k]
      (upd_buf b (\<lambda>q. q\<lparr>b_data := put32 (b_data q) 0 (word_of_int (int k))\<rparr>) s1) = upd_buf b (\<lambda>q. q\<lparr>b_data := ?hd\<rparr>) s1"
    unfolding fold_upd_data [where F = "\<lambda>i d. put32 d (4 + 4 * i) (lh_block (lg_lh lg) i)"]
    by (simp add: upd_buf_def head_data_def d)
  have C2: "cached p dev m pin (Map.empty(b \<mapsto> (?st, ?hd))) ws (upd_buf b (\<lambda>q. q\<lparr>b_data := ?hd\<rparr>) s1)"
    using cached_set [OF C1, of b] by simp
  show "twp (let lh = lg_lh (log s1);
      s = upd_buf b (\<lambda>q. q\<lparr>b_data := put32 (b_data q) 0 (word_of_int (lh_n lh))\<rparr>) s1;
      s = fold (\<lambda>i s. upd_buf b (\<lambda>q. q\<lparr>b_data := put32 (b_data q) (4 + 4 * i) (lh_block lh i)\<rparr>) s) [0..<nat (lh_n lh)] s
     in bnd (bwrite n sw b s) (\<lambda>_ s. brelse b s)) Q"
    unfolding Let_def log lg(3) nat_int upd twp_simps
  proof (rule twp_bwrite [OF C2 sw])
    fix s3 :: "'a dvst_scheme"
    assume C3: "cached p dev m pin (Map.empty(b \<mapsto> (?st, ?hd))) (ws @ [(unat ?st, ?hd)]) s3"
      and r3: "same_rest (upd_buf b (\<lambda>q. q\<lparr>b_data := ?hd\<rparr>) s1) s3"
    show "twp (brelse b s3) Q"
    proof (rule twp_brelse [OF C3, where bno = ?st])
      fix t :: "'a dvst_scheme"
      assume C4: "cached p dev m pin (Map.empty(b \<mapsto> (?st, ?hd), b := None)) (ws @ [(unat ?st, ?hd)]) t" and r4: "same_rest s3 t"
      have "(Map.empty(b \<mapsto> (?st, ?hd), b := None)) = Map.empty" by auto
      then show "Q () t" using C4 r1 r3 r4 by (intro Q) (auto simp: same_rest_def upd_buf_def)
    qed (use pin in simp)
  qed (use lg in auto)
qed (use lg pin in auto)

lemma cached_set_log [simp]: "cached p dev m pin h ws (s\<lparr>log := lg\<rparr>) = cached p dev m pin h ws s"
  by (simp add: cached_def calm_def slots_free_def)

lemma cached_set_n [simp]: "cached p dev m pin h ws (set_n k s) = cached p dev m pin h ws s"
  by (simp add: set_n_def)

text \<open>The log in memory after a commit or a recovery.\<close>

definition cleared :: "log \<Rightarrow> log" where
  "cleared lg = lg\<lparr>lg_lh := (lg_lh lg)\<lparr>lh_n := 0\<rparr>\<rparr>"

lemma log_set_n: "log (set_n 0 s) = cleared (log s)" "procs (set_n k s) = procs s"
  by (simp_all add: set_n_def cleared_def)

lemma cleared_simps [simp]:
  "lg_dev (cleared lg) = lg_dev lg" "lg_start (cleared lg) = lg_start lg" "lh_n (lg_lh (cleared lg)) = 0"
  "lh_block (lg_lh (cleared lg)) = lh_block (lg_lh lg)"
  by (simp_all add: cleared_def)

subsection \<open>Commit\<close>

text \<open>
  The state during a transaction that has logged \<open>k\<close> blocks: they are distinct, pinned in memory with the contents
  \<open>val\<close>, and outside the log area of \<open>sz\<close> blocks; \<open>h\<close> are the buffers that are held.
\<close>

definition entries :: "(nat \<Rightarrow> uint) \<Rightarrow> (nat \<Rightarrow> uchar list) \<Rightarrow> nat \<Rightarrow> pins" where
  "entries blk val k = map_of (map (\<lambda>i. (blk i, val i)) [0..<k])"

definition in_tx :: "nat \<Rightarrow> uint \<Rightarrow> image \<Rightarrow> nat \<Rightarrow> (nat \<Rightarrow> uchar list) \<Rightarrow> nat \<Rightarrow> held \<Rightarrow> 'z dvst_scheme \<Rightarrow> bool" where
  "in_tx p dev m k val sz h s \<longleftrightarrow>
     (let lg = log s; ls = unat (lg_start lg); blk = lh_block (lg_lh lg) in
      lg_dev lg = dev \<and> lh_n (lg_lh lg) = int k \<and> k < sz \<and> sz \<le> nat LOGSIZE \<and> ls + sz < 2 ^ 31 \<and> inj_on blk {..<k} \<and>
      (\<forall>i<k. unat (blk i) \<notin> {ls..<ls + sz} \<and> unat (blk i) < 2 ^ 31) \<and>
      cached p dev m (entries blk val k) h [] s)"

lemma entries_at:
  assumes "inj_on blk {..<k}" "i < k"
  shows "entries blk val k (blk i) = Some (val i)"
proof -
  have "distinct (map fst (map (\<lambda>i. (blk i, val i)) [0..<k]))"
    using assms(1) by (simp add: distinct_map o_def lessThan_atLeast0)
  then show ?thesis using assms(2) unfolding entries_def by (intro map_of_is_SomeI) auto
qed

lemma dom_entries: "dom (entries blk val k) = blk ` {..<k}"
  by (simp add: entries_def dom_map_of_conv_image_fst image_image lessThan_atLeast0)

lemma twp_commit:
  fixes s :: "'z dvst_scheme"
  assumes r: "in_tx p dev m k val sz Map.empty s" and sw: "disk_serves m sw" "0 < n" and k: "0 < k"
  defines "ls \<equiv> unat (lg_start (log s))"
  shows "twp (commit n sw s) (\<lambda>_ t. cached p dev m Map.empty Map.empty (commit_writes ls k (lh_block (lg_lh (log s))) val (m ls)) t \<and>
    log t = cleared (log s) \<and> procs t = procs s)"
proof -
  define lg where "lg = log s"
  define blk where "blk = lh_block (lg_lh lg)"
  define pin where "pin = entries blk val k"
  have R: "lg_dev lg = dev" "lh_n (lg_lh lg) = int k" "k < sz" "sz \<le> nat LOGSIZE" "ls + sz < 2 ^ 31" "inj_on blk {..<k}"
    and blk: "\<And>i. i < k \<Longrightarrow> unat (blk i) \<notin> {ls..<ls + sz} \<and> unat (blk i) < 2 ^ 31" and C: "cached p dev m pin Map.empty [] s"
    using r by (simp_all add: in_tx_def Let_def lg_def blk_def pin_def ls_def)
  have dom: "dom pin = blk ` {..<k}" by (simp add: pin_def dom_entries)
  have pb: "pin (blk i) = Some (val i)" if "i < k" for i using entries_at [OF R(6) that] by (simp add: pin_def)
  have card: "card (dom pin) < NBUF" "k < NBUF"
    using card_image_le [of "{..<k}" blk] R(3,4) unfolding dom by (auto simp: NBUF_def LOGSIZE_def)
  have pls: "unat b \<notin> {ls..<ls + sz}" if "b \<in> dom pin" for b using that blk by (auto simp: dom)
  from this [of "lg_start lg"] have "lg_start lg \<notin> dom pin" using R(3) by (auto simp: ls_def lg_def)
  then have p0: "pin (lg_start lg) = None" by (simp add: domIff)
  define A where "A = map (\<lambda>i. (ls + 1 + i, val i)) [0..<k]"
  define H where "H = head_data k blk (m ls)"
  define B where "B = map (\<lambda>i. (unat (blk i), val i)) [0..<k]"
  have Als: "apply_writes m A ls = m ls" "\<And>i. i < k \<Longrightarrow> apply_writes m A (ls + 1 + i) = val i"
    unfolding A_def apply_writes_run by auto
  have ls: "unat (lg_start lg) = ls" by (simp add: ls_def lg_def)
  have "twp (write_log n sw s) (\<lambda>_ t. cached p dev m pin Map.empty A t \<and> same_rest s t)"
    using twp_write_log [OF C sw lg_def [symmetric] R(1,2), of sz val] R pb blk pls card by (simp add: ls blk_def A_def)
  then have "twp (write_log n sw s) (\<lambda>_ t. twp (write_head n sw t) (\<lambda>_ t. twp (install_trans n sw False t)
     (\<lambda>_ t. twp (write_head n sw (set_n 0 t)) (\<lambda>_ t. cached p dev m Map.empty Map.empty (A @ (ls, H) # B @ [(ls, head_data 0 blk H)]) t \<and>
       log t = cleared lg \<and> procs t = procs s))))"
  proof (rule twp_mono)
    fix u and s1 :: "'z dvst_scheme" assume 1: "cached p dev m pin Map.empty A s1 \<and> same_rest s s1"
    show "twp (write_head n sw s1) (\<lambda>_ t. twp (install_trans n sw False t)
      (\<lambda>_ t. twp (write_head n sw (set_n 0 t)) (\<lambda>_ t. cached p dev m Map.empty Map.empty (A @ (ls, H) # B @ [(ls, head_data 0 blk H)]) t \<and>
       log t = cleared lg \<and> procs t = procs s)))"
    proof (rule twp_write_head [OF _ sw, where pin = pin and lg = lg and k = k])
      fix s2 :: "'z dvst_scheme"
      assume "cached p dev m pin Map.empty (A @ [(unat (lg_start lg), head_data k (lh_block (lg_lh lg)) (apply_writes m A (unat (lg_start lg))))]) s2"
        and "same_rest s1 s2"
      then have 2: "cached p dev m pin Map.empty (A @ [(ls, H)]) s2" "same_rest s s2"
        using 1 by (simp_all add: ls Als H_def blk_def same_rest_def)
      then have log2: "log s2 = lg" by (simp add: same_rest_def lg_def)
      have "twp (install_trans n sw False s2) (\<lambda>_ t. cached p dev m Map.empty Map.empty ((A @ [(ls, H)]) @ B) t \<and> same_rest s2 t)"
        unfolding B_def blk_def
        using R blk dom card Als log2 by (intro twp_install_trans [OF 2(1) sw, of lg k sz False val])
          (auto simp: ls blk_def apply_writes_append)
      then show "twp (install_trans n sw False s2) (\<lambda>_ t. twp (write_head n sw (set_n 0 t))
        (\<lambda>_ t. cached p dev m Map.empty Map.empty (A @ (ls, H) # B @ [(ls, head_data 0 blk H)]) t \<and> log t = cleared lg \<and> procs t = procs s))"
      proof (rule twp_mono)
        fix u and s3 :: "'z dvst_scheme"
        assume 3: "cached p dev m Map.empty Map.empty ((A @ [(ls, H)]) @ B) s3 \<and> same_rest s2 s3"
        have "unat (blk i) \<noteq> ls" if "i < k" for i using blk [OF that] R(3) by auto
        then have "ls \<notin> fst ` set B" by (force simp: B_def)
        then have Hls: "apply_writes m (A @ (ls, H) # B) ls = H" by (simp add: apply_writes_append apply_writes_outside)
        have log3: "log (set_n 0 s3) = cleared lg" "procs (set_n 0 s3) = procs s"
          using 2(2) 3 by (simp_all add: log_set_n same_rest_def lg_def)
        show "twp (write_head n sw (set_n 0 s3)) (\<lambda>_ t. cached p dev m Map.empty Map.empty (A @ (ls, H) # B @ [(ls, head_data 0 blk H)]) t \<and>
            log t = cleared lg \<and> procs t = procs s)"
        proof (rule twp_write_head [OF _ sw log3(1), where pin = Map.empty and k = 0])
          fix t :: "'z dvst_scheme"
          assume "cached p dev m Map.empty Map.empty (((A @ [(ls, H)]) @ B) @ [(unat (lg_start (cleared lg)),
              head_data 0 (lh_block (lg_lh (cleared lg))) (apply_writes m ((A @ [(ls, H)]) @ B) (unat (lg_start (cleared lg)))))]) t"
            and "same_rest (set_n 0 s3) t"
          then show "cached p dev m Map.empty Map.empty (A @ (ls, H) # B @ [(ls, head_data 0 blk H)]) t \<and> log t = cleared lg \<and> procs t = procs s"
            using log3 by (simp add: ls Hls same_rest_def) (simp add: blk_def)
        qed (use 3 R ls in \<open>auto simp: NBUF_def\<close>)
      qed
    qed (use 1 R p0 card ls in \<open>auto simp: same_rest_def lg_def\<close>)
  qed
  then show ?thesis
    using k R(2) unfolding commit_def lg_def [symmetric] by (simp add: commit_writes_def A_def H_def B_def blk_def)
qed

subsection \<open>Recovery\<close>

text \<open>The log in memory after \<open>read_head\<close> of the header block \<open>hb\<close>.\<close>

definition loaded :: "uchar list \<Rightarrow> log \<Rightarrow> log" where
  "loaded hb lg = lg\<lparr>lg_lh := \<lparr>lh_n = sint (get32 hb 0),
     lh_block = (\<lambda>i. if i < log_n hb then log_blk hb i else lh_block (lg_lh lg) i)\<rparr>\<rparr>"

lemma loaded_simps [simp]:
  "lg_dev (loaded hb lg) = lg_dev lg" "lg_start (loaded hb lg) = lg_start lg" "nat (lh_n (lg_lh (loaded hb lg))) = log_n hb"
  "i < log_n hb \<Longrightarrow> lh_block (lg_lh (loaded hb lg)) i = log_blk hb i"
  by (simp_all add: loaded_def log_n_def)

lemma fold_set_block:
  "fold (\<lambda>i s. set_block i (f i) s) [0..<k] s = s\<lparr>log := (log s)\<lparr>lg_lh := (lg_lh (log s))\<lparr>lh_block :=
     (\<lambda>i. if i < k then f i else lh_block (lg_lh (log s)) i)\<rparr>\<rparr>\<rparr>"
  by (induction k) (auto simp: set_block_def fun_eq_iff less_Suc_eq intro!: arg_cong [where f = "\<lambda>g. s\<lparr>log := (log s)\<lparr>lg_lh := (lg_lh (log s))\<lparr>lh_block := g\<rparr>\<rparr>\<rparr>"])

lemma twp_read_head:
  fixes s :: "'z dvst_scheme"
  assumes C: "cached p dev m Map.empty Map.empty ws s" and sw: "disk_serves m sw" "0 < n"
    and lg: "log s = lg" "lg_dev lg = dev" "unat (lg_start lg) < 2 ^ 31"
    and Q: "\<And>t. cached p dev m Map.empty Map.empty ws t \<Longrightarrow> log t = loaded (apply_writes m ws (unat (lg_start lg))) lg \<Longrightarrow> procs t = procs s \<Longrightarrow> Q () t"
  shows "twp (read_head n sw s) Q"
  unfolding read_head_def twp_simps lg
proof (rule twp_bread [OF C sw])
  fix b :: nat and s1 :: "'z dvst_scheme"
  let ?st = "lg_start lg" and ?d = "apply_writes m ws (unat (lg_start lg))"
  have cont: "content (apply_writes m ws) Map.empty ?st = ?d" by (simp add: content_def)
  assume C1: "cached p dev m Map.empty (Map.empty(b \<mapsto> (?st, content (apply_writes m ws) Map.empty ?st))) ws s1" and r1: "same_rest s s1"
  have log: "log s1 = lg" using r1 lg by (simp add: same_rest_def)
  have d: "b_data (bufs s1 b) = ?d" using cached_data [OF C1, of b] cont by simp
  let ?s2 = "s1\<lparr>log := loaded ?d lg\<rparr>"
  have "fold (\<lambda>i s. set_block i (get32 ?d (4 + 4 * i)) s) [0..<nat (lh_n (lg_lh (log (set_n (sint (get32 ?d 0)) s1))))] (set_n (sint (get32 ?d 0)) s1) = ?s2"
    unfolding fold_set_block by (simp add: set_n_def loaded_def log log_n_def log_blk_def cong: if_cong)
  then have e: "(let lh = b_data (bufs s1 b); s = set_n (sint (get32 lh 0)) s1;
         s = fold (\<lambda>i s. set_block i (get32 lh (4 + 4 * i)) s) [0..<nat (lh_n (lg_lh (log s)))] s
     in brelse b s) = brelse b ?s2"
    by (simp add: Let_def d)
  have C2: "cached p dev m Map.empty (Map.empty(b \<mapsto> (?st, ?d))) ws ?s2" using C1 cont by simp
  show "twp (let lh = b_data (bufs s1 b); s = set_n (sint (get32 lh 0)) s1;
         s = fold (\<lambda>i s. set_block i (get32 lh (4 + 4 * i)) s) [0..<nat (lh_n (lg_lh (log s)))] s
     in brelse b s) Q"
    unfolding e
  proof (rule twp_brelse [OF C2, where bno = ?st])
    fix t :: "'z dvst_scheme"
    assume C3: "cached p dev m Map.empty (Map.empty(b \<mapsto> (?st, ?d), b := None)) ws t" and r3: "same_rest ?s2 t"
    have "(Map.empty(b \<mapsto> (?st, ?d), b := None)) = Map.empty" by auto
    then show "Q () t" using C3 r1 r3 by (intro Q) (auto simp: same_rest_def)
  qed (use cont in simp)
qed (use lg in \<open>auto simp: NBUF_def\<close>)

definition recovery_writes :: "nat \<Rightarrow> (nat \<Rightarrow> uint) \<Rightarrow> image \<Rightarrow> (nat \<times> uchar list) list" where
  "recovery_writes ls blk m = installs ls m @ [(ls, head_data 0 blk (m ls))]"

lemma twp_recover:
  fixes s :: "'z dvst_scheme"
  assumes C: "cached p dev m Map.empty Map.empty [] s" and sw: "disk_serves m sw" "0 < n"
    and lg: "lg_dev (log s) = dev" "unat (lg_start (log s)) = ls" "ls + sz < 2 ^ 31" "sz \<le> nat LOGSIZE" and wf: "log_wf ls sz m"
  shows "twp (recover_from_log n sw s) (\<lambda>_ t. \<exists>blk. cached p dev m Map.empty Map.empty (recovery_writes ls blk m) t \<and>
    log t = cleared (loaded (m ls) (log s)) \<and> procs t = procs s)"
  unfolding recover_from_log_def twp_simps
proof (rule twp_read_head [OF C sw refl lg(1)])
  fix s1 :: "'z dvst_scheme"
  define lg1 where "lg1 = loaded (m ls) (log s)"
  define k where "k = log_n (m ls)"
  assume C1: "cached p dev m Map.empty Map.empty [] s1" and "log s1 = loaded (apply_writes m [] (unat (lg_start (log s)))) (log s)"
    and p1: "procs s1 = procs s"
  then have l1: "log s1 = lg1" using lg by (simp add: lg1_def)
  have lg1: "lg_dev lg1 = dev" "unat (lg_start lg1) = ls" "nat (lh_n (lg_lh lg1)) = k" "\<And>i. i < k \<Longrightarrow> lh_block (lg_lh lg1) i = log_blk (m ls) i"
    using lg by (simp_all add: lg1_def k_def)
  have K: "k < sz" "k < NBUF" and blk: "\<And>i. i < k \<Longrightarrow> unat (log_blk (m ls) i) \<notin> {ls..<ls + sz} \<and> unat (log_blk (m ls) i) < 2 ^ 31"
    using wf lg(4) by (auto simp: log_wf_def k_def NBUF_def LOGSIZE_def)
  have inst: "map (\<lambda>i. (unat (lh_block (lg_lh lg1) i), m (ls + 1 + i))) [0..<k] = installs ls m"
    using lg1(4) by (simp add: installs_def k_def)
  have "twp (install_trans n sw True s1) (\<lambda>_ t. cached p dev m Map.empty Map.empty
      ([] @ map (\<lambda>i. (unat (lh_block (lg_lh lg1) i), m (ls + 1 + i))) [0..<k]) t \<and> same_rest s1 t)"
    using lg1 lg(3) K blk by (intro twp_install_trans [OF C1 sw l1, of k sz True "\<lambda>i. m (ls + 1 + i)"]) auto
  then have "twp (install_trans n sw True s1) (\<lambda>_ t. cached p dev m Map.empty Map.empty (installs ls m) t \<and> same_rest s1 t)"
    unfolding inst by simp
  then show "twp (install_trans n sw True s1) (\<lambda>_ t. twp (write_head n sw (set_n 0 t))
    (\<lambda>_ t. \<exists>blk. cached p dev m Map.empty Map.empty (recovery_writes ls blk m) t \<and> log t = cleared (loaded (m ls) (log s)) \<and> procs t = procs s))"
  proof (rule twp_mono)
    fix u and s2 :: "'z dvst_scheme"
    assume 2: "cached p dev m Map.empty Map.empty (installs ls m) s2 \<and> same_rest s1 s2"
    then have l2: "log (set_n 0 s2) = cleared lg1" "procs (set_n 0 s2) = procs s"
      using l1 p1 by (simp_all add: log_set_n same_rest_def)
    have "ls \<in> {ls..<ls + sz}" using K by simp
    then have m: "apply_writes m (installs ls m) ls = m ls" using installs_outside [OF wf] by (intro apply_writes_outside) blast
    show "twp (write_head n sw (set_n 0 s2)) (\<lambda>_ t. \<exists>blk. cached p dev m Map.empty Map.empty (recovery_writes ls blk m) t \<and>
        log t = cleared (loaded (m ls) (log s)) \<and> procs t = procs s)"
    proof (rule twp_write_head [OF _ sw l2(1), where pin = Map.empty and k = 0])
      fix t :: "'z dvst_scheme"
      assume "cached p dev m Map.empty Map.empty (installs ls m @ [(unat (lg_start (cleared lg1)),
              head_data 0 (lh_block (lg_lh (cleared lg1))) (apply_writes m (installs ls m) (unat (lg_start (cleared lg1)))))]) t"
            and "same_rest (set_n 0 s2) t"
      then show "\<exists>blk. cached p dev m Map.empty Map.empty (recovery_writes ls blk m) t \<and>
          log t = cleared (loaded (m ls) (log s)) \<and> procs t = procs s"
        using l2 lg1 by (intro exI [of _ "lh_block (lg_lh lg1)"]) (auto simp: recovery_writes_def m same_rest_def lg1_def [symmetric])
    qed (use 2 lg1 lg(3) in \<open>auto simp: NBUF_def\<close>)
  qed
qed (use lg in auto)

end
