(* ===== verification/LogTx.thy ===== *)
theory LogTx
  imports LogCrash BootState
begin

text \<open>
  Transactions of the write-ahead log (\<open>kernel/log.c\<close>): \<open>log_write\<close> records a block once, \<open>end_op\<close> of the last
  operation commits, and whatever write the machine stops after, recovery finds all of the
  transaction or nothing.
\<close>

subsection \<open>log\_write\<close>

lemma entries_add:
  assumes "inj_on blk {..<k}" "bno \<notin> blk ` {..<k}"
  shows "entries (blk(k := bno)) (val(k := d)) (Suc k) = (entries blk val k)(bno \<mapsto> d)" "inj_on (blk(k := bno)) {..<Suc k}"
proof -
  have "map (\<lambda>i. (if i = k then bno else blk i, if i = k then d else val i)) [0..<k] = map (\<lambda>i. (blk i, val i)) [0..<k]"
    by (rule map_cong) auto
  then have "entries (blk(k := bno)) (val(k := d)) (Suc k) = [bno \<mapsto> d] ++ entries blk val k"
    unfolding entries_def by (simp del: map_eq_conv)
  moreover have "bno \<notin> dom (entries blk val k)" using assms(2) by (simp add: dom_entries)
  ultimately show "entries (blk(k := bno)) (val(k := d)) (Suc k) = (entries blk val k)(bno \<mapsto> d)"
    by (auto simp: map_add_def fun_eq_iff domIff split: option.splits)
  show "inj_on (blk(k := bno)) {..<Suc k}" using assms by (auto simp: inj_on_def lessThan_Suc)
qed

lemma entries_set:
  assumes "inj_on blk {..<k}" "i < k"
  shows "entries blk (val(i := d)) k = (entries blk val k)(blk i \<mapsto> d)"
proof
  fix x
  show "entries blk (val(i := d)) k x = ((entries blk val k)(blk i \<mapsto> d)) x"
  proof (cases "x \<in> blk ` {..<k}")
    case True
    then obtain j where j: "j < k" "x = blk j" by auto
    then have "(blk j = blk i) = (j = i)" using assms by (auto dest: inj_onD)
    then show ?thesis using j by (simp add: entries_at [OF assms(1)])
  next
    case False
    then have "x \<notin> dom (entries blk (val(i := d)) k)" "x \<notin> dom (entries blk val k)" "x \<noteq> blk i"
      using assms(2) by (auto simp: dom_entries)
    then show ?thesis by (simp add: domIff)
  qed
qed

lemma hold_log_upd [lock_simps]: "(hold lk s)\<lparr>log := l\<rparr> = hold lk (s\<lparr>log := l\<rparr>)" "touch (s\<lparr>log := l\<rparr>) = (touch s)\<lparr>log := l\<rparr>"
  by (simp_all add: hold_def push_off_def mach_defs Let_def touch_def)

lemma set_log_hold [lock_simps]: "set_n k (hold lk s) = hold lk (set_n k s)" "set_block i v (hold lk s) = hold lk (set_block i v s)"
  by (simp_all add: set_n_def set_block_def lock_simps)

lemma calm_set_log [simp]: "calm p (set_n k s) = calm p s" "calm p (set_block i v s) = calm p s" "calm p (s\<lparr>log := l\<rparr>) = calm p s"
  "calm p (upd_buf b f s) = calm p s"
  by (simp_all add: calm_def set_n_def set_block_def upd_buf_def slots_free_def)

lemma calm_touch: "calm p s \<Longrightarrow> calm p (touch s)"
  by (rule calm_frame(1)) simp_all

lemma calm_lock:
  assumes "calm p s"
  shows "acquire L_log s = Ok () (hold L_log s)" "release L_log (hold L_log s) = Ok () (touch s)"
    "wakeup ch (hold L_log s) = Ok () (hold L_log s)"
    "bpin b (hold L_log s) = Ok () (hold L_log (upd_buf b (\<lambda>q. q\<lparr>b_refcnt := b_refcnt q + 1\<rparr>) s))"
proof -
  have c: "irqs_ok s" "slots_free s" "lk_free (locks s L_log)" "lk_free (locks s L_bcache)" "\<forall>q<NPROC. p_state (procs s q) \<noteq> SLEEPING"
    using assms by (auto simp: calm_def slots_free_irqs)
  then show "acquire L_log s = Ok () (hold L_log s)" "release L_log (hold L_log s) = Ok () (touch s)"
    by (simp_all add: acquire_free release_hold)
  show "wakeup ch (hold L_log s) = Ok () (hold L_log s)" using c by (subst wakeup_nobody) simp_all
  show "bpin b (hold L_log s) = Ok () (hold L_log (upd_buf b (\<lambda>q. q\<lparr>b_refcnt := b_refcnt q + 1\<rparr>) s))"
    using c by (simp add: bpin_def acquire_free lock_simps release_hold)
qed

text \<open>What \<open>log_write\<close> does to the state: the block is in the log already, or it is added and its buffer pinned.\<close>

lemma log_write_eq:
  fixes s :: "'z dvst_scheme"
  assumes c: "calm p s" and lg: "lh_n (lg_lh (log s)) = int k" "int k < LOGSIZE" "int k < lg_size (log s) - 1" "1 \<le> lg_outstanding (log s)"
    and bno: "b_blockno (bufs s b) = bno"
  shows "i < k \<Longrightarrow> inj_on (lh_block (lg_lh (log s))) {..<k} \<Longrightarrow> lh_block (lg_lh (log s)) i = bno \<Longrightarrow>
      log_write b s = Ok () (touch s)"
    "bno \<notin> lh_block (lg_lh (log s)) ` {..<k} \<Longrightarrow>
      log_write b s = Ok () (touch (set_n (int k + 1) (upd_buf b (\<lambda>q. q\<lparr>b_refcnt := b_refcnt q + 1\<rparr>) (set_block k bno s))))"
proof -
  let ?blk = "lh_block (lg_lh (log s))"
  let ?f = "List.find (\<lambda>i. ?blk i = bno) [0..<k]"
  note eq = log_write_def calm_lock Let_def bno lock_simps
  { assume i: "i < k" "inj_on ?blk {..<k}" "?blk i = bno"
    have "?blk j \<noteq> bno" if "j < i" for j using i that by (auto dest!: inj_onD [of _ _ j i])
    then have "?f = Some i" using i by (auto simp: find_Some_iff intro!: exI [of _ i])
    moreover have "set_block i bno s = s" using i(3) by (simp add: set_block_def fun_upd_idem)
    ultimately show "log_write b s = Ok () (touch s)" using i(1) c lg by (simp add: eq) }
  { assume "bno \<notin> ?blk ` {..<k}"
    then have "?f = None" by (auto simp: find_None_iff)
    then show "log_write b s = Ok () (touch (set_n (int k + 1) (upd_buf b (\<lambda>q. q\<lparr>b_refcnt := b_refcnt q + 1\<rparr>) (set_block k bno s))))"
      using c lg by (simp add: eq) }
qed

lemma in_txD:
  assumes "in_tx p dev m k val sz h s"
  shows "lg_dev (log s) = dev" "lh_n (lg_lh (log s)) = int k" "k < sz" "sz \<le> nat LOGSIZE" "unat (lg_start (log s)) + sz < 2 ^ 31"
    "inj_on (lh_block (lg_lh (log s))) {..<k}"
    "\<And>i. i < k \<Longrightarrow> unat (lh_block (lg_lh (log s)) i) \<notin> {unat (lg_start (log s))..<unat (lg_start (log s)) + sz} \<and>
      unat (lh_block (lg_lh (log s)) i) < 2 ^ 31"
    "cached p dev m (entries (lh_block (lg_lh (log s))) val k) h [] s"
  using assms unfolding in_tx_def Let_def by blast+

text \<open>
  C29: \<open>log_write\<close> of a held buffer inside a transaction that has room returns, and from then on the transaction has the
  buffer's contents for that block: a block that was written before keeps its one slot in the log
  (absorption), another one gets the next slot and its buffer is pinned.
\<close>

theorem log_write_records:
  fixes s :: "'z dvst_scheme"
  assumes tx: "in_tx p dev m k val sz h s" and h: "h b = Some (bno, d)" and room: "lg_size (log s) = int sz" "k + 1 < sz" "1 \<le> lg_outstanding (log s)"
    and bno: "unat bno \<notin> {unat (lg_start (log s))..<unat (lg_start (log s)) + sz}" "unat bno < 2 ^ 31"
  shows "\<exists>t val' k'. log_write b s = Ok () t \<and> in_tx p dev m k' val' sz h t \<and>
    entries (lh_block (lg_lh (log t))) val' k' = (entries (lh_block (lg_lh (log s))) val k)(bno \<mapsto> d) \<and>
    k' = (if bno \<in> lh_block (lg_lh (log s)) ` {..<k} then k else k + 1) \<and> lg_outstanding (log t) = lg_outstanding (log s)"
proof -
  note T = in_txD [OF tx]
  let ?blk = "lh_block (lg_lh (log s))"
  have bb: "b_blockno (bufs s b) = bno" using bufs_ok_held [OF cachedD(2) [OF T(8)] h] by (simp add: caches_def)
  have "int k < LOGSIZE" "int k < lg_size (log s) - 1" using T(3,4) room by (simp_all add: LOGSIZE_def)
  note eq = log_write_eq [OF cachedD(1) [OF T(8)] T(2) this room(3) bb]
  show ?thesis
  proof (cases "bno \<in> ?blk ` {..<k}")
    case True
    then obtain i where i: "i < k" "?blk i = bno" by auto
    have pin: "cached p dev m ((entries ?blk val k)(bno \<mapsto> d)) h [] s"
      using True by (intro cached_repin [OF T(8) h]) (simp add: dom_entries)
    moreover have "entries ?blk (val(i := d)) k = (entries ?blk val k)(bno \<mapsto> d)"
      using entries_set [OF T(6) i(1)] i(2) by simp
    ultimately have "in_tx p dev m k (val(i := d)) sz h (touch s)"
      using T unfolding in_tx_def Let_def by simp
    moreover have "log_write b s = Ok () (touch s)" using eq(1) [OF i(1) T(6) i(2)] .
    ultimately show ?thesis using True \<open>entries ?blk (val(i := d)) k = _\<close> by (intro exI [of _ "touch s"] exI [of _ "val(i := d)"] exI [of _ k]) simp
  next
    case False
    let ?t = "set_n (int k + 1) (upd_buf b (\<lambda>q. q\<lparr>b_refcnt := b_refcnt q + 1\<rparr>) (set_block k bno s))"
    have lt: "log ?t = (log s)\<lparr>lg_lh := \<lparr>lh_n = int k + 1, lh_block = ?blk(k := bno)\<rparr>\<rparr>"
      by (simp add: set_n_def set_block_def upd_buf_def)
    have pin: "cached p dev m ((entries ?blk val k)(bno \<mapsto> d)) h [] ?t"
    proof -
      have "cached p dev m (entries ?blk val k) h [] (set_block k bno s)" using T(8) by (simp add: set_block_def)
      from cached_bpin [OF this h] show ?thesis using False by (simp add: dom_entries)
    qed
    have "in_tx p dev m (Suc k) (val(k := d)) sz h (touch ?t)"
      using T room(2) bno pin entries_add(1) [OF T(6) False, of val d] entries_add(2) [OF T(6) False] unfolding in_tx_def Let_def
      by (simp add: lt less_Suc_eq)
    moreover have "log_write b s = Ok () (touch ?t)" using eq(2) [OF False] .
    ultimately show ?thesis using False entries_add(1) [OF T(6) False, of val d]
      by (intro exI [of _ "touch ?t"] exI [of _ "val(k := d)"] exI [of _ "Suc k"]) (simp add: lt)
  qed
qed

subsection \<open>end\_op\<close>

lemma in_tx_log:
  assumes "in_tx p dev m k val sz h s" "lg_dev l = lg_dev (log s)" "lg_start l = lg_start (log s)" "lg_lh l = lg_lh (log s)"
  shows "in_tx p dev m k val sz h (touch (s\<lparr>log := l\<rparr>))"
  using assms unfolding in_tx_def Let_def by simp

lemma twp_end_op:
  fixes s :: "'z dvst_scheme"
  assumes tx: "in_tx p dev m k val sz Map.empty s" and sw: "disk_serves m sw" "0 < n"
    and lg: "lg_outstanding (log s) = 1" "lg_committing (log s) = 0"
  defines "ls \<equiv> unat (lg_start (log s))" and "blk \<equiv> lh_block (lg_lh (log s))"
  shows "twp (end_op n sw s) (\<lambda>_ t. cached p dev m Map.empty Map.empty (if k = 0 then [] else commit_writes ls k blk val (m ls)) t \<and>
    log t = (cleared (log s))\<lparr>lg_outstanding := 0\<rparr>)"
proof -
  note T = in_txD [OF tx]
  note c = cachedD(1) [OF T(8)]
  let ?l = "(log s)\<lparr>lg_outstanding := 0, lg_committing := 1\<rparr>"
  let ?s = "touch (s\<lparr>log := ?l\<rparr>)" and ?ws = "if k = 0 then [] else commit_writes ls k blk val (m ls)"
  let ?Q = "\<lambda>_ t. cached p dev m Map.empty Map.empty ?ws t \<and> log t = (cleared (log s))\<lparr>lg_outstanding := 0\<rparr>"
  have tx1: "in_tx p dev m k val sz Map.empty ?s" using tx by (rule in_tx_log) simp_all
  have "twp (commit n sw ?s) (\<lambda>_ t. cached p dev m Map.empty Map.empty ?ws t \<and> log t = cleared ?l)"
  proof (cases "k = 0")
    case True
    then have "entries (lh_block (lg_lh (log s))) val k = Map.empty" by (simp add: entries_def)
    moreover have "cleared ?l = ?l" using T(2) True by (simp add: cleared_def)
    ultimately show ?thesis using True T(2,8) by (simp add: commit_def)
  next
    case False
    then show ?thesis using twp_commit [OF tx1 sw] by (auto elim!: twp_mono simp: ls_def blk_def)
  qed
  then have "twp (commit n sw ?s) (\<lambda>_ t. twp (acquire L_log t) (\<lambda>_ u. twp (wakeup Ch_log (u\<lparr>log := (log u)\<lparr>lg_committing := 0\<rparr>\<rparr>))
    (\<lambda>_ v. twp (release L_log v) ?Q)))"
  proof (rule twp_mono)
    fix t :: "'z dvst_scheme"
    assume t: "cached p dev m Map.empty Map.empty ?ws t \<and> log t = cleared ?l"
    have "calm p t" using t cachedD(1) by blast
    moreover have "(cleared ?l)\<lparr>lg_committing := 0\<rparr> = (cleared (log s))\<lparr>lg_outstanding := 0\<rparr>"
      using lg(2) by (cases "log s") (simp add: cleared_def)
    ultimately show "twp (acquire L_log t) (\<lambda>_ u. twp (wakeup Ch_log (u\<lparr>log := (log u)\<lparr>lg_committing := 0\<rparr>\<rparr>)) (\<lambda>_ v. twp (release L_log v) ?Q))"
      using t by (simp add: calm_lock lock_simps)
  qed
  then show ?thesis
    using c lg by (simp add: end_op_def Let_def calm_lock lock_simps)
qed

subsection \<open>Properties\<close>

lemma recovery_writes_logical:
  assumes wf: "log_wf ls sz m" and sz: "sz \<le> nat LOGSIZE"
  shows "log_wf ls sz (apply_writes m (take j (recovery_writes ls blk m))) \<and>
    logical ls sz (apply_writes m (take j (recovery_writes ls blk m))) = logical ls sz m"
    "apply_writes m (recovery_writes ls blk m) b = (if b = ls then head_data 0 blk (m ls) else recovered ls m b)"
    "log_n (apply_writes m (recovery_writes ls blk m) ls) = 0"
proof -
  let ?H = "head_data 0 blk (m ls)"
  have H: "length ?H = BSIZE" "log_n ?H = 0"
    using head_data(1,2) [of "m ls" 0 blk] wf by (simp_all add: log_wf_def)
  have sz: "0 < sz" using wf by (simp add: log_wf_def)
  have all: "apply_writes m (recovery_writes ls blk m) = (recovered ls m)(ls := ?H)"
    by (simp add: recovery_writes_def recovered_def)
  then show "apply_writes m (recovery_writes ls blk m) b = (if b = ls then ?H else recovered ls m b)"
    "log_n (apply_writes m (recovery_writes ls blk m) ls) = 0" using H by simp_all
  show "log_wf ls sz (apply_writes m (take j (recovery_writes ls blk m))) \<and>
    logical ls sz (apply_writes m (take j (recovery_writes ls blk m))) = logical ls sz m"
  proof (cases "j \<le> length (installs ls m)")
    case True
    then show ?thesis using logical_installing [OF wf, of j] by (simp add: recovery_writes_def)
  next
    case False
    then have "take j (recovery_writes ls blk m) = recovery_writes ls blk m" by (simp add: recovery_writes_def)
    then show ?thesis using logical_erase [OF wf H(2) sz] H sz by (simp add: all log_wf_def)
  qed
qed

text \<open>
  C8: recovery. On a disk whose log header is one that a commit may have left, \<open>recover_from_log\<close> returns with an
  empty log; every block outside the log area then has its logical contents (the logged
  contents for the blocks of the header). Should the machine stop after any of its writes, the logical
  contents of the disk are still the same, so that the next recovery continues the work.
\<close>

theorem recovery_correct:
  fixes s :: "'z dvst_scheme"
  assumes "cached p dev m Map.empty Map.empty [] s" "disk_serves m sw" "0 < n"
    and "lg_dev (log s) = dev" "unat (lg_start (log s)) = ls" "ls + sz < 2 ^ 31" "sz \<le> nat LOGSIZE" "log_wf ls sz m"
  shows "\<exists>t. recover_from_log n sw s = Ok () t \<and> lh_n (lg_lh (log t)) = 0 \<and> log_n (apply_writes m (dev_writes t) ls) = 0 \<and>
    (\<forall>b. b \<notin> {ls..<ls + sz} \<longrightarrow> apply_writes m (dev_writes t) b = recovered ls m b) \<and>
    (\<forall>j. log_wf ls sz (apply_writes m (take j (dev_writes t))) \<and>
      logical ls sz (apply_writes m (take j (dev_writes t))) = logical ls sz m)"
proof -
  obtain t blk where t: "recover_from_log n sw s = Ok () t" "cached p dev m Map.empty Map.empty (recovery_writes ls blk m) t"
    "log t = cleared (loaded (m ls) (log s))"
    using twp_recover [OF assms(1-3) assms(4-8)] by (auto simp: twp_def)
  have "0 < sz" using assms(8) by (simp add: log_wf_def)
  then show ?thesis
    using recovery_writes_logical [OF assms(8,7), where blk = blk] t cachedD(3) [OF t(2)] by (intro exI [of _ t]) auto
qed

lemma tx_writes:
  fixes s :: "'z dvst_scheme"
  assumes tx: "in_tx p dev m k val sz Map.empty s"
    and ls: "ls = unat (lg_start (log s))" and m: "length (m ls) = BSIZE" "log_n (m ls) = 0"
    and new: "new = apply_writes m (map (\<lambda>i. (unat (lh_block (lg_lh (log s)) i), val i)) [0..<k])"
    and ws: "ws = (if k = 0 then [] else commit_writes ls k (lh_block (lg_lh (log s))) val (m ls))"
  shows "log_wf ls sz (apply_writes m (take j ws)) \<and> logical ls sz (apply_writes m (take j ws)) = logical ls sz (if j \<le> k then m else new)"
    "b \<notin> {ls..<ls + sz} \<Longrightarrow> apply_writes m ws b = new b" "log_n (new ls) = 0"
proof -
  note T = in_txD [OF tx]
  show "log_wf ls sz (apply_writes m (take j ws)) \<and> logical ls sz (apply_writes m (take j ws)) = logical ls sz (if j \<le> k then m else new)"
  proof (cases "k = 0")
    case True
    then show ?thesis using m T(3) by (simp add: new log_wf_def ws)
  next
    case False
    then show ?thesis
      using commit_writes_logical [of m ls, OF m T(3,4), of "lh_block (lg_lh (log s))" j val] T(7) by (simp add: new ls ws)
  qed
  show "apply_writes m ws b = new b" if "b \<notin> {ls..<ls + sz}"
  proof -
    have "b \<noteq> ls" "b \<notin> fst ` set (map (\<lambda>i. (ls + 1 + i, val i)) [0..<k])" using that T(3) by auto
    then show ?thesis
      using apply_writes_agree [of "(apply_writes m (map (\<lambda>i. (ls + 1 + i, val i)) [0..<k]))(ls := H)" b m for H]
      by (simp add: new ws commit_writes_def apply_writes_append apply_writes_outside)
  qed
  have "unat (lh_block (lg_lh (log s)) i) \<noteq> ls" if "i < k" for i using T(7) [OF that] T(3) by (auto simp: ls)
  then have "new ls = m ls" unfolding new by (intro apply_writes_outside) force
  then show "log_n (new ls) = 0" using m by simp
qed

text \<open>
  C6: a transaction is atomic. The \<open>end_op\<close> of its last operation returns with an empty log in memory, having
  installed its blocks. If the machine stops after any number of the disk writes it makes, the disk is one
  that recovery accepts, and its logical contents are the old ones, up to the write of the header, or
  those with all blocks of the transaction, from then on.
\<close>

theorem end_op_atomic:
  fixes s :: "'z dvst_scheme"
  assumes tx: "in_tx p dev m k val sz Map.empty s" and sw: "disk_serves m sw" "0 < n"
    and lg: "lg_outstanding (log s) = 1" "lg_committing (log s) = 0"
    and ls: "ls = unat (lg_start (log s))" and m: "length (m ls) = BSIZE" "log_n (m ls) = 0"
    and new: "new = apply_writes m (map (\<lambda>i. (unat (lh_block (lg_lh (log s)) i), val i)) [0..<k])"
  shows "\<exists>t. end_op n sw s = Ok () t \<and> lg_outstanding (log t) = 0 \<and> lg_committing (log t) = 0 \<and> lh_n (lg_lh (log t)) = 0 \<and>
    (\<forall>b. b \<notin> {ls..<ls + sz} \<longrightarrow> apply_writes m (dev_writes t) b = new b) \<and>
    (\<forall>j. log_wf ls sz (apply_writes m (take j (dev_writes t))) \<and>
      logical ls sz (apply_writes m (take j (dev_writes t))) = logical ls sz (if j \<le> k then m else new))"
proof -
  let ?ws = "if k = 0 then [] else commit_writes ls k (lh_block (lg_lh (log s))) val (m ls)"
  obtain t where t: "end_op n sw s = Ok () t" "cached p dev m Map.empty Map.empty ?ws t" "log t = (cleared (log s))\<lparr>lg_outstanding := 0\<rparr>"
    using twp_end_op [OF tx sw lg, folded ls] by (auto simp: twp_def)
  show ?thesis
    using t tx_writes [OF tx ls m new refl] cachedD(3) [OF t(2)] lg by (intro exI [of _ t]) (simp add: cleared_def)
qed

text \<open>
  Every block of a list is new to the log: all are recorded, up to the capacity.
\<close>

lemma log_writes_fill:
  fixes s :: "'z dvst_scheme"
  assumes c: "calm p s" and lg: "lh_n (lg_lh (log s)) = 0" "1 \<le> lg_outstanding (log s)"
    and bs: "distinct (map (\<lambda>b. b_blockno (bufs s b)) bs)" "int (length bs) \<le> LOGSIZE" "int (length bs) \<le> lg_size (log s) - 1"
  shows "\<exists>t. for_each log_write bs s = Ok () t \<and> calm p t \<and> lh_n (lg_lh (log t)) = int (length bs) \<and> lg_size (log t) = lg_size (log s)"
proof -
  let ?no = "\<lambda>b. b_blockno (bufs s b)"
  let ?I = "\<lambda>xs t. calm p t \<and> lh_n (lg_lh (log t)) = int (length xs) \<and> lg_size (log t) = lg_size (log s) \<and> 1 \<le> lg_outstanding (log t) \<and>
    (\<forall>b. b_blockno (bufs t b) = ?no b) \<and> lh_block (lg_lh (log t)) ` {..<length xs} = ?no ` set xs"
  have "\<exists>t. for_each log_write bs s = Ok () t \<and> ?I bs t"
  proof (rule for_each_inv)
    show "?I [] s" using c lg by simp
    fix xs b ys and t :: "'z dvst_scheme" assume ys: "bs = xs @ b # ys" and t: "?I xs t"
    let ?k = "length xs"
    have new: "?no b \<notin> lh_block (lg_lh (log t)) ` {..<?k}" using t bs(1) by (auto simp: ys)
    have w: "log_write b t = Ok () (touch (set_n (int ?k + 1) (upd_buf b (\<lambda>q. q\<lparr>b_refcnt := b_refcnt q + 1\<rparr>) (set_block ?k (?no b) t))))"
      (is "_ = Ok () ?u")
      using t bs(2,3) new by (intro log_write_eq(2) [where p = p]) (auto simp: ys)
    have "lh_block (lg_lh (log ?u)) ` {..<?k} = lh_block (lg_lh (log t)) ` {..<?k}"
      by (rule image_cong) (simp_all add: set_n_def set_block_def upd_buf_def)
    moreover have "calm p ?u" using t by (simp add: calm_touch)
    moreover have "lh_n (lg_lh (log ?u)) = int (length (xs @ [b]))" "lg_size (log ?u) = lg_size (log s)" "1 \<le> lg_outstanding (log ?u)"
      "\<forall>b. b_blockno (bufs ?u b) = ?no b" "lh_block (lg_lh (log ?u)) ?k = ?no b"
      using t by (simp_all add: set_n_def set_block_def upd_buf_def)
    ultimately have "?I (xs @ [b]) ?u" using t by (simp add: lessThan_Suc)
    with w show "\<exists>u. log_write b t = Ok () u \<and> ?I (xs @ [b]) u" by blast
  qed
  then show ?thesis by blast
qed

text \<open>
  C39: operations that \<open>begin_op\<close> has let in can find the log full. The log has \<open>LOGSIZE\<close> blocks, one of them for the header, but
  \<open>begin_op\<close> admits operations as long as their reservations fit into \<open>LOGSIZE\<close> blocks: on an empty log three operations are admitted
  one after the other, and when they write the \<open>MAXOPBLOCKS\<close> blocks each of them may write, all different, the last
  \<open>log_write\<close> panics, though every one before it succeeds.
\<close>

theorem log_admits_too_much:
  fixes s :: "'z dvst_scheme"
  assumes "calm p s" "lg_committing (log s) = 0" "lg_outstanding (log s) = 0" "lh_n (lg_lh (log s)) = 0" "lg_size (log s) = LOGSIZE"
    and "int (length bs) = 3 * MAXOPBLOCKS" "distinct (map (\<lambda>b. b_blockno (bufs s b)) bs)"
  shows "\<exists>t. for_each (\<lambda>_. begin_op n sw) [0..<3] s = Ok () t \<and> lg_outstanding (log t) = 3 \<and>
    (\<exists>u. for_each log_write (butlast bs) t = Ok () u) \<and> for_each log_write bs t = Panic ''too big a transaction''"
proof -
  let ?I = "\<lambda>xs t. calm p t \<and> lg_committing (log t) = 0 \<and> lg_outstanding (log t) = int (length xs) \<and> lh_n (lg_lh (log t)) = 0 \<and>
    lg_size (log t) = LOGSIZE \<and> bufs t = bufs s"
  have "\<exists>t. for_each (\<lambda>_. begin_op n sw) [0..<3] s = Ok () t \<and> ?I [0..<3] t"
  proof (rule for_each_inv)
    show "?I [] s" using assms by simp
    fix xs :: "nat list" and x ys and t :: "'z dvst_scheme" assume xs: "[0..<3] = xs @ x # ys" and t: "?I xs t"
    have "length xs < 3" using arg_cong [OF xs, of length] by simp
    then have "begin_op n sw t = Ok () (touch (t\<lparr>log := (log t)\<lparr>lg_outstanding := lg_outstanding (log t) + 1\<rparr>\<rparr>))"
      using t by (auto simp: begin_op_def calm_lock lock_simps MAXOPBLOCKS_def LOGSIZE_def)
    then show "\<exists>u. begin_op n sw t = Ok () u \<and> ?I (xs @ [x]) u" using t by (simp add: calm_touch)
  qed
  then obtain t where t: "for_each (\<lambda>_. begin_op n sw) [0..<3] s = Ok () t" "?I [0..<3] t" by blast
  obtain cs b where cs: "bs = cs @ [b]" using assms(6) by (cases bs rule: rev_cases) (auto simp: MAXOPBLOCKS_def)
  have len: "int (length cs) = 29" using assms(6) by (simp add: cs MAXOPBLOCKS_def)
  obtain u where u: "for_each log_write cs t = Ok () u" "calm p u" "lh_n (lg_lh (log u)) = 29" "lg_size (log u) = LOGSIZE"
    using log_writes_fill [of p t cs] t(2) assms(7) len by (auto simp: cs LOGSIZE_def)
  then have "log_write b u = Panic ''too big a transaction''" by (simp add: log_write_def calm_lock Let_def LOGSIZE_def)
  then show ?thesis using t u(1) by (intro exI [of _ t]) (simp add: cs for_each_append)
qed

subsection \<open>Witnesses\<close>

text \<open>A device that serves a request at once, and a machine just after boot.\<close>

definition serve :: "image \<Rightarrow> dvst switch" where
  "serve m s =
     (let d = disk s; i = unat (avail_ring d (unat (avail_idx d - 1) mod NUM)); bno = unat (r_sector (ops d i)) div 2;
          wr = (r_type (ops d i) = VIRTIO_BLK_T_OUT)
      in case (cpu_proc (cpus s (hart s)), info_b d i) of
        (Some p, Some b) \<Rightarrow> Ok () (s\<lparr>disk := d, procs := (procs s)(p := (procs s p)\<lparr>p_state := RUNNING\<rparr>),
            bufs := (bufs s)(b := (bufs s b)\<lparr>b_disk := 0,
              b_data := (if wr then b_data (bufs s b) else apply_writes m (dev_writes s) bno)\<rparr>),
            dev_writes := dev_writes s @ (if wr then [(bno, b_data (bufs s b))] else [])\<rparr>)
      | _ \<Rightarrow> Ok () s)"

lemma disk_serves_serve: "disk_serves m (serve m)"
  unfolding disk_serves_def
proof (intro allI impI)
  fix s :: dvst and p i b bno wr
  assume r: "requested i b bno wr s \<and> cpu_proc (cpus s (hart s)) = Some p \<and> p_state (procs s p) = SLEEPING \<and> p_chan (procs s p) = Ch_buf b"
  then have "unat (avail_ring (disk s) (unat (avail_idx (disk s) - 1) mod NUM)) = i" "info_b (disk s) i = Some b"
    "(r_type (ops (disk s) i) = VIRTIO_BLK_T_OUT) = wr" "unat (r_sector (ops (disk s) i)) div 2 = bno"
    by (auto simp: requested_def Let_def VIRTIO_BLK_T_OUT_def VIRTIO_BLK_T_IN_def split: if_splits)
  then show "\<exists>d. desc d = desc (disk s) \<and> dfree d = dfree (disk s) \<and>
          serve m s = Ok () (s\<lparr>disk := d, procs := (procs s)(p := (procs s p)\<lparr>p_state := RUNNING\<rparr>),
            bufs := (bufs s)(b := (bufs s b)\<lparr>b_disk := 0,
              b_data := (if wr then b_data (bufs s b) else apply_writes m (dev_writes s) bno)\<rparr>),
            dev_writes := dev_writes s @ (if wr then [(bno, b_data (bufs s b))] else [])\<rparr>)"
    using r by (intro exI [of _ "disk s"]) (simp add: serve_def Let_def)
qed

definition boot_dvst :: dvst where
  "boot_dvst = lgst.extend boot_lgst (dvst.fields [])"

lemma boot_dvst_simps [simp]:
  "hart boot_dvst = 0" "locks boot_dvst lk = \<lparr>lk_locked = 0, lk_name = [], lk_cpu = None\<rparr>"
  "procs boot_dvst = (\<lambda>_. blank_proc)" "slots_free boot_dvst"
  "cpus boot_dvst i = \<lparr>cpu_proc = Some 0, noff = 0, intena = False\<rparr>"
  "sleeplocks boot_dvst lk = \<lparr>sl_locked = 0, sl_name = [], sl_pid = 0\<rparr>"
  "bufs boot_dvst = boot_bufs" "disk boot_dvst = blank_disk" "log boot_dvst = blank_log" "dev_writes boot_dvst = []"
  using boot_lgst_simps(4) by (simp_all add: boot_dvst_def lgst.defs dvst.defs slots_free_def)

text \<open>A machine whose process 0 runs, with an empty cache.\<close>

definition fresh_dvst :: dvst where
  "fresh_dvst = boot_dvst\<lparr>procs := (\<lambda>_. blank_proc)(0 := blank_proc\<lparr>p_state := RUNNING\<rparr>)\<rparr>"

lemma fresh_cached: "cached 0 1 m Map.empty Map.empty [] fresh_dvst"
proof (rule cachedI)
  have "slots_free fresh_dvst" using boot_dvst_simps(4) by (simp add: fresh_dvst_def slots_free_def)
  then show "calm 0 fresh_dvst" unfolding calm_def by (simp add: fresh_dvst_def NPROC_def lk_free_def blank_disk_def)
  show "ring (bufs fresh_dvst) (rev [0..<NBUF])" using boot_bufs_ring by (simp add: fresh_dvst_def)
  show "set (rev [0..<NBUF]) = {..<NBUF}" by auto
  have "\<not> caches 1 x (boot_bufs b)" if "b < NBUF" for b x using boot_bufs_simps(1) [OF that] by (simp add: caches_def)
  then show "bufs_ok 1 (apply_writes m []) Map.empty Map.empty (bufs fresh_dvst)"
    using boot_bufs_simps(2) by (simp add: bufs_ok_def fresh_dvst_def)
qed (simp_all add: fresh_dvst_def)

lemma fresh_log: "lg_start (log fresh_dvst) = 2" "lg_dev (log fresh_dvst) = 1"
  by (simp_all add: fresh_dvst_def blank_log_def)

text \<open>
  A machine whose process 0 runs, with a buffer for block 50 that is pinned, locked or both.
\<close>

definition one_buf :: "bool \<Rightarrow> bool \<Rightarrow> uchar list \<Rightarrow> dvst" where
  "one_buf pinned locked d = fresh_dvst\<lparr>
     bufs := boot_bufs(4 := (boot_bufs 4)\<lparr>b_dev := 1, b_blockno := 50, b_valid := 1,
       b_refcnt := of_bool pinned + of_bool locked, b_data := d\<rparr>),
     sleeplocks := (\<lambda>_. \<lparr>sl_locked = 0, sl_name = [], sl_pid = 0\<rparr>)(L_bufsleep 4 := \<lparr>sl_locked = of_bool locked, sl_name = [], sl_pid = 0\<rparr>),
     log := blank_log\<lparr>lg_outstanding := 1, lg_lh := \<lparr>lh_n = of_bool pinned, lh_block = (\<lambda>_. 50)\<rparr>\<rparr>\<rparr>"

lemma one_buf_cached:
  assumes "pinned \<or> locked"
  shows "cached 0 1 m (if pinned then [50 \<mapsto> d] else Map.empty) (if locked then [4 \<mapsto> (50, d)] else Map.empty) [] (one_buf pinned locked d)"
proof (rule cachedI)
  let ?s = "one_buf pinned locked d"
  show "calm 0 ?s" by (rule calm_frame(2) [OF cachedD(1) [OF fresh_cached]]) (simp_all add: one_buf_def)
  have "ring (bufs ?s) (rev [0..<NBUF]) = ring boot_bufs (rev [0..<NBUF])" by (rule ring_cong) (simp_all add: one_buf_def)
  then show "ring (bufs ?s) (rev [0..<NBUF])" using boot_bufs_ring by simp
  show "set (rev [0..<NBUF]) = {..<NBUF}" by auto
  show "dev_writes ?s = []" by (simp add: one_buf_def fresh_dvst_def)
  show "if b \<in> dom (if locked then [4 \<mapsto> (50, d)] else Map.empty)
      then sl_locked (sleeplocks ?s (L_bufsleep b)) \<noteq> 0 \<and> sl_pid (sleeplocks ?s (L_bufsleep b)) = p_pid (procs ?s 0)
      else sl_locked (sleeplocks ?s (L_bufsleep b)) = 0" for b
    by (simp add: one_buf_def fresh_dvst_def)
  have c: "caches 1 x (bufs ?s b) = (b = 4 \<and> x = 50)" if "b < NBUF" for b x
    using boot_bufs_simps(1) [OF that] by (auto simp: one_buf_def caches_def)
  show "bufs_ok 1 (apply_writes m []) (if pinned then [50 \<mapsto> d] else Map.empty) (if locked then [4 \<mapsto> (50, d)] else Map.empty) (bufs ?s)"
    unfolding bufs_ok_def
  proof (intro conjI allI impI ballI)
    show "unat (b_refcnt (bufs ?s b)) = of_bool (\<exists>x\<in>dom (if pinned then [50 \<mapsto> d] else Map.empty). caches 1 x (bufs ?s b)) +
        of_bool (b \<in> dom (if locked then [4 \<mapsto> (50, d)] else Map.empty))" if "b < NBUF" for b
      using boot_bufs_simps(2) [OF that] c [OF that] by (cases pinned; cases locked) (auto simp: one_buf_def)
    show "\<exists>b<NBUF. caches 1 x (bufs ?s b) \<and> b_valid (bufs ?s b) \<noteq> 0" if "x \<in> dom (if pinned then [50 \<mapsto> d] else Map.empty)" for x
      using that by (intro exI [of _ 4]) (auto simp: one_buf_def caches_def NBUF_def split: if_splits)
    show "b_data (bufs ?s b) = content (apply_writes m []) (if pinned then [50 \<mapsto> d] else Map.empty) x"
      if "b < NBUF" "b \<notin> dom (if locked then [4 \<mapsto> (50, d)] else Map.empty)" "caches 1 x (bufs ?s b)" for b x
      using that c assms by (auto simp: one_buf_def content_def split: if_splits)
    show "a = b" if "a < NBUF" "b < NBUF" "caches 1 x (bufs ?s a)" "caches 1 x (bufs ?s b)" for a b x
      using that c by simp
  qed (auto simp: one_buf_def caches_def NBUF_def split: if_splits)
qed

definition zero_image :: image where
  "zero_image = (\<lambda>_. replicate BSIZE 0)"

lemma zero_head: "length (zero_image b) = BSIZE" "log_n (zero_image b) = 0"
  by (simp_all add: zero_image_def log_n_def get32_def BSIZE_def)

lemma one_buf_tx:
  assumes "pinned \<or> locked"
  shows "in_tx 0 1 m (of_bool pinned) (\<lambda>_. d) 30 (if locked then [4 \<mapsto> (50, d)] else Map.empty) (one_buf pinned locked d)"
  using one_buf_cached [OF assms, of m d] unfolding in_tx_def Let_def
  by (cases pinned) (simp_all add: one_buf_def blank_log_def entries_def LOGSIZE_def inj_on_def)

lemma one_buf_log:
  "lg_start (log (one_buf x y d)) = 2" "lg_size (log (one_buf x y d)) = 30" "lg_outstanding (log (one_buf x y d)) = 1"
  "lg_committing (log (one_buf x y d)) = 0" "lg_dev (log (one_buf x y d)) = 1" "lh_block (lg_lh (log (one_buf x y d))) = (\<lambda>_. 50)"
  by (simp_all add: one_buf_def blank_log_def)

theorem log_write_records_witness:
  "\<exists>t val. log_write 4 (one_buf False True [1]) = Ok () t \<and> lh_n (lg_lh (log t)) = 1 \<and> entries (lh_block (lg_lh (log t))) val 1 50 = Some [1]"
proof -
  have "in_tx 0 1 zero_image 0 (\<lambda>_. [1]) 30 [4 \<mapsto> (50, [1])] (one_buf False True [1])"
    using one_buf_tx [of False True zero_image "[1]"] by simp
  from log_write_records [OF this, of 4 50 "[1]"] obtain t val where t: "log_write 4 (one_buf False True [1]) = Ok () t"
    "in_tx 0 1 zero_image 1 val 30 [4 \<mapsto> (50, [1])] t" "entries (lh_block (lg_lh (log t))) val 1 = (entries (\<lambda>_. 50) (\<lambda>_. [1]) 0)(50 \<mapsto> [1])"
    by (auto simp: one_buf_log)
  then show ?thesis using in_txD(2) [OF t(2)] by (intro exI [of _ t] exI [of _ val]) simp
qed

theorem end_op_atomic_witness:
  "\<exists>t. end_op 1 (serve zero_image) (one_buf True False [1]) = Ok () t \<and> apply_writes zero_image (dev_writes t) 50 = [1] \<and>
    logical 2 30 (apply_writes zero_image (take 1 (dev_writes t))) 50 = replicate BSIZE 0 \<and>
    logical 2 30 (apply_writes zero_image (take 2 (dev_writes t))) 50 = [1]"
proof -
  let ?s = "one_buf True False [1]" and ?new = "zero_image(50 := [1])"
  have l: "logical 2 30 zero_image 50 = replicate BSIZE 0" "logical 2 30 ?new 50 = [1]"
    by (simp_all add: logical_empty zero_head) (simp add: zero_image_def)
  have tx: "in_tx 0 1 zero_image 1 (\<lambda>_. [1]) 30 Map.empty ?s" using one_buf_tx [of True False zero_image "[1]"] by simp
  have new: "?new = apply_writes zero_image (map (\<lambda>i. (unat (lh_block (lg_lh (log ?s)) i), [1])) [0..<1])"
    by (simp add: one_buf_log)
  obtain t where t: "end_op 1 (serve zero_image) ?s = Ok () t" "\<forall>b. b \<notin> {2..<2 + 30} \<longrightarrow> apply_writes zero_image (dev_writes t) b = ?new b"
    "\<forall>j. log_wf 2 30 (apply_writes zero_image (take j (dev_writes t))) \<and>
      logical 2 30 (apply_writes zero_image (take j (dev_writes t))) = logical 2 30 (if j \<le> 1 then zero_image else ?new)"
    using end_op_atomic [OF tx disk_serves_serve _ _ _ _ zero_head new, of 1] by (auto simp: one_buf_log)
  then show ?thesis using l t(3) [rule_format, of 1] t(3) [rule_format, of 2] by (intro exI [of _ t]) simp
qed

theorem recovery_correct_witness:
  "\<exists>t. let m = zero_image(2 := head_data 1 (\<lambda>_. 50) (zero_image 2), 3 := [1]) in
     recover_from_log 1 (serve m) fresh_dvst = Ok () t \<and> apply_writes m (dev_writes t) 50 = [1]"
proof -
  let ?h = "head_data 1 (\<lambda>_. 50) (zero_image 2)"
  let ?m = "zero_image(2 := ?h, 3 := [1])" 
  have h: "length ?h = BSIZE" "log_n ?h = 1" "log_blk ?h 0 = 50"
    using head_data [OF zero_head(1), where n = 1 and blk = "\<lambda>_. 50"] by (simp_all add: LOGSIZE_def)
  have "log_wf 2 30 ?m" using h by (simp add: log_wf_def)
  moreover have "recovered 2 ?m 50 = [1]" using h by (simp add: recovered_def installs_def)
  ultimately show ?thesis
    using recovery_correct [OF fresh_cached disk_serves_serve, where n = 1 and m = ?m and ls = 2 and sz = 30]
    by (auto simp: fresh_log Let_def LOGSIZE_def)
qed

text \<open>Thirty buffers with thirty different blocks.\<close>

definition many_bufs :: dvst where
  "many_bufs = fresh_dvst\<lparr>bufs := (\<lambda>b. (boot_bufs b)\<lparr>b_blockno := of_nat b\<rparr>)\<rparr>"

theorem log_admits_too_much_witness:
  "\<exists>t. for_each (\<lambda>_. begin_op 0 (Ok ())) [0..<3] many_bufs = Ok () t \<and>
     for_each log_write [0..<30] t = Panic ''too big a transaction''"
proof -
  have "calm 0 many_bufs" by (rule calm_frame(2) [OF cachedD(1) [OF fresh_cached]]) (simp_all add: many_bufs_def)
  moreover have "distinct (map (\<lambda>b. b_blockno (bufs many_bufs b)) [0..<30])"
    by (auto simp: many_bufs_def distinct_map inj_on_def word_unat_eq_iff unat_of_nat)
  ultimately show ?thesis
    using log_admits_too_much [of 0 many_bufs "[0..<30]" 0 "Ok ()"]
    by (auto simp: many_bufs_def fresh_dvst_def blank_log_def LOGSIZE_def MAXOPBLOCKS_def)
qed

end
