(* ===== verification/Spec2Isabelle.thy ===== *)
theory Spec2Isabelle
  imports VmFork RoundRobin PipeSpec Trap Grep Shell Cafe MkfsImage LogTx
begin

text \<open>
  A model of the xv6 kernel of \<open>initial-xv6/src\<close> (xv6 for RISC-V, with a priority-based scheduler,
  copy-on-write fork and the calls \<open>getreadcount\<close>, \<open>waitx\<close> and \<open>setpriority\<close>), of parts of its user
  programs and tools, and of the cafe simulation \<open>concurrency/1.c\<close>, with the theorems that make
  them correct.

  \<^bold>\<open>How code is modelled.\<close> A kernel function maps a state to a result of type \<open>res\<close> (\<open>Prelude\<close>): \<open>Ok r s\<close> is a
  return with value \<open>r\<close> in state \<open>s\<close>, \<open>Panic\<close> a call of \<open>panic\<close> with its message, \<open>Spin\<close> an \<open>acquire\<close> that finds
  the lock taken, and \<open>Diverge\<close> a loop that used up its bound. \<open>bnd\<close> is sequencing and \<open>for_each\<close> a loop
  over a list of values. Integers have the width of the source: \<open>uint64\<close>, \<open>uint\<close>, \<open>ushort\<close> and \<open>uchar\<close> are
  words; an \<open>int\<close> whose overflow does not matter is an \<open>int\<close>. Physical memory is a function from 64-bit
  addresses to bytes; page tables and the list of free pages live in it. The state is a chain of
  extensible records, one layer per component:
  \<^item> \<open>mach\<close> (harts, locks) in \<open>Spinlock\<close>, \<open>kst\<close> (memory, free list, reference counts) in \<open>Kalloc\<close>, \<open>vst\<close> in \<open>Vm\<close>,
    \<open>pst\<close> (process table) in \<open>Proc\<close>, \<open>slst\<close> (sleep locks), \<open>vdst\<close> (buffers, disk queue), \<open>lgst\<close> (log), \<open>fsst\<close> (inode
    table), \<open>cnst\<close> (serial port, console), \<open>flst\<close> (open files, pipes), \<open>syst\<close> and \<open>trst\<close> (system calls, traps).
    An operation of a layer works on every extension of its record, so higher layers call it unchanged.
  \<^item> \<open>swtch\<close> is assembler: what runs until a process is resumed is the parameter \<open>sw\<close> of every
    operation that may sleep. Devices and their registers are parameters or parts of \<open>sw\<close> in the same way.

  \<^bold>\<open>The kernel.\<close> Theories with the definitions, in the order of the code:
  \<^item> \<open>Spinlock\<close>: \<open>spinlock.c\<close>. Besides the atomic operations, \<open>lock_instr\<close> has \<open>acquire\<close> and \<open>release\<close> as the
    memory accesses of any number of harts; mutual exclusion is proved of every interleaving.
  \<^item> \<open>KString\<close>: \<open>string.c\<close>. \<open>Kalloc\<close>: \<open>kalloc.c\<close>; the free list represents a list of pages (\<open>pool\<close>), the locale
    \<open>page_allocator\<close> is what the other components rely on.
  \<^item> \<open>Vm\<close>: \<open>vm.c\<close> and the copy-on-write functions. \<open>PageTable\<close> abstracts a three-level table to the entry of every
    virtual page; \<open>VmMap\<close> has the mapping operations, \<open>VmCow\<close> and \<open>VmFork\<close> copy-on-write: sharing an address space,
    and a private copy at the first store. \<open>VmFrame\<close> shows what memory management leaves alone.
  \<^item> \<open>Proc\<close>, \<open>ProcFork\<close>: \<open>proc.c\<close>. \<open>ProcSched\<close>: which process the priority-based scheduler picks, where it differs from the
    documents (it compares static priorities, and rounds the recent-behaviour index early), and the bounds of the
    priorities. \<open>ProcSleep\<close>: the exact effect of \<open>wakeup\<close>, \<open>kill\<close>, \<open>wait\<close> and the time accounting. \<open>SleepWakeup\<close>:
    the interleaved accesses of a sleeper and a waker; no wakeup is lost. \<open>RoundRobin\<close>: one pass of the round-robin scheduler
    runs every process that is ready.
  \<^item> \<open>Sleeplock\<close>, \<open>Virtio_disk\<close>, \<open>Bio\<close>, \<open>Log\<close>: \<open>sleeplock.c\<close>, \<open>virtio_disk.c\<close>, \<open>bio.c\<close>, \<open>log.c\<close>. \<open>KernelFrame\<close> has the
    frame rules of the layers below a predicate of the state (locales \<open>upper_pred\<close>, \<open>above_sleeplocks\<close>,
    \<open>above_driver\<close>), \<open>SleeplockSpec\<close> the sleep-lock operations, \<open>BioList\<close> the buffer cache: the linked list
    represents the buffers in the order of their last use, and every operation keeps it.
  \<^item> \<open>DiskService\<close>, \<open>CacheService\<close>: the driver and the buffer cache for a process that is alone with a disk that serves
    its requests (\<open>disk_serves\<close>, the hypothesis about the device). \<open>twp\<close> is total correctness; \<open>cached\<close> describes the cache by
    the disk, the pinned blocks and the held buffers, with one rule per operation. \<open>LogImage\<close> has the meaning of a
    disk image with a log, \<open>LogCrash\<close> the phases of a commit and of recovery with the disk writes they make,
    \<open>LogTx\<close> transactions: absorption, atomicity at every crash point, recovery. The crash theorem that spans commit, crash
    and reboot is below.
  \<^item> \<open>Fs\<close>, \<open>FsDir\<close>: \<open>fs.c\<close>. \<open>DiskLayout\<close>: reading back what is stored in a block.
  \<^item> \<open>Console\<close>: \<open>uart.c\<close>, \<open>console.c\<close>, \<open>printf.c\<close>. \<open>File\<close>: \<open>file.c\<close>, \<open>pipe.c\<close>. \<open>RingBuffer\<close> is the locale of the
    circular buffers, interpreted for pipes, the serial port and the console; \<open>PipeSpec\<close> shows that pipes are
    bounded queues of bytes.
  \<^item> \<open>Exec\<close>: \<open>exec.c\<close>. \<open>Syscall\<close>, \<open>Sysfile\<close>, \<open>Trap\<close>: \<open>syscall.c\<close>, \<open>sysproc.c\<close>, \<open>sysfile.c\<close>, \<open>trap.c\<close>, \<open>main.c\<close>.
    \<open>BootState\<close> has the concrete states on which properties are applied.

  \<^bold>\<open>User programs and tools.\<close>
  \<^item> \<open>Ulib\<close>: \<open>user/ulib.c\<close>, \<open>user/printf.c\<close>. \<open>Grep\<close>: \<open>user/grep.c\<close>; the matcher decides the meaning of the patterns
    and \<open>grep\<close> prints the matching lines however the input is cut into reads.
  \<^item> \<open>Shell\<close>: \<open>user/sh.c\<close>; the parser ends on every line and records its words, and no command is started with more
    than the descriptors it should have.
  \<^item> \<open>Mkfs\<close>, \<open>MkfsImage\<close>: \<open>mkfs/mkfs.c\<close> and the image it writes: superblock, root directory, files and bitmap.
  \<^item> \<open>Cafe\<close>: \<open>concurrency/1.c\<close>, any number of customer threads in any interleaving.

  \<^bold>\<open>Bounds.\<close> A loop that need not end has a bound: the argument \<open>n\<close> of the operations that sleep is the
  number of times they may be woken in vain, and a theorem that such an operation returns gives the bound that is
  enough. The bounds inside the model (\<open>free_chain\<close>, the scans of the buffer list, the shell's parser, the
  interrupt handler of the disk) are one more than the number of elements, and the theorems show that they are
  not reached, or the text beside the definition says why.

  \<^bold>\<open>Not modelled.\<close> The assembler files (\<open>entry.S\<close>, \<open>kernelvec.S\<close>, \<open>swtch.S\<close>, \<open>trampoline.S\<close>, \<open>initcode.S\<close>): saving and
  restoring registers has no counterpart in the model. \<open>start.c\<close>, \<open>plicinit\<close>, \<open>plicinithart\<close>, \<open>uartinit\<close> and the timer set-up only
  write device and control registers. \<open>ramdisk.c\<close> is not compiled in. The test programs of \<open>user/\<close> (\<open>usertests\<close>, \<open>grind\<close>,
  \<open>cowtest\<close>, \<open>alarmtest\<close>, \<open>forktest\<close>, \<open>stressfs\<close>, \<open>schedulertest\<close>, \<open>test_1\<close>, \<open>test_2\<close>) are inputs to the kernel, not parts of
  it. The translation look-aside buffer and the memory model of the harts are not represented: memory is
  sequentially consistent. \<open>concurrency/2.c\<close> is empty.
\<close>

section \<open>Properties across components\<close>

text \<open>
  C4: a crash at any point of a commit. A process runs a transaction on a disk with an empty log, and the machine
  stops after \<open>j\<close> of the disk writes of \<open>end_op\<close>. When it boots again, from an empty buffer cache, and
  recovers the log, recovery returns, and every block outside the log area has its old contents, or every
  block has its new contents; which of the two depends only on whether the header of the log had been written.
\<close>

theorem crash_recovery:
  fixes s :: "'z dvst_scheme" and s' :: "'y dvst_scheme"
  assumes tx: "in_tx p dev m k val sz Map.empty s" and sw: "disk_serves m sw" "0 < n"
    and lg: "lg_outstanding (lgst.log s) = 1" "lg_committing (lgst.log s) = 0"
    and ls: "ls = unat (lg_start (lgst.log s))" and m: "length (m ls) = BSIZE" "log_n (m ls) = 0"
    and new: "new = apply_writes m (map (\<lambda>i. (unat (lh_block (lg_lh (lgst.log s)) i), val i)) [0..<k])"
    and crash: "end_op n sw s = Ok () t" "c = apply_writes m (take j (dev_writes t))"
    and boot: "cached p' dev c Map.empty Map.empty [] s'" "disk_serves c sw'" "0 < n'" "lg_dev (lgst.log s') = dev" "lg_start (lgst.log s') = lg_start (lgst.log s)"
  shows "\<exists>u. recover_from_log n' sw' s' = Ok () u \<and>
    (\<forall>b. b \<notin> {ls..<ls + sz} \<longrightarrow> apply_writes c (dev_writes u) b = (if j \<le> k then m b else new b))"
proof -
  let ?ws = "if k = 0 then [] else commit_writes ls k (lh_block (lg_lh (lgst.log s))) val (m ls)"
  have "dev_writes t = ?ws"
    using twp_end_op [OF tx sw lg, folded ls] crash(1) cachedD(3) by (fastforce simp: twp_def)
  then have c: "log_wf ls sz c" "logical ls sz c = logical ls sz (if j \<le> k then m else new)"
    using tx_writes(1) [OF tx ls m new refl, of j] by (simp_all add: crash(2))
  have old: "logical ls sz (if j \<le> k then m else new) b = (if j \<le> k then m b else new b)" if "b \<notin> {ls..<ls + sz}" for b
    using that m(2) tx_writes(3) [OF tx ls m new refl] by (cases "j \<le> k") (auto simp: logical_empty)
  note T = in_txD [OF tx]
  obtain u blk where u: "recover_from_log n' sw' s' = Ok () u" "cached p' dev c Map.empty Map.empty (recovery_writes ls blk c) u"
    using twp_recover [OF boot(1-4) _ _ T(4) c(1)] boot(5) T(5) by (auto simp: twp_def ls)
  have "apply_writes c (dev_writes u) b = (if j \<le> k then m b else new b)" if b: "b \<notin> {ls..<ls + sz}" for b
  proof -
    have "b \<noteq> ls" using b T(3) by auto
    then have "apply_writes c (dev_writes u) b = logical ls sz c b"
      using recovery_writes_logical(2) [OF c(1) T(4), of blk b] cachedD(3) [OF u(2)] b by (auto simp: logical_def)
    then show ?thesis using c(2) old [OF b] by simp
  qed
  then show ?thesis using u(1) by blast
qed

theorem crash_recovery_witness:
  "\<exists>t u. end_op 1 (serve zero_image) (one_buf True False [1]) = Ok () t \<and>
    (let c = apply_writes zero_image (take 2 (dev_writes t)) in
     recover_from_log 1 (serve c) fresh_dvst = Ok () u \<and> apply_writes c (dev_writes u) 50 = [1])"
proof -
  let ?s = "one_buf True False [1]"
  have tx: "in_tx 0 1 zero_image 1 (\<lambda>_. [1]) 30 Map.empty ?s" using one_buf_tx [of True False zero_image "[1]"] by simp
  have lg: "lg_outstanding (lgst.log ?s) = 1" "lg_committing (lgst.log ?s) = 0" "2 = unat (lg_start (lgst.log ?s))"
    "zero_image(50 := [1]) = apply_writes zero_image (map (\<lambda>i. (unat (lh_block (lg_lh (lgst.log ?s)) i), [1])) [0..<1])"
    by (simp_all add: one_buf_log)
  obtain t where t: "end_op 1 (serve zero_image) ?s = Ok () t"
    using twp_end_op [OF tx disk_serves_serve _ lg(1,2), of 1] by (auto simp: twp_def)
  let ?c = "apply_writes zero_image (take 2 (dev_writes t))"
  from crash_recovery [OF tx disk_serves_serve _ lg(1-3) zero_head lg(4) t refl fresh_cached disk_serves_serve, where j = 2 and n' = 1]
  obtain u where "recover_from_log 1 (serve ?c) fresh_dvst = Ok () u" "apply_writes ?c (dev_writes u) 50 = [1]"
    by (auto simp: fresh_log one_buf_log)
  then show ?thesis using t by (auto simp: Let_def)
qed

end
